(* ===== verification/SAACP_Prelude.thy ===== *)
theory SAACP_Prelude
  imports Complex_Main "HOL-Library.Word" "HOL-Library.AList"
begin

text \<open>
  Shared vocabulary of the development.

  \<^item> Machine integers: \<open>u8\<close>, \<open>u16\<close>, \<open>u32\<close>, \<open>u64\<close> and the 64-bit \<open>usize\<close> are words;
    Rust's \<open>saturating_add\<close>, \<open>saturating_sub\<close> and \<open>checked_add\<close> are written out, with
    their meaning on natural numbers in the collection \<open>sat_nat\<close>.
  \<^item> Times: an \<open>f64\<close> number of seconds, an \<open>Instant\<close> and a \<open>Duration\<close> are exact rationals
    (\<open>secs\<close>); the rounding of \<open>f64\<close> subtraction is not modelled. Every clock read of
    the code is an explicit argument \<open>now\<close>.
  \<^item> \<open>HashMap\<close>s are association lists (\<open>hmap\<close>) with distinct keys: \<open>map_of\<close> is
    \<open>get\<close>, \<open>AList.update\<close> is \<open>insert\<close>, \<open>AList.delete\<close> is \<open>remove\<close>, \<open>length\<close> is \<open>len\<close>,
    \<open>filter\<close> is \<open>retain\<close>. The order of a \<open>HashMap\<close> iteration is the order of the list.
  \<^item> Big-endian integers on the wire (\<open>to_be_bytes\<close>, \<open>from_be_bytes\<close>) and slices.
\<close>

unbundle bit_operations_syntax

named_theorems sat_nat \<open>saturating and checked word operations read as natural numbers\<close>

named_theorems wire \<open>lengths, offsets and round trips of wire fields\<close>

type_synonym u8 = "8 word"
type_synonym u16 = "16 word"
type_synonym u32 = "32 word"
type_synonym u64 = "64 word"
type_synonym usize = "64 word"
type_synonym bytes = "u8 list"
type_synonym secs = rat
type_synonym ('k, 'v) hmap = "('k \<times> 'v) list"

section \<open>Definitions\<close>

definition saturating_add :: "'a::len word \<Rightarrow> 'a word \<Rightarrow> 'a word" where
  "saturating_add a b = (if uint a + uint b < 2 ^ LENGTH('a) then a + b else - 1)"

definition saturating_sub :: "'a::len word \<Rightarrow> 'a word \<Rightarrow> 'a word" where
  "saturating_sub a b = (if b \<le> a then a - b else 0)"

definition checked_add :: "'a::len word \<Rightarrow> 'a word \<Rightarrow> 'a word option" where
  "checked_add a b = (if uint a + uint b < 2 ^ LENGTH('a) then Some (a + b) else None)"

definition slice :: "nat \<Rightarrow> nat \<Rightarrow> 'a list \<Rightarrow> 'a list" where
  "slice i j xs = take (j - i) (drop i xs)"

definition be_val :: "bytes \<Rightarrow> nat" where
  "be_val bs = foldl (\<lambda>acc b. acc * 256 + unat b) 0 bs"

definition from_be_bytes :: "bytes \<Rightarrow> 'a::len word" where
  "from_be_bytes bs = word_of_nat (be_val bs)"

definition to_be_bytes :: "nat \<Rightarrow> 'a::len word \<Rightarrow> bytes" where
  "to_be_bytes n w = map (\<lambda>i. word_of_nat (unat w div 256 ^ i)) (rev [0..<n])"

text \<open>The bytes of an ASCII string literal, and lower-case hexadecimal (\<open>hex::encode\<close>).\<close>

definition str_bytes :: "string \<Rightarrow> bytes" where
  "str_bytes s = map of_char s"

definition hex_digit :: "nat \<Rightarrow> char" where
  "hex_digit n = ''0123456789abcdef'' ! n"

definition hex_encode :: "bytes \<Rightarrow> string" where
  "hex_encode bs = concat (map (\<lambda>b. [hex_digit (unat b div 16), hex_digit (unat b mod 16)]) bs)"

definition xor_bytes :: "bytes \<Rightarrow> bytes \<Rightarrow> bytes" where
  "xor_bytes xs ys = map2 (\<lambda>x y. x XOR y) xs ys"

definition keys :: "('k, 'v) hmap \<Rightarrow> 'k set" where
  "keys m = fst ` set m"

definition hm_wf :: "('k, 'v) hmap \<Rightarrow> bool" where
  "hm_wf m \<longleftrightarrow> distinct (map fst m)"

abbreviation contains_key :: "('k, 'v) hmap \<Rightarrow> 'k \<Rightarrow> bool" where
  "contains_key m k \<equiv> map_of m k \<noteq> None"

definition retain :: "('k \<Rightarrow> 'v \<Rightarrow> bool) \<Rightarrow> ('k, 'v) hmap \<Rightarrow> ('k, 'v) hmap" where
  "retain P m = filter (\<lambda>kv. P (fst kv) (snd kv)) m"

text \<open>Removing a list of keys one by one (a loop of \<open>remove\<close> calls).\<close>

definition remove_keys :: "'k list \<Rightarrow> ('k, 'v) hmap \<Rightarrow> ('k, 'v) hmap" where
  "remove_keys ks m = fold AList.delete ks m"

text \<open>Feeding a list of requests to a step that admits or rejects each; the admitted ones in order.\<close>

fun run_guard :: "('s \<Rightarrow> 'x \<Rightarrow> 's \<times> bool) \<Rightarrow> 's \<Rightarrow> 'x list \<Rightarrow> 's \<times> 'x list" where
  "run_guard step s [] = (s, [])"
| "run_guard step s (x # xs) =
     (let (s1, ok) = step s x; (s2, out) = run_guard step s1 xs
      in (s2, if ok then x # out else out))"

section \<open>Saturating and checked arithmetic\<close>

lemma unat_less_exp: "unat w < 2 ^ LENGTH('a)" for w :: "'a::len word"
  by (rule unsigned_less)

lemma uint_add_less_exp:
  "uint a + uint b < 2 ^ LENGTH('a) \<longleftrightarrow> unat a + unat b < 2 ^ LENGTH('a)" for a b :: "'a::len word"
proof -
  have "int (unat a + unat b) < int (2 ^ LENGTH('a)) \<longleftrightarrow> unat a + unat b < 2 ^ LENGTH('a)"
    by (rule of_nat_less_iff)
  then show ?thesis by simp
qed

lemma unat_saturating_add [sat_nat]:
  "unat (saturating_add a b) = min (unat a + unat b) (2 ^ LENGTH('a) - 1)"
  for a b :: "'a::len word"
proof (cases "unat a + unat b < 2 ^ LENGTH('a)")
  case True
  then show ?thesis by (simp add: saturating_add_def uint_add_less_exp unat_add_lem [THEN iffD1] min_def) arith
next
  case False
  then have "min (unat a + unat b) (2 ^ LENGTH('a) - 1) = 2 ^ LENGTH('a) - 1" by simp
  with False show ?thesis
    by (simp add: saturating_add_def uint_add_less_exp unsigned_minus_1_eq_mask mask_eq_exp_minus_1)
qed

lemma unat_saturating_sub [sat_nat]: "unat (saturating_sub a b) = unat a - unat b"
  by (simp add: saturating_sub_def unat_sub word_le_nat_alt)

lemma checked_add_SomeD: "checked_add a b = Some c \<Longrightarrow> unat c = unat a + unat b"
  by (auto simp: checked_add_def uint_add_less_exp unat_add_lem [THEN iffD1] split: if_splits)

lemma checked_add_None_iff: "checked_add a b = None \<longleftrightarrow> 2 ^ LENGTH('a) \<le> unat a + unat b"
  for a b :: "'a::len word"
  by (auto simp: checked_add_def uint_add_less_exp)

section \<open>Slices and big-endian fields\<close>

lemma length_slice [simp, wire]: "length (slice i j xs) = min (j - i) (length xs - i)"
  by (simp add: slice_def)

lemma slice_append_skip [wire]: "length xs \<le> i \<Longrightarrow> slice i j (xs @ ys) = slice (i - length xs) (j - length xs) ys"
  by (simp add: slice_def)

lemma slice_append_take [wire]: "j \<le> length xs \<Longrightarrow> slice i j (xs @ ys) = slice i j xs"
  by (auto simp: slice_def)

lemma slice_Cons [wire]: "0 < i \<Longrightarrow> slice i j (x # xs) = slice (i - 1) (j - 1) xs"
  by (cases i; cases j) (simp_all add: slice_def)

lemma slice_all [wire]: "length xs \<le> j \<Longrightarrow> slice 0 j xs = xs"
  by (simp add: slice_def)

lemma be_val_Nil [simp]: "be_val [] = 0"
  by (simp add: be_val_def)

lemma be_val_snoc: "be_val (bs @ [b]) = be_val bs * 256 + unat b"
  by (simp add: be_val_def)

lemma be_val_bound: "be_val bs < 256 ^ length bs"
proof (induction bs rule: rev_induct)
  case Nil
  then show ?case by simp
next
  case (snoc b bs)
  have "unat b < 256" using unsigned_less [of b] by simp
  moreover have "be_val bs + 1 \<le> 256 ^ length bs" using snoc.IH by simp
  then have "(be_val bs + 1) * 256 \<le> 256 ^ length bs * 256" by (rule mult_le_mono1)
  ultimately show ?case by (simp add: be_val_snoc algebra_simps)
qed

lemma length_to_be_bytes [simp, wire]: "length (to_be_bytes n w) = n"
  by (simp add: to_be_bytes_def)

lemma to_be_bytes_Suc:
  "to_be_bytes (Suc n) w = to_be_bytes n (word_of_nat (unat w div 256) :: 'a word) @ [word_of_nat (unat w)]"
  for w :: "'a::len word"
proof -
  have lt: "unat w div 256 < 2 ^ LENGTH('a)"
    by (meson div_le_dividend le_less_trans unsigned_less)
  have "rev [0..<Suc n] = map Suc (rev [0..<n]) @ [0]"
    by (simp add: map_Suc_upt rev_map [symmetric] upt_conv_Cons del: upt_Suc)
  then show ?thesis
    using lt by (simp add: to_be_bytes_def unat_of_nat div_mult2_eq del: upt_Suc)
qed

lemma be_val_to_be_bytes: "be_val (to_be_bytes n w) = unat w mod 256 ^ n"
  for w :: "'a::len word"
proof (induction n arbitrary: w)
  case 0
  then show ?case by (simp add: to_be_bytes_def)
next
  case (Suc n)
  have lt: "unat w div 256 < 2 ^ LENGTH('a)"
    by (meson div_le_dividend le_less_trans unsigned_less)
  have "be_val (to_be_bytes (Suc n) w) = (unat w div 256 mod 256 ^ n) * 256 + unat w mod 256"
    using lt by (simp add: to_be_bytes_Suc be_val_snoc Suc.IH unat_of_nat unsigned_ucast_eq take_bit_eq_mod)
  then show ?case by (simp add: mod_mult2_eq)
qed

lemma from_to_be_bytes [simp, wire]:
  "LENGTH('a) = 8 * n \<Longrightarrow> from_be_bytes (to_be_bytes n w) = w" for w :: "'a::len word"
proof -
  assume "LENGTH('a) = 8 * n"
  then have "unat w mod 256 ^ n = unat w"
    using unat_less_exp [of w] by (simp add: power_mult)
  then show ?thesis by (simp add: from_be_bytes_def be_val_to_be_bytes)
qed

lemma to_be_bytes_be_val:
  "length bs = n \<Longrightarrow> be_val bs < 2 ^ LENGTH('a) \<Longrightarrow> to_be_bytes n (word_of_nat (be_val bs) :: 'a::len word) = bs"
proof (induction bs arbitrary: n rule: rev_induct)
  case Nil
  then show ?case by (simp add: to_be_bytes_def)
next
  case (snoc b bs)
  then obtain m where n: "n = Suc m" and len: "length bs = m" by auto
  have b: "unat b < 256" using unsigned_less [of b] by simp
  have "be_val bs < 2 ^ LENGTH('a)" using snoc.prems(2) by (simp add: be_val_snoc)
  with snoc.IH [OF len] have "to_be_bytes m (word_of_nat (be_val bs) :: 'a word) = bs" by simp
  moreover have "(be_val bs * 256 + unat b) div 256 = be_val bs"
    "(word_of_nat (be_val bs * 256 + unat b) :: u8) = b"
    using b by (simp_all add: word_unat_eq_iff unat_of_nat del: of_nat_add of_nat_mult)
  ultimately show ?case
    using snoc.prems(2) by (simp add: n to_be_bytes_Suc be_val_snoc unat_of_nat del: of_nat_add of_nat_mult)
qed

lemma to_from_be_bytes [wire]:
  "length bs = n \<Longrightarrow> LENGTH('a) = 8 * n \<Longrightarrow> to_be_bytes n (from_be_bytes bs :: 'a::len word) = bs"
  using be_val_bound [of bs] by (simp add: from_be_bytes_def to_be_bytes_be_val power_mult)

section \<open>XOR of byte strings\<close>

lemma length_xor_bytes [simp]: "length (xor_bytes xs ys) = min (length xs) (length ys)"
  by (simp add: xor_bytes_def)

lemma to_be_bytes_inject: "to_be_bytes n v = to_be_bytes n w \<longleftrightarrow> v = w"
  if "LENGTH('a) = 8 * n" for v w :: "'a::len word"
  using that by (metis from_to_be_bytes)

lemma to_be_bytes_code [code]:
  "to_be_bytes n w = map (\<lambda>i. word_of_int (uint w div 256 ^ i)) (rev [0..<n])"
proof -
  have "(word_of_nat (unat w div 256 ^ i) :: u8) = word_of_int (uint w div 256 ^ i)" for i
  proof -
    have "(word_of_nat (unat w div 256 ^ i) :: u8) = word_of_int (int (unat w div 256 ^ i))" by simp
    also have "int (unat w div 256 ^ i) = uint w div 256 ^ i" by (simp only: zdiv_int of_nat_power of_nat_numeral of_nat_unat)  
    finally show ?thesis .
  qed
  then show ?thesis by (simp add: to_be_bytes_def)
qed

lemma from_be_bytes_code [code]:
  "from_be_bytes bs = foldl (\<lambda>acc b. acc * 256 + ucast b) 0 bs"
proof -
  have "(word_of_nat (foldl (\<lambda>acc b. acc * 256 + unat b) a bs) :: 'a::len word)
      = foldl (\<lambda>acc b. acc * 256 + ucast b) (word_of_nat a) bs" for a
    by (induction bs arbitrary: a) (simp_all add: unsigned_ucast_eq)
  from this [of 0] show ?thesis by (simp add: from_be_bytes_def be_val_def)
qed
lemma xor_bytes_involution:
  "length xs \<le> length ys \<Longrightarrow> xor_bytes (xor_bytes xs ys) ys = xs"
  by (auto simp: xor_bytes_def list_eq_iff_nth_eq xor.assoc)

section \<open>Association lists as hash maps\<close>

lemma map_of_update [simp]: "map_of (AList.update k v m) = (map_of m)(k \<mapsto> v)"
  by (rule AList.update_conv')

lemma map_of_delete_upd [simp]: "map_of (AList.delete k m) = (map_of m)(k := None)"
  by (rule AList.delete_conv')

lemma keys_simps [simp]:
  "keys [] = {}"
  "keys (AList.update k v m) = insert k (keys m)"
  "keys (AList.delete k m) = keys m - {k}"
  by (auto simp: keys_def AList.dom_update AList.delete_eq)

lemma keys_dom: "keys m = dom (map_of m)"
  by (simp add: keys_def dom_map_of_conv_image_fst)

lemma hm_wf_simps [simp]:
  "hm_wf []"
  "hm_wf m \<Longrightarrow> hm_wf (AList.update k v m)"
  "hm_wf m \<Longrightarrow> hm_wf (AList.delete k m)"
  "hm_wf m \<Longrightarrow> hm_wf (retain P m)"
  by (auto simp: hm_wf_def AList.distinct_update AList.distinct_delete retain_def distinct_map_filter)

lemma length_eq_card_keys: "hm_wf m \<Longrightarrow> length m = card (keys m)"
  by (metis distinct_card hm_wf_def keys_def length_map set_map)

lemma finite_keys [simp]: "finite (keys m)"
  by (simp add: keys_def)

lemma length_update:
  "hm_wf m \<Longrightarrow> length (AList.update k v m) = (if k \<in> keys m then length m else Suc (length m))"
  by (simp add: length_eq_card_keys card_insert_if insert_absorb)

lemma length_delete:
  "hm_wf m \<Longrightarrow> length (AList.delete k m) = (if k \<in> keys m then length m - 1 else length m)"
  by (simp add: length_eq_card_keys)

lemma length_retain_le [simp]: "length (retain P m) \<le> length m"
  by (simp add: retain_def)

lemma map_of_retain:
  "hm_wf m \<Longrightarrow> map_of (retain P m) k = (case map_of m k of None \<Rightarrow> None | Some v \<Rightarrow> if P k v then Some v else None)"
proof (induction m)
  case Nil
  then show ?case by (simp add: retain_def)
next
  case (Cons a m)
  have "fst a \<notin> keys m" using Cons.prems by (auto simp: hm_wf_def keys_def)
  then have "map_of m (fst a) = None" by (simp add: keys_dom domIff)
  with Cons show ?case
    by (auto simp: retain_def hm_wf_def split: option.splits)
qed

lemma keys_retain_subset: "keys (retain P m) \<subseteq> keys m"
  by (auto simp: keys_def retain_def)

lemma filtered_keys:
  "hm_wf m \<Longrightarrow> k \<in> set (map fst (filter (\<lambda>(_, v). P v) m)) \<longleftrightarrow> (\<exists>v. map_of m k = Some v \<and> P v)"
  by (force simp: hm_wf_def)

lemma remove_keys_simps [simp]:
  "map_of (remove_keys ks m) = (\<lambda>k. if k \<in> set ks then None else map_of m k)"
  "keys (remove_keys ks m) = keys m - set ks"
  "hm_wf m \<Longrightarrow> hm_wf (remove_keys ks m)"
  by (induction ks arbitrary: m) (auto simp: remove_keys_def fun_eq_iff)

lemma set_remove_keys: "set (remove_keys ks m) \<subseteq> set m"
proof (induction ks arbitrary: m)
  case (Cons k ks)
  have "set (AList.delete k m) \<subseteq> set m" by (auto simp: AList.delete_eq)
  with Cons [of "AList.delete k m"] show ?case by (auto simp: remove_keys_def)
qed (simp add: remove_keys_def)

lemma length_remove_keys:
  assumes "hm_wf m" "distinct ks" "set ks \<subseteq> keys m"
  shows "length (remove_keys ks m) = length m - length ks"
  using assms by (simp add: length_eq_card_keys card_Diff_subset distinct_card)

lemma length_remove_keys_le: "hm_wf m \<Longrightarrow> length (remove_keys ks m) \<le> length m"
  by (simp add: length_eq_card_keys card_mono)

section \<open>Signed reading of a word, and residues\<close>

lemma uint_less_pow2: "uint w < 2 ^ n \<longleftrightarrow> unat w < 2 ^ n"
proof -
  have "int (unat w) < int (2 ^ n) \<longleftrightarrow> unat w < 2 ^ n" by (rule of_nat_less_iff)
  then show ?thesis by simp
qed

lemma sint_nonneg_iff: "0 \<le> sint w \<longleftrightarrow> unat w < 2 ^ (LENGTH('a) - 1)" for w :: "'a::len word"
proof
  assume "0 \<le> sint w"
  moreover have lt: "sint w < 2 ^ (LENGTH('a) - 1)" by (rule sint_lt)
  moreover have "(2::int) ^ (LENGTH('a) - 1) \<le> 2 ^ LENGTH('a)" by (rule power_increasing) simp_all
  ultimately have "take_bit LENGTH('a) (sint w) = sint w"
    by (intro take_bit_int_eq_self) (assumption, linarith)
  then have "uint w = sint w" by (simp add: uint_sint)
  with lt show "unat w < 2 ^ (LENGTH('a) - 1)" by (simp only: uint_less_pow2 [symmetric])
next
  assume "unat w < 2 ^ (LENGTH('a) - 1)"
  then have u: "uint w < 2 ^ (LENGTH('a) - 1)" by (simp only: uint_less_pow2)
  have "- (2 ^ (LENGTH('a) - 1)) \<le> (0::int)" by simp
  then have "- (2 ^ (LENGTH('a) - 1)) \<le> uint w" using unsigned_greater_eq [of w] by (rule order_trans)
  with u have "sint w = uint w" by (simp add: sint_uint signed_take_bit_int_eq_self)
  then show "0 \<le> sint w" by simp
qed

lemma window_slot_unique:
  fixes p q n h :: nat
  assumes "p mod n = q mod n" "p \<le> h" "q \<le> h" "h < p + n" "h < q + n"
  shows "p = q"
proof -
  have "p - q < n" "q - p < n" using assms by auto
  with assms(1) show ?thesis
    by (metis add_diff_inverse_nat diff_is_0_eq dvd_imp_mod_0 less_imp_le_nat linorder_not_less mod_eq_dvd_iff_nat mod_less nat_le_linear)
qed

lemma ex_slot_in_span:
  fixes n s a :: nat
  assumes "s < n"
  shows "\<exists>q. a < q \<and> q \<le> a + n \<and> q mod n = s"
proof -
  let ?r = "Suc a mod n"
  have r: "?r < n" using assms by simp
  let ?d = "(s + n - ?r) mod n"
  have "(Suc a + ?d) mod n = (?r + (s + n - ?r)) mod n" by (metis mod_add_eq mod_mod_trivial)
  also have "?r + (s + n - ?r) = s + n" using r by simp
  also have "(s + n) mod n = s" using assms by simp
  finally have "(Suc a + ?d) mod n = s" .
  moreover have "?d < n" using assms by simp
  ultimately show ?thesis by (intro exI [of _ "Suc a + ?d"]) simp
qed

lemma unat_span:
  fixes x y :: "'a::len word"
  assumes "x < y"
  shows "unat (x + 1) = unat x + 1" "unat (y - x) = unat y - unat x" "x + 1 \<le> y"
proof -
  have xy: "unat x < unat y" using assms by (simp add: word_less_nat_alt)
  have "x + 1 \<noteq> 0" 
    using assms by (metis eq_neg_iff_add_eq_0 word_order.extremum_strict)
  then show x1: "unat (x + 1) = unat x + 1" by (simp add: unatSuc add.commute)
  show le: "x + 1 \<le> y" using xy x1 by (simp add: word_le_nat_alt)
  show "unat (y - x) = unat y - unat x" using assms by (simp add: unat_sub)
qed

lemma span_reindex: "(\<forall>i < b - a. P (a + 1 + i)) \<longleftrightarrow> (\<forall>q. a < q \<and> q \<le> b \<longrightarrow> P q)" for a b :: nat
proof (intro iffI allI impI)
  fix q assume all: "\<forall>i < b - a. P (a + 1 + i)" and q: "a < q \<and> q \<le> b"
  then have "q - (a + 1) < b - a" "a + 1 + (q - (a + 1)) = q" by auto
  with all show "P q" by metis
qed simp

lemma checked_add_1: "checked_add a 1 = (if a = - 1 then None else Some (a + 1))" for a :: "'a::len word"
proof -
  have "a = - 1 \<longleftrightarrow> unat a = 2 ^ LENGTH('a) - 1"
    by (simp add: word_unat_eq_iff unsigned_minus_1_eq_mask mask_eq_exp_minus_1)
  then have "a = - 1 \<longleftrightarrow> \<not> unat a + 1 < 2 ^ LENGTH('a)" using unat_less_exp [of a] by linarith
  moreover have "uint a + 1 < 2 ^ LENGTH('a) \<longleftrightarrow> unat a + 1 < 2 ^ LENGTH('a)"
    using uint_add_less_exp [of a 1] by simp
  ultimately have "uint a + 1 < 2 ^ LENGTH('a) \<longleftrightarrow> a \<noteq> - 1" by blast
  then show ?thesis by (simp add: checked_add_def)
qed

lemma succ_word_less: "a \<noteq> - 1 \<Longrightarrow> a < a + 1" for a :: "'a::len word"
  by (metis word_order.not_eq_extremum unat_span(1) word_less_nat_alt less_add_one)

section \<open>Guards that admit each key once\<close>

text \<open>Several components of the program are replay guards: a step takes a request, may admit or
  reject it, and must never admit the same key twice. \<open>hist s H\<close> says that state \<open>s\<close> is one
  the guard can be in after admitting exactly the keys \<open>H\<close>. \<open>valid\<close> restricts the
  requests, for a guard whose memory has a time horizon.\<close>

locale replay_guard =
  fixes step :: "'s \<Rightarrow> 'x \<Rightarrow> 's \<times> bool"
    and key :: "'x \<Rightarrow> 'k"
    and hist :: "'s \<Rightarrow> 'k set \<Rightarrow> bool"
    and valid :: "'x \<Rightarrow> bool"
  assumes admit: "hist s H \<Longrightarrow> valid x \<Longrightarrow> step s x = (s', True) \<Longrightarrow> key x \<notin> H \<and> hist s' (insert (key x) H)"
    and reject: "hist s H \<Longrightarrow> valid x \<Longrightarrow> step s x = (s', False) \<Longrightarrow> hist s' H"
begin

lemma run_admits_fresh:
  assumes "hist s H" "list_all valid xs" "run_guard step s xs = (s', ys)"
  shows "distinct (map key ys) \<and> key ` set ys \<inter> H = {} \<and> hist s' (key ` set ys \<union> H)"
  using assms
proof (induction xs arbitrary: s s' H ys)
  case Nil
  then show ?case by simp
next
  case (Cons x xs)
  obtain s1 ok where st: "step s x = (s1, ok)" by fastforce
  obtain s2 out where rn: "run_guard step s1 xs = (s2, out)" by fastforce
  from Cons.prems(3) st rn have eq: "s' = s2" "ys = (if ok then x # out else out)" by auto
  have v: "valid x" "list_all valid xs" using Cons.prems(2) by simp_all
  show ?case
  proof (cases ok)
    case True
    with st v(1) Cons.prems(1) have a: "key x \<notin> H" "hist s1 (insert (key x) H)" using admit [of s H x s1] by simp_all
    from Cons.IH [OF a(2) v(2) rn] a(1) True eq show ?thesis by auto
  next
    case False
    with st v(1) Cons.prems(1) have "hist s1 H" using reject [of s H x s1] by simp
    from Cons.IH [OF this v(2) rn] False eq show ?thesis by simp
  qed
qed

end

lemma run_guard_frame:
  assumes "\<And>s x. f (fst (step s x)) = f s"
  shows "f (fst (run_guard step s xs)) = f s"
  by (induction xs arbitrary: s) (use assms in \<open>simp_all add: split_beta\<close>)

lemma run_guard_append:
  "run_guard step s (xs @ ys) =
     (let (s1, out1) = run_guard step s xs; (s2, out2) = run_guard step s1 ys in (s2, out1 @ out2))"
  by (induction xs arbitrary: s) (simp_all add: split_beta Let_def)

end
