(* ===== verification/Errors.thy ===== *)
theory Errors
  imports SAACP_Prelude
begin

text \<open>
  The protocol bytecodes and the fail-closed error of \<open>src/errors.rs\<close>.
  A \<open>SAACPHardDrop\<close> carries a bytecode and a diagnostic message; the message is formatted
  text that no decision of the modelled code reads, so a failing operation returns its
  bytecode only: \<open>'a result\<close> is \<open>Result<T, SAACPHardDrop>\<close>.
\<close>

datatype (plugins only: code size) SAACPBytecodes =
    Success | MalformedHeader | SchemaMismatch | InvalidSignature | AmbiguousIntent |
    LateralMovementBlocked | PromptInjectionDetected | StateExpiredOrStale | InputRequired |
    BudgetExceeded | PreFlightBudget | CostEstimate | ActionClassEscalation |
    EpistemicUncertainty | PayloadTooLarge | HeartbeatPing | StateSyncRequired |
    TemporalTimeout | TokenExpired | ScopeViolation | CircuitBreakerOpen | DelegationRejected |
    ExternalInputTainted | StreamStart | StreamContinuation | StreamEnd | StreamAbort |
    PsnReplayDetected | PsnOutOfWindow | EpochExpired | SequenceOverflow |
    KeyEvolutionRequired | AegfLoopDetected | AegfHopLimitExceeded | AegfDepthLimitExceeded |
    AegfTtlExpired | AegfInvalidTransition | ScrUnauthorized | ScrNotFound |
    RrbcReplayDetected | RrbcUsageExhausted | RrbcBindingMismatch | RrbcPopFailed |
    RgcResourceLimitExceeded | KeyRevoked | KeyVersionMismatch |
    AcsvafDelegationAmplification | AcsvafDelegationDepthExceeded | AcsvafCircularDelegation |
    AcsvafOrphanChain | AcsvafMissingCapabilityAuthority | AcsvafKeyNotTrusted |
    AcsvafThresholdNotReached | AcsvafManifestInvalid | AcsvafSessionBindingViolated |
    SelfIssuedCapability | UnauthorizedIssuerClass | DelegationMetadataIncomplete |
    AuthorityClassViolation | FederationRootRequired | IdentityBindingMissing |
    IdentityMisbinding | TranscriptHashMismatch | IdentityNotVerified | SessionSpliceDetected |
    AuditSubsystemDegraded | TrustReauthRequired | IntentChainDriftExceeded |
    IntentClassEscalationDetected | SemanticInjectionDetected | InsufficientAttestation |
    CollusionDetected | ClusterMessageRejected | RulePackRejected

type_synonym 'a result = "SAACPBytecodes + 'a"

abbreviation Err :: "SAACPBytecodes \<Rightarrow> 'a result" where
  "Err \<equiv> Inl"

abbreviation Ok :: "'a \<Rightarrow> 'a result" where
  "Ok \<equiv> Inr"

text \<open>\<open>Result::and_then\<close>, the meaning of the \<open>?\<close> operator.\<close>

definition and_then :: "'a result \<Rightarrow> ('a \<Rightarrow> 'b result) \<Rightarrow> 'b result" where
  "and_then r f = (case r of Inl e \<Rightarrow> Inl e | Inr x \<Rightarrow> f x)"

definition COUNT :: nat where
  "COUNT = 0x49 + 1"

definition ALL_bytecodes :: "SAACPBytecodes list" where
  "ALL_bytecodes = [
    Success, MalformedHeader, SchemaMismatch, InvalidSignature, AmbiguousIntent,
    LateralMovementBlocked, PromptInjectionDetected, StateExpiredOrStale, InputRequired,
    BudgetExceeded, PreFlightBudget, CostEstimate, ActionClassEscalation, EpistemicUncertainty,
    PayloadTooLarge, HeartbeatPing, StateSyncRequired, TemporalTimeout, TokenExpired,
    ScopeViolation, CircuitBreakerOpen, DelegationRejected, ExternalInputTainted, StreamStart,
    StreamContinuation, StreamEnd, StreamAbort, PsnReplayDetected, PsnOutOfWindow,
    EpochExpired, SequenceOverflow, KeyEvolutionRequired, AegfLoopDetected,
    AegfHopLimitExceeded, AegfDepthLimitExceeded, AegfTtlExpired, AegfInvalidTransition,
    ScrUnauthorized, ScrNotFound, RrbcReplayDetected, RrbcUsageExhausted, RrbcBindingMismatch,
    RrbcPopFailed, RgcResourceLimitExceeded, KeyRevoked, KeyVersionMismatch,
    AcsvafDelegationAmplification, AcsvafDelegationDepthExceeded, AcsvafCircularDelegation,
    AcsvafOrphanChain, AcsvafMissingCapabilityAuthority, AcsvafKeyNotTrusted,
    AcsvafThresholdNotReached, AcsvafManifestInvalid, AcsvafSessionBindingViolated,
    SelfIssuedCapability, UnauthorizedIssuerClass, DelegationMetadataIncomplete,
    AuthorityClassViolation, FederationRootRequired, IdentityBindingMissing,
    IdentityMisbinding, TranscriptHashMismatch, IdentityNotVerified, SessionSpliceDetected,
    AuditSubsystemDegraded, TrustReauthRequired, IntentChainDriftExceeded,
    IntentClassEscalationDetected, SemanticInjectionDetected, InsufficientAttestation,
    CollusionDetected, ClusterMessageRejected, RulePackRejected]"

primrec index :: "SAACPBytecodes \<Rightarrow> nat" where
  "index Success = 0"
| "index MalformedHeader = 1"
| "index SchemaMismatch = 2"
| "index InvalidSignature = 3"
| "index AmbiguousIntent = 4"
| "index LateralMovementBlocked = 5"
| "index PromptInjectionDetected = 6"
| "index StateExpiredOrStale = 7"
| "index InputRequired = 8"
| "index BudgetExceeded = 9"
| "index PreFlightBudget = 10"
| "index CostEstimate = 11"
| "index ActionClassEscalation = 12"
| "index EpistemicUncertainty = 13"
| "index PayloadTooLarge = 14"
| "index HeartbeatPing = 15"
| "index StateSyncRequired = 16"
| "index TemporalTimeout = 17"
| "index TokenExpired = 18"
| "index ScopeViolation = 19"
| "index CircuitBreakerOpen = 20"
| "index DelegationRejected = 21"
| "index ExternalInputTainted = 22"
| "index StreamStart = 23"
| "index StreamContinuation = 24"
| "index StreamEnd = 25"
| "index StreamAbort = 26"
| "index PsnReplayDetected = 27"
| "index PsnOutOfWindow = 28"
| "index EpochExpired = 29"
| "index SequenceOverflow = 30"
| "index KeyEvolutionRequired = 31"
| "index AegfLoopDetected = 32"
| "index AegfHopLimitExceeded = 33"
| "index AegfDepthLimitExceeded = 34"
| "index AegfTtlExpired = 35"
| "index AegfInvalidTransition = 36"
| "index ScrUnauthorized = 37"
| "index ScrNotFound = 38"
| "index RrbcReplayDetected = 39"
| "index RrbcUsageExhausted = 40"
| "index RrbcBindingMismatch = 41"
| "index RrbcPopFailed = 42"
| "index RgcResourceLimitExceeded = 43"
| "index KeyRevoked = 44"
| "index KeyVersionMismatch = 45"
| "index AcsvafDelegationAmplification = 46"
| "index AcsvafDelegationDepthExceeded = 47"
| "index AcsvafCircularDelegation = 48"
| "index AcsvafOrphanChain = 49"
| "index AcsvafMissingCapabilityAuthority = 50"
| "index AcsvafKeyNotTrusted = 51"
| "index AcsvafThresholdNotReached = 52"
| "index AcsvafManifestInvalid = 53"
| "index AcsvafSessionBindingViolated = 54"
| "index SelfIssuedCapability = 55"
| "index UnauthorizedIssuerClass = 56"
| "index DelegationMetadataIncomplete = 57"
| "index AuthorityClassViolation = 58"
| "index FederationRootRequired = 59"
| "index IdentityBindingMissing = 60"
| "index IdentityMisbinding = 61"
| "index TranscriptHashMismatch = 62"
| "index IdentityNotVerified = 63"
| "index SessionSpliceDetected = 64"
| "index AuditSubsystemDegraded = 65"
| "index TrustReauthRequired = 66"
| "index IntentChainDriftExceeded = 67"
| "index IntentClassEscalationDetected = 68"
| "index SemanticInjectionDetected = 69"
| "index InsufficientAttestation = 70"
| "index CollusionDetected = 71"
| "index ClusterMessageRejected = 72"
| "index RulePackRejected = 73"

definition from_index :: "nat \<Rightarrow> SAACPBytecodes option" where
  "from_index i = (if COUNT \<le> i then None else Some (ALL_bytecodes ! i))"

lemma and_then_simps [simp]:
  "and_then (Err e) f = Err e"
  "and_then (Ok x) f = f x"
  by (simp_all add: and_then_def)

lemma and_then_Ok_iff: "and_then r f = Ok y \<longleftrightarrow> (\<exists>x. r = Ok x \<and> f x = Ok y)"
  by (cases r) simp_all

lemma length_ALL_bytecodes: "length ALL_bytecodes = COUNT"
  by (simp add: ALL_bytecodes_def COUNT_def)

lemma index_less_COUNT: "index b < COUNT"
  by (cases b) (simp_all add: COUNT_def)

lemma ALL_nth_index: "ALL_bytecodes ! index b = b"
  by (cases b) (simp_all add: ALL_bytecodes_def)

lemma map_index_ALL_bytecodes: "map index ALL_bytecodes = [0..<COUNT]"
  by (simp add: ALL_bytecodes_def COUNT_def upt_rec)

end
