(* ===== verification/Packet_Chain.thy ===== *)
theory Packet_Chain
  imports Errors
begin

text \<open>
  The MEASC v2 packet chain of \<open>src/measc.rs\<close>: the 32-byte header extension
  (\<open>build_v2_extension\<close>, \<open>parse_v2_extension\<close>) and the \<open>PacketChainVerifier\<close>. SHA3-256 is
  the argument \<open>sha3\<close>; a 128-byte header is a byte list. The two cumulative telemetry counters
  (\<open>u64\<close>, incremented by one per packet) are natural numbers.
\<close>

section \<open>Definitions\<close>

definition MEASC_V2_HEADER_SIZE :: nat where "MEASC_V2_HEADER_SIZE = 160"
definition MEASC_V2_PREV_HASH_OFFSET :: nat where "MEASC_V2_PREV_HASH_OFFSET = 128"
definition MEASC_V2_PREV_HASH_SIZE :: nat where "MEASC_V2_PREV_HASH_SIZE = 24"
definition MEASC_V2_EPOCH_BEACON_OFFSET :: nat where "MEASC_V2_EPOCH_BEACON_OFFSET = 152"

lemmas v2_sizes = MEASC_V2_HEADER_SIZE_def MEASC_V2_PREV_HASH_OFFSET_def
  MEASC_V2_PREV_HASH_SIZE_def MEASC_V2_EPOCH_BEACON_OFFSET_def

definition MEASC_V2_CHAIN_GENESIS :: bytes where
  "MEASC_V2_CHAIN_GENESIS = replicate MEASC_V2_PREV_HASH_SIZE 0"

definition compute_prev_packet_hash :: "(bytes \<Rightarrow> bytes) \<Rightarrow> bytes \<Rightarrow> bytes" where
  "compute_prev_packet_hash sha3 authenticated_header =
     take MEASC_V2_PREV_HASH_SIZE (sha3 authenticated_header)"

definition build_v2_extension :: "bytes \<Rightarrow> u64 \<Rightarrow> bytes" where
  "build_v2_extension prev_packet_hash epoch_beacon = prev_packet_hash @ to_be_bytes 8 epoch_beacon"

definition parse_v2_extension :: "bytes \<Rightarrow> (bytes \<times> u64) result" where
  "parse_v2_extension header =
     (if length header < MEASC_V2_HEADER_SIZE then Err MalformedHeader
      else Ok (slice MEASC_V2_PREV_HASH_OFFSET (MEASC_V2_PREV_HASH_OFFSET + MEASC_V2_PREV_HASH_SIZE) header,
               from_be_bytes (slice MEASC_V2_EPOCH_BEACON_OFFSET (MEASC_V2_EPOCH_BEACON_OFFSET + 8) header)))"

record PacketChainVerifier =
  last_accepted_hash :: "bytes option"
  packets_verified :: nat
  chain_breaks_detected :: nat

definition new_chain_verifier :: PacketChainVerifier where
  "new_chain_verifier = \<lparr>last_accepted_hash = None, packets_verified = 0, chain_breaks_detected = 0\<rparr>"

definition chain_verify :: "PacketChainVerifier \<Rightarrow> bytes \<Rightarrow> bool result" where
  "chain_verify v prev_hash_claimed =
     (let is_genesis_claim = (prev_hash_claimed = MEASC_V2_CHAIN_GENESIS) in
      case last_accepted_hash v of
        None \<Rightarrow> Ok True
      | Some known_hash \<Rightarrow>
          if is_genesis_claim then Err PsnOutOfWindow else Ok (prev_hash_claimed = known_hash))"

definition chain_accept :: "(bytes \<Rightarrow> bytes) \<Rightarrow> PacketChainVerifier \<Rightarrow> bytes \<Rightarrow> PacketChainVerifier" where
  "chain_accept sha3 v authenticated_header =
     v\<lparr>last_accepted_hash := Some (compute_prev_packet_hash sha3 authenticated_header),
       packets_verified := packets_verified v + 1\<rparr>"

definition record_chain_break :: "PacketChainVerifier \<Rightarrow> PacketChainVerifier" where
  "record_chain_break v = v\<lparr>chain_breaks_detected := chain_breaks_detected v + 1\<rparr>"

definition chain_reset :: "PacketChainVerifier \<Rightarrow> PacketChainVerifier" where
  "chain_reset v = v\<lparr>last_accepted_hash := None\<rparr>"

text \<open>The documented use of the verifier: verify, then accept on a match, count a break on a
  mismatch. A packet is a header with the \<open>prev_packet_hash\<close> it claims.\<close>

definition chain_step :: "(bytes \<Rightarrow> bytes) \<Rightarrow> PacketChainVerifier \<Rightarrow> bytes \<times> bytes \<Rightarrow> PacketChainVerifier \<times> bool" where
  "chain_step sha3 v pkt =
     (case chain_verify v (snd pkt) of
        Inr True \<Rightarrow> (chain_accept sha3 v (fst pkt), True)
      | Inr False \<Rightarrow> (record_chain_break v, False)
      | Inl _ \<Rightarrow> (v, False))"

text \<open>What an honest sender puts on the wire: the first packet claims the genesis hash, every later
  one the hash of the header before it.\<close>

fun chain_from :: "(bytes \<Rightarrow> bytes) \<Rightarrow> bytes \<Rightarrow> bytes list \<Rightarrow> (bytes \<times> bytes) list" where
  "chain_from sha3 prev [] = []"
| "chain_from sha3 prev (h # hs) = (h, prev) # chain_from sha3 (compute_prev_packet_hash sha3 h) hs"

text \<open>Toy digest for evaluating the model: the header itself, cut or padded to 32 bytes.\<close>

definition toy_sha3 :: "bytes \<Rightarrow> bytes" where
  "toy_sha3 m = take 32 (m @ replicate 32 255)"

section \<open>Lemmas\<close>

lemma chain_step_Some:
  assumes "last_accepted_hash v = Some k"
  shows "chain_step sha3 v (h, claim) =
    (if claim = MEASC_V2_CHAIN_GENESIS then (v, False)
     else if claim = k then (chain_accept sha3 v h, True) else (record_chain_break v, False))"
  using assms by (simp add: chain_step_def chain_verify_def)

lemma chain_step_None:
  "last_accepted_hash v = None \<Longrightarrow> chain_step sha3 v (h, claim) = (chain_accept sha3 v h, True)"
  by (simp add: chain_step_def chain_verify_def)

lemma last_hash_chain_accept [simp]:
  "last_accepted_hash (chain_accept sha3 v h) = Some (compute_prev_packet_hash sha3 h)"
  by (simp add: chain_accept_def)

lemma chain_from_established:
  assumes "last_accepted_hash v = Some k" "k \<noteq> MEASC_V2_CHAIN_GENESIS"
    and "\<forall>h \<in> set hs. compute_prev_packet_hash sha3 h \<noteq> MEASC_V2_CHAIN_GENESIS"
  shows "snd (run_guard (chain_step sha3) v (chain_from sha3 k hs)) = chain_from sha3 k hs"
  using assms
  by (induction hs arbitrary: v k) (simp_all add: chain_step_Some split_beta)

section \<open>Properties\<close>

text \<open>The v2 extension round trips: appended to a 128-byte header, it parses back to the hash and
  the epoch beacon it was built from, and a shorter buffer is refused.\<close>

lemma v2_extension_roundtrip:
  assumes "length hdr = 128" "length prev = MEASC_V2_PREV_HASH_SIZE"
  shows "parse_v2_extension (hdr @ build_v2_extension prev beacon @ rest) = Ok (prev, beacon) \<and>
    length (build_v2_extension prev beacon) = 32 \<and>
    parse_v2_extension hdr = Err MalformedHeader"
  using assms
  by (simp add: parse_v2_extension_def build_v2_extension_def v2_sizes slice_append_skip
      slice_append_take slice_all from_to_be_bytes wire)

text \<open>An honest sender's stream is accepted in full by a fresh verifier, and once the stream is
  under way a packet is accepted only if it names the header accepted last: with a digest that
  does not collide on the two headers, only the packet sent right after it.\<close>

lemma packet_chain_exact:
  assumes "\<forall>h \<in> set hs. compute_prev_packet_hash sha3 h \<noteq> MEASC_V2_CHAIN_GENESIS"
  shows "snd (run_guard (chain_step sha3) new_chain_verifier (chain_from sha3 MEASC_V2_CHAIN_GENESIS hs))
      = chain_from sha3 MEASC_V2_CHAIN_GENESIS hs \<and>
    (inj_on (compute_prev_packet_hash sha3) {h0, h'} \<longrightarrow>
     snd (chain_step sha3 (chain_accept sha3 v h0) (h, compute_prev_packet_hash sha3 h')) \<longrightarrow> h' = h0)"
proof (intro conjI impI)
  show "snd (run_guard (chain_step sha3) new_chain_verifier (chain_from sha3 MEASC_V2_CHAIN_GENESIS hs))
      = chain_from sha3 MEASC_V2_CHAIN_GENESIS hs"
    using assms
    by (cases hs) (simp_all add: chain_step_None new_chain_verifier_def split_beta chain_from_established)
next
  assume inj: "inj_on (compute_prev_packet_hash sha3) {h0, h'}"
    and "snd (chain_step sha3 (chain_accept sha3 v h0) (h, compute_prev_packet_hash sha3 h'))"
  then have "compute_prev_packet_hash sha3 h' = compute_prev_packet_hash sha3 h0"
    unfolding chain_step_Some [OF last_hash_chain_accept] by (simp split: if_splits)
  then show "h' = h0" by (rule inj_onD [OF inj]) simp_all
qed

text \<open>A claim of the genesis hash on a chain that has accepted a packet is always an error, and
  neither a break nor an error moves the chain: the expected hash stays the last accepted one
  until \<open>reset\<close>.\<close>

lemma packet_chain_no_rewind:
  "chain_verify (chain_accept sha3 v h) MEASC_V2_CHAIN_GENESIS = Err PsnOutOfWindow \<and>
   (snd (chain_step sha3 v pkt) \<or> last_accepted_hash (fst (chain_step sha3 v pkt)) = last_accepted_hash v) \<and>
   chain_verify (chain_reset v) claim = Ok True"
  by (auto simp: chain_verify_def chain_step_def record_chain_break_def chain_reset_def
      split: sum.splits bool.splits)

end
