(* ===== verification/Replay_Window.thy ===== *)
theory Replay_Window
  imports Errors
begin

text \<open>
  The sliding replay window of \<open>src/measc.rs\<close> (\<open>ReplayWindowPolicy\<close>, \<open>ReplayWindow\<close>).
  The window keeps a bitmap of \<open>window_size\<close> bits, indexed by PSN modulo the window size,
  and the highest accepted PSN as an \<open>i64\<close> (-1 when nothing was accepted yet). The model
  keeps both at their machine widths; \<open>highest_psn\<close> is a 64-bit word read with \<open>sint\<close>.

  The lemmas show that the bitmap implements a set of accepted PSNs: the abstract guard
  \<open>spec_admits\<close> speaks of that set only, \<open>rw_rel\<close> relates a window to it, and
  \<open>check_and_accept\<close> simulates the abstract step. Byte indices stay inside the bitmap.
\<close>

section \<open>Policy and state\<close>

type_synonym i64 = "64 word"

definition MEASC_REPLAY_WINDOW_SIZE :: usize where
  "MEASC_REPLAY_WINDOW_SIZE = 4096"

definition MEASC_MAX_PSN_ADVANCE :: u64 where
  "MEASC_MAX_PSN_ADVANCE = 2048"

definition MEASC_REPLAY_ANOMALY_JUMP_THRESHOLD :: u64 where
  "MEASC_REPLAY_ANOMALY_JUMP_THRESHOLD = 512"

definition MEASC_PSN_MAX :: u64 where
  "MEASC_PSN_MAX = 0x7FFFFFFFFFFFFFFF"

datatype AnomalyPolicy = Allow | Audit | RateLimit | Quarantine

record ReplayWindowPolicy =
  window_size :: usize
  max_advance :: u64
  anomaly_jump_threshold :: u64
  anomaly_policy :: AnomalyPolicy
  max_anomalies_before_quarantine :: u32
  rate_limit_window_seconds :: secs
  max_large_advances_per_window :: u32

definition clamp_window_size :: "ReplayWindowPolicy \<Rightarrow> ReplayWindowPolicy" where
  "clamp_window_size p = (if window_size p < 1 then p\<lparr>window_size := 1\<rparr> else p)"

definition clamp_max_advance :: "ReplayWindowPolicy \<Rightarrow> ReplayWindowPolicy" where
  "clamp_max_advance p =
     (if window_size p \<le> max_advance p
      then p\<lparr>max_advance := saturating_sub (window_size p) 1\<rparr> else p)"

definition clamp_threshold :: "ReplayWindowPolicy \<Rightarrow> ReplayWindowPolicy" where
  "clamp_threshold p =
     (let p1 = (if anomaly_jump_threshold p = 0 then p\<lparr>anomaly_jump_threshold := 1\<rparr> else p)
      in if max_advance p1 \<le> anomaly_jump_threshold p1
         then p1\<lparr>anomaly_jump_threshold := max (max_advance p1 div 2) 1\<rparr> else p1)"

definition clamp :: "ReplayWindowPolicy \<Rightarrow> ReplayWindowPolicy" where
  "clamp p = clamp_threshold (clamp_max_advance (clamp_window_size p))"

definition default_policy :: ReplayWindowPolicy where
  "default_policy = clamp
     \<lparr>window_size = MEASC_REPLAY_WINDOW_SIZE,
      max_advance = MEASC_MAX_PSN_ADVANCE,
      anomaly_jump_threshold = MEASC_REPLAY_ANOMALY_JUMP_THRESHOLD,
      anomaly_policy = Audit,
      max_anomalies_before_quarantine = 5,
      rate_limit_window_seconds = 1,
      max_large_advances_per_window = 3\<rparr>"

record ReplayWindow =
  rw_policy :: ReplayWindowPolicy
  bitmap :: "u8 list"
  highest_psn :: i64
  initialized :: bool
  grace_period_locked :: bool
  anomaly_count :: u32
  quarantined :: bool
  rate_window_start :: secs
  rate_window_advances :: u32

abbreviation ws :: "ReplayWindow \<Rightarrow> nat" where
  "ws w \<equiv> unat (window_size (rw_policy w))"

section \<open>Operations\<close>

definition new_replay_window :: "secs \<Rightarrow> ReplayWindowPolicy \<Rightarrow> ReplayWindow" where
  "new_replay_window now p =
     \<lparr>rw_policy = p,
      bitmap = replicate ((unat (window_size p) + 7) div 8) 0,
      highest_psn = - 1,
      initialized = False,
      grace_period_locked = False,
      anomaly_count = 0,
      quarantined = False,
      rate_window_start = now,
      rate_window_advances = 0\<rparr>"

text \<open>The three bitmap accesses of the source, \<open>byte & (1 << off)\<close>, \<open>byte |= 1 << off\<close>
  and \<open>byte &= !(1 << off)\<close>, on a bit index.\<close>

definition bit_test :: "u8 list \<Rightarrow> nat \<Rightarrow> bool" where
  "bit_test bm i \<longleftrightarrow> bm ! (i div 8) AND push_bit (i mod 8) 1 \<noteq> 0"

definition bit_set :: "u8 list \<Rightarrow> nat \<Rightarrow> u8 list" where
  "bit_set bm i = bm[i div 8 := bm ! (i div 8) OR push_bit (i mod 8) 1]"

definition bit_clear :: "u8 list \<Rightarrow> nat \<Rightarrow> u8 list" where
  "bit_clear bm i = bm[i div 8 := bm ! (i div 8) AND NOT (push_bit (i mod 8) 1)]"

definition psn_bit :: "ReplayWindow \<Rightarrow> u64 \<Rightarrow> nat" where
  "psn_bit w psn = unat (psn mod window_size (rw_policy w))"

definition peek :: "ReplayWindow \<Rightarrow> u64 \<Rightarrow> bool \<times> string" where
  "peek w psn =
     (if psn = 0 then (False, ''negative_psn'')
      else if MEASC_PSN_MAX < psn then (False, ''psn_above_max'')
      else if quarantined w then (False, ''quarantined'')
      else if 0 \<le> sint (highest_psn w) then
        (let h = highest_psn w in
         if saturating_add h (max_advance (rw_policy w)) < psn then (False, ''advance_too_large'')
         else if psn \<le> saturating_sub h (window_size (rw_policy w)) then (False, ''out_of_window'')
         else if psn \<le> h \<and> bit_test (bitmap w) (psn_bit w psn) then (False, ''duplicate'')
         else (True, ''ok''))
      else (True, ''ok''))"

definition is_anomalous :: "ReplayWindow \<Rightarrow> u64 \<Rightarrow> bool" where
  "is_anomalous w psn \<longleftrightarrow>
     0 \<le> sint (highest_psn w) \<and>
     saturating_add (if 0 \<le> sint (highest_psn w) then highest_psn w else 0)
       (anomaly_jump_threshold (rw_policy w)) < psn"

text \<open>\<open>check\<close> may update the anomaly counters even when it rejects, so it returns the window.
  The crate is built with overflow checks, so an overflowing \<open>+= 1\<close> on a \<open>u32\<close> counter panics
  before the field is written: nothing is admitted, reported here by the reason \<open>panic\<close>.\<close>

definition record_anomaly :: "ReplayWindow \<Rightarrow> ReplayWindow option" where
  "record_anomaly w = map_option (\<lambda>c. w\<lparr>anomaly_count := c\<rparr>) (checked_add (anomaly_count w) 1)"

definition check_anomaly :: "secs \<Rightarrow> ReplayWindow \<Rightarrow> ReplayWindow \<times> bool \<times> string" where
  "check_anomaly now w =
     (case anomaly_policy (rw_policy w) of
        Allow \<Rightarrow> (w, True, ''ok'')
      | Audit \<Rightarrow>
          (case record_anomaly w of
             None \<Rightarrow> (w, False, ''panic'')
           | Some w1 \<Rightarrow> (w1, True, ''ok_anomaly_recorded''))
      | RateLimit \<Rightarrow>
          (let elapsed = max 0 (now - rate_window_start w);
               w1 = (if rate_limit_window_seconds (rw_policy w) < elapsed
                     then w\<lparr>rate_window_advances := 0, rate_window_start := now\<rparr> else w)
           in case checked_add (rate_window_advances w1) 1 of
                None \<Rightarrow> (w1, False, ''panic'')
              | Some a \<Rightarrow>
                  (let w2 = w1\<lparr>rate_window_advances := a\<rparr>
                   in if max_large_advances_per_window (rw_policy w) < a
                      then (w2, False, ''rate_limit_exceeded'')
                      else case record_anomaly w2 of
                             None \<Rightarrow> (w2, False, ''panic'')
                           | Some w3 \<Rightarrow> (w3, True, ''ok_anomaly_recorded'')))
      | Quarantine \<Rightarrow>
          (case record_anomaly w of
             None \<Rightarrow> (w, False, ''panic'')
           | Some w1 \<Rightarrow>
               if max_anomalies_before_quarantine (rw_policy w) \<le> anomaly_count w1
               then (w1\<lparr>quarantined := True\<rparr>, False, ''quarantined'')
               else (w1, True, ''ok_anomaly_recorded'')))"

definition check :: "secs \<Rightarrow> ReplayWindow \<Rightarrow> u64 \<Rightarrow> ReplayWindow \<times> bool \<times> string" where
  "check now w psn =
     (let (ok, reason) = peek w psn in
      if \<not> ok then (w, ok, reason)
      else if is_anomalous w psn then check_anomaly now w
      else (w, True, ''ok''))"

text \<open>The bits \<open>accept\<close> clears when the window moves from \<open>old_h\<close> to \<open>psn\<close>.\<close>

definition advance_bitmap :: "ReplayWindow \<Rightarrow> u64 \<Rightarrow> u64 \<Rightarrow> u8 list" where
  "advance_bitmap w old_h psn =
     (let size = window_size (rw_policy w);
          new_start = saturating_sub psn size;
          old_start = saturating_sub old_h size
      in if old_start < new_start \<or> \<not> initialized w then
           (let clear_start = (if initialized w then old_start + 1 else 0);
                clear_end = new_start;
                clear_count = (if clear_start \<le> clear_end
                               then min (clear_end - clear_start + 1) size else 0)
            in if size \<le> clear_count then map (\<lambda>_. 0) (bitmap w)
               else foldl (\<lambda>bm i. bit_clear bm (psn_bit w (clear_start + word_of_nat i)))
                      (bitmap w) [0..<unat clear_count])
         else bitmap w)"

definition accept :: "ReplayWindow \<Rightarrow> u64 \<Rightarrow> ReplayWindow result" where
  "accept w psn =
     (if psn = 0 then Err PsnOutOfWindow
      else if MEASC_PSN_MAX < psn then Err PsnOutOfWindow
      else
        (let h = (if sint (highest_psn w) < 0 then 0 else highest_psn w);
             w1 = (if h < psn \<or> \<not> initialized w
                   then w\<lparr>bitmap := advance_bitmap w h psn, highest_psn := psn, initialized := True\<rparr>
                   else w)
         in Ok (w1\<lparr>bitmap := bit_set (bitmap w1) (psn_bit w1 psn)\<rparr>)))"

definition check_and_accept :: "secs \<Rightarrow> ReplayWindow \<Rightarrow> u64 \<Rightarrow> ReplayWindow \<times> bool \<times> string" where
  "check_and_accept now w psn =
     (let (w1, ok, reason) = check now w psn in
      if ok then (case accept w1 psn of Inl _ \<Rightarrow> w1 | Inr w2 \<Rightarrow> w2, ok, reason)
      else (w1, ok, reason))"

definition lock_for_grace_period :: "ReplayWindow \<Rightarrow> ReplayWindow" where
  "lock_for_grace_period w = w\<lparr>grace_period_locked := True\<rparr>"

definition reset_replay_window :: "ReplayWindow \<Rightarrow> ReplayWindow result" where
  "reset_replay_window w =
     (if grace_period_locked w then Err SchemaMismatch
      else Ok (w\<lparr>bitmap := map (\<lambda>_. 0) (bitmap w), highest_psn := - 1, initialized := False,
                 anomaly_count := 0, quarantined := False\<rparr>))"

section \<open>Specification: a set of accepted PSNs\<close>

text \<open>\<open>spec_admits\<close> is what the window promises, in terms of the set \<open>S\<close> of all PSNs ever
  accepted: a PSN is admissible when it is new, not too far ahead of the largest accepted one,
  and not older than the window.\<close>

definition spec_admits :: "ReplayWindowPolicy \<Rightarrow> nat set \<Rightarrow> nat \<Rightarrow> bool" where
  "spec_admits p S psn \<longleftrightarrow>
     1 \<le> psn \<and> psn \<le> unat MEASC_PSN_MAX \<and>
     (S \<noteq> {} \<longrightarrow> psn \<le> Max S + unat (max_advance p) \<and> Max S < psn + unat (window_size p)
                 \<and> psn \<notin> S)"

definition rw_wf :: "ReplayWindow \<Rightarrow> bool" where
  "rw_wf w \<longleftrightarrow> 0 < ws w \<and> length (bitmap w) = (ws w + 7) div 8"

definition rw_rel :: "ReplayWindow \<Rightarrow> nat set \<Rightarrow> bool" where
  "rw_rel w S \<longleftrightarrow>
     rw_wf w \<and> finite S \<and> (initialized w \<longleftrightarrow> S \<noteq> {}) \<and>
     S \<subseteq> {1..unat MEASC_PSN_MAX} \<and>
     (if S = {} then highest_psn w = - 1 else unat (highest_psn w) = Max S) \<and>
     (\<forall>s < ws w. bit_test (bitmap w) s \<longleftrightarrow>
        (\<exists>p \<in> S. p mod ws w = s \<and> Max S < p + ws w))"

text \<open>One arrival, a clock reading and a PSN, as a step of a replay guard.\<close>

definition rw_step :: "ReplayWindow \<Rightarrow> secs \<times> u64 \<Rightarrow> ReplayWindow \<times> bool" where
  "rw_step w x = (let (w', ok, _) = check_and_accept (fst x) w (snd x) in (w', ok))"

text \<open>A small policy to evaluate the model on.\<close>

definition small_policy :: ReplayWindowPolicy where
  "small_policy =
     \<lparr>window_size = 8, max_advance = 4, anomaly_jump_threshold = 2, anomaly_policy = Allow,
      max_anomalies_before_quarantine = 5, rate_limit_window_seconds = 1,
      max_large_advances_per_window = 3\<rparr>"

section \<open>Bits of the bitmap\<close>

lemma bit_test_iff: "bit_test bm i \<longleftrightarrow> bit (bm ! (i div 8)) (i mod 8)"
  by (simp add: bit_test_def and_exp_eq_0_iff_not_bit)

lemma bit_index_in_range: "i < n \<Longrightarrow> i div 8 < (n + 7) div 8" for i n :: nat
  by arith

lemma same_bit_index: "i div 8 = j div 8 \<Longrightarrow> i mod 8 = j mod 8 \<longleftrightarrow> i = j" for i j :: nat
  by (metis div_mult_mod_eq)

lemma length_bit_set [simp]: "length (bit_set bm i) = length bm"
  by (simp add: bit_set_def)

lemma length_bit_clear [simp]: "length (bit_clear bm i) = length bm"
  by (simp add: bit_clear_def)

lemma bit_test_bit_set:
  assumes "i div 8 < length bm"
  shows "bit_test (bit_set bm i) j \<longleftrightarrow> i = j \<or> bit_test bm j"
  using assms same_bit_index [of i j]
  by (cases "i div 8 = j div 8") (auto simp: bit_test_iff bit_set_def bit_simps nth_list_update)

lemma bit_test_bit_clear:
  assumes "i div 8 < length bm"
  shows "bit_test (bit_clear bm i) j \<longleftrightarrow> i \<noteq> j \<and> bit_test bm j"
  using assms same_bit_index [of i j]
  by (cases "i div 8 = j div 8") (auto simp: bit_test_iff bit_clear_def bit_simps nth_list_update)

lemma bit_test_zeros: "j div 8 < length bm \<Longrightarrow> \<not> bit_test (map (\<lambda>_. 0) bm) j"
  by (simp add: bit_test_iff)

lemma length_clear_many [simp]:
  "length (foldl (\<lambda>b i. bit_clear b (f i)) bm is) = length bm"
  by (induction "is" arbitrary: bm) simp_all

lemma bit_test_clear_many:
  assumes "\<And>i. i < n \<Longrightarrow> f i div 8 < length bm"
  shows "bit_test (foldl (\<lambda>b i. bit_clear b (f i)) bm [0..<n]) j \<longleftrightarrow>
           (\<forall>i < n. f i \<noteq> j) \<and> bit_test bm j"
  using assms by (induction n) (auto simp: bit_test_bit_clear less_Suc_eq)

section \<open>The bitmap implements the set\<close>

lemma unat_PSN_MAX: "unat MEASC_PSN_MAX = 2 ^ 63 - 1"
  by (simp add: MEASC_PSN_MAX_def)

lemma rw_rel_highest:
  assumes "rw_rel w S" and "S \<noteq> {}"
  shows "unat (highest_psn w) = Max S" "0 \<le> sint (highest_psn w)" "1 \<le> Max S" "Max S < 2 ^ 63"
proof -
  from assms have eq: "unat (highest_psn w) = Max S" and fin: "finite S"
    and sub: "S \<subseteq> {1..unat MEASC_PSN_MAX}" by (simp_all add: rw_rel_def)
  show "unat (highest_psn w) = Max S" by (rule eq)
  have "Max S \<in> {1..unat MEASC_PSN_MAX}" using fin sub assms(2) Max_in by blast
  then show "1 \<le> Max S" "Max S < 2 ^ 63" by (auto simp: unat_PSN_MAX)
  then show "0 \<le> sint (highest_psn w)" by (simp add: sint_nonneg_iff eq)
qed

lemma rw_rel_fresh:
  assumes "rw_rel w {}"
  shows "highest_psn w = - 1" "\<not> initialized w" "s < ws w \<Longrightarrow> \<not> bit_test (bitmap w) s"
  using assms by (simp_all add: rw_rel_def)

lemma unat_psn_bit: "unat (psn mod window_size (rw_policy w)) = unat psn mod ws w"
  by (simp add: unat_mod)

lemma psn_bit_eq: "psn_bit w psn = unat psn mod ws w"
  by (simp add: psn_bit_def unat_mod)

lemma psn_bit_in_bitmap: "rw_wf w \<Longrightarrow> psn_bit w psn div 8 < length (bitmap w)"
  by (simp add: rw_wf_def psn_bit_eq bit_index_in_range)

lemma bit_test_window:
  assumes rel: "rw_rel w S" and p: "1 \<le> p" "p \<le> Max S" "Max S < p + ws w" and ne: "S \<noteq> {}"
  shows "bit_test (bitmap w) (p mod ws w) \<longleftrightarrow> p \<in> S"
proof -
  have "p mod ws w < ws w" using rel by (simp add: rw_rel_def rw_wf_def)
  then have "bit_test (bitmap w) (p mod ws w) \<longleftrightarrow> (\<exists>q \<in> S. q mod ws w = p mod ws w \<and> Max S < q + ws w)"
    using rel by (simp add: rw_rel_def)
  moreover have "q = p" if "q \<in> S" "q mod ws w = p mod ws w" "Max S < q + ws w" for q
    using that p rel by (intro window_slot_unique [of q "ws w" p "Max S"]) (auto simp: rw_rel_def)
  ultimately show ?thesis using p(3) by blast
qed

lemma peek_iff_spec:
  assumes "rw_rel w S"
  shows "fst (peek w psn) \<longleftrightarrow> \<not> quarantined w \<and> spec_admits (rw_policy w) S (unat psn)"
proof (cases "S = {}")
  case True
  with assms have "highest_psn w = - 1" by (simp add: rw_rel_def)
  with True show ?thesis
    by (auto simp: peek_def spec_admits_def word_less_nat_alt word_unat_eq_iff [of psn] Suc_le_eq)
next
  case False
  note h = rw_rel_highest [OF assms False]
  have wsz: "0 < ws w" using assms by (simp add: rw_rel_def rw_wf_def)
  let ?p = "unat psn"
  have pmax: "?p < 2 ^ 64" using unat_less_exp [of psn] by simp
  have adv: "unat (saturating_add (highest_psn w) (max_advance (rw_policy w))) < ?p \<longleftrightarrow>
     Max S + unat (max_advance (rw_policy w)) < ?p"
    using pmax by (simp add: sat_nat h(1)) arith
  have old: "psn \<le> saturating_sub (highest_psn w) (window_size (rw_policy w)) \<longleftrightarrow> ?p = 0 \<or> ?p + ws w \<le> Max S"
    by (auto simp: word_le_nat_alt sat_nat h(1))
  have dup: "psn \<le> highest_psn w \<longleftrightarrow> ?p \<le> Max S" by (simp add: word_le_nat_alt h(1))
  have bit: "bit_test (bitmap w) (psn_bit w psn) \<longleftrightarrow> ?p \<in> S"
    if "1 \<le> ?p" "?p \<le> Max S" "Max S < ?p + ws w"
    using bit_test_window [OF assms that False] by (simp add: psn_bit_eq)
  have notin: "?p \<notin> S" if "Max S < ?p"
    using that assms by (auto simp: rw_rel_def dest: Max_ge)
  show ?thesis
    using h(2) bit notin False wsz
    by (cases "?p \<le> Max S") (auto simp: peek_def Let_def adv old dup spec_admits_def word_less_nat_alt word_unat_eq_iff [of psn]
        Suc_le_eq linorder_not_le linorder_not_less)
qed

text \<open>Which slots survive when the window moves up to a new highest PSN.\<close>

lemma advance_bitmap_wf:
  assumes "rw_wf w" shows "length (advance_bitmap w h psn) = length (bitmap w)"
  by (simp add: advance_bitmap_def Let_def)

lemma advance_bitmap_fresh:
  assumes "rw_rel w {}" "s < ws w"
  shows "\<not> bit_test (advance_bitmap w h psn) s"
proof -
  have wf: "rw_wf w" using assms by (simp add: rw_rel_def)
  have s: "s div 8 < length (bitmap w)" using assms by (simp add: rw_rel_def rw_wf_def bit_index_in_range)
  show ?thesis
    using rw_rel_fresh [OF assms(1)] assms(2) s
    by (simp add: advance_bitmap_def Let_def bit_test_zeros bit_test_clear_many psn_bit_in_bitmap [OF wf])
qed

text \<open>Exactly the slots of the PSNs that leave the window are cleared.\<close>


lemma psn_bit_span:
  assumes "x < y" "i < unat y - unat x"
  shows "psn_bit w (x + 1 + word_of_nat i) = (unat x + 1 + i) mod ws w"
proof -
  have i: "unat x + 1 + i < 2 ^ 64" using assms unat_less_exp [of y] by simp
  then have "unat (word_of_nat i :: u64) = i" by (simp add: unsigned_of_nat take_bit_nat_eq_self)
  then have "unat (x + 1 + word_of_nat i) = unat x + 1 + i"
    using i unat_span(1) [OF assms(1)] by (simp add: unat_word_ariths)
  then show ?thesis by (simp add: psn_bit_eq)
qed

lemma advance_bitmap_slot:
  assumes wf: "rw_wf w" and ini: "initialized w" and s: "s < ws w"
    and lt: "unat h < unat psn"
  shows "bit_test (advance_bitmap w h psn) s \<longleftrightarrow>
     bit_test (bitmap w) s \<and>
     \<not> (\<exists>q. unat h - ws w < q \<and> q \<le> unat psn - ws w \<and> q mod ws w = s)"
proof -
  let ?n = "window_size (rw_policy w)"
  let ?a = "saturating_sub h ?n" and ?b = "saturating_sub psn ?n"
  have ab: "unat ?a = unat h - ws w" "unat ?b = unat psn - ws w" by (simp_all add: sat_nat)
  show ?thesis
  proof (cases "?a < ?b")
    case False
    then have "unat psn - ws w \<le> unat h - ws w" by (simp add: word_less_nat_alt ab)
    with False ini show ?thesis by (auto simp: advance_bitmap_def Let_def)
  next
    case True
    note sp = unat_span [OF True]
    let ?c = "min (?b - ?a) ?n"
    have adv: "advance_bitmap w h psn =
        (if ?n \<le> ?c then map (\<lambda>_. 0) (bitmap w)
         else foldl (\<lambda>bm i. bit_clear bm (psn_bit w (?a + 1 + word_of_nat i))) (bitmap w) [0..<unat ?c])"
      using True ini sp(3) by (simp add: advance_bitmap_def Let_def min_def)
    show ?thesis
    proof (cases "?n \<le> ?b - ?a")
      case big: True
      then have "ws w \<le> unat ?b - unat ?a" by (simp add: word_le_nat_alt sp)
      moreover obtain q where "unat ?a < q" "q \<le> unat ?a + ws w" "q mod ws w = s"
        using ex_slot_in_span [OF s] by blast
      ultimately have "\<exists>q. unat h - ws w < q \<and> q \<le> unat psn - ws w \<and> q mod ws w = s"
        using ab by (intro exI [of _ q]) arith
      moreover have "\<not> bit_test (map (\<lambda>_. 0) (bitmap w)) s"
        using wf s by (simp add: bit_test_zeros rw_wf_def bit_index_in_range)
      ultimately show ?thesis using big by (simp add: adv min_def)
    next
      case small: False
      then have c: "?c = ?b - ?a" by simp
      have "advance_bitmap w h psn =
         foldl (\<lambda>bm i. bit_clear bm (psn_bit w (?a + 1 + word_of_nat i))) (bitmap w) [0..<unat ?b - unat ?a]"
        using small unfolding adv c sp(2) by (simp only: if_False)
      moreover have "bit_test (foldl (\<lambda>bm i. bit_clear bm (psn_bit w (?a + 1 + word_of_nat i)))
           (bitmap w) [0..<unat ?b - unat ?a]) s \<longleftrightarrow>
         (\<forall>i < unat ?b - unat ?a. psn_bit w (?a + 1 + word_of_nat i) \<noteq> s) \<and> bit_test (bitmap w) s"
        by (rule bit_test_clear_many) (rule psn_bit_in_bitmap [OF wf])
      moreover have "(\<forall>i < unat ?b - unat ?a. psn_bit w (?a + 1 + word_of_nat i) \<noteq> s) \<longleftrightarrow>
         (\<forall>i < unat ?b - unat ?a. (unat ?a + 1 + i) mod ws w \<noteq> s)"
        by (intro all_cong) (simp only: psn_bit_span [OF True])
      ultimately have "bit_test (advance_bitmap w h psn) s \<longleftrightarrow>
         (\<forall>i < unat ?b - unat ?a. (unat ?a + 1 + i) mod ws w \<noteq> s) \<and> bit_test (bitmap w) s"
        by (simp only:)
      moreover have "(\<forall>i < unat ?b - unat ?a. (unat ?a + 1 + i) mod ws w \<noteq> s) \<longleftrightarrow>
         \<not> (\<exists>q. unat ?a < q \<and> q \<le> unat ?b \<and> q mod ws w = s)"
        using span_reindex [of "unat ?b" "unat ?a" "\<lambda>q. q mod ws w \<noteq> s"] by blast
      ultimately show ?thesis unfolding ab by blast
    qed
  qed
qed

lemma accept_Ok:
  assumes "1 \<le> unat psn" "unat psn \<le> unat MEASC_PSN_MAX"
  shows "accept w psn = Ok (
     (let h = (if sint (highest_psn w) < 0 then 0 else highest_psn w);
          w1 = (if h < psn \<or> \<not> initialized w
                then w\<lparr>bitmap := advance_bitmap w h psn, highest_psn := psn, initialized := True\<rparr>
                else w)
      in w1\<lparr>bitmap := bit_set (bitmap w1) (psn_bit w1 psn)\<rparr>))"
  using assms by (auto simp: accept_def word_less_nat_alt Let_def)

lemma rw_rel_insert:
  assumes wf: "rw_wf w" and fin: "finite S" and sub: "S \<subseteq> {1..unat MEASC_PSN_MAX}"
    and len: "length bm = length (bitmap w)"
    and p: "1 \<le> unat psn" "unat psn \<le> unat MEASC_PSN_MAX"
    and hw: "unat hw = Max (insert (unat psn) S)"
    and inw: "Max (insert (unat psn) S) < unat psn + ws w"
    and bits: "\<And>s. s < ws w \<Longrightarrow>
      bit_test bm s \<longleftrightarrow> (\<exists>q\<in>S. q mod ws w = s \<and> Max (insert (unat psn) S) < q + ws w)"
  shows "rw_rel (w\<lparr>highest_psn := hw, initialized := True, bitmap := bit_set bm (psn_bit w psn)\<rparr>)
           (insert (unat psn) S)"
proof -
  have ix: "psn_bit w psn div 8 < length bm" using psn_bit_in_bitmap [OF wf] len by simp
  have "bit_test (bit_set bm (psn_bit w psn)) s \<longleftrightarrow>
      (\<exists>q\<in>insert (unat psn) S. q mod ws w = s \<and> Max (insert (unat psn) S) < q + ws w)"
    if "s < ws w" for s
    unfolding bit_test_bit_set [OF ix] bits [OF that] using inw by (simp add: psn_bit_eq)
  then show ?thesis
    using wf fin sub p hw len by (simp add: rw_rel_def rw_wf_def)
qed

lemma accept_first:
  assumes rel: "rw_rel w {}" and psn: "1 \<le> unat psn" "unat psn \<le> unat MEASC_PSN_MAX"
  shows "\<exists>w'. accept w psn = Ok w' \<and> rw_rel w' {unat psn}"
proof -
  note f = rw_rel_fresh [OF rel]
  have wf: "rw_wf w" using rel by (simp add: rw_rel_def)
  have "rw_rel (w\<lparr>highest_psn := psn, initialized := True,
      bitmap := bit_set (advance_bitmap w 0 psn) (psn_bit w psn)\<rparr>) (insert (unat psn) {})"
    by (rule rw_rel_insert [OF wf]) (use wf psn advance_bitmap_fresh [OF rel] in
      \<open>simp_all add: advance_bitmap_wf rw_wf_def\<close>)
  then show ?thesis using f(1,2) by (simp add: accept_Ok [OF psn] psn_bit_def)
qed

lemma accept_forward:
  assumes rel: "rw_rel w S" and ne: "S \<noteq> {}" and psn: "Max S < unat psn" "unat psn \<le> unat MEASC_PSN_MAX"
  shows "\<exists>w'. accept w psn = Ok w' \<and> rw_rel w' (insert (unat psn) S)"
proof -
  note h = rw_rel_highest [OF rel ne]
  have wf: "rw_wf w" and fin: "finite S" and sub: "S \<subseteq> {1..unat MEASC_PSN_MAX}" and ini: "initialized w"
    and bits: "\<And>s. s < ws w \<Longrightarrow> bit_test (bitmap w) s \<longleftrightarrow> (\<exists>p\<in>S. p mod ws w = s \<and> Max S < p + ws w)"
    using rel ne by (simp_all add: rw_rel_def)
  have mx: "Max (insert (unat psn) S) = unat psn"
    unfolding Max_insert [OF fin ne] using psn(1) by (intro max_absorb1 less_imp_le)
  have p1: "1 \<le> unat psn" using psn by simp
  have le: "q \<le> Max S" if "q \<in> S" for q using that fin by simp
  have cleared: "bit_test (advance_bitmap w (highest_psn w) psn) s \<longleftrightarrow>
      (\<exists>q\<in>S. q mod ws w = s \<and> unat psn < q + ws w)" if "s < ws w" for s
  proof -
    have *: "bit_test (advance_bitmap w (highest_psn w) psn) s \<longleftrightarrow>
       (\<exists>p\<in>S. p mod ws w = s \<and> Max S < p + ws w) \<and>
       \<not> (\<exists>q. Max S - ws w < q \<and> q \<le> unat psn - ws w \<and> q mod ws w = s)"
      using advance_bitmap_slot [OF wf ini that, of "highest_psn w" psn] psn(1)
      by (simp add: h(1) bits [OF that])
    have "(\<exists>p\<in>S. p mod ws w = s \<and> Max S < p + ws w) \<and>
       \<not> (\<exists>q. Max S - ws w < q \<and> q \<le> unat psn - ws w \<and> q mod ws w = s) \<longleftrightarrow>
       (\<exists>q\<in>S. q mod ws w = s \<and> unat psn < q + ws w)" (is "?L \<longleftrightarrow> ?R")
    proof
      assume ?L
      then obtain p where p: "p \<in> S" "p mod ws w = s" "Max S < p + ws w"
        and no: "\<not> (Max S - ws w < p \<and> p \<le> unat psn - ws w)" by blast
      have "1 \<le> p" using p(1) sub by auto
      with p(3) no have "unat psn < p + ws w" by arith
      with p show ?R by blast
    next
      assume ?R
      then obtain q where q: "q \<in> S" "q mod ws w = s" "unat psn < q + ws w" by blast
      have False if r: "Max S - ws w < r" "r \<le> unat psn - ws w" "r mod ws w = s" for r
      proof -
        have "r < q" using r q by arith
        moreover have "r = q"
          by (rule window_slot_unique [of r "ws w" q "Max S"]) (use r q le [OF q(1)] \<open>r < q\<close> psn in simp_all)
        ultimately show False by simp
      qed
      with q psn show ?L by force
    qed
    with * show ?thesis by (simp only:)
  qed
  have "rw_rel (w\<lparr>highest_psn := psn, initialized := True,
      bitmap := bit_set (advance_bitmap w (highest_psn w) psn) (psn_bit w psn)\<rparr>) (insert (unat psn) S)"
    by (rule rw_rel_insert [OF wf fin sub]) (use wf psn p1 cleared in
      \<open>simp_all add: advance_bitmap_wf rw_wf_def mx\<close>)
  moreover have "highest_psn w < psn" "\<not> sint (highest_psn w) < 0"
    using psn h by (simp_all add: word_less_nat_alt)
  ultimately show ?thesis by (simp add: accept_Ok [OF p1 psn(2)] psn_bit_def)
qed

lemma accept_backward:
  assumes rel: "rw_rel w S" and ne: "S \<noteq> {}" and psn: "unat psn \<le> Max S" "Max S < unat psn + ws w" "1 \<le> unat psn"
  shows "\<exists>w'. accept w psn = Ok w' \<and> rw_rel w' (insert (unat psn) S)"
proof -
  note h = rw_rel_highest [OF rel ne]
  have wf: "rw_wf w" and fin: "finite S" and sub: "S \<subseteq> {1..unat MEASC_PSN_MAX}" and ini: "initialized w"
    and bits: "\<And>s. s < ws w \<Longrightarrow> bit_test (bitmap w) s \<longleftrightarrow> (\<exists>p\<in>S. p mod ws w = s \<and> Max S < p + ws w)"
    using rel ne by (simp_all add: rw_rel_def)
  have mx: "Max (insert (unat psn) S) = Max S" using psn fin ne by (simp add: max_def)
  have pm: "unat psn \<le> unat MEASC_PSN_MAX" using psn(1) h(4) by (simp add: unat_PSN_MAX)
  have "rw_rel (w\<lparr>highest_psn := highest_psn w, initialized := True,
      bitmap := bit_set (bitmap w) (psn_bit w psn)\<rparr>) (insert (unat psn) S)"
    by (rule rw_rel_insert [OF wf fin sub]) (use psn pm bits h in \<open>simp_all add: mx\<close>)
  moreover have "\<not> highest_psn w < psn" "\<not> sint (highest_psn w) < 0"
    using psn h by (simp_all add: word_less_nat_alt)
  moreover have "w\<lparr>highest_psn := highest_psn w, initialized := True\<rparr> = w"
    using ini by (cases w) simp
  ultimately show ?thesis using ini by (simp only: accept_Ok [OF psn(3) pm]) simp
qed

lemma accept_refines:
  assumes rel: "rw_rel w S" and adm: "spec_admits (rw_policy w) S (unat psn)"
  shows "\<exists>w'. accept w psn = Ok w' \<and> rw_rel w' (insert (unat psn) S)"
proof (cases "S = {}")
  case True
  with assms show ?thesis using accept_first [of w psn] by (simp add: spec_admits_def)
next
  case False
  with adm have "unat psn \<le> unat MEASC_PSN_MAX" "Max S < unat psn + ws w" "1 \<le> unat psn"
    by (simp_all add: spec_admits_def)
  then show ?thesis
    using accept_forward [OF rel False] accept_backward [OF rel False] linorder_not_le by blast
qed

text \<open>The anomaly bookkeeping of \<open>check\<close> touches neither the bitmap nor the policy.\<close>

lemma rw_rel_cong:
  assumes "rw_policy w' = rw_policy w" "bitmap w' = bitmap w" "highest_psn w' = highest_psn w"
    "initialized w' = initialized w"
  shows "rw_rel w' S \<longleftrightarrow> rw_rel w S"
  using assms by (simp add: rw_rel_def rw_wf_def)

lemma check_anomaly_frame:
  "rw_policy (fst (check_anomaly now w)) = rw_policy w"
  "bitmap (fst (check_anomaly now w)) = bitmap w"
  "highest_psn (fst (check_anomaly now w)) = highest_psn w"
  "initialized (fst (check_anomaly now w)) = initialized w"
  "grace_period_locked (fst (check_anomaly now w)) = grace_period_locked w"
  by (simp_all add: check_anomaly_def record_anomaly_def Let_def split: AnomalyPolicy.split option.split)

lemma check_cases:
  "check now w psn = (if \<not> fst (peek w psn) then (w, peek w psn)
     else if is_anomalous w psn then check_anomaly now w else (w, True, ''ok''))"
  by (cases "peek w psn") (simp add: check_def)

lemma check_frame:
  "rw_policy (fst (check now w psn)) = rw_policy w"
  "rw_rel (fst (check now w psn)) S \<longleftrightarrow> rw_rel w S"
  "grace_period_locked (fst (check now w psn)) = grace_period_locked w"
  by (simp_all add: check_cases check_anomaly_frame rw_rel_cong [OF check_anomaly_frame(1-4)])

lemma accept_frame:
  "accept w psn = Ok w' \<Longrightarrow> rw_policy w' = rw_policy w \<and> quarantined w' = quarantined w
     \<and> grace_period_locked w' = grace_period_locked w"
  by (auto simp: accept_def Let_def split: if_splits)

lemma check_ok_admits:
  assumes "rw_rel w S" "fst (snd (check now w psn))"
  shows "spec_admits (rw_policy w) S (unat psn)"
  using assms peek_iff_spec [OF assms(1), of psn] by (simp add: check_cases split: if_splits)

lemma check_and_accept_cases:
  "check_and_accept now w psn =
     (if fst (snd (check now w psn))
      then (case accept (fst (check now w psn)) psn of Inl _ \<Rightarrow> fst (check now w psn) | Inr w2 \<Rightarrow> w2,
            snd (check now w psn))
      else check now w psn)"
  by (cases "check now w psn") (simp add: check_and_accept_def split: sum.split)

lemma check_and_accept_admitted:
  assumes "rw_rel w S" "check_and_accept now w psn = (w', True, r)"
  shows "spec_admits (rw_policy w) S (unat psn)" "rw_rel w' (insert (unat psn) S)"
    "accept (fst (check now w psn)) psn = Ok w'"
proof -
  let ?w1 = "fst (check now w psn)"
  have ok: "fst (snd (check now w psn))" using assms(2) by (auto simp: check_and_accept_cases split: if_splits)
  then show adm: "spec_admits (rw_policy w) S (unat psn)" using assms(1) check_ok_admits by blast
  have "rw_rel ?w1 S" using assms(1) by (simp add: check_frame)
  then obtain w2 where "accept ?w1 psn = Ok w2" "rw_rel w2 (insert (unat psn) S)"
    using accept_refines [of ?w1 S psn] adm by (auto simp: check_frame)
  then show "rw_rel w' (insert (unat psn) S)" "accept ?w1 psn = Ok w'"
    using assms(2) ok by (simp_all add: check_and_accept_cases)
qed

lemma check_and_accept_rejected:
  assumes "rw_rel w S" "check_and_accept now w psn = (w', False, r)"
  shows "rw_rel w' S"
proof -
  have "check now w psn = (w', False, r)"
    using assms(2) by (auto simp: check_and_accept_cases split: if_splits)
  with assms(1) show ?thesis using check_frame(2) [of now w psn S] by simp
qed

lemma check_Allow_ok:
  assumes "rw_rel w S" "anomaly_policy (rw_policy w) = Allow"
  shows "fst (snd (check now w psn)) \<longleftrightarrow> \<not> quarantined w \<and> spec_admits (rw_policy w) S (unat psn)"
  using peek_iff_spec [OF assms(1), of psn] assms(2)
  by (auto simp: check_cases check_anomaly_def)

lemma new_replay_window_rel: "0 < unat (window_size p) \<Longrightarrow> rw_rel (new_replay_window now p) {}"
  by (simp add: rw_rel_def rw_wf_def new_replay_window_def bit_test_iff bit_index_in_range)

lemma reset_replay_window_rel:
  assumes "rw_wf w" "reset_replay_window w = Ok w'"
  shows "rw_rel w' {}" "\<not> quarantined w'" "rw_policy w' = rw_policy w"
  using assms by (auto simp: reset_replay_window_def rw_rel_def rw_wf_def bit_test_iff bit_index_in_range split: if_splits)

lemma clamp_fields:
  "1 \<le> window_size (clamp p)" "max_advance (clamp p) < window_size (clamp p)"
  "1 \<le> anomaly_jump_threshold (clamp p)"
  "1 < max_advance (clamp p) \<Longrightarrow> anomaly_jump_threshold (clamp p) < max_advance (clamp p)"
proof -
  have one: "1 \<le> window_size (clamp_window_size p)"
    by (auto simp: clamp_window_size_def word_le_nat_alt word_less_nat_alt)
  then have lt: "max_advance (clamp_max_advance (clamp_window_size p)) < window_size (clamp_max_advance (clamp_window_size p))"
    and wz: "window_size (clamp_max_advance (clamp_window_size p)) = window_size (clamp_window_size p)"
    by (auto simp: clamp_max_advance_def word_less_nat_alt word_le_nat_alt sat_nat)
  have keep: "window_size (clamp_threshold q) = window_size q" "max_advance (clamp_threshold q) = max_advance q" for q
    by (simp_all add: clamp_threshold_def Let_def)
  show "1 \<le> window_size (clamp p)" "max_advance (clamp p) < window_size (clamp p)"
    using one lt wz by (simp_all add: clamp_def keep)
  show "1 \<le> anomaly_jump_threshold (clamp p)"
    by (auto simp: clamp_def clamp_threshold_def Let_def max_def word_le_nat_alt word_less_nat_alt unat_gt_0 Suc_le_eq)
  have half: "max (m div 2) 1 < m" if "1 < m" for m :: u64
    using that by (auto simp: max_def word_less_nat_alt unat_div)
  show "1 < max_advance (clamp p) \<Longrightarrow> anomaly_jump_threshold (clamp p) < max_advance (clamp p)"
    using half by (auto simp: clamp_def clamp_threshold_def Let_def)
qed

interpretation rwg: replay_guard rw_step "\<lambda>x. unat (snd x)" rw_rel "\<lambda>_. True"
proof
  fix s H x s'
  assume rel: "rw_rel s H"
  { assume "rw_step s x = (s', True)"
    then obtain r where "check_and_accept (fst x) s (snd x) = (s', True, r)"
      by (auto simp: rw_step_def split: prod.splits)
    from check_and_accept_admitted(1,2) [OF rel this]
    show "unat (snd x) \<notin> H \<and> rw_rel s' (insert (unat (snd x)) H)"
      by (auto simp: spec_admits_def) }
  { assume "rw_step s x = (s', False)"
    then obtain r where "check_and_accept (fst x) s (snd x) = (s', False, r)"
      by (auto simp: rw_step_def split: prod.splits)
    from check_and_accept_rejected [OF rel this] show "rw_rel s' H" . }
qed

lemma rw_step_regular:
  assumes "rw_rel w S" "\<not> is_anomalous w psn" "\<not> quarantined w"
    "spec_admits (rw_policy w) S (unat psn)"
  obtains w' where "rw_step w (now, psn) = (w', True)" "rw_rel w' (insert (unat psn) S)"
    "rw_policy w' = rw_policy w" "\<not> quarantined w'"
proof -
  obtain w' ok r where c: "check_and_accept now w psn = (w', ok, r)" by (metis prod_cases3)
  have ck: "check now w psn = (w, True, ''ok'')"
    using peek_iff_spec [OF assms(1), of psn] assms(2-4) by (simp add: check_cases)
  with c have ok by (simp add: check_and_accept_cases)
  note a = check_and_accept_admitted [OF assms(1), of now psn w' r]
  have acc: "accept (fst (check now w psn)) psn = Ok w'" using a(3) c \<open>ok\<close> by simp
  with accept_frame [OF acc] have "rw_policy w' = rw_policy w" "\<not> quarantined w'"
    using assms(3) ck by simp_all
  moreover have "rw_step w (now, psn) = (w', True)" using c \<open>ok\<close> by (simp add: rw_step_def)
  moreover have "rw_rel w' (insert (unat psn) S)" using a(2) c \<open>ok\<close> by simp
  ultimately show ?thesis using that by blast
qed

lemma rw_run_fresh:
  assumes "rw_rel w S"
  shows "distinct (map (\<lambda>x. unat (snd x)) (snd (run_guard rw_step w arrivals))) \<and>
    rw_rel (fst (run_guard rw_step w arrivals)) ((\<lambda>x. unat (snd x)) ` set (snd (run_guard rw_step w arrivals)) \<union> S)"
proof -
  have "list_all (\<lambda>_. True) arrivals" by (simp add: list_all_iff)
  moreover have "run_guard rw_step w arrivals
      = (fst (run_guard rw_step w arrivals), snd (run_guard rw_step w arrivals))" by simp
  ultimately show ?thesis using rwg.run_admits_fresh [OF assms] by blast
qed

section \<open>Properties\<close>

text \<open>C3. The bitmap window refines the set of accepted PSNs. When \<open>check_and_accept\<close> says yes,
  the PSN was admissible for the whole history and is added to it; when it says no, the history is
  unchanged; and unless the anomaly policy interferes, it says yes exactly when the window is not
  quarantined and the specification admits the PSN.\<close>

theorem check_and_accept_refines:
  assumes "rw_rel w S" "check_and_accept now w psn = (w', ok, reason)"
  shows "(if ok then spec_admits (rw_policy w) S (unat psn) \<and> rw_rel w' (insert (unat psn) S)
          else rw_rel w' S) \<and>
     (anomaly_policy (rw_policy w) = Allow \<or> \<not> is_anomalous w psn \<longrightarrow>
        ok = (\<not> quarantined w \<and> spec_admits (rw_policy w) S (unat psn)))"
proof -
  have ok: "ok = fst (snd (check now w psn))"
    using assms(2) by (auto simp: check_and_accept_cases split: if_splits)
  have "\<not> is_anomalous w psn \<Longrightarrow>
      fst (snd (check now w psn)) = (\<not> quarantined w \<and> spec_admits (rw_policy w) S (unat psn))"
    using peek_iff_spec [OF assms(1), of psn] by (simp add: check_cases)
  then show ?thesis
    using check_Allow_ok [OF assms(1)] check_and_accept_admitted [OF assms(1)]
      check_and_accept_rejected [OF assms(1)] assms(2) ok
    by (cases ok) auto
qed

theorem check_and_accept_refines_witness:
  "fst (snd (check_and_accept 0 (new_replay_window 0 small_policy) 3)) \<and>
   rw_rel (fst (check_and_accept 0 (new_replay_window 0 small_policy) 3)) {unat (3 :: u64)}"
proof -
  let ?w = "new_replay_window 0 small_policy"
  have rel: "rw_rel ?w {}" by (rule new_replay_window_rel) (simp add: small_policy_def)
  have ok: "fst (snd (check_and_accept 0 ?w 3))" by code_simp
  have eq: "check_and_accept 0 ?w 3 =
      (fst (check_and_accept 0 ?w 3), fst (snd (check_and_accept 0 ?w 3)), snd (snd (check_and_accept 0 ?w 3)))"
    by simp
  from check_and_accept_refines [OF rel eq] ok show ?thesis by simp
qed

text \<open>C1. No PSN is accepted twice by a window, whatever PSNs arrive, in whatever order and
  at whatever times.\<close>

theorem rw_no_replay:
  assumes "1 \<le> window_size p"
  shows "distinct (map snd (snd (run_guard rw_step (new_replay_window now p) arrivals)))"
proof -
  have "0 < unat (window_size p)" using assms by (simp add: word_le_nat_alt)
  from rw_run_fresh [OF new_replay_window_rel [OF this]]
  have "distinct (map (\<lambda>x. unat (snd x)) (snd (run_guard rw_step (new_replay_window now p) arrivals)))"
    by blast
  then show ?thesis by (auto simp: distinct_map inj_on_def)
qed

theorem rw_no_replay_witness:
  "distinct (map snd (snd (run_guard rw_step (new_replay_window 0 small_policy)
     [(0, 1), (1, 2), (2, 1), (3, 5), (4, 2), (5, 4)]))) \<and>
   map snd (snd (run_guard rw_step (new_replay_window 0 small_policy)
     [(0, 1), (1, 2), (2, 1), (3, 5), (4, 2), (5, 4)])) = [1, 2, 5, 4]"
proof
  have "1 \<le> window_size small_policy" by (simp add: small_policy_def)
  then show "distinct (map snd (snd (run_guard rw_step (new_replay_window 0 small_policy)
     [(0, 1), (1, 2), (2, 1), (3, 5), (4, 2), (5, 4)])))" by (rule rw_no_replay)
  show "map snd (snd (run_guard rw_step (new_replay_window 0 small_policy)
     [(0, 1), (1, 2), (2, 1), (3, 5), (4, 2), (5, 4)])) = [1, 2, 5, 4]" by code_simp
qed

text \<open>Traffic that arrives in order is never dropped: a fresh window accepts the PSNs
  1, 2, ..., n for every n up to the largest PSN, under every anomaly policy.\<close>

lemma rw_in_order:
  assumes p: "1 \<le> window_size p" "1 \<le> max_advance p" "1 \<le> anomaly_jump_threshold p"
    and n: "n \<le> unat MEASC_PSN_MAX"
  shows "snd (run_guard rw_step (new_replay_window t p)
             (map (\<lambda>i. (clock i, word_of_nat (Suc i))) [0..<n]))
         = map (\<lambda>i. (clock i, word_of_nat (Suc i))) [0..<n]"
proof -
  let ?w0 = "new_replay_window t p"
  have "\<exists>w. run_guard rw_step ?w0 (map (\<lambda>i. (clock i, word_of_nat (Suc i))) [0..<n])
            = (w, map (\<lambda>i. (clock i, word_of_nat (Suc i))) [0..<n])
          \<and> rw_rel w {1..n} \<and> rw_policy w = p \<and> \<not> quarantined w"
    using n
  proof (induction n)
    case 0
    have "rw_rel ?w0 {}" using p(1) by (intro new_replay_window_rel) (simp add: word_le_nat_alt)
    then show ?case by (simp add: new_replay_window_def)
  next
    case (Suc n)
    then obtain w where w: "run_guard rw_step ?w0 (map (\<lambda>i. (clock i, word_of_nat (Suc i))) [0..<n])
            = (w, map (\<lambda>i. (clock i, word_of_nat (Suc i))) [0..<n])"
      "rw_rel w {1..n}" "rw_policy w = p" "\<not> quarantined w" by auto
    have u: "unat (word_of_nat (Suc n) :: u64) = Suc n"
      using Suc.prems by (simp add: unsigned_of_nat take_bit_nat_eq_self unat_PSN_MAX del: of_nat_Suc)
    have mx: "Max {Suc 0..n} = n" if "Suc 0 \<le> n" using that by (intro Max_eqI) auto
    have "spec_admits (rw_policy w) {1..n} (unat (word_of_nat (Suc n) :: u64))"
      using Suc.prems p(1,2) w(3) mx unfolding u by (simp add: spec_admits_def word_le_nat_alt)
    moreover have "\<not> is_anomalous w (word_of_nat (Suc n))"
    proof (cases "n = 0")
      case True
      with w(2) have "highest_psn w = - 1" by (simp add: rw_rel_def)
      then show ?thesis by (simp add: is_anomalous_def)
    next
      case False
      with rw_rel_highest(1) [OF w(2)] have "unat (highest_psn w) = n" using mx by simp
      then show ?thesis
        using u p(3) w(3) unat_less_exp [of "word_of_nat (Suc n) :: u64"]
        by (auto simp: is_anomalous_def word_less_nat_alt word_le_nat_alt sat_nat min_def simp del: of_nat_Suc)
    qed
    ultimately obtain w' where "rw_step w (clock n, word_of_nat (Suc n)) = (w', True)"
      "rw_rel w' (insert (unat (word_of_nat (Suc n) :: u64)) {1..n})" "rw_policy w' = p" "\<not> quarantined w'"
      using rw_step_regular [OF w(2), of "word_of_nat (Suc n)" "clock n"] w(3,4) by metis
    then show ?case
      using w(1) unfolding u by (simp add: run_guard_append atLeastAtMostSuc_conv del: of_nat_Suc)
  qed
  then show ?thesis by auto
qed



text \<open>A window that is locked for a grace period cannot be reset; an unlocked one is reset
  to the empty history and leaves quarantine.\<close>

lemma replay_window_reset:
  assumes "rw_rel w S"
  shows "reset_replay_window (lock_for_grace_period w) = Err SchemaMismatch \<and>
    (if grace_period_locked w then reset_replay_window w = Err SchemaMismatch
     else \<exists>w'. reset_replay_window w = Ok w' \<and> rw_rel w' {} \<and> \<not> quarantined w')"
proof -
  have wf: "rw_wf w" using assms by (simp add: rw_rel_def)
  have "\<exists>w'. reset_replay_window w = Ok w' \<and> rw_rel w' {} \<and> \<not> quarantined w'"
    if unlocked: "\<not> grace_period_locked w"
  proof -
    obtain w' where "reset_replay_window w = Ok w'" using unlocked by (simp add: reset_replay_window_def)
    with reset_replay_window_rel [OF wf this] show ?thesis by blast
  qed
  then show ?thesis by (simp add: reset_replay_window_def lock_for_grace_period_def)
qed

text \<open>Clamping a policy makes it usable for a window: at least one slot, the largest advance
  below the window size (so an accepted PSN never pushes the previous highest out of the
  window), a positive anomaly threshold, below the largest advance whenever that exceeds one.
  The window built from any clamped policy starts in the empty history.\<close>

lemma clamp_makes_usable:
  "1 \<le> window_size (clamp p) \<and> max_advance (clamp p) < window_size (clamp p) \<and>
   1 \<le> anomaly_jump_threshold (clamp p) \<and>
   (max_advance (clamp p) \<le> 1 \<or> anomaly_jump_threshold (clamp p) < max_advance (clamp p)) \<and>
   rw_rel (new_replay_window now (clamp p)) {}"
proof -
  have "0 < unat (window_size (clamp p))" using clamp_fields(1) [of p] by (simp add: word_le_nat_alt)
  then have "rw_rel (new_replay_window now (clamp p)) {}" by (rule new_replay_window_rel)
  then show ?thesis using clamp_fields [of p] linorder_not_le by blast
qed

end
