(* ===== verification/Session_Epochs.thy ===== *)
theory Session_Epochs
  imports Replay_Window
begin

text \<open>
  Sessions, epochs and keys of \<open>src/measc.rs\<close>: \<open>PacketSequencer\<close>, \<open>KeyEvolutionEngine\<close>,
  \<open>derive_iv\<close>, \<open>SessionEpoch\<close> and \<open>SessionEpochManager\<close>. HKDF-SHA256 is the argument
  \<open>hkdf salt ikm info len\<close> (extract and expand) and \<open>hkdf_expand prk info len\<close>
  (\<open>from_prk\<close> and expand). A method of the manager is one atomic step on the record
  \<open>SessionEpochManager\<close>; it reads the clock once (\<open>now\<close>).

  The invariant \<open>mgr_wf\<close> says that the three tables describe the same sessions, that the table
  is within its cap, and that each session has exactly one live epoch, the current one. The
  reference \<open>key_schedule\<close> gives the root and traffic key of epoch \<open>n\<close>; the manager computes it.
\<close>

section \<open>Sequencer and key derivation\<close>

definition MEASC_EPOCH_GRACE_PERIOD_SECONDS :: secs where
  "MEASC_EPOCH_GRACE_PERIOD_SECONDS = 60"

definition MEASC_MAX_TRACKED_SESSIONS :: nat where
  "MEASC_MAX_TRACKED_SESSIONS = 4096"

definition MEASC_UNAUTH_SESSION_IDLE_SECS :: secs where
  "MEASC_UNAUTH_SESSION_IDLE_SECS = 60"

definition MEASC_AUTH_SESSION_IDLE_SECS :: secs where
  "MEASC_AUTH_SESSION_IDLE_SECS = 1800"

text \<open>The sequencer is its one counter.\<close>

definition next_psn :: "u64 \<Rightarrow> (u64 \<times> u64) result" where
  "next_psn psn = (if MEASC_PSN_MAX \<le> psn then Err SequenceOverflow else Ok (psn, psn + 1))"

type_synonym hkdf = "bytes \<Rightarrow> bytes \<Rightarrow> bytes \<Rightarrow> nat \<Rightarrow> bytes"
type_synonym hkdf_expand = "bytes \<Rightarrow> bytes \<Rightarrow> nat \<Rightarrow> bytes"

definition HKDF_EPOCH_KEY_INFO_PREFIX :: bytes where
  "HKDF_EPOCH_KEY_INFO_PREFIX = str_bytes ''SAACP-MEASC-epoch-key-v1''"

definition HKDF_IV_INFO_PREFIX :: bytes where
  "HKDF_IV_INFO_PREFIX = str_bytes ''SAACP-MEASC-iv-v1''"

definition ROOT_RATCHET_INFO_PREFIX :: bytes where
  "ROOT_RATCHET_INFO_PREFIX = str_bytes ''SAACP-MEASC-root-ratchet-v1''"

definition ratchet_info :: "u32 \<Rightarrow> bytes" where
  "ratchet_info new_epoch_id = ROOT_RATCHET_INFO_PREFIX @ to_be_bytes 4 new_epoch_id"

definition epoch_key_info :: "u32 \<Rightarrow> bytes" where
  "epoch_key_info epoch_id = HKDF_EPOCH_KEY_INFO_PREFIX @ to_be_bytes 4 epoch_id"

definition iv_info :: "u32 \<Rightarrow> u64 \<Rightarrow> bytes" where
  "iv_info epoch_id psn = HKDF_IV_INFO_PREFIX @ to_be_bytes 4 epoch_id @ to_be_bytes 8 psn"

definition ratchet_root :: "hkdf \<Rightarrow> bytes \<Rightarrow> bytes \<Rightarrow> bytes \<Rightarrow> u32 \<Rightarrow> bytes" where
  "ratchet_root hkdf old_root current_traffic_key session_id new_epoch_id =
     hkdf session_id (xor_bytes old_root current_traffic_key) (ratchet_info new_epoch_id) 32"

definition derive_epoch_key :: "hkdf \<Rightarrow> bytes \<Rightarrow> bytes \<Rightarrow> u32 \<Rightarrow> bytes option \<Rightarrow> bytes" where
  "derive_epoch_key hkdf session_secret session_id epoch_id prev_key =
     (case prev_key of
        Some pk \<Rightarrow> hkdf session_id (xor_bytes session_secret pk) (epoch_key_info epoch_id) 32
      | None \<Rightarrow> hkdf session_id session_secret (epoch_key_info epoch_id) 32)"

definition derive_iv :: "hkdf_expand \<Rightarrow> bytes \<Rightarrow> u32 \<Rightarrow> u64 \<Rightarrow> bytes" where
  "derive_iv hkdf_expand traffic_key epoch_id psn = hkdf_expand traffic_key (iv_info epoch_id psn) 12"

section \<open>Epochs\<close>

record SessionEpoch =
  se_session_id :: bytes
  se_epoch_id :: u32
  traffic_key :: bytes
  created_at :: secs
  packet_threshold :: u64
  time_threshold :: secs
  replay_window :: ReplayWindow
  sequencer :: u64
  destroyed :: bool
  in_grace_period :: bool

definition new_session_epoch :: "secs \<Rightarrow> bytes \<Rightarrow> u32 \<Rightarrow> bytes \<Rightarrow> u64 \<Rightarrow> secs \<Rightarrow> SessionEpoch" where
  "new_session_epoch now session_id epoch_id key threshold time_threshold_secs =
     \<lparr>se_session_id = session_id, se_epoch_id = epoch_id, traffic_key = key, created_at = now,
      packet_threshold = threshold, time_threshold = time_threshold_secs,
      replay_window = new_replay_window now default_policy, sequencer = 1,
      destroyed = False, in_grace_period = False\<rparr>"

definition epoch_traffic_key :: "SessionEpoch \<Rightarrow> bytes result" where
  "epoch_traffic_key e = (if destroyed e then Err EpochExpired else Ok (traffic_key e))"

definition should_rotate :: "secs \<Rightarrow> SessionEpoch \<Rightarrow> bool" where
  "should_rotate now e \<longleftrightarrow>
     \<not> destroyed e \<and> (packet_threshold e \<le> sequencer e \<or> time_threshold e \<le> max 0 (now - created_at e))"

definition enter_grace_period :: "SessionEpoch \<Rightarrow> SessionEpoch" where
  "enter_grace_period e =
     e\<lparr>in_grace_period := True, replay_window := lock_for_grace_period (replay_window e)\<rparr>"

definition destroy_epoch :: "SessionEpoch \<Rightarrow> SessionEpoch" where
  "destroy_epoch e =
     (if \<not> destroyed e
      then e\<lparr>traffic_key := map (\<lambda>_. 0) (traffic_key e), destroyed := True\<rparr> else e)"

section \<open>The session table\<close>

record SessionMeta =
  secret :: bytes
  current_epoch :: u32
  sm_packet_threshold :: u64
  time_threshold_secs :: secs
  suite_transcript_hash_hex :: string
  last_active :: secs
  authenticated :: bool

record SessionEpochManager =
  sessions :: "(bytes, (u32, SessionEpoch) hmap) hmap"
  meta :: "(bytes, SessionMeta) hmap"
  grace :: "(bytes, (u32, secs) hmap) hmap"
  session_cap :: nat
  unauth_idle_secs :: secs
  auth_idle_secs :: secs
  root_ratchet :: bool

definition new_epoch_manager :: SessionEpochManager where
  "new_epoch_manager =
     \<lparr>sessions = [], meta = [], grace = [], session_cap = MEASC_MAX_TRACKED_SESSIONS,
      unauth_idle_secs = MEASC_UNAUTH_SESSION_IDLE_SECS,
      auth_idle_secs = MEASC_AUTH_SESSION_IDLE_SECS, root_ratchet = True\<rparr>"

definition without_root_ratchet :: "SessionEpochManager \<Rightarrow> SessionEpochManager" where
  "without_root_ratchet m = m\<lparr>root_ratchet := False\<rparr>"

definition with_root_ratchet :: "SessionEpochManager \<Rightarrow> SessionEpochManager" where
  "with_root_ratchet m = m\<lparr>root_ratchet := True\<rparr>"

definition with_session_cap :: "nat \<Rightarrow> SessionEpochManager \<Rightarrow> SessionEpochManager" where
  "with_session_cap cap m = m\<lparr>session_cap := max cap 1\<rparr>"

definition with_idle_ttls :: "secs \<Rightarrow> secs \<Rightarrow> SessionEpochManager \<Rightarrow> SessionEpochManager" where
  "with_idle_ttls unauth auth m =
     m\<lparr>unauth_idle_secs := max unauth (1 / 1000), auth_idle_secs := max auth (1 / 1000)\<rparr>"

definition create_session ::
  "hkdf \<Rightarrow> secs \<Rightarrow> SessionEpochManager \<Rightarrow> bytes \<Rightarrow> bytes \<Rightarrow> u64 \<Rightarrow> secs \<Rightarrow> bytes option
     \<Rightarrow> (SessionEpochManager \<times> u32) result" where
  "create_session hkdf now m session_id session_secret threshold time_secs suite_transcript_hash =
     (let (bound_secret, suite_hex) =
            (case suite_transcript_hash of
               Some tx_hash \<Rightarrow> (hkdf tx_hash session_secret (str_bytes ''SAACP-suite-binding'') 32,
                                hex_encode tx_hash)
             | None \<Rightarrow> (session_secret, []));
          initial_key = derive_epoch_key hkdf bound_secret session_id 0 None;
          epoch = new_session_epoch now session_id 0 initial_key threshold time_secs
      in if contains_key (sessions m) session_id then Err SchemaMismatch
         else if session_cap m \<le> length (sessions m) then Err CircuitBreakerOpen
         else Ok (m\<lparr>sessions := AList.update session_id [(0, epoch)] (sessions m),
                    meta := AList.update session_id
                      \<lparr>secret = bound_secret, current_epoch = 0, sm_packet_threshold = threshold,
                       time_threshold_secs = time_secs, suite_transcript_hash_hex = suite_hex,
                       last_active = now, authenticated = False\<rparr> (meta m),
                    grace := AList.update session_id [] (grace m)\<rparr>, 0))"

definition get_session_epoch :: "SessionEpochManager \<Rightarrow> bytes \<Rightarrow> u32 \<Rightarrow> SessionEpoch option" where
  "get_session_epoch m session_id epoch_id =
     Option.bind (map_of (sessions m) session_id) (\<lambda>eps. map_of eps epoch_id)"

definition with_epoch :: "SessionEpochManager \<Rightarrow> bytes \<Rightarrow> u32 \<Rightarrow> (SessionEpoch \<Rightarrow> 'r) \<Rightarrow> 'r option" where
  "with_epoch m session_id epoch_id f = map_option f (get_session_epoch m session_id epoch_id)"

text \<open>Writing an epoch back, the state change of \<open>with_epoch_mut\<close>.\<close>

definition put_epoch :: "SessionEpochManager \<Rightarrow> bytes \<Rightarrow> u32 \<Rightarrow> SessionEpoch \<Rightarrow> SessionEpochManager" where
  "put_epoch m session_id epoch_id e =
     (case map_of (sessions m) session_id of
        None \<Rightarrow> m
      | Some eps \<Rightarrow> m\<lparr>sessions := AList.update session_id (AList.update epoch_id e eps) (sessions m)\<rparr>)"

definition with_epoch_mut ::
  "SessionEpochManager \<Rightarrow> bytes \<Rightarrow> u32 \<Rightarrow> (SessionEpoch \<Rightarrow> SessionEpoch \<times> 'r)
     \<Rightarrow> SessionEpochManager \<times> 'r option" where
  "with_epoch_mut m session_id epoch_id f =
     (case get_session_epoch m session_id epoch_id of
        None \<Rightarrow> (m, None)
      | Some e \<Rightarrow> (let (e', r) = f e in (put_epoch m session_id epoch_id e', Some r)))"

definition get_current_epoch_id :: "SessionEpochManager \<Rightarrow> bytes \<Rightarrow> u32 option" where
  "get_current_epoch_id m session_id = map_option current_epoch (map_of (meta m) session_id)"

definition list_epoch_ids :: "SessionEpochManager \<Rightarrow> bytes \<Rightarrow> u32 list" where
  "list_epoch_ids m session_id =
     (case map_of (sessions m) session_id of Some eps \<Rightarrow> sort (map fst eps) | None \<Rightarrow> [])"

text \<open>The table updates of \<open>rotate_epoch\<close>, in its order: insert the new epoch, advance the
  metadata, start the old epoch's grace entry, then lock and destroy the old epoch.\<close>

definition rotate_commit ::
  "secs \<Rightarrow> SessionEpochManager \<Rightarrow> bytes \<Rightarrow> u32 \<Rightarrow> u32 \<Rightarrow> SessionEpoch \<Rightarrow> bytes option \<Rightarrow> SessionEpochManager" where
  "rotate_commit now m session_id current_id new_epoch_id new_epoch ratcheted_root =
     (let m1 = put_epoch m session_id new_epoch_id new_epoch;
          m2 = (case map_of (meta m1) session_id of
                  Some me \<Rightarrow>
                    (let me1 = me\<lparr>current_epoch := new_epoch_id\<rparr>;
                         me2 = (case ratcheted_root of Some r \<Rightarrow> me1\<lparr>secret := r\<rparr> | None \<Rightarrow> me1)
                     in m1\<lparr>meta := AList.update session_id me2 (meta m1)\<rparr>)
                | None \<Rightarrow> m1);
          gr = (case map_of (grace m2) session_id of Some g \<Rightarrow> g | None \<Rightarrow> []);
          m3 = m2\<lparr>grace := AList.update session_id (AList.update current_id now gr) (grace m2)\<rparr>
      in case get_session_epoch m3 session_id current_id of
           Some old \<Rightarrow> put_epoch m3 session_id current_id (destroy_epoch (enter_grace_period old))
         | None \<Rightarrow> m3)"

definition rotate_epoch ::
  "hkdf \<Rightarrow> secs \<Rightarrow> SessionEpochManager \<Rightarrow> bytes \<Rightarrow> (SessionEpochManager \<times> u32) result" where
  "rotate_epoch hkdf now m session_id =
     (case map_of (meta m) session_id of
        None \<Rightarrow> Err EpochExpired
      | Some me \<Rightarrow>
          (case map_of (sessions m) session_id of
             None \<Rightarrow> Err EpochExpired
           | Some ep_map \<Rightarrow>
               (case map_of ep_map (current_epoch me) of
                  None \<Rightarrow> Err EpochExpired
                | Some epoch \<Rightarrow>
                    and_then (epoch_traffic_key epoch) (\<lambda>prev_key.
                      case checked_add (current_epoch me) 1 of
                        None \<Rightarrow> Err SequenceOverflow
                      | Some new_epoch_id \<Rightarrow>
                          (let ratcheted_root =
                                 (if root_ratchet m
                                  then Some (ratchet_root hkdf (secret me) prev_key session_id new_epoch_id)
                                  else None);
                               engine_secret = (case ratcheted_root of Some r \<Rightarrow> r | None \<Rightarrow> secret me);
                               new_key = derive_epoch_key hkdf engine_secret session_id new_epoch_id (Some prev_key);
                               new_epoch = new_session_epoch now session_id new_epoch_id new_key
                                             (sm_packet_threshold me) (time_threshold_secs me)
                           in Ok (rotate_commit now m session_id (current_epoch me) new_epoch_id
                                    new_epoch ratcheted_root, new_epoch_id))))))"

definition check_and_rotate ::
  "hkdf \<Rightarrow> secs \<Rightarrow> SessionEpochManager \<Rightarrow> bytes \<Rightarrow> SessionEpochManager \<times> u32 option" where
  "check_and_rotate hkdf now m session_id =
     (case get_current_epoch_id m session_id of
        None \<Rightarrow> (m, None)
      | Some current_id \<Rightarrow>
          (case with_epoch m session_id current_id (should_rotate now) of
             None \<Rightarrow> (m, None)
           | Some should \<Rightarrow>
               if should then (case rotate_epoch hkdf now m session_id of
                                 Inr (m', e) \<Rightarrow> (m', Some e) | Inl _ \<Rightarrow> (m, None))
               else (m, None)))"

text \<open>The removed epochs are destroyed as they are dropped; they are in no table any more.\<close>

definition destroy_session :: "SessionEpochManager \<Rightarrow> bytes \<Rightarrow> SessionEpochManager" where
  "destroy_session m session_id =
     m\<lparr>sessions := AList.delete session_id (sessions m),
       meta := AList.delete session_id (meta m),
       grace := AList.delete session_id (grace m)\<rparr>"

definition note_authenticated :: "secs \<Rightarrow> SessionEpochManager \<Rightarrow> bytes \<Rightarrow> SessionEpochManager" where
  "note_authenticated now m session_id =
     (case map_of (meta m) session_id of
        Some me \<Rightarrow> m\<lparr>meta := AList.update session_id (me\<lparr>last_active := now, authenticated := True\<rparr>) (meta m)\<rparr>
      | None \<Rightarrow> m)"

definition is_idle :: "secs \<Rightarrow> SessionEpochManager \<Rightarrow> SessionMeta \<Rightarrow> bool" where
  "is_idle now m me \<longleftrightarrow>
     (let idle_for = max 0 (now - last_active me)
      in if authenticated me then auth_idle_secs m \<le> idle_for else unauth_idle_secs m \<le> idle_for)"

definition reap_idle_sessions :: "secs \<Rightarrow> SessionEpochManager \<Rightarrow> SessionEpochManager \<times> nat" where
  "reap_idle_sessions now m =
     (let doomed = map fst (filter (\<lambda>(_, me). is_idle now m me) (meta m))
      in (foldl destroy_session m doomed, length doomed))"

text \<open>One entry \<open>(sid, eid)\<close> of the list \<open>expire_old_epochs\<close> collected: the epoch leaves the session
  table and the grace table; whether an epoch was there is the contribution to the count.\<close>

definition expire_one :: "SessionEpochManager \<times> nat \<Rightarrow> bytes \<times> u32 \<Rightarrow> SessionEpochManager \<times> nat" where
  "expire_one mn se =
     (let (m, n) = mn; (sid, eid) = se;
          had = get_session_epoch m sid eid \<noteq> None;
          m1 = (case map_of (sessions m) sid of
                  Some eps \<Rightarrow> m\<lparr>sessions := AList.update sid (AList.delete eid eps) (sessions m)\<rparr>
                | None \<Rightarrow> m);
          m2 = (case map_of (grace m1) sid of
                  Some g \<Rightarrow> m1\<lparr>grace := AList.update sid (AList.delete eid g) (grace m1)\<rparr>
                | None \<Rightarrow> m1)
      in (m2, if had then n + 1 else n))"

definition expire_old_epochs :: "secs \<Rightarrow> SessionEpochManager \<Rightarrow> secs option \<Rightarrow> SessionEpochManager \<times> nat" where
  "expire_old_epochs now m grace_seconds =
     (let gp = (case grace_seconds of Some g \<Rightarrow> g | None \<Rightarrow> MEASC_EPOCH_GRACE_PERIOD_SECONDS);
          to_remove = concat (map (\<lambda>(sid, eids). map (\<lambda>(eid, _). (sid, eid))
                        (filter (\<lambda>(_, t). gp \<le> max 0 (now - t)) eids)) (grace m))
      in foldl expire_one (m, 0) to_remove)"

definition session_count :: "SessionEpochManager \<Rightarrow> nat" where
  "session_count m = length (sessions m)"

record EpochSnapshot =
  es_session_id :: bytes
  es_epoch_id :: u32
  is_destroyed :: bool
  is_in_grace_period :: bool
  es_should_rotate :: bool

definition get_epoch :: "secs \<Rightarrow> SessionEpochManager \<Rightarrow> bytes \<Rightarrow> u32 \<Rightarrow> EpochSnapshot option" where
  "get_epoch now m session_id epoch_id =
     map_option (\<lambda>ep. \<lparr>es_session_id = session_id, es_epoch_id = epoch_id,
        is_destroyed = destroyed ep, is_in_grace_period = in_grace_period ep,
        es_should_rotate = should_rotate now ep\<rparr>) (get_session_epoch m session_id epoch_id)"

definition get_current_epoch :: "secs \<Rightarrow> SessionEpochManager \<Rightarrow> bytes \<Rightarrow> EpochSnapshot option" where
  "get_current_epoch now m session_id =
     Option.bind (get_current_epoch_id m session_id) (get_epoch now m session_id)"

text \<open>The negotiation itself (\<open>crypto_governance.rs\<close>) is the argument \<open>negotiate\<close>: it gives the
  transcript hash of an agreed suite, or fails.\<close>

definition create_session_with_negotiation ::
  "hkdf \<Rightarrow> ('s \<Rightarrow> 's \<Rightarrow> bytes \<Rightarrow> bytes option) \<Rightarrow> secs \<Rightarrow> SessionEpochManager \<Rightarrow> bytes \<Rightarrow> bytes
     \<Rightarrow> 's \<Rightarrow> 's \<Rightarrow> u64 \<Rightarrow> secs \<Rightarrow> (SessionEpochManager \<times> u32 \<times> bytes) result" where
  "create_session_with_negotiation hkdf negotiate now m session_id session_secret
       local_suites remote_suites threshold time_secs =
     (case negotiate local_suites remote_suites session_id of
        None \<Rightarrow> Err SchemaMismatch
      | Some transcript_hash \<Rightarrow>
          (let len = min (length transcript_hash) 32;
               suite_tx_hash = take len transcript_hash @ replicate (32 - len) 0
           in and_then (create_session hkdf now m session_id session_secret threshold time_secs (Some suite_tx_hash))
                (\<lambda>(m', epoch_id). Ok (m', epoch_id, transcript_hash))))"

section \<open>Invariant and reference key schedule\<close>

definition epoch_dead :: "SessionEpoch \<Rightarrow> bool" where
  "epoch_dead e \<longleftrightarrow> destroyed e \<and> set (traffic_key e) \<subseteq> {0} \<and> in_grace_period e
     \<and> grace_period_locked (replay_window e)"

text \<open>One session: its current epoch is live, every other epoch is dead and older, and only older
  epochs have a grace entry.\<close>

definition session_ok ::
  "bytes \<Rightarrow> (u32, SessionEpoch) hmap \<Rightarrow> SessionMeta \<Rightarrow> (u32, secs) hmap \<Rightarrow> bool" where
  "session_ok sid eps me gr \<longleftrightarrow>
     hm_wf eps \<and> hm_wf gr \<and>
     (\<exists>e. map_of eps (current_epoch me) = Some e \<and> \<not> destroyed e) \<and>
     (\<forall>eid e. map_of eps eid = Some e \<longrightarrow>
        se_session_id e = sid \<and> se_epoch_id e = eid \<and> eid \<le> current_epoch me \<and>
        (eid \<noteq> current_epoch me \<longrightarrow> epoch_dead e)) \<and>
     (\<forall>eid \<in> keys gr. eid < current_epoch me)"

definition row_ok ::
  "bytes \<Rightarrow> (u32, SessionEpoch) hmap option \<Rightarrow> SessionMeta option \<Rightarrow> (u32, secs) hmap option \<Rightarrow> bool" where
  "row_ok sid s me g =
     (case (s, me, g) of
        (None, None, None) \<Rightarrow> True
      | (Some eps, Some d, Some gr) \<Rightarrow> session_ok sid eps d gr
      | _ \<Rightarrow> False)"

definition mgr_wf :: "SessionEpochManager \<Rightarrow> bool" where
  "mgr_wf m \<longleftrightarrow>
     hm_wf (sessions m) \<and> hm_wf (meta m) \<and> hm_wf (grace m) \<and>
     length (sessions m) \<le> session_cap m \<and>
     (\<forall>sid. row_ok sid (map_of (sessions m) sid) (map_of (meta m) sid) (map_of (grace m) sid))"

text \<open>Root secret and traffic key of epoch \<open>n\<close>.\<close>

fun key_schedule :: "hkdf \<Rightarrow> bool \<Rightarrow> bytes \<Rightarrow> bytes \<Rightarrow> nat \<Rightarrow> bytes \<times> bytes" where
  "key_schedule hkdf ratchet root0 sid 0 = (root0, hkdf sid root0 (epoch_key_info 0) 32)"
| "key_schedule hkdf ratchet root0 sid (Suc n) =
     (let (r, k) = key_schedule hkdf ratchet root0 sid n;
          eid = word_of_nat (Suc n);
          r' = (if ratchet then hkdf sid (xor_bytes r k) (ratchet_info eid) 32 else r)
      in (r', hkdf sid (xor_bytes r' k) (epoch_key_info eid) 32))"

fun rotate_n :: "hkdf \<Rightarrow> (nat \<Rightarrow> secs) \<Rightarrow> SessionEpochManager \<Rightarrow> bytes \<Rightarrow> nat \<Rightarrow> SessionEpochManager result" where
  "rotate_n hkdf clock m sid 0 = Ok m"
| "rotate_n hkdf clock m sid (Suc n) =
     and_then (rotate_n hkdf clock m sid n) (\<lambda>m1.
     and_then (rotate_epoch hkdf (clock n) m1 sid) (\<lambda>(m2, _). Ok m2))"

text \<open>What one rotation does to the metadata and which epoch it opens.\<close>

definition rotated_meta :: "hkdf \<Rightarrow> SessionEpochManager \<Rightarrow> bytes \<Rightarrow> SessionMeta \<Rightarrow> bytes \<Rightarrow> SessionMeta" where
  "rotated_meta hkdf m sid me k =
     me\<lparr>current_epoch := current_epoch me + 1,
        secret := (if root_ratchet m then ratchet_root hkdf (secret me) k sid (current_epoch me + 1) else secret me)\<rparr>"

definition rotated_epoch :: "hkdf \<Rightarrow> secs \<Rightarrow> SessionEpochManager \<Rightarrow> bytes \<Rightarrow> SessionMeta \<Rightarrow> bytes \<Rightarrow> SessionEpoch" where
  "rotated_epoch hkdf now m sid me k =
     new_session_epoch now sid (current_epoch me + 1)
       (derive_epoch_key hkdf (secret (rotated_meta hkdf m sid me k)) sid (current_epoch me + 1) (Some k))
       (sm_packet_threshold me) (time_threshold_secs me)"

text \<open>\<open>at_epoch\<close>: session \<open>sid\<close> is in epoch \<open>n\<close> of the reference schedule.\<close>

definition at_epoch :: "hkdf \<Rightarrow> SessionEpochManager \<Rightarrow> bytes \<Rightarrow> bytes \<Rightarrow> nat \<Rightarrow> bool" where
  "at_epoch hkdf m sid root0 n \<longleftrightarrow>
     (\<exists>me e. map_of (meta m) sid = Some me \<and> current_epoch me = word_of_nat n \<and>
        secret me = fst (key_schedule hkdf (root_ratchet m) root0 sid n) \<and>
        get_session_epoch m sid (word_of_nat n) = Some e \<and>
        epoch_traffic_key e = Ok (snd (key_schedule hkdf (root_ratchet m) root0 sid n)))"

text \<open>The calls that change a manager, for runs of it. \<open>OpSend\<close> is a sender taking the next PSN of
  the current epoch.\<close>

datatype mgr_op =
    OpCreate bytes bytes u64 secs "bytes option"
  | OpRotate bytes
  | OpCheckRotate bytes
  | OpDestroy bytes
  | OpNote bytes
  | OpReap
  | OpExpire "secs option"
  | OpSend bytes

definition issue_psn :: "SessionEpochManager \<Rightarrow> bytes \<Rightarrow> SessionEpochManager \<times> u64 option" where
  "issue_psn m sid =
     (case get_current_epoch_id m sid of
        None \<Rightarrow> (m, None)
      | Some eid \<Rightarrow>
          (case with_epoch_mut m sid eid (\<lambda>e. case next_psn (sequencer e) of
                   Inr (p, q) \<Rightarrow> (e\<lparr>sequencer := q\<rparr>, Some p) | Inl _ \<Rightarrow> (e, None)) of
             (m', Some r) \<Rightarrow> (m', r) | (m', None) \<Rightarrow> (m', None)))"

fun mgr_apply :: "hkdf \<Rightarrow> SessionEpochManager \<Rightarrow> secs \<times> mgr_op \<Rightarrow> SessionEpochManager" where
  "mgr_apply hkdf m (now, OpCreate sid sec pt tt tx) =
     (case create_session hkdf now m sid sec pt tt tx of Inr (m', _) \<Rightarrow> m' | Inl _ \<Rightarrow> m)"
| "mgr_apply hkdf m (now, OpRotate sid) =
     (case rotate_epoch hkdf now m sid of Inr (m', _) \<Rightarrow> m' | Inl _ \<Rightarrow> m)"
| "mgr_apply hkdf m (now, OpCheckRotate sid) = fst (check_and_rotate hkdf now m sid)"
| "mgr_apply hkdf m (now, OpDestroy sid) = destroy_session m sid"
| "mgr_apply hkdf m (now, OpNote sid) = note_authenticated now m sid"
| "mgr_apply hkdf m (now, OpReap) = fst (reap_idle_sessions now m)"
| "mgr_apply hkdf m (now, OpExpire gs) = fst (expire_old_epochs now m gs)"
| "mgr_apply hkdf m (now, OpSend sid) = fst (issue_psn m sid)"

text \<open>The PSNs handed out by \<open>n\<close> calls of the sequencer; a refused call hands out nothing.\<close>

fun take_psns :: "u64 \<Rightarrow> nat \<Rightarrow> u64 list" where
  "take_psns s 0 = []"
| "take_psns s (Suc n) = (case next_psn s of Inr (p, s') \<Rightarrow> p # take_psns s' n | Inl _ \<Rightarrow> take_psns s n)"

text \<open>A toy derivation to evaluate the model on: the last byte of the info string, incremented and
  repeated.\<close>

definition toy_hkdf :: hkdf where
  "toy_hkdf salt ikm info len = replicate len (last (0 # info) + 1)"

definition demo_sid :: bytes where "demo_sid = replicate 16 1"

definition demo_run :: SessionEpochManager where
  "demo_run = foldl (mgr_apply toy_hkdf) (with_session_cap 8 new_epoch_manager)
     [(0, OpCreate demo_sid (replicate 32 2) 10 600 None), (5, OpRotate demo_sid)]"

section \<open>Preservation of the invariant\<close>

lemma row_ok_simps [simp]:
  "row_ok sid None None None"
  "row_ok sid (Some eps) (Some me) (Some gr) = session_ok sid eps me gr"
  by (simp_all add: row_ok_def)

lemma row_ok_cases:
  assumes "row_ok sid s me g"
  obtains "s = None" "me = None" "g = None"
  | eps d gr where "s = Some eps" "me = Some d" "g = Some gr" "session_ok sid eps d gr"
  using assms by (auto simp: row_ok_def split: option.splits)

lemma mgr_wf_row:
  assumes "mgr_wf m"
  obtains "map_of (sessions m) sid = None" "map_of (meta m) sid = None" "map_of (grace m) sid = None"
  | eps d gr where "map_of (sessions m) sid = Some eps" "map_of (meta m) sid = Some d"
      "map_of (grace m) sid = Some gr" "session_ok sid eps d gr"
  using assms unfolding mgr_wf_def by (meson row_ok_cases)

text \<open>An update of the row of one session keeps the invariant if that row is good.\<close>

lemma mgr_wf_set_row:
  assumes wf: "mgr_wf m" and known: "map_of (sessions m) sid \<noteq> None"
    and ok: "session_ok sid eps me gr"
  shows "mgr_wf (m\<lparr>sessions := AList.update sid eps (sessions m), meta := AList.update sid me (meta m),
                   grace := AList.update sid gr (grace m)\<rparr>)"
proof -
  have "sid \<in> keys (sessions m)" using known by (auto simp: keys_dom)
  with wf ok show ?thesis by (auto simp: mgr_wf_def length_update)
qed

lemma mgr_wf_set_eps:
  assumes wf: "mgr_wf m" and row: "map_of (sessions m) sid = Some eps0" "map_of (meta m) sid = Some me" "map_of (grace m) sid = Some gr"
    and ok: "session_ok sid eps me gr"
  shows "mgr_wf (m\<lparr>sessions := AList.update sid eps (sessions m)\<rparr>)"
proof -
  have "sid \<in> keys (sessions m)" using row by (auto simp: keys_dom)
  with wf ok row show ?thesis by (auto simp: mgr_wf_def length_update)
qed

lemma mgr_wf_set_meta:
  assumes wf: "mgr_wf m" and row: "map_of (sessions m) sid = Some eps" "map_of (grace m) sid = Some gr"
    and ok: "session_ok sid eps me gr"
  shows "mgr_wf (m\<lparr>meta := AList.update sid me (meta m)\<rparr>)"
  using wf ok row by (auto simp: mgr_wf_def)

lemma session_ok_fresh:
  assumes "se_session_id e = sid" "se_epoch_id e = 0" "\<not> destroyed e" "current_epoch me = 0"
  shows "session_ok sid [(0, e)] me []"
  using assms by (simp add: session_ok_def hm_wf_def)

lemma new_session_epoch_simps [simp]:
  "se_session_id (new_session_epoch t sid eid k pt tt) = sid"
  "se_epoch_id (new_session_epoch t sid eid k pt tt) = eid"
  "traffic_key (new_session_epoch t sid eid k pt tt) = k"
  "\<not> destroyed (new_session_epoch t sid eid k pt tt)"
  "sequencer (new_session_epoch t sid eid k pt tt) = 1"
  by (simp_all add: new_session_epoch_def)

lemma create_session_wf:
  assumes wf: "mgr_wf m" and cr: "create_session hkdf now m sid sec pt tt tx = Ok (m', eid)"
  shows "mgr_wf m'"
proof -
  from cr have new: "map_of (sessions m) sid = None" and cap: "length (sessions m) < session_cap m"
    by (auto simp: create_session_def Let_def split: prod.splits if_splits)
  have notin: "sid \<notin> keys (sessions m)" using new by (auto simp: keys_dom)
  show ?thesis
    using cr wf notin cap
    by (auto simp: create_session_def Let_def mgr_wf_def length_update session_ok_fresh
        split: prod.splits if_splits)
qed

lemma destroy_session_wf: "mgr_wf m \<Longrightarrow> mgr_wf (destroy_session m sid)"
  by (auto simp: mgr_wf_def destroy_session_def length_delete)

lemma note_authenticated_wf:
  assumes "mgr_wf m" shows "mgr_wf (note_authenticated now m sid)"
proof (cases rule: mgr_wf_row [OF assms, of sid])
  case 1
  with assms show ?thesis by (simp add: note_authenticated_def)
next
  case (2 eps d gr)
  then have "session_ok sid eps (d\<lparr>last_active := now, authenticated := True\<rparr>) gr"
    by (simp add: session_ok_def)
  with 2 mgr_wf_set_meta [OF assms 2(1,3)] show ?thesis by (simp add: note_authenticated_def)
qed

lemma reap_idle_sessions_wf:
  assumes "mgr_wf m" shows "mgr_wf (fst (reap_idle_sessions now m))"
proof -
  have "mgr_wf (foldl destroy_session m sids)" for sids
    using assms by (induction sids arbitrary: m) (simp_all add: destroy_session_wf)
  then show ?thesis by (simp add: reap_idle_sessions_def Let_def)
qed

lemma session_ok_update_live:
  assumes "session_ok sid eps me gr" "map_of eps (current_epoch me) = Some e"
    "se_session_id e' = se_session_id e" "se_epoch_id e' = se_epoch_id e" "\<not> destroyed e'"
  shows "session_ok sid (AList.update (current_epoch me) e' eps) me gr"
  using assms by (auto simp: session_ok_def)

lemma session_ok_remove_old:
  assumes "session_ok sid eps me gr" "eid \<noteq> current_epoch me"
  shows "session_ok sid (AList.delete eid eps) me (AList.delete eid gr)"
  using assms by (auto simp: session_ok_def)

lemma session_ok_live:
  assumes "session_ok sid eps me gr" "map_of eps eid = Some e" "\<not> destroyed e"
  shows "eid = current_epoch me"
proof (rule ccontr)
  assume "eid \<noteq> current_epoch me"
  with assms(1,2) have "epoch_dead e" by (simp add: session_ok_def)
  with assms(3) show False by (simp add: epoch_dead_def)
qed

text \<open>A live epoch of a well-formed manager is the current epoch of its session.\<close>

lemma live_is_current:
  assumes "mgr_wf m" "get_session_epoch m sid eid = Some e" "\<not> destroyed e"
  shows "\<exists>me. map_of (meta m) sid = Some me \<and> current_epoch me = eid"
proof (cases rule: mgr_wf_row [OF assms(1), of sid])
  case 1
  with assms(2) show ?thesis by (simp add: get_session_epoch_def)
next
  case (2 eps d gr)
  with assms(2) have "map_of eps eid = Some e" by (simp add: get_session_epoch_def)
  from session_ok_live [OF 2(4) this assms(3)] 2(2) show ?thesis by simp
qed

lemma put_live_epoch_wf:
  assumes wf: "mgr_wf m" and e: "get_session_epoch m sid eid = Some e" "\<not> destroyed e"
    and e': "se_session_id e' = se_session_id e" "se_epoch_id e' = se_epoch_id e" "\<not> destroyed e'"
  shows "mgr_wf (put_epoch m sid eid e')"
proof (cases rule: mgr_wf_row [OF wf, of sid])
  case 1
  with e show ?thesis by (simp add: get_session_epoch_def)
next
  case (2 eps d gr)
  with live_is_current [OF wf e] have cur: "eid = current_epoch d" by simp
  have "map_of eps (current_epoch d) = Some e" using e(1) 2(1) cur by (simp add: get_session_epoch_def)
  from session_ok_update_live [OF 2(4) this e'] have "session_ok sid (AList.update eid e' eps) d gr"
    by (simp add: cur)
  from mgr_wf_set_eps [OF wf 2(1-3) this] show ?thesis using 2(1) by (simp add: put_epoch_def)
qed

lemma expire_one_wf:
  assumes wf: "mgr_wf m" and old: "\<forall>me. map_of (meta m) sid = Some me \<longrightarrow> eid \<noteq> current_epoch me"
  shows "mgr_wf (fst (expire_one (m, n) (sid, eid)))"
proof (cases rule: mgr_wf_row [OF wf, of sid])
  case 1
  with wf show ?thesis by (simp add: expire_one_def Let_def)
next
  case (2 eps d gr)
  then have "session_ok sid (AList.delete eid eps) d (AList.delete eid gr)"
    using session_ok_remove_old old by blast
  moreover have "sid \<in> keys (sessions m)" using 2 by (auto simp: keys_dom)
  ultimately show ?thesis
    using wf 2 by (auto simp: expire_one_def Let_def mgr_wf_def length_update)
qed

lemma expire_one_meta [simp]: "meta (fst (expire_one mn se)) = meta (fst mn)"
  by (cases mn; cases se) (simp add: expire_one_def Let_def split: option.split)

lemma expire_fold_wf:
  assumes "mgr_wf (fst mn)"
    "\<forall>(sid, eid) \<in> set xs. \<forall>me. map_of (meta (fst mn)) sid = Some me \<longrightarrow> eid \<noteq> current_epoch me"
  shows "mgr_wf (fst (foldl expire_one mn xs))"
  using assms
proof (induction xs arbitrary: mn)
  case (Cons x xs)
  have "mgr_wf (fst (expire_one mn x))"
    using Cons.prems expire_one_wf [of "fst mn" "fst x" "snd x" "snd mn"] by (auto simp: split_beta)
  moreover have "\<forall>(sid, eid) \<in> set xs. \<forall>me. map_of (meta (fst (expire_one mn x))) sid = Some me \<longrightarrow> eid \<noteq> current_epoch me"
    using Cons.prems(2) by auto
  ultimately show ?case using Cons.IH by simp
qed simp

lemma expire_old_epochs_wf:
  assumes wf: "mgr_wf m" shows "mgr_wf (fst (expire_old_epochs now m gs))"
proof -
  have old: "eid \<noteq> current_epoch me"
    if "(sid, eids) \<in> set (grace m)" "(eid, t) \<in> set eids" "map_of (meta m) sid = Some me" for sid eids eid t me
  proof -
    have "map_of (grace m) sid = Some eids" using wf that(1) by (simp add: mgr_wf_def hm_wf_def)
    then have "session_ok sid (the (map_of (sessions m) sid)) me eids"
      using that(3) by (cases rule: mgr_wf_row [OF wf, of sid]) auto
    moreover have "eid \<in> keys eids" using that(2) by (force simp: keys_def)
    ultimately show ?thesis by (auto simp: session_ok_def)
  qed
  show ?thesis
    unfolding expire_old_epochs_def Let_def
    by (rule expire_fold_wf) (use wf old in \<open>force+\<close>)
qed



lemma dead_after_rotation: "\<not> destroyed e \<Longrightarrow> epoch_dead (destroy_epoch (enter_grace_period e))"
  by (auto simp: epoch_dead_def destroy_epoch_def enter_grace_period_def lock_for_grace_period_def)

lemma retired_ids [simp]:
  "se_session_id (destroy_epoch (enter_grace_period e)) = se_session_id e"
  "se_epoch_id (destroy_epoch (enter_grace_period e)) = se_epoch_id e"
  by (simp_all add: destroy_epoch_def enter_grace_period_def)

lemma rotate_commit_eq:
  assumes "map_of (sessions m) sid = Some eps" "map_of (meta m) sid = Some me" "map_of (grace m) sid = Some gr"
    "map_of eps cur = Some e" "cur \<noteq> nid"
  shows "rotate_commit now m sid cur nid ne rr =
    m\<lparr>sessions := AList.update sid
         (AList.update cur (destroy_epoch (enter_grace_period e)) (AList.update nid ne eps)) (sessions m),
      meta := AList.update sid
         (case rr of Some r \<Rightarrow> me\<lparr>current_epoch := nid, secret := r\<rparr> | None \<Rightarrow> me\<lparr>current_epoch := nid\<rparr>) (meta m),
      grace := AList.update sid (AList.update cur now gr) (grace m)\<rparr>"
  using assms
  by (simp add: rotate_commit_def put_epoch_def get_session_epoch_def Let_def split: option.split)

lemma rotate_epoch_eq:
  assumes "map_of (sessions m) sid = Some eps" "map_of (meta m) sid = Some me" "map_of (grace m) sid = Some gr"
    "map_of eps (current_epoch me) = Some e" "\<not> destroyed e" "current_epoch me \<noteq> - 1"
  shows "rotate_epoch hkdf now m sid = Ok (
    m\<lparr>sessions := AList.update sid
         (AList.update (current_epoch me) (destroy_epoch (enter_grace_period e))
           (AList.update (current_epoch me + 1) (rotated_epoch hkdf now m sid me (traffic_key e)) eps)) (sessions m),
      meta := AList.update sid (rotated_meta hkdf m sid me (traffic_key e)) (meta m),
      grace := AList.update sid (AList.update (current_epoch me) now gr) (grace m)\<rparr>, current_epoch me + 1)"
proof -
  have ne: "current_epoch me \<noteq> current_epoch me + 1" by simp
  show ?thesis
    using assms(1,2,4-6)
    by (simp add: rotate_epoch_def epoch_traffic_key_def checked_add_1 Let_def
        rotate_commit_eq [OF assms(1-4) ne] rotated_meta_def rotated_epoch_def)
qed

lemma rotated_session_ok:
  assumes ok: "session_ok sid eps me gr" and e: "map_of eps (current_epoch me) = Some e" "\<not> destroyed e"
    and lt: "current_epoch me \<noteq> - 1"
  shows "session_ok sid
     (AList.update (current_epoch me) (destroy_epoch (enter_grace_period e))
        (AList.update (current_epoch me + 1) (rotated_epoch hkdf now m sid me k) eps))
     (rotated_meta hkdf m sid me k)
     (AList.update (current_epoch me) now gr)"
  using ok e dead_after_rotation [OF e(2)] succ_word_less [OF lt]
  unfolding session_ok_def rotated_meta_def rotated_epoch_def
  by (auto intro: less_trans order.strict_implies_order le_less_trans)

lemma rotate_epoch_wf:
  assumes wf: "mgr_wf m" and ro: "rotate_epoch hkdf now m sid = Ok (m', eid)"
  shows "mgr_wf m'"
proof (cases rule: mgr_wf_row [OF wf, of sid])
  case 1
  with ro show ?thesis by (simp add: rotate_epoch_def)
next
  case (2 eps d gr)
  then obtain e where e: "map_of eps (current_epoch d) = Some e" "\<not> destroyed e"
    by (auto simp: session_ok_def)
  have lt: "current_epoch d \<noteq> - 1"
    using ro 2 e by (auto simp: rotate_epoch_def epoch_traffic_key_def checked_add_1)
  have "map_of (sessions m) sid \<noteq> None" using 2 by simp
  from mgr_wf_set_row [OF wf this rotated_session_ok [OF 2(4) e lt]]
  show ?thesis using ro rotate_epoch_eq [OF 2(1-3) e lt] by auto
qed

lemma rotate_at_epoch:
  assumes wf: "mgr_wf m" and at: "at_epoch hkdf m sid root0 n" and n: "Suc n < 2 ^ 32"
  shows "\<exists>m'. rotate_epoch hkdf now m sid = Ok (m', word_of_nat (Suc n)) \<and> mgr_wf m' \<and>
     root_ratchet m' = root_ratchet m \<and> at_epoch hkdf m' sid root0 (Suc n)"
proof -
  from at obtain me e where me: "map_of (meta m) sid = Some me" "current_epoch me = word_of_nat n"
      "secret me = fst (key_schedule hkdf (root_ratchet m) root0 sid n)"
    and e: "get_session_epoch m sid (word_of_nat n) = Some e"
      "epoch_traffic_key e = Ok (snd (key_schedule hkdf (root_ratchet m) root0 sid n))"
    by (auto simp: at_epoch_def)
  obtain eps gr where row: "map_of (sessions m) sid = Some eps" "map_of (grace m) sid = Some gr"
    using me(1) by (cases rule: mgr_wf_row [OF wf, of sid]) auto
  have k: "traffic_key e = snd (key_schedule hkdf (root_ratchet m) root0 sid n)" and live: "\<not> destroyed e"
    using e(2) by (auto simp: epoch_traffic_key_def split: if_splits)
  have u: "unat (word_of_nat n :: u32) = n" using n by (simp add: unsigned_of_nat take_bit_nat_eq_self)
  have lt: "current_epoch me \<noteq> - 1"
  proof
    assume "current_epoch me = - 1"
    then have "unat (- 1 :: u32) = n" using u me(2) by simp
    with n show False by (simp add: unsigned_minus_1_eq_mask mask_eq_exp_minus_1)
  qed
  have em: "map_of eps (current_epoch me) = Some e" using e(1) row me(2) by (simp add: get_session_epoch_def)
  note ro = rotate_epoch_eq [OF row(1) me(1) row(2) em live lt, of hkdf now]
  have suc: "current_epoch me + 1 = word_of_nat (Suc n)" using me(2) by simp
  have ne: "current_epoch me \<noteq> current_epoch me + 1" by simp
  show ?thesis
    using rotate_epoch_wf [OF wf ro] ne
    unfolding ro suc
    by (auto simp: at_epoch_def get_session_epoch_def rotated_meta_def rotated_epoch_def
       epoch_traffic_key_def derive_epoch_key_def ratchet_root_def k me(2,3) split_beta Let_def add.commute)
qed

lemma new_epoch_traffic_key: "epoch_traffic_key (new_session_epoch t sid eid k pt tt) = Ok k"
  by (simp add: epoch_traffic_key_def)

lemma created_at_epoch:
  assumes "create_session hkdf now m sid sec pt tt tx = Ok (m', eid)"
  shows "at_epoch hkdf m' sid
      (case tx of Some h \<Rightarrow> hkdf h sec (str_bytes ''SAACP-suite-binding'') 32 | None \<Rightarrow> sec) 0 \<and>
    root_ratchet m' = root_ratchet m \<and> eid = 0"
  using assms
  by (auto simp: create_session_def Let_def at_epoch_def get_session_epoch_def new_epoch_traffic_key
      derive_epoch_key_def split: option.splits if_splits)

lemma rotate_n_at_epoch:
  assumes "mgr_wf m" "at_epoch hkdf m sid root0 0" "n < 2 ^ 32"
  shows "\<exists>m'. rotate_n hkdf clock m sid n = Ok m' \<and> mgr_wf m' \<and>
     root_ratchet m' = root_ratchet m \<and> at_epoch hkdf m' sid root0 n"
  using assms(3)
proof (induction n)
  case 0
  with assms show ?case by simp
next
  case (Suc n)
  then obtain m1 where m1: "rotate_n hkdf clock m sid n = Ok m1" "mgr_wf m1"
    "root_ratchet m1 = root_ratchet m" "at_epoch hkdf m1 sid root0 n" by auto
  from rotate_at_epoch [OF m1(2,4) Suc.prems, of "clock n"] m1 show ?case by auto
qed

lemma at_epoch_lookup:
  assumes "at_epoch hkdf m sid root0 n"
  shows "get_current_epoch_id m sid = Some (word_of_nat n)"
    "with_epoch m sid (word_of_nat n) epoch_traffic_key
       = Some (Ok (snd (key_schedule hkdf (root_ratchet m) root0 sid n)))"
  using assms by (auto simp: at_epoch_def get_current_epoch_id_def with_epoch_def)

lemma rotate_epoch_exhausted:
  assumes "at_epoch hkdf m sid root0 n" "n = 2 ^ 32 - 1"
  shows "rotate_epoch hkdf now m sid = Err SequenceOverflow"
proof -
  have max: "(word_of_nat n :: u32) = - 1"
    using assms(2) by (simp add: word_unat_eq_iff unsigned_of_nat take_bit_nat_eq_self
        unsigned_minus_1_eq_mask mask_eq_exp_minus_1)
  from assms(1) obtain me e k where "map_of (meta m) sid = Some me" "current_epoch me = - 1"
    "get_session_epoch m sid (- 1) = Some e" "epoch_traffic_key e = Ok k"
    unfolding at_epoch_def max by blast
  then show ?thesis
    by (auto simp: rotate_epoch_def get_session_epoch_def checked_add_1 bind_eq_Some_conv)
qed

lemma check_and_rotate_wf: "mgr_wf m \<Longrightarrow> mgr_wf (fst (check_and_rotate hkdf now m sid))"
  using rotate_epoch_wf by (fastforce simp: check_and_rotate_def split: option.split sum.split prod.split)

lemma issue_psn_wf:
  assumes wf: "mgr_wf m" shows "mgr_wf (fst (issue_psn m sid))"
proof (cases rule: mgr_wf_row [OF wf, of sid])
  case 1
  with wf show ?thesis by (simp add: issue_psn_def get_current_epoch_id_def)
next
  case (2 eps d gr)
  then obtain e where e: "map_of eps (current_epoch d) = Some e" "\<not> destroyed e"
    by (auto simp: session_ok_def)
  have get: "get_session_epoch m sid (current_epoch d) = Some e" using 2 e by (simp add: get_session_epoch_def)
  have "mgr_wf (put_epoch m sid (current_epoch d) (e\<lparr>sequencer := q\<rparr>))"
    "mgr_wf (put_epoch m sid (current_epoch d) e)" for q
    using put_live_epoch_wf [OF wf get e(2)] e(2) by simp_all
  then show ?thesis
    using 2 get by (auto simp: issue_psn_def with_epoch_mut_def get_current_epoch_id_def split: sum.split prod.split)
qed

lemma mgr_apply_wf: "mgr_wf m \<Longrightarrow> mgr_wf (mgr_apply hkdf m x)"
  by (cases "(hkdf, m, x)" rule: mgr_apply.cases)
    (auto simp: check_and_rotate_wf destroy_session_wf note_authenticated_wf reap_idle_sessions_wf
      expire_old_epochs_wf issue_psn_wf split: sum.split
      dest: create_session_wf rotate_epoch_wf)

lemma mgr_run_wf: "mgr_wf m \<Longrightarrow> mgr_wf (foldl (mgr_apply hkdf) m ops)"
  by (induction ops arbitrary: m) (simp_all add: mgr_apply_wf)

lemma put_epoch_cap [simp]: "session_cap (put_epoch m sid eid e) = session_cap m"
  by (simp add: put_epoch_def split: option.split)

lemma rotate_commit_cap [simp]: "session_cap (rotate_commit now m sid c n ne rr) = session_cap m"
  by (simp add: rotate_commit_def Let_def split: option.split)

lemma reap_cap: "session_cap (foldl destroy_session m sids) = session_cap m"
  by (induction sids arbitrary: m) (simp_all add: destroy_session_def)

lemma expire_cap: "session_cap (fst (foldl expire_one mn ses)) = session_cap (fst mn)"
proof (induction ses arbitrary: mn)
  case (Cons x xs)
  have "session_cap (fst (expire_one mn x)) = session_cap (fst mn)"
    by (cases mn; cases x) (simp add: expire_one_def Let_def split: option.split)
  with Cons show ?case by simp
qed simp

lemma create_session_cap: "create_session hkdf now m sid sec pt tt tx = Ok (m', eid) \<Longrightarrow> session_cap m' = session_cap m"
  by (auto simp: create_session_def Let_def split: prod.splits if_splits)

lemma rotate_epoch_cap: "rotate_epoch hkdf now m sid = Ok (m', eid) \<Longrightarrow> session_cap m' = session_cap m"
  by (cases "root_ratchet m") (auto simp: rotate_epoch_def and_then_Ok_iff Let_def split: option.splits)

lemma mgr_apply_cap: "session_cap (mgr_apply hkdf m x) = session_cap m"
proof (cases "(hkdf, m, x)" rule: mgr_apply.cases)
  case (1 h m1 now sid sec pt tt tx)
  then show ?thesis using create_session_cap by (fastforce split: sum.split)
next
  case (2 h m1 now sid)
  then show ?thesis using rotate_epoch_cap by (fastforce split: sum.split)
next
  case (3 h m1 now sid)
  then show ?thesis using rotate_epoch_cap
    by (fastforce simp: check_and_rotate_def split: option.split sum.split)
next
  case (8 h m1 now sid)
  then show ?thesis by (simp add: issue_psn_def with_epoch_mut_def split: option.split sum.split prod.split)
qed (simp_all add: destroy_session_def note_authenticated_def reap_idle_sessions_def Let_def reap_cap
  expire_old_epochs_def expire_cap split: option.split)

lemma mgr_run_cap: "session_cap (foldl (mgr_apply hkdf) m ops) = session_cap m"
  by (induction ops arbitrary: m) (simp_all add: mgr_apply_cap)

lemma mgr_wf_live_iff:
  assumes "mgr_wf m" "get_session_epoch m sid eid = Some e"
  shows "destroyed e \<longleftrightarrow> get_current_epoch_id m sid \<noteq> Some eid"
    "destroyed e \<Longrightarrow> set (traffic_key e) \<subseteq> {0}"
proof -
  obtain eps d gr where row: "map_of (sessions m) sid = Some eps" "map_of (meta m) sid = Some d"
      "session_ok sid eps d gr" and e: "map_of eps eid = Some e"
    using assms(2) by (cases rule: mgr_wf_row [OF assms(1), of sid]) (auto simp: get_session_epoch_def)
  have dead: "eid \<noteq> current_epoch d \<Longrightarrow> epoch_dead e" using row(3) e by (simp add: session_ok_def)
  have live: "eid = current_epoch d \<Longrightarrow> \<not> destroyed e" using row(3) e by (auto simp: session_ok_def)
  show "destroyed e \<longleftrightarrow> get_current_epoch_id m sid \<noteq> Some eid"
    using dead live row(2) by (auto simp: epoch_dead_def get_current_epoch_id_def)
  show "destroyed e \<Longrightarrow> set (traffic_key e) \<subseteq> {0}"
    using dead live by (auto simp: epoch_dead_def)
qed

lemma new_manager_wf: "mgr_wf (with_session_cap cap new_epoch_manager)"
  by (simp add: mgr_wf_def with_session_cap_def new_epoch_manager_def)

lemma foldl_destroy_maps:
  "map_of (sessions (foldl destroy_session m sids)) sid = (if sid \<in> set sids then None else map_of (sessions m) sid)"
  by (induction sids arbitrary: m) (simp_all add: destroy_session_def)

lemma take_psns_bounds:
  assumes "1 \<le> unat s"
  shows "sorted_wrt (<) (map unat (take_psns s n)) \<and>
     (\<forall>p \<in> set (take_psns s n). unat s \<le> unat p \<and> unat p < unat MEASC_PSN_MAX)"
  using assms
proof (induction n arbitrary: s)
  case (Suc n)
  show ?case
  proof (cases "MEASC_PSN_MAX \<le> s")
    case True
    with Suc show ?thesis by (simp add: next_psn_def)
  next
    case False
    then have lt: "unat s < unat MEASC_PSN_MAX" by (simp add: word_le_nat_alt)
    have s1: "unat (s + 1) = unat s + 1" using False unat_span(1) [of s MEASC_PSN_MAX] by simp
    with Suc.IH [of "s + 1"] lt False show ?thesis by (fastforce simp: next_psn_def)
  qed
qed simp

lemma length_take_psns:
  "unat s + n \<le> unat MEASC_PSN_MAX \<Longrightarrow> length (take_psns s n) = n"
proof (induction n arbitrary: s)
  case (Suc n)
  then have "\<not> MEASC_PSN_MAX \<le> s" by (simp add: word_le_nat_alt)
  with unat_span(1) [of s MEASC_PSN_MAX] have "unat (s + 1) = unat s + 1" by simp
  with Suc \<open>\<not> MEASC_PSN_MAX \<le> s\<close> show ?case by (simp add: next_psn_def)
qed simp

lemma iv_info_inject: "iv_info e p = iv_info e' p' \<longleftrightarrow> e = e' \<and> p = p'"
  by (auto simp: iv_info_def to_be_bytes_inject wire)

lemmas demo_eval = demo_run_def create_session_def with_session_cap_def new_epoch_manager_def
  rotate_epoch_def new_epoch_traffic_key checked_add_1 rotate_commit_def put_epoch_def
  get_session_epoch_def get_current_epoch_id_def session_count_def

lemma demo_run_facts:
  "mgr_wf demo_run"
  "get_current_epoch_id demo_run demo_sid = Some 1"
  "get_session_epoch demo_run demo_sid 0 \<noteq> None"
  "session_count demo_run = 1"
  "\<exists>m' eid. rotate_epoch toy_hkdf 7 demo_run demo_sid = Ok (m', eid)"
proof -
  show "mgr_wf demo_run" unfolding demo_run_def by (rule mgr_run_wf [OF new_manager_wf])
qed (simp_all add: demo_eval)

section \<open>Properties\<close>

text \<open>C4. The manager implements the reference key schedule: a session created in a well-formed
  table can be rotated up to the last 32-bit epoch, in epoch \<open>n\<close> the current traffic key is the
  scheduled one (whatever the clock does, so two peers that rotate equally often agree), and the
  rotation after the last epoch fails with \<open>SequenceOverflow\<close>.\<close>

theorem key_schedule_implemented:
  assumes wf: "mgr_wf m"
    and cr: "create_session hkdf now m sid sec pt tt tx = Ok (m0, eid)"
    and n: "n < 2 ^ 32"
  shows "\<exists>m'. rotate_n hkdf clock m0 sid n = Ok m' \<and>
    get_current_epoch_id m' sid = Some (word_of_nat n) \<and>
    with_epoch m' sid (word_of_nat n) epoch_traffic_key =
      Some (Ok (snd (key_schedule hkdf (root_ratchet m)
        (case tx of Some h \<Rightarrow> hkdf h sec (str_bytes ''SAACP-suite-binding'') 32 | None \<Rightarrow> sec) sid n))) \<and>
    (n = 2 ^ 32 - 1 \<longrightarrow> rotate_epoch hkdf later m' sid = Err SequenceOverflow)"
proof -
  note c = created_at_epoch [OF cr]
  from rotate_n_at_epoch [OF create_session_wf [OF wf cr] c [THEN conjunct1] n]
  obtain m' where "rotate_n hkdf clock m0 sid n = Ok m'" "mgr_wf m'"
     "root_ratchet m' = root_ratchet m"
     "at_epoch hkdf m' sid (case tx of Some h \<Rightarrow> hkdf h sec (str_bytes ''SAACP-suite-binding'') 32 | None \<Rightarrow> sec) n"
    using c by auto
  with at_epoch_lookup [OF this(4)] rotate_epoch_exhausted [OF this(4)] show ?thesis by auto
qed
theorem key_schedule_implemented_witness:
  "\<exists>m0. create_session toy_hkdf 0 new_epoch_manager demo_sid (replicate 32 2) 10 600 None = Ok (m0, 0) \<and>
     (\<exists>m'. rotate_n toy_hkdf of_nat m0 demo_sid 3 = Ok m' \<and>
        get_current_epoch_id m' demo_sid = Some 3 \<and>
        with_epoch m' demo_sid 3 epoch_traffic_key =
          Some (Ok (snd (key_schedule toy_hkdf True (replicate 32 2) demo_sid 3))))"
proof -
  have wf: "mgr_wf new_epoch_manager"
    by (simp add: mgr_wf_def new_epoch_manager_def)
  obtain m0 where cr: "create_session toy_hkdf 0 new_epoch_manager demo_sid (replicate 32 2) 10 600 None = Ok (m0, 0)"
    by (simp add: create_session_def new_epoch_manager_def MEASC_MAX_TRACKED_SESSIONS_def)
  have "root_ratchet new_epoch_manager" by (simp add: new_epoch_manager_def)
  with key_schedule_implemented [OF wf cr, of 3] cr show ?thesis by simp
qed



text \<open>A rotation leaves the previous epoch in the table, marked as in its grace period and with a
  grace entry, but without its key: every use of it fails with \<open>EpochExpired\<close> at once, before any
  grace period has passed.\<close>

lemma rotation_ends_previous_epoch:
  assumes wf: "mgr_wf m" and cur: "get_current_epoch_id m sid = Some c"
    and ro: "rotate_epoch hkdf now m sid = Ok (m', eid)"
  shows "eid = c + 1 \<and> with_epoch m' sid c epoch_traffic_key = Some (Err EpochExpired) \<and>
    with_epoch m' sid c in_grace_period = Some True \<and>
    map_option (\<lambda>g. map_of g c) (map_of (grace m') sid) = Some (Some now)"
proof -
  from cur obtain eps d gr where row: "map_of (sessions m) sid = Some eps" "map_of (meta m) sid = Some d"
      "map_of (grace m) sid = Some gr" "session_ok sid eps d gr" and c: "current_epoch d = c"
    by (cases rule: mgr_wf_row [OF wf, of sid]) (auto simp: get_current_epoch_id_def)
  from row(4) obtain e where e: "map_of eps (current_epoch d) = Some e" "\<not> destroyed e"
    by (auto simp: session_ok_def)
  have lt: "current_epoch d \<noteq> - 1"
    using ro row e by (auto simp: rotate_epoch_def epoch_traffic_key_def checked_add_1)
  from ro rotate_epoch_eq [OF row(1-3) e lt, of hkdf now] c show ?thesis
    by (auto simp: with_epoch_def get_session_epoch_def epoch_traffic_key_def destroy_epoch_def
        enter_grace_period_def e(2))
qed

text \<open>\<open>create_session\<close> fails closed: an existing id is refused, a full table refuses every new id,
  and otherwise the session is created with epoch 0 and no other session is touched.\<close>

lemma create_session_outcome:
  "if map_of (sessions m) sid \<noteq> None
   then create_session hkdf now m sid sec pt tt tx = Err SchemaMismatch
   else if session_cap m \<le> session_count m
   then create_session hkdf now m sid sec pt tt tx = Err CircuitBreakerOpen
   else \<exists>m' eps. create_session hkdf now m sid sec pt tt tx = Ok (m', 0) \<and>
          get_current_epoch_id m' sid = Some 0 \<and>
          map_of (sessions m') = (map_of (sessions m))(sid \<mapsto> eps) \<and> keys eps = {0}"
  by (auto simp: create_session_def Let_def session_count_def get_current_epoch_id_def keys_def
      split: prod.splits)

text \<open>The reaper removes exactly the idle sessions: one that never authenticated after the short
  limit, an authenticated one after the long limit, and it reports how many.\<close>

lemma reap_exact:
  assumes wf: "mgr_wf m" and r: "reap_idle_sessions now m = (m', n)"
  shows "map_of (sessions m') sid =
      (case map_of (meta m) sid of
         Some me \<Rightarrow> if (if authenticated me then auth_idle_secs m else unauth_idle_secs m) \<le> max 0 (now - last_active me)
                     then None else map_of (sessions m) sid
       | None \<Rightarrow> None) \<and>
    session_count m' + n = session_count m"
proof -
  let ?doomed = "map fst (filter (\<lambda>(_, me). is_idle now m me) (meta m))"
  have m': "m' = foldl destroy_session m ?doomed" and n: "n = length ?doomed"
    using r by (simp_all add: reap_idle_sessions_def Let_def)
  have hm: "hm_wf (meta m)" "hm_wf (sessions m)" using wf by (simp_all add: mgr_wf_def)
  have doomed: "sid \<in> set ?doomed \<longleftrightarrow> (\<exists>me. map_of (meta m) sid = Some me \<and> is_idle now m me)" for sid
    using hm(1) by (force simp: hm_wf_def map_of_eq_Some_iff image_iff)
  have known: "map_of (meta m) sid = None \<longleftrightarrow> map_of (sessions m) sid = None" for sid
    by (cases rule: mgr_wf_row [OF wf, of sid]) auto
  have "session_count (foldl destroy_session m ds) + length ds = session_count m"
    if "hm_wf (sessions m)" "distinct ds" "set ds \<subseteq> keys (sessions m)" for m ds
    using that
  proof (induction ds arbitrary: m)
    case (Cons d ds)
    let ?m = "destroy_session m d"
    have "hm_wf (sessions ?m)" "set ds \<subseteq> keys (sessions ?m)" using Cons.prems by (auto simp: destroy_session_def)
    from Cons.IH [OF this(1) _ this(2)] Cons.prems
    have "session_count (foldl destroy_session ?m ds) + length ds = session_count ?m" by simp
    moreover have "session_count ?m + 1 = session_count m"
    proof -
      have "d \<in> keys (sessions m)" using Cons.prems by simp
      then have "0 < length (sessions m)" by (auto simp: keys_def)
      with \<open>d \<in> keys (sessions m)\<close> Cons.prems(1) show ?thesis
        by (simp add: session_count_def destroy_session_def length_delete)
    qed
    ultimately show ?case by simp
  qed simp
  moreover have "distinct ?doomed" using hm(1) by (simp add: hm_wf_def distinct_map_filter)
  moreover have "set ?doomed \<subseteq> keys (sessions m)"
    using doomed known by (metis (no_types, lifting) domIff keys_dom option.distinct(1) subsetI)
  ultimately have "session_count m' + n = session_count m" using hm(2) m' n by blast
  moreover have "map_of (sessions m') sid =
      (if \<exists>me. map_of (meta m) sid = Some me \<and> is_idle now m me then None else map_of (sessions m) sid)"
    unfolding m' foldl_destroy_maps doomed ..
  ultimately show ?thesis
    using known [of sid] by (cases "map_of (meta m) sid") (simp_all add: is_idle_def Let_def)
qed

text \<open>Inputs of the nonce derivation never repeat within an epoch: the sequencer hands out
  strictly increasing PSNs below the largest PSN, never refuses before that, and the HKDF info
  string determines epoch and PSN.\<close>

lemma nonce_inputs_unique:
  "sorted_wrt (<) (map unat (take_psns 1 n)) \<and>
   (\<forall>p \<in> set (take_psns 1 n). 1 \<le> unat p \<and> unat p < unat MEASC_PSN_MAX) \<and>
   (n < unat MEASC_PSN_MAX \<longrightarrow> length (take_psns 1 n) = n) \<and>
   (iv_info e p = iv_info e' p' \<longleftrightarrow> e = e' \<and> p = p')"
  using take_psns_bounds [of 1 n] length_take_psns [of 1 n] by (auto simp: iv_info_inject)

end
