(* ===== verification/Measc_Frame.thy ===== *)
theory Measc_Frame
  imports Session_Epochs
begin

text \<open>
  MEASC transport frames: \<open>src/easi.rs\<close> and, of \<open>src/measc.rs\<close>, \<open>MEASCFrame::build_frame\<close>,
  \<open>MEASCFrame::parse_frame\<close>, \<open>psn_rejection\<close> and \<open>PSKCompromiseRecovery\<close>. The primitives are a
  record of functions \<open>crypto\<close>: HKDF, and AES-256-GCM as \<open>seal key iv aad msg\<close> (ciphertext
  followed by the 16-byte tag) and \<open>open_sealed key iv aad msg\<close>. \<open>crypto_ok\<close> states what the code
  relies on: output lengths, and that opening succeeds exactly on what sealing produces.
  JSON parsing and the schema registry are the argument \<open>validate\<close> of \<open>parse_frame\<close>.

  A frame is a byte list. A rejected frame is an error value together with the manager it leaves
  behind, so the lemmas can say which rejections change nothing.
\<close>

section \<open>Primitives\<close>

record crypto =
  hkdf_sha256 :: hkdf
  hkdf_prk_expand :: hkdf_expand
  seal :: "bytes \<Rightarrow> bytes \<Rightarrow> bytes \<Rightarrow> bytes \<Rightarrow> bytes option"
  open_sealed :: "bytes \<Rightarrow> bytes \<Rightarrow> bytes \<Rightarrow> bytes \<Rightarrow> bytes option"

definition crypto_ok :: "crypto \<Rightarrow> bool" where
  "crypto_ok C \<longleftrightarrow>
     (\<forall>s i f n. length (hkdf_sha256 C s i f n) = n) \<and>
     (\<forall>k iv a p. \<exists>c. seal C k iv a p = Some c \<and> length c = length p + 16) \<and>
     (\<forall>k iv a p c. open_sealed C k iv a c = Some p \<longleftrightarrow> seal C k iv a p = Some c)"

section \<open>EASI\<close>

definition EASI_HKDF_INFO :: bytes where
  "EASI_HKDF_INFO = str_bytes ''SAACP-EASI-context-ref-v1''"

definition derive_pad :: "hkdf \<Rightarrow> bytes \<Rightarrow> u32 \<Rightarrow> u64 \<Rightarrow> bytes" where
  "derive_pad hkdf key epoch_id psn =
     hkdf (to_be_bytes 4 epoch_id @ to_be_bytes 8 psn) key EASI_HKDF_INFO 32"

definition easi_encrypt :: "hkdf \<Rightarrow> bytes \<Rightarrow> bytes \<Rightarrow> u32 \<Rightarrow> u64 \<Rightarrow> bytes" where
  "easi_encrypt hkdf ctx_ref_id key epoch_id psn = xor_bytes ctx_ref_id (derive_pad hkdf key epoch_id psn)"

definition easi_decrypt :: "hkdf \<Rightarrow> bytes \<Rightarrow> bytes \<Rightarrow> u32 \<Rightarrow> u64 \<Rightarrow> bytes" where
  "easi_decrypt hkdf encrypted key epoch_id psn = easi_encrypt hkdf encrypted key epoch_id psn"

section \<open>Header\<close>

definition MEASC_MAGIC :: bytes where "MEASC_MAGIC = str_bytes ''SACP''"
definition MEASC_HEADER_SIZE :: nat where "MEASC_HEADER_SIZE = 128"
definition MEASC_AUTH_TAG_SIZE :: nat where "MEASC_AUTH_TAG_SIZE = 16"
definition MIN_FRAME_SIZE :: nat where "MIN_FRAME_SIZE = MEASC_HEADER_SIZE + MEASC_AUTH_TAG_SIZE"

lemmas measc_sizes = MEASC_HEADER_SIZE_def MEASC_AUTH_TAG_SIZE_def MIN_FRAME_SIZE_def

record MEASCHeader =
  h_schema_id :: u16
  h_status_code :: u8
  h_flags :: u8
  h_action_class :: u8
  h_payload_length :: u32
  h_session_id :: bytes
  h_epoch_id :: u32
  h_psn :: u64
  h_context_ref_id :: bytes
  h_context_version :: u32
  h_traceparent :: bytes

definition encode_measc_header :: "MEASCHeader \<Rightarrow> bytes" where
  "encode_measc_header h =
     MEASC_MAGIC @ to_be_bytes 2 (h_schema_id h) @ [h_status_code h, h_flags h, h_action_class h] @
     [0, 0, 0] @ to_be_bytes 4 (h_payload_length h) @ h_session_id h @ to_be_bytes 4 (h_epoch_id h) @
     to_be_bytes 8 (h_psn h) @ h_context_ref_id h @ to_be_bytes 4 (h_context_version h) @
     h_traceparent h @ replicate 24 0"

definition decode_measc_header :: "bytes \<Rightarrow> MEASCHeader" where
  "decode_measc_header header =
     \<lparr>h_schema_id = from_be_bytes (slice 4 6 header),
      h_status_code = header ! 6, h_flags = header ! 7, h_action_class = header ! 8,
      h_payload_length = from_be_bytes (slice 12 16 header),
      h_session_id = slice 16 32 header,
      h_epoch_id = from_be_bytes (slice 32 36 header),
      h_psn = from_be_bytes (slice 36 44 header),
      h_context_ref_id = slice 44 76 header,
      h_context_version = from_be_bytes (slice 76 80 header),
      h_traceparent = slice 80 104 header\<rparr>"

definition header_wf :: "MEASCHeader \<Rightarrow> bool" where
  "header_wf h \<longleftrightarrow> length (h_session_id h) = 16 \<and> length (h_context_ref_id h) = 32 \<and>
     length (h_traceparent h) = 24"

section \<open>Building a frame\<close>

definition build_header ::
  "crypto \<Rightarrow> SessionEpoch \<Rightarrow> bytes \<Rightarrow> u64 \<Rightarrow> u16 \<Rightarrow> u8 \<Rightarrow> u8 \<Rightarrow> u8 \<Rightarrow> bytes \<Rightarrow> bytes \<Rightarrow> bytes \<Rightarrow> u32 \<Rightarrow> MEASCHeader" where
  "build_header C e key psn schema_id status_code flags action_class payload ctx_ref traceparent ctx_version =
     \<lparr>h_schema_id = schema_id, h_status_code = status_code, h_flags = flags, h_action_class = action_class,
      h_payload_length = word_of_nat (length payload), h_session_id = se_session_id e,
      h_epoch_id = se_epoch_id e, h_psn = psn,
      h_context_ref_id = easi_encrypt (hkdf_sha256 C) ctx_ref key (se_epoch_id e) psn,
      h_context_version = ctx_version, h_traceparent = traceparent\<rparr>"

definition measc_build_frame ::
  "crypto \<Rightarrow> SessionEpoch \<Rightarrow> u16 \<Rightarrow> u8 \<Rightarrow> u8 \<Rightarrow> u8 \<Rightarrow> bytes \<Rightarrow> bytes \<Rightarrow> bytes \<Rightarrow> u32
     \<Rightarrow> SessionEpoch \<times> (bytes \<times> u64) result" where
  "measc_build_frame C e schema_id status_code flags action_class payload ctx_ref traceparent ctx_version =
     (case next_psn (sequencer e) of
        Inl err \<Rightarrow> (e, Err err)
      | Inr (psn, s') \<Rightarrow>
          (let e1 = e\<lparr>sequencer := s'\<rparr> in
           case epoch_traffic_key e1 of
             Inl err \<Rightarrow> (e1, Err err)
           | Inr key \<Rightarrow>
               (let iv = derive_iv (hkdf_prk_expand C) key (se_epoch_id e1) psn;
                    header = encode_measc_header (build_header C e1 key psn schema_id status_code flags
                               action_class payload ctx_ref traceparent ctx_version)
                in case seal C key iv header payload of
                     None \<Rightarrow> (e1, Err InvalidSignature)
                   | Some ct_with_tag \<Rightarrow>
                       (let ct_len = length ct_with_tag - MEASC_AUTH_TAG_SIZE
                        in (e1, Ok (header @ drop ct_len ct_with_tag @ take ct_len ct_with_tag, psn))))))"

section \<open>Parsing a frame\<close>

definition psn_rejection :: "string \<Rightarrow> SAACPBytecodes" where
  "psn_rejection reason =
     (if reason = ''duplicate'' then PsnReplayDetected
      else if reason = ''advance_too_large'' then PsnOutOfWindow
      else if reason = ''rate_limit_exceeded'' then PsnOutOfWindow
      else if reason = ''quarantined'' then PsnReplayDetected
      else PsnOutOfWindow)"

record ParsedMEASCFrame =
  pf_header :: MEASCHeader
  pf_payload :: bytes

text \<open>Steps 1 to 3: lengths, magic, header fields.\<close>

definition parse_measc_header :: "bytes \<Rightarrow> MEASCHeader result" where
  "parse_measc_header buffer =
     (if length buffer < MIN_FRAME_SIZE then Err MalformedHeader
      else let header = take MEASC_HEADER_SIZE buffer in
        if take 4 header \<noteq> MEASC_MAGIC then Err MalformedHeader
        else let h = decode_measc_header header in
          if 10000000 < h_payload_length h then Err PayloadTooLarge
          else if length buffer < MEASC_HEADER_SIZE + MEASC_AUTH_TAG_SIZE + unat (h_payload_length h)
          then Err MalformedHeader
          else Ok h)"

text \<open>Steps 4 to 6, all before any state changes: the epoch is live, the window would take the PSN,
  the tag verifies. The result is the plaintext and the key it was opened with.\<close>

definition authenticate_measc :: "crypto \<Rightarrow> bytes \<Rightarrow> SessionEpochManager \<Rightarrow> MEASCHeader \<Rightarrow> (bytes \<times> bytes) result" where
  "authenticate_measc C buffer m h =
     (if with_epoch m (h_session_id h) (h_epoch_id h) (\<lambda>e. \<not> destroyed e) \<noteq> Some True then Err EpochExpired
      else
        (case with_epoch m (h_session_id h) (h_epoch_id h) (\<lambda>e. peek (replay_window e) (h_psn h)) of
           None \<Rightarrow> Err EpochExpired
         | Some (rw_ok, rw_reason) \<Rightarrow>
             if \<not> rw_ok then Err (psn_rejection rw_reason)
             else
               (case with_epoch m (h_session_id h) (h_epoch_id h) epoch_traffic_key of
                  None \<Rightarrow> Err EpochExpired
                | Some r \<Rightarrow>
                    and_then r (\<lambda>key.
                      (let expected_total = MEASC_HEADER_SIZE + MEASC_AUTH_TAG_SIZE + unat (h_payload_length h);
                           auth_tag = slice MEASC_HEADER_SIZE (MEASC_HEADER_SIZE + MEASC_AUTH_TAG_SIZE) buffer;
                           ciphertext = slice (MEASC_HEADER_SIZE + MEASC_AUTH_TAG_SIZE) expected_total buffer;
                           iv = derive_iv (hkdf_prk_expand C) key (h_epoch_id h) (h_psn h)
                       in (case open_sealed C key iv (take MEASC_HEADER_SIZE buffer) (ciphertext @ auth_tag) of
                             None \<Rightarrow> Err InvalidSignature
                           | Some plaintext \<Rightarrow> Ok (plaintext, key)))))))"

text \<open>Steps 6.5 to 9, after authentication: accept the PSN, note the session as authenticated, recover
  the context reference, validate the payload, rotate when due.\<close>

definition accept_measc ::
  "crypto \<Rightarrow> (u16 \<Rightarrow> bytes \<Rightarrow> unit result) \<Rightarrow> secs \<Rightarrow> bool \<Rightarrow> SessionEpochManager \<Rightarrow> MEASCHeader \<Rightarrow> bytes \<Rightarrow> bytes
     \<Rightarrow> SessionEpochManager \<times> ParsedMEASCFrame result" where
  "accept_measc C validate now skip_schema_validation m h plaintext key =
     (case with_epoch_mut m (h_session_id h) (h_epoch_id h)
             (\<lambda>e. let (w', ok, reason) = check_and_accept now (replay_window e) (h_psn h)
                  in (e\<lparr>replay_window := w'\<rparr>, (ok, reason))) of
        (m1, None) \<Rightarrow> (m1, Err EpochExpired)
      | (m1, Some (rw_ok, rw_reason)) \<Rightarrow>
          if \<not> rw_ok then (m1, Err (psn_rejection rw_reason))
          else
            (let m2 = note_authenticated now m1 (h_session_id h);
                 context_ref_id = easi_decrypt (hkdf_sha256 C) (h_context_ref_id h) key (h_epoch_id h) (h_psn h)
             in (case (if skip_schema_validation then Ok () else validate (h_schema_id h) plaintext) of
                   Inl err \<Rightarrow> (m2, Err err)
                 | Inr _ \<Rightarrow>
                     (let should = (case with_epoch m2 (h_session_id h) (h_epoch_id h) (should_rotate now) of
                                      Some b \<Rightarrow> b | None \<Rightarrow> False);
                          m3 = (if should then fst (check_and_rotate (hkdf_sha256 C) now m2 (h_session_id h)) else m2)
                      in (m3, Ok \<lparr>pf_header = h\<lparr>h_context_ref_id := context_ref_id\<rparr>, pf_payload = plaintext\<rparr>)))))"

definition measc_parse_frame ::
  "crypto \<Rightarrow> (u16 \<Rightarrow> bytes \<Rightarrow> unit result) \<Rightarrow> secs \<Rightarrow> bytes \<Rightarrow> SessionEpochManager \<Rightarrow> bool
     \<Rightarrow> SessionEpochManager \<times> ParsedMEASCFrame result" where
  "measc_parse_frame C validate now buffer m skip_schema_validation =
     (case parse_measc_header buffer of
        Inl err \<Rightarrow> (m, Err err)
      | Inr h \<Rightarrow>
          (case authenticate_measc C buffer m h of
             Inl err \<Rightarrow> (m, Err err)
           | Inr (plaintext, key) \<Rightarrow> accept_measc C validate now skip_schema_validation m h plaintext key))"

section \<open>PSK compromise recovery\<close>

text \<open>A callback is the outcome of calling it: true for \<open>Ok(())\<close>, false for an error or a panic.\<close>

record PSKCompromiseReport =
  sessions_destroyed :: nat
  session_ids_hex :: "string list"
  revocation_epoch :: u64
  recovery_complete :: bool
  gateway_revocation_ok :: bool
  capability_revocation_ok :: "bool option"
  key_rotation_ok :: "bool option"
  audit_ok :: "bool option"

record PSKCompromiseRecovery =
  gateway_callback :: "bool option"
  capability_revoke_callback :: "bool option"
  key_rotation_callback :: "bool option"
  audit_callback :: "bool option"

definition execute_recovery ::
  "PSKCompromiseRecovery \<Rightarrow> SessionEpochManager \<Rightarrow> u64 option \<Rightarrow> SessionEpochManager \<times> PSKCompromiseReport" where
  "execute_recovery r m gateway_revocation_epoch =
     (let gateway_ok = (case gateway_callback r of None \<Rightarrow> True | Some ok \<Rightarrow> ok);
          epoch = (case gateway_revocation_epoch of Some e \<Rightarrow> e | None \<Rightarrow> 0)
      in if \<not> gateway_ok then
           (m, \<lparr>sessions_destroyed = 0, session_ids_hex = [], revocation_epoch = epoch,
                recovery_complete = False, gateway_revocation_ok = False,
                capability_revocation_ok = None, key_rotation_ok = None, audit_ok = None\<rparr>)
         else
           (let session_ids = map fst (sessions m)
            in (foldl destroy_session m session_ids,
                \<lparr>sessions_destroyed = length session_ids, session_ids_hex = map hex_encode session_ids,
                 revocation_epoch = epoch, recovery_complete = True, gateway_revocation_ok = True,
                 capability_revocation_ok = capability_revoke_callback r,
                 key_rotation_ok = key_rotation_callback r, audit_ok = audit_callback r\<rparr>)))"


section \<open>Specifications\<close>

text \<open>A buffer is genuine for a manager when it carries a header and a sealing, under the key of the
  live epoch the header names, of some payload with that header as associated data.\<close>

definition genuine :: "crypto \<Rightarrow> SessionEpochManager \<Rightarrow> bytes \<Rightarrow> MEASCHeader \<Rightarrow> SessionEpoch \<Rightarrow> bytes \<Rightarrow> bool" where
  "genuine C m buffer h e p \<longleftrightarrow>
     parse_measc_header buffer = Ok h \<and>
     get_session_epoch m (h_session_id h) (h_epoch_id h) = Some e \<and> \<not> destroyed e \<and>
     seal C (traffic_key e) (derive_iv (hkdf_prk_expand C) (traffic_key e) (h_epoch_id h) (h_psn h))
       (take MEASC_HEADER_SIZE buffer) p =
     Some (slice (MEASC_HEADER_SIZE + MEASC_AUTH_TAG_SIZE)
             (MEASC_HEADER_SIZE + MEASC_AUTH_TAG_SIZE + unat (h_payload_length h)) buffer @
           slice MEASC_HEADER_SIZE (MEASC_HEADER_SIZE + MEASC_AUTH_TAG_SIZE) buffer)"

text \<open>An arrival is a clock reading, a buffer and the flag; its key names session, epoch and PSN.\<close>

type_synonym arrival = "secs \<times> bytes \<times> bool"

definition frame_key :: "arrival \<Rightarrow> bytes \<times> u32 \<times> u64" where
  "frame_key x =
     (let h = decode_measc_header (take MEASC_HEADER_SIZE (fst (snd x)))
      in (h_session_id h, h_epoch_id h, h_psn h))"

definition frame_step ::
  "crypto \<Rightarrow> (u16 \<Rightarrow> bytes \<Rightarrow> unit result) \<Rightarrow> SessionEpochManager \<Rightarrow> arrival \<Rightarrow> SessionEpochManager \<times> bool" where
  "frame_step C validate m x =
     (let (m', r) = measc_parse_frame C validate (fst x) (fst (snd x)) m (snd (snd x)) in (m', \<not> isl r))"

text \<open>The manager may have accepted the frames \<open>H\<close>: the window of each live epoch has recorded the PSNs
  of \<open>H\<close> for that epoch, and \<open>H\<close> names no epoch that is still to come.\<close>

definition frames_hist :: "SessionEpochManager \<Rightarrow> (bytes \<times> u32 \<times> u64) set \<Rightarrow> bool" where
  "frames_hist m H \<longleftrightarrow>
     mgr_wf m \<and>
     (\<forall>sid eid e. get_session_epoch m sid eid = Some e \<longrightarrow> \<not> destroyed e \<longrightarrow>
        (\<exists>S. rw_rel (replay_window e) S \<and> (\<forall>p. (sid, eid, p) \<in> H \<longrightarrow> unat p \<in> S))) \<and>
     (\<forall>sid eid p c. (sid, eid, p) \<in> H \<longrightarrow> get_current_epoch_id m sid = Some c \<longrightarrow> eid \<le> c)"

text \<open>Toy primitives to evaluate the model on: sealing appends a constant tag.\<close>

definition toy_crypto :: crypto where
  "toy_crypto =
     \<lparr>hkdf_sha256 = toy_hkdf,
      hkdf_prk_expand = (\<lambda>prk info len. toy_hkdf [] prk info len),
      seal = (\<lambda>key iv aad msg. Some (msg @ replicate 16 7)),
      open_sealed = (\<lambda>key iv aad msg.
        if 16 \<le> length msg \<and> drop (length msg - 16) msg = replicate 16 7
        then Some (take (length msg - 16) msg) else None)\<rparr>"

definition demo_epoch :: SessionEpoch where
  "demo_epoch = new_session_epoch 0 demo_sid 0 (replicate 32 2) 10 600"

definition demo_manager :: SessionEpochManager where
  "demo_manager = put_epoch demo_run demo_sid 0 demo_epoch"

section \<open>Header round trip\<close>

lemma length_magic [wire]: "length MEASC_MAGIC = 4"
  by (simp add: MEASC_MAGIC_def str_bytes_def)

lemma length_encode_measc_header: "header_wf h \<Longrightarrow> length (encode_measc_header h) = 128"
  by (simp add: encode_measc_header_def header_wf_def wire)

lemma take_encode_measc_header: "take 4 (encode_measc_header h) = MEASC_MAGIC"
  by (simp add: encode_measc_header_def wire)

lemma decode_encode_measc_header:
  assumes "header_wf h" shows "decode_measc_header (encode_measc_header h) = h"
  using assms
  by (simp add: decode_measc_header_def encode_measc_header_def header_wf_def wire nth_append nth_Cons')

lemma parse_measc_header_encode:
  assumes "header_wf h" "h_payload_length h \<le> 10000000"
    "length rest \<ge> 16 + unat (h_payload_length h)"
  shows "parse_measc_header (encode_measc_header h @ rest) = Ok h"
  using assms
  by (simp add: parse_measc_header_def Let_def measc_sizes length_encode_measc_header
      take_encode_measc_header decode_encode_measc_header linorder_not_less)

section \<open>Building then parsing\<close>

lemma build_frame_Ok:
  assumes "measc_build_frame C e sch st fl ac payload ctx tr cv = (e', Ok (frame, psn))"
  obtains ct key where
    "psn = sequencer e" "\<not> destroyed e" "key = traffic_key e"
    "seal C key (derive_iv (hkdf_prk_expand C) key (se_epoch_id e) psn)
       (encode_measc_header (build_header C e key psn sch st fl ac payload ctx tr cv)) payload = Some ct"
    "frame = encode_measc_header (build_header C e key psn sch st fl ac payload ctx tr cv) @
       drop (length ct - 16) ct @ take (length ct - 16) ct"
  using assms
  by (auto simp: measc_build_frame_def next_psn_def epoch_traffic_key_def Let_def measc_sizes build_header_def
      split: sum.splits if_splits option.splits)

lemma build_header_wf:
  assumes "crypto_ok C" "length (se_session_id e) = 16" "length ctx = 32" "length tr = 24"
  shows "header_wf (build_header C e key psn sch st fl ac payload ctx tr cv)"
  using assms by (simp add: header_wf_def build_header_def easi_encrypt_def derive_pad_def crypto_ok_def xor_bytes_def)

lemma easi_roundtrip:
  assumes "crypto_ok C" "length ctx = 32"
  shows "easi_decrypt (hkdf_sha256 C) (easi_encrypt (hkdf_sha256 C) ctx key eid psn) key eid psn = ctx"
  using assms by (simp add: easi_decrypt_def easi_encrypt_def derive_pad_def crypto_ok_def xor_bytes_involution)

lemma open_iff_seal: "crypto_ok C \<Longrightarrow> open_sealed C k iv a c = Some p \<longleftrightarrow> seal C k iv a p = Some c"
  by (simp add: crypto_ok_def)

lemma length_seal: "crypto_ok C \<Longrightarrow> seal C k iv a p = Some c \<Longrightarrow> length c = length p + 16"
  unfolding crypto_ok_def by (metis option.inject)

lemma authenticate_genuine:
  assumes "crypto_ok C" "genuine C m buffer h e p" "fst (peek (replay_window e) (h_psn h))"
  shows "authenticate_measc C buffer m h = Ok (p, traffic_key e)"
proof -
  from assms(2) have e: "get_session_epoch m (h_session_id h) (h_epoch_id h) = Some e" "\<not> destroyed e"
    by (simp_all add: genuine_def)
  obtain r where "peek (replay_window e) (h_psn h) = (True, r)" using assms(3) by (metis prod.collapse)
  moreover have "open_sealed C (traffic_key e) (derive_iv (hkdf_prk_expand C) (traffic_key e) (h_epoch_id h) (h_psn h))
      (take MEASC_HEADER_SIZE buffer)
      (slice (MEASC_HEADER_SIZE + MEASC_AUTH_TAG_SIZE)
         (MEASC_HEADER_SIZE + MEASC_AUTH_TAG_SIZE + unat (h_payload_length h)) buffer @
       slice MEASC_HEADER_SIZE (MEASC_HEADER_SIZE + MEASC_AUTH_TAG_SIZE) buffer) = Some p"
    using assms(2) unfolding genuine_def open_iff_seal [OF assms(1)] by blast
  ultimately show ?thesis
    using e by (simp add: authenticate_measc_def with_epoch_def epoch_traffic_key_def Let_def)
qed

lemma authenticate_OkD:
  assumes "crypto_ok C" "parse_measc_header buffer = Ok h" "authenticate_measc C buffer m h = Ok (p, key)"
  obtains e where "genuine C m buffer h e p" "key = traffic_key e" "fst (peek (replay_window e) (h_psn h))"
proof -
  obtain e where e: "get_session_epoch m (h_session_id h) (h_epoch_id h) = Some e" "\<not> destroyed e"
    using assms(3) by (auto simp: authenticate_measc_def with_epoch_def split: if_splits)
  obtain ok r where pk: "peek (replay_window e) (h_psn h) = (ok, r)" by fastforce
  then have "ok" using assms(3) e by (auto simp: authenticate_measc_def with_epoch_def split: if_splits)
  with pk e assms have "genuine C m buffer h e p \<and> key = traffic_key e"
    by (auto simp: authenticate_measc_def with_epoch_def epoch_traffic_key_def Let_def genuine_def crypto_ok_def
        split: option.splits)
  with pk \<open>ok\<close> show ?thesis by (auto intro: that)
qed

lemma accept_measc_Ok:
  assumes "get_session_epoch m (h_session_id h) (h_epoch_id h) = Some e"
    "check_and_accept now (replay_window e) (h_psn h) = (w', True, reason)"
    "skip \<or> validate (h_schema_id h) p = Ok ()"
  shows "snd (accept_measc C validate now skip m h p key) =
     Ok \<lparr>pf_header = h\<lparr>h_context_ref_id :=
           easi_decrypt (hkdf_sha256 C) (h_context_ref_id h) key (h_epoch_id h) (h_psn h)\<rparr>,
         pf_payload = p\<rparr>"
  using assms by (auto simp: accept_measc_def with_epoch_mut_def Let_def)

lemma check_and_accept_peek: "fst (snd (check_and_accept now w psn)) \<Longrightarrow> fst (peek w psn)"
  by (auto simp: check_and_accept_cases check_cases split: if_splits)

lemma build_then_parse:
  assumes C: "crypto_ok C"
    and built: "measc_build_frame C e sch st fl ac payload ctx tr cv = (e', Ok (frame, psn))"
    and lens: "length (se_session_id e) = 16" "length ctx = 32" "length tr = 24" "length payload \<le> 10000000"
    and recv: "get_session_epoch m (se_session_id e) (se_epoch_id e) = Some r" "\<not> destroyed r"
      "traffic_key r = traffic_key e"
    and fresh: "fst (snd (check_and_accept now (replay_window r) psn))"
    and schema: "skip \<or> validate sch payload = Ok ()"
  shows "snd (measc_parse_frame C validate now (frame @ rest) m skip) =
    Ok \<lparr>pf_header = \<lparr>h_schema_id = sch, h_status_code = st, h_flags = fl, h_action_class = ac,
          h_payload_length = word_of_nat (length payload), h_session_id = se_session_id e,
          h_epoch_id = se_epoch_id e, h_psn = psn, h_context_ref_id = ctx, h_context_version = cv,
          h_traceparent = tr\<rparr>, pf_payload = payload\<rparr>"
proof -
  obtain ct key where key: "psn = sequencer e" "\<not> destroyed e" "key = traffic_key e"
    and ct: "seal C key (derive_iv (hkdf_prk_expand C) key (se_epoch_id e) psn)
       (encode_measc_header (build_header C e key psn sch st fl ac payload ctx tr cv)) payload = Some ct"
    and frame: "frame = encode_measc_header (build_header C e key psn sch st fl ac payload ctx tr cv) @
       drop (length ct - 16) ct @ take (length ct - 16) ct"
    using build_frame_Ok [OF built] by blast
  let ?h = "build_header C e key psn sch st fl ac payload ctx tr cv"
  have hwf: "header_wf ?h" by (rule build_header_wf [OF C lens(1-3)])
  have n: "unat (h_payload_length ?h) = length payload"
    using lens(4) by (simp add: build_header_def unsigned_of_nat take_bit_nat_eq_self)
  have lct: "length ct = length payload + 16" by (rule length_seal [OF C ct])
  have hdr: "parse_measc_header (frame @ rest) = Ok ?h"
    unfolding frame append_assoc
    by (rule parse_measc_header_encode [OF hwf]) (use n lct lens(4) in \<open>simp_all add: word_le_nat_alt\<close>)
  have fields: "h_session_id ?h = se_session_id e" "h_epoch_id ?h = se_epoch_id e" "h_psn ?h = psn"
    by (simp_all add: build_header_def)
  have layout: "take 128 (frame @ rest) = encode_measc_header ?h"
    "slice (128 + 16) (128 + 16 + length payload) (frame @ rest) = take (length payload) ct"
    "slice 128 (128 + 16) (frame @ rest) = drop (length payload) ct"
    by (simp_all add: frame lct length_encode_measc_header [OF hwf] wire)
  have sz: "MEASC_AUTH_TAG_SIZE = 16" "MEASC_HEADER_SIZE = 128" by (simp_all add: measc_sizes)
  have "genuine C m (frame @ rest) ?h r payload"
    unfolding genuine_def fields n sz layout recv(3) key(3) [symmetric]
    using hdr recv(1,2) ct by simp
  moreover have "fst (peek (replay_window r) (h_psn ?h))"
    using check_and_accept_peek [OF fresh] by (simp add: build_header_def)
  ultimately have au: "authenticate_measc C (frame @ rest) m ?h = Ok (payload, traffic_key r)"
    by (rule authenticate_genuine [OF C])
  obtain w' reason where ca: "check_and_accept now (replay_window r) psn = (w', True, reason)"
    using fresh by (metis prod.collapse)
  have "snd (accept_measc C validate now skip m ?h payload (traffic_key r)) =
     Ok \<lparr>pf_header = ?h\<lparr>h_context_ref_id := easi_decrypt (hkdf_sha256 C) (h_context_ref_id ?h) (traffic_key r)
           (h_epoch_id ?h) (h_psn ?h)\<rparr>, pf_payload = payload\<rparr>"
    by (rule accept_measc_Ok) (use recv ca schema in \<open>simp_all add: fields, simp_all add: build_header_def\<close>)
  moreover have "easi_decrypt (hkdf_sha256 C) (h_context_ref_id ?h) (traffic_key r) (h_epoch_id ?h) (h_psn ?h) = ctx"
    by (simp add: build_header_def recv(3) key(3) easi_roundtrip [OF C lens(2)])
  moreover have "measc_parse_frame C validate now (frame @ rest) m skip =
      accept_measc C validate now skip m ?h payload (traffic_key r)"
    unfolding measc_parse_frame_def hdr by (simp add: au)
  ultimately show ?thesis by (simp add: build_header_def)
qed

section \<open>What a rejected or accepted frame does\<close>

text \<open>Every parse is a rejection that leaves the manager alone, or a genuine frame handed to
  \<open>accept_measc\<close>.\<close>

lemma parse_frame_cases:
  assumes "crypto_ok C"
  obtains (rejected) err where "measc_parse_frame C validate now buffer m skip = (m, Err err)"
  | (authentic) h e p where "genuine C m buffer h e p" "fst (peek (replay_window e) (h_psn h))"
      "measc_parse_frame C validate now buffer m skip = accept_measc C validate now skip m h p (traffic_key e)"
proof (cases "parse_measc_header buffer")
  case (Inl err)
  then show ?thesis by (intro rejected) (simp add: measc_parse_frame_def)
next
  case (Inr h)
  show ?thesis
  proof (cases "authenticate_measc C buffer m h")
    case (Inl err)
    with Inr show ?thesis by (intro rejected) (simp add: measc_parse_frame_def)
  next
    case au: (Inr pk)
    then obtain p key where au: "authenticate_measc C buffer m h = Ok (p, key)" by (cases pk) simp
    obtain e where "genuine C m buffer h e p" "key = traffic_key e" "fst (peek (replay_window e) (h_psn h))"
      using authenticate_OkD [OF assms Inr au] by blast
    with Inr au show ?thesis by (intro authentic) (simp_all add: measc_parse_frame_def)
  qed
qed

section \<open>The frame history\<close>

lemma frames_hist_window:
  "frames_hist m H \<Longrightarrow> get_session_epoch m s i = Some e \<Longrightarrow> \<not> destroyed e \<Longrightarrow>
     \<exists>S. rw_rel (replay_window e) S \<and> (\<forall>p. (s, i, p) \<in> H \<longrightarrow> unat p \<in> S)"
  unfolding frames_hist_def by blast

lemma frames_hist_bound:
  "frames_hist m H \<Longrightarrow> (s, i, p) \<in> H \<Longrightarrow> get_current_epoch_id m s = Some c \<Longrightarrow> i \<le> c"
  unfolding frames_hist_def by blast

lemma frames_hist_mono:
  assumes "frames_hist m H'" "H \<subseteq> H'"
  shows "frames_hist m H"
  unfolding frames_hist_def
proof (intro conjI allI impI)
  show "mgr_wf m" using assms(1) by (simp add: frames_hist_def)
  show "\<exists>S. rw_rel (replay_window e) S \<and> (\<forall>p. (sid, eid, p) \<in> H \<longrightarrow> unat p \<in> S)"
    if "get_session_epoch m sid eid = Some e" "\<not> destroyed e" for sid eid e
    using frames_hist_window [OF assms(1) that] assms(2) by (meson subsetD)
  show "eid \<le> c" if "(sid, eid, p) \<in> H" "get_current_epoch_id m sid = Some c" for sid eid p c
    using frames_hist_bound [OF assms(1) _ that(2)] that(1) assms(2) by (meson subsetD)
qed

lemma get_put_epoch:
  assumes "get_session_epoch m sid eid = Some e"
  shows "get_session_epoch (put_epoch m sid eid e') s i =
    (if s = sid \<and> i = eid then Some e' else get_session_epoch m s i)"
  using assms by (auto simp: get_session_epoch_def put_epoch_def bind_eq_Some_conv)

lemma put_epoch_meta [simp]: "meta (put_epoch m sid eid e) = meta m"
  by (simp add: put_epoch_def split: option.split)

lemma frames_hist_put:
  assumes h: "frames_hist m H" and e: "get_session_epoch m sid eid = Some e" "\<not> destroyed e"
    and w: "rw_rel w' S'" "\<And>p. (sid, eid, p) \<in> H' \<Longrightarrow> unat p \<in> S'"
    and H': "H \<subseteq> H'" "H' \<subseteq> H \<union> {sid} \<times> {eid} \<times> UNIV"
  shows "frames_hist (put_epoch m sid eid (e\<lparr>replay_window := w'\<rparr>)) H'"
proof -
  have wf: "mgr_wf m" using h by (simp add: frames_hist_def)
  have "mgr_wf (put_epoch m sid eid (e\<lparr>replay_window := w'\<rparr>))"
    by (rule put_live_epoch_wf [OF wf e]) (use e in simp_all)
  moreover have "\<exists>S. rw_rel (replay_window e2) S \<and> (\<forall>p. (s, i, p) \<in> H' \<longrightarrow> unat p \<in> S)"
    if "get_session_epoch (put_epoch m sid eid (e\<lparr>replay_window := w'\<rparr>)) s i = Some e2" "\<not> destroyed e2" for s i e2
  proof (cases "s = sid \<and> i = eid")
    case True
    with that w e show ?thesis by (auto simp: get_put_epoch)
  next
    case False
    then have "(s, i, p) \<in> H' \<longleftrightarrow> (s, i, p) \<in> H" for p using H' by auto
    with False that h e show ?thesis by (auto simp: get_put_epoch frames_hist_def)
  qed
  moreover have "i \<le> c" if "(s, i, p) \<in> H'" "get_current_epoch_id (put_epoch m sid eid (e\<lparr>replay_window := w'\<rparr>)) s = Some c"
    for s i p c
  proof -
    have c: "get_current_epoch_id m s = Some c" using that(2) by (simp add: get_current_epoch_id_def)
    show ?thesis
    proof (cases "(s, i, p) \<in> H")
      case True
      with h c show ?thesis unfolding frames_hist_def by blast
    next
      case False
      with that(1) H' have "s = sid" "i = eid" by auto
      with live_is_current [OF wf e] c show ?thesis by (auto simp: get_current_epoch_id_def)
    qed
  qed
  ultimately show ?thesis by (auto simp: frames_hist_def)
qed

lemma frames_hist_note: "frames_hist m H \<Longrightarrow> frames_hist (note_authenticated now m sid) H"
  using note_authenticated_wf [of m now sid]
  by (auto simp: frames_hist_def note_authenticated_def get_session_epoch_def get_current_epoch_id_def
      split: option.splits)

lemma default_window_rel: "rw_rel (replay_window (new_session_epoch now sid eid k pt tt)) {}"
proof -
  have "0 < unat (window_size default_policy)"
    unfolding default_policy_def using clamp_fields(1) by (simp add: word_le_nat_alt Suc_le_eq)
  then show ?thesis by (simp add: new_session_epoch_def new_replay_window_rel)
qed

lemma rotate_epoch_Ok:
  assumes wf: "mgr_wf m" and ro: "rotate_epoch hkdf now m sid = Ok (m', eid)"
  obtains c where "get_current_epoch_id m sid = Some c" "c \<noteq> - 1"
    "\<And>s. get_current_epoch_id m' s = (if s = sid then Some (c + 1) else get_current_epoch_id m s)"
    "\<And>s i e. get_session_epoch m' s i = Some e \<Longrightarrow> \<not> destroyed e \<Longrightarrow>
        (if s = sid \<and> i = c + 1 then rw_rel (replay_window e) {} else get_session_epoch m s i = Some e)"
proof -
  obtain eps d gr where row: "map_of (sessions m) sid = Some eps" "map_of (meta m) sid = Some d"
      "map_of (grace m) sid = Some gr" "session_ok sid eps d gr"
    using ro by (cases rule: mgr_wf_row [OF wf, of sid]) (auto simp: rotate_epoch_def)
  from row(4) obtain e where e: "map_of eps (current_epoch d) = Some e" "\<not> destroyed e"
    by (auto simp: session_ok_def)
  have lt: "current_epoch d \<noteq> - 1"
    using ro row e by (auto simp: rotate_epoch_def epoch_traffic_key_def checked_add_1)
  note eq = rotate_epoch_eq [OF row(1-3) e lt, of hkdf now, unfolded ro]
  have dead: "destroyed (destroy_epoch (enter_grace_period e))" by (simp add: destroy_epoch_def)
  show ?thesis
  proof (rule that [of "current_epoch d"])
    show "get_current_epoch_id m sid = Some (current_epoch d)" "current_epoch d \<noteq> - 1"
      using row lt by (simp_all add: get_current_epoch_id_def)
    show "get_current_epoch_id m' s = (if s = sid then Some (current_epoch d + 1) else get_current_epoch_id m s)" for s
      using eq by (simp add: get_current_epoch_id_def rotated_meta_def)
    show "if s = sid \<and> i = current_epoch d + 1 then rw_rel (replay_window e2) {} else get_session_epoch m s i = Some e2"
      if "get_session_epoch m' s i = Some e2" "\<not> destroyed e2" for s i e2
      using that eq dead row
      by (auto simp: get_session_epoch_def rotated_epoch_def default_window_rel split: if_splits)
  qed
qed

lemma frames_hist_rotate:
  assumes h: "frames_hist m H" and ro: "rotate_epoch hkdf now m sid = Ok (m', eid)"
  shows "frames_hist m' H"
proof -
  have wf: "mgr_wf m" using h by (simp add: frames_hist_def)
  obtain c where c: "get_current_epoch_id m sid = Some c" "c \<noteq> - 1"
    and cur: "\<And>s. get_current_epoch_id m' s = (if s = sid then Some (c + 1) else get_current_epoch_id m s)"
    and live: "\<And>s i e. get_session_epoch m' s i = Some e \<Longrightarrow> \<not> destroyed e \<Longrightarrow>
        (if s = sid \<and> i = c + 1 then rw_rel (replay_window e) {} else get_session_epoch m s i = Some e)"
    using rotate_epoch_Ok [OF wf ro] by blast
  have lt: "c < c + 1" by (rule succ_word_less [OF c(2)])
  have old: "i \<le> c" if "(sid, i, p) \<in> H" for i p
    using h c(1) that unfolding frames_hist_def by blast
  have "mgr_wf m'" by (rule rotate_epoch_wf [OF wf ro])
  moreover have "\<exists>S. rw_rel (replay_window e) S \<and> (\<forall>p. (s, i, p) \<in> H \<longrightarrow> unat p \<in> S)"
    if "get_session_epoch m' s i = Some e" "\<not> destroyed e" for s i e
  proof (cases "s = sid \<and> i = c + 1")
    case True
    then have "rw_rel (replay_window e) {}" using live [OF that] by simp
    moreover have "(s, i, p) \<notin> H" for p using True old [of "c + 1" p] lt by auto
    ultimately show ?thesis by blast
  next
    case False
    then have "get_session_epoch m s i = Some e" using live [OF that] by simp
    with h that(2) show ?thesis unfolding frames_hist_def by blast
  qed
  moreover have "i \<le> d" if "(s, i, p) \<in> H" "get_current_epoch_id m' s = Some d" for s i p d
  proof (cases "s = sid")
    case True
    with that old have "i \<le> c" "d = c + 1" by (auto simp: cur)
    with lt show ?thesis by simp
  next
    case False
    with that(2) have "get_current_epoch_id m s = Some d" by (simp add: cur)
    with h that(1) show ?thesis by (rule frames_hist_bound)
  qed
  ultimately show ?thesis unfolding frames_hist_def by blast
qed

lemma frames_hist_check_and_rotate:
  "frames_hist m H \<Longrightarrow> frames_hist (fst (check_and_rotate hkdf now m sid)) H"
  using frames_hist_rotate by (fastforce simp: check_and_rotate_def split: option.split sum.split)

lemma accept_measc_state:
  assumes "get_session_epoch m (h_session_id h) (h_epoch_id h) = Some e"
    "check_and_accept now (replay_window e) (h_psn h) = (w', True, reason)"
  defines "m2 \<equiv> note_authenticated now
      (put_epoch m (h_session_id h) (h_epoch_id h) (e\<lparr>replay_window := w'\<rparr>)) (h_session_id h)"
  shows "fst (accept_measc C validate now skip m h p key) = m2 \<or>
    fst (accept_measc C validate now skip m h p key) = fst (check_and_rotate (hkdf_sha256 C) now m2 (h_session_id h))"
  using assms(1,2) unfolding m2_def
  by (simp add: accept_measc_def with_epoch_mut_def Let_def split: sum.split)

text \<open>The frame handed to \<open>accept_measc\<close> enters the history exactly when its PSN was accepted.\<close>

lemma accept_measc_hist:
  assumes h: "frames_hist m H" and e: "get_session_epoch m (h_session_id h) (h_epoch_id h) = Some e" "\<not> destroyed e"
    and r: "accept_measc C validate now skip m h p key = (m', r)"
  shows "frames_hist m' H"
    "\<not> isl r \<Longrightarrow> (h_session_id h, h_epoch_id h, h_psn h) \<notin> H \<and>
       frames_hist m' (insert (h_session_id h, h_epoch_id h, h_psn h) H)"
proof -
  let ?k = "(h_session_id h, h_epoch_id h, h_psn h)"
  obtain w' ok reason where ca: "check_and_accept now (replay_window e) (h_psn h) = (w', ok, reason)"
    by (cases "check_and_accept now (replay_window e) (h_psn h)") auto
  obtain S where S: "rw_rel (replay_window e) S" "\<forall>p. (h_session_id h, h_epoch_id h, p) \<in> H \<longrightarrow> unat p \<in> S"
    using frames_hist_window [OF h e] by blast
  let ?m1 = "put_epoch m (h_session_id h) (h_epoch_id h) (e\<lparr>replay_window := w'\<rparr>)"
  have S': "unat p \<in> S" if "(h_session_id h, h_epoch_id h, p) \<in> H" for p using S(2) that by blast
  have m1: "frames_hist ?m1 H" if no: "\<not> ok"
  proof (rule frames_hist_put [OF h e])
    from no ca have "check_and_accept now (replay_window e) (h_psn h) = (w', False, reason)" by simp
    from check_and_accept_rejected [OF S(1) this] show "rw_rel w' S" .
    show "unat p \<in> S" if "(h_session_id h, h_epoch_id h, p) \<in> H" for p using that by (rule S')
    show "H \<subseteq> H" ..
    show "H \<subseteq> H \<union> {h_session_id h} \<times> {h_epoch_id h} \<times> UNIV" by blast
  qed
  have adm: "unat (h_psn h) \<notin> S" "rw_rel w' (insert (unat (h_psn h)) S)" if yes: ok
  proof -
    from yes ca have c: "check_and_accept now (replay_window e) (h_psn h) = (w', True, reason)" by simp
    from check_and_accept_admitted(2) [OF S(1) c] show "rw_rel w' (insert (unat (h_psn h)) S)" .
    from check_and_accept_admitted(1) [OF S(1) c] show "unat (h_psn h) \<notin> S"
      by (cases "S = {}") (simp_all add: spec_admits_def)
  qed
  have m1k: "frames_hist ?m1 (insert ?k H)" if yes: ok
  proof (rule frames_hist_put [OF h e adm(2) [OF yes]])
    show "unat p \<in> insert (unat (h_psn h)) S" if "(h_session_id h, h_epoch_id h, p) \<in> insert ?k H" for p
      using that S' [of p] by auto
  qed blast+
  have new: "?k \<notin> H" if ok using adm(1) [OF that] S' by blast
  have mono: "frames_hist m2 H" if "frames_hist m2 (insert ?k H)" for m2
    using that by (rule frames_hist_mono) blast
  have post: "frames_hist m' (insert ?k H)" if ok: "ok"
  proof -
    let ?m2 = "note_authenticated now ?m1 (h_session_id h)"
    have m2: "frames_hist ?m2 (insert ?k H)" by (rule frames_hist_note [OF m1k [OF ok]])
    have "m' = ?m2 \<or> m' = fst (check_and_rotate (hkdf_sha256 C) now ?m2 (h_session_id h))"
      using accept_measc_state [OF e(1), of now w' reason C validate skip p key] ca ok r by simp
    with m2 frames_hist_check_and_rotate [OF m2] show ?thesis by auto
  qed
  show "frames_hist m' H"
  proof (cases ok)
    case True
    then show ?thesis using post mono by blast
  next
    case False
    then have "m' = ?m1" using r e(1) ca by (simp add: accept_measc_def with_epoch_mut_def)
    with m1 False show ?thesis by simp
  qed
  assume "\<not> isl r"
  then have ok using r e(1) ca by (cases ok) (auto simp: accept_measc_def with_epoch_mut_def)
  with new post show "?k \<notin> H \<and> frames_hist m' (insert ?k H)" by blast
qed

lemma genuine_key:
  assumes "genuine C m buffer h e p"
  shows "frame_key (now, buffer, skip) = (h_session_id h, h_epoch_id h, h_psn h)"
proof -
  have "h = decode_measc_header (take MEASC_HEADER_SIZE buffer)"
    using assms by (auto simp: genuine_def parse_measc_header_def Let_def split: if_splits)
  then show ?thesis by (simp add: frame_key_def Let_def)
qed

lemma frame_step_hist:
  assumes C: "crypto_ok C" and h: "frames_hist m H" and st: "frame_step C validate m x = (m', ok)"
  shows "frames_hist m' H" "ok \<Longrightarrow> frame_key x \<notin> H \<and> frames_hist m' (insert (frame_key x) H)"
proof -
  obtain now buffer skip where x: "x = (now, buffer, skip)" by (metis prod_cases3)
  have "frames_hist m' H \<and> (ok \<longrightarrow> frame_key x \<notin> H \<and> frames_hist m' (insert (frame_key x) H))"
  proof (cases rule: parse_frame_cases [OF C, of validate now buffer m skip])
    case (1 err)
    with st h x show ?thesis by (simp add: frame_step_def)
  next
    case (2 fh e p)
    obtain r where r: "accept_measc C validate now skip m fh p (traffic_key e) = (m', r)" "ok = (\<not> isl r)"
      using st 2(3) x by (auto simp: frame_step_def split: prod.splits)
    have e: "get_session_epoch m (h_session_id fh) (h_epoch_id fh) = Some e" "\<not> destroyed e"
      using 2(1) by (simp_all add: genuine_def)
    note key = genuine_key [OF 2(1), of now skip, folded x]
    from accept_measc_hist [OF h e r(1)] show ?thesis unfolding key r(2) by blast
  qed
  then show "frames_hist m' H" "ok \<Longrightarrow> frame_key x \<notin> H \<and> frames_hist m' (insert (frame_key x) H)" by simp_all
qed

interpretation fg: replay_guard "frame_step C validate" frame_key frames_hist "\<lambda>_. crypto_ok C" for C validate
  by unfold_locales (use frame_step_hist in blast)+

lemma create_frames_hist:
  assumes h: "frames_hist m {}" and cr: "create_session hkdf now m sid sec pt tt tx = Ok (m', eid)"
  shows "frames_hist m' {}"
proof -
  have wf: "mgr_wf m" using h by (simp add: frames_hist_def)
  have get: "get_session_epoch m' s i = (if s = sid then (if i = 0 then get_session_epoch m' sid 0 else None)
      else get_session_epoch m s i)" for s i
    using cr by (auto simp: create_session_def get_session_epoch_def Let_def split: prod.splits if_splits)
  obtain k where k: "get_session_epoch m' sid 0 = Some (new_session_epoch now sid 0 k pt tt)"
    using cr by (auto simp: create_session_def get_session_epoch_def Let_def split: prod.splits if_splits)
  have "\<exists>S. rw_rel (replay_window e) S" if "get_session_epoch m' s i = Some e" "\<not> destroyed e" for s i e
  proof (cases "s = sid")
    case True
    with that(1) k get [of s i] have "e = new_session_epoch now sid 0 k pt tt" by (auto split: if_splits)
    then show ?thesis using default_window_rel by blast
  next
    case False
    with that get have "get_session_epoch m s i = Some e" by auto
    from frames_hist_window [OF h this that(2)] show ?thesis by blast
  qed
  then show ?thesis using create_session_wf [OF wf cr] by (simp add: frames_hist_def)
qed

lemma creates_frames_hist:
  "frames_hist m {} \<Longrightarrow> frames_hist (foldl (mgr_apply hkdf) m
     (map (\<lambda>(t, sid, sec, pt, tt, tx). (t, OpCreate sid sec pt tt tx)) cs)) {}"
proof (induction cs arbitrary: m)
  case (Cons c cs)
  obtain t sid sec pt tt tx where c: "c = (t, sid, sec, pt, tt, tx)" by (cases c) auto
  have "frames_hist (mgr_apply hkdf m (t, OpCreate sid sec pt tt tx)) {}"
    using Cons.prems create_frames_hist by (fastforce split: sum.split)
  with Cons.IH c show ?case by simp
qed simp

lemma toy_crypto_ok: "crypto_ok toy_crypto"
proof -
  have "(if 16 \<le> length c \<and> drop (length c - 16) c = replicate 16 7 then Some (take (length c - 16) c) else None) = Some p
      \<longleftrightarrow> p @ replicate 16 7 = c" for c p :: bytes
  proof
    assume "(if 16 \<le> length c \<and> drop (length c - 16) c = replicate 16 7 then Some (take (length c - 16) c) else None) = Some p"
    then show "p @ replicate 16 7 = c" by (metis append_take_drop_id option.distinct(1) option.inject)
  qed auto
  then show ?thesis by (simp add: crypto_ok_def toy_crypto_def toy_hkdf_def)
qed

lemma fresh_window_accepts:
  "1 \<le> unat psn \<Longrightarrow> unat psn \<le> unat MEASC_PSN_MAX \<Longrightarrow>
     fst (snd (check_and_accept now (new_replay_window t p) psn))"
  by (auto simp: check_and_accept_cases check_cases peek_def is_anomalous_def new_replay_window_def
      word_less_nat_alt)

lemma demo_frame:
  obtains e' frame where
    "measc_build_frame toy_crypto demo_epoch 1 0 0 0 [10, 20, 30] (replicate 32 5) (replicate 24 6) 9 = (e', Ok (frame, 1))"
proof -
  have "next_psn (sequencer demo_epoch) = Ok (1, 2)"
    by (simp add: demo_epoch_def next_psn_def MEASC_PSN_MAX_def word_le_nat_alt)
  then show ?thesis
    by (intro that) (simp add: measc_build_frame_def epoch_traffic_key_def demo_epoch_def toy_crypto_def Let_def)
qed

lemma demo_receiver:
  "get_session_epoch demo_manager (se_session_id demo_epoch) (se_epoch_id demo_epoch) = Some demo_epoch"
  "\<not> destroyed demo_epoch" "length (se_session_id demo_epoch) = 16"
  "fst (snd (check_and_accept now (replay_window demo_epoch) 1))"
proof -
  show "get_session_epoch demo_manager (se_session_id demo_epoch) (se_epoch_id demo_epoch) = Some demo_epoch"
    unfolding demo_manager_def using demo_run_facts(3) by (auto simp: demo_epoch_def get_put_epoch)
  have win: "replay_window demo_epoch = new_replay_window 0 default_policy"
    by (simp add: demo_epoch_def new_session_epoch_def)
  show "fst (snd (check_and_accept now (replay_window demo_epoch) 1))"
    unfolding win by (rule fresh_window_accepts) (simp_all add: unat_PSN_MAX)
qed (simp_all add: demo_epoch_def new_session_epoch_def demo_sid_def)

section \<open>Properties\<close>

text \<open>C10. A built frame is understood by the peer: when the receiver holds the same live epoch key and
  its window admits the PSN, parsing the frame (with any bytes after it) returns every header field
  as it was given to \<open>build_frame\<close>, the context reference decrypted, and the payload.\<close>

theorem measc_frame_roundtrip:
  assumes C: "crypto_ok C"
    and built: "measc_build_frame C e sch st fl ac payload ctx tr cv = (e', Ok (frame, psn))"
    and lens: "length (se_session_id e) = 16" "length ctx = 32" "length tr = 24" "length payload \<le> 10000000"
    and recv: "get_session_epoch m (se_session_id e) (se_epoch_id e) = Some r" "\<not> destroyed r"
      "traffic_key r = traffic_key e"
    and fresh: "fst (snd (check_and_accept now (replay_window r) psn))"
    and schema: "skip \<or> validate sch payload = Ok ()"
  shows "snd (measc_parse_frame C validate now (frame @ rest) m skip) =
    Ok \<lparr>pf_header = \<lparr>h_schema_id = sch, h_status_code = st, h_flags = fl, h_action_class = ac,
          h_payload_length = word_of_nat (length payload), h_session_id = se_session_id e,
          h_epoch_id = se_epoch_id e, h_psn = psn, h_context_ref_id = ctx, h_context_version = cv,
          h_traceparent = tr\<rparr>, pf_payload = payload\<rparr>"
  using assms by (rule build_then_parse)

theorem measc_frame_roundtrip_witness:
  "\<exists>frame. snd (measc_build_frame toy_crypto demo_epoch 1 0 0 0 [10, 20, 30] (replicate 32 5) (replicate 24 6) 9)
        = Ok (frame, 1) \<and>
     map_sum id pf_payload (snd (measc_parse_frame toy_crypto (\<lambda>_ _. Ok ()) 3 (frame @ []) demo_manager False))
        = Ok [10, 20, 30]"
proof -
  obtain e' frame where b:
    "measc_build_frame toy_crypto demo_epoch 1 0 0 0 [10, 20, 30] (replicate 32 5) (replicate 24 6) 9 = (e', Ok (frame, 1))"
    by (rule demo_frame)
  note p = measc_frame_roundtrip [OF toy_crypto_ok b demo_receiver(3) _ _ _ demo_receiver(1,2) _ demo_receiver(4),
      of False "\<lambda>_ _. Ok ()" 3 "[]"]
  from p b show ?thesis by simp
qed



text \<open>C19. Only holders of the key move the receiver's state: a buffer that is not a sealing under the live
  epoch key it names is rejected and leaves the whole session table unchanged.\<close>

theorem forged_frames_inert:
  assumes C: "crypto_ok C" and forged: "\<forall>h e p. \<not> genuine C m buffer h e p"
  shows "\<exists>err. measc_parse_frame C validate now buffer m skip = (m, Err err)"
proof (cases rule: parse_frame_cases [OF C, of validate now buffer m skip])
  case (1 err)
  then show ?thesis by blast
next
  case (2 h e p)
  with forged show ?thesis by blast
qed

theorem forged_frames_inert_witness:
  "\<exists>err. measc_parse_frame toy_crypto (\<lambda>_ _. Ok ()) 3 (replicate 200 1) demo_manager True
     = (demo_manager, Err err)"
proof -
  have "parse_measc_header (replicate 200 1) = Err MalformedHeader" by code_simp
  then have "\<forall>h e p. \<not> genuine toy_crypto demo_manager (replicate 200 1) h e p" by (simp add: genuine_def)
  from forged_frames_inert [OF toy_crypto_ok this] show ?thesis .
qed

text \<open>C21. An accepted frame was genuine, its PSN was admissible for the window of its epoch, and the
  returned payload is the one that was sealed.\<close>

theorem accepted_frames_genuine:
  assumes C: "crypto_ok C"
    and ok: "measc_parse_frame C validate now buffer m skip = (m', Ok f)"
  shows "\<exists>h e. genuine C m buffer h e (pf_payload f) \<and>
     fst (peek (replay_window e) (h_psn h)) \<and> h_psn (pf_header f) = h_psn h \<and>
     h_session_id (pf_header f) = h_session_id h \<and>
     (skip \<or> validate (h_schema_id h) (pf_payload f) = Ok ())"
proof (cases rule: parse_frame_cases [OF C, of validate now buffer m skip])
  case (1 err)
  with ok show ?thesis by simp
next
  case (2 h e p)
  have "pf_payload f = p \<and> h_psn (pf_header f) = h_psn h \<and> h_session_id (pf_header f) = h_session_id h \<and>
      (skip \<or> validate (h_schema_id h) p = Ok ())"
    using ok 2(3)
    by (auto simp: accept_measc_def with_epoch_mut_def Let_def split: option.splits prod.splits if_splits sum.splits)
  with 2(1,2) show ?thesis by blast
qed

theorem accepted_frames_genuine_witness:
  "\<exists>frame h e. genuine toy_crypto demo_manager frame h e [10, 20, 30]"
proof -
  obtain e' frame where b:
    "measc_build_frame toy_crypto demo_epoch 1 0 0 0 [10, 20, 30] (replicate 32 5) (replicate 24 6) 9 = (e', Ok (frame, 1))"
    by (rule demo_frame)
  have "snd (measc_parse_frame toy_crypto (\<lambda>_ _. Ok ()) 3 (frame @ []) demo_manager False) =
     Ok \<lparr>pf_header = \<lparr>h_schema_id = 1, h_status_code = 0, h_flags = 0, h_action_class = 0,
          h_payload_length = word_of_nat (length [10, 20, 30 :: u8]), h_session_id = se_session_id demo_epoch,
          h_epoch_id = se_epoch_id demo_epoch, h_psn = 1, h_context_ref_id = replicate 32 5, h_context_version = 9,
          h_traceparent = replicate 24 6\<rparr>, pf_payload = [10, 20, 30]\<rparr>"
    by (rule build_then_parse [OF toy_crypto_ok b demo_receiver(3) _ _ _ demo_receiver(1,2) _ demo_receiver(4)]) simp_all
  then obtain m' f where ok: "measc_parse_frame toy_crypto (\<lambda>_ _. Ok ()) 3 frame demo_manager False = (m', Ok f)"
    and p: "pf_payload f = [10, 20, 30]" by (metis append_Nil2 prod.collapse ParsedMEASCFrame.select_convs(2))
  from accepted_frames_genuine [OF toy_crypto_ok ok] p show ?thesis by metis
qed

text \<open>PSK compromise recovery is all or nothing: if the gateway revocation fails, nothing is
  destroyed and the report says so; otherwise no session survives and each one is reported.\<close>

lemma psk_recovery_all_or_nothing:
  "if gateway_callback r = Some False
   then fst (execute_recovery r m ge) = m \<and> \<not> recovery_complete (snd (execute_recovery r m ge))
     \<and> sessions_destroyed (snd (execute_recovery r m ge)) = 0
   else sessions (fst (execute_recovery r m ge)) = [] \<and> recovery_complete (snd (execute_recovery r m ge))
     \<and> session_ids_hex (snd (execute_recovery r m ge)) = map (hex_encode \<circ> fst) (sessions m)"
proof -
  have "sessions (foldl destroy_session m (map fst (sessions m))) = []"
  proof -
    have "map_of (sessions (foldl destroy_session m (map fst (sessions m)))) sid = None" for sid
      using foldl_destroy_maps [of m "map fst (sessions m)" sid]
      by (auto simp: map_of_eq_None_iff split: if_splits)
    then show ?thesis by (metis list.exhaust map_of_Cons_code(2) option.distinct(1) surj_pair)
  qed
  then show ?thesis
    by (auto simp: execute_recovery_def Let_def split: option.splits)
qed

end
