(* ===== verification/Early_Exit.thy ===== *)
theory Early_Exit
  imports Errors
begin

text \<open>
  Loops that stop at the first limit they exceed. \<open>fold_result\<close> runs a fallible step over a list;
  the locale \<open>early_exit\<close> is the contract under which stopping early gives the verdict of running
  to the end and judging the final state: the step either fails or is the pure step, it fails only
  when the pure step leaves the allowed states, states only grow, and a state below an allowed one
  is allowed.
\<close>

primrec fold_result :: "('s \<Rightarrow> 'x \<Rightarrow> 's result) \<Rightarrow> 's \<Rightarrow> 'x list \<Rightarrow> 's result" where
  "fold_result step s [] = Ok s"
| "fold_result step s (x # xs) = and_then (step s x) (\<lambda>s'. fold_result step s' xs)"

locale early_exit =
  fixes step :: "'s \<Rightarrow> 'x \<Rightarrow> 's result"
    and pure :: "'s \<Rightarrow> 'x \<Rightarrow> 's"
    and allowed :: "'s \<Rightarrow> bool"
    and below :: "'s \<Rightarrow> 's \<Rightarrow> bool"
  assumes below_refl: "below s s"
    and below_trans: "below s t \<Longrightarrow> below t u \<Longrightarrow> below s u"
    and step_Ok: "step s x = Ok t \<Longrightarrow> t = pure s x"
    and step_Err: "step s x = Err e \<Longrightarrow> \<not> allowed (pure s x)"
    and grows: "below s (pure s x)"
    and downward: "below s t \<Longrightarrow> allowed t \<Longrightarrow> allowed s"
begin

lemma below_run: "below s (foldl pure s xs)"
proof (induction xs arbitrary: s)
  case Nil
  show ?case by (simp add: below_refl)
next
  case (Cons x xs)
  from Cons.IH [of "pure s x"] grows [of s x] below_trans show ?case by auto
qed

lemma run_Ok: "fold_result step s xs = Ok t \<Longrightarrow> t = foldl pure s xs"
proof (induction xs arbitrary: s)
  case Nil
  then show ?case by simp
next
  case (Cons x xs)
  then obtain u where "step s x = Ok u" "fold_result step u xs = Ok t" by (auto simp: and_then_Ok_iff)
  with Cons.IH [of u] step_Ok [of s x u] show ?case by simp
qed

lemma run_Err: "fold_result step s xs = Err e \<Longrightarrow> \<not> allowed (foldl pure s xs)"
proof (induction xs arbitrary: s)
  case Nil
  then show ?case by simp
next
  case (Cons x xs)
  show ?case
  proof (cases "step s x")
    case (Inl e')
    then have "\<not> allowed (pure s x)" by (rule step_Err)
    with downward [OF below_run [of "pure s x" xs]] show ?thesis by auto
  next
    case (Inr t)
    with Cons.prems have "fold_result step t xs = Err e" by simp
    from Cons.IH [OF this] step_Ok [OF Inr] show ?thesis by simp
  qed
qed

lemma run_allowed:
  assumes "allowed (foldl pure s xs)" shows "fold_result step s xs = Ok (foldl pure s xs)"
proof (cases "fold_result step s xs")
  case (Inl e)
  with run_Err [OF Inl] assms show ?thesis by simp
next
  case (Inr t)
  with run_Ok [OF Inr] show ?thesis by simp
qed

text \<open>Judging the final state afterwards, the early exits do not show.\<close>

lemma early_exit_irrelevant:
  "(case fold_result step s xs of Inl _ \<Rightarrow> False | Inr t \<Rightarrow> allowed t) = allowed (foldl pure s xs)"
proof (cases "fold_result step s xs")
  case (Inl e)
  with run_Err [OF Inl] show ?thesis by simp
next
  case (Inr t)
  with run_Ok [OF Inr] show ?thesis by simp
qed

end

end
