(* ===== verification/Rgc_Scanner.thy ===== *)
theory Rgc_Scanner
  imports Early_Exit
begin

text \<open>
  Resource governance, \<open>src/rgc.rs\<close>: \<open>RGCPolicy\<close>, \<open>ExecutionBudgetGuard\<close> and the pre-parse
  scanner \<open>ResourceGovernanceParser\<close>. A payload is a byte list; the text the scanner walks is
  the list of Unicode code points that strict UTF-8 decoding gives (\<open>from_utf8\<close>). The counters
  of the scanner (\<open>usize\<close>) are natural numbers: each grows by at most the length of the text.
  A number token is read as an exact rational; the rounding of \<open>f64\<close> is not modelled. The weight
  \<open>(char_count as f64 * 0.01) as usize\<close> of a string is \<open>char_count div 100\<close>, which it equals for
  every count below \<open>2 ^ 53\<close>.

  \<open>scan_tokens\<close> stops at the first limit that is exceeded. The lemmas show that stopping early
  changes no verdict: \<open>rgc_check\<close> accepts exactly when the statistics of the full, unlimited
  scan are within the policy.
\<close>

section \<open>Policy and budget guard\<close>

record RGCPolicy =
  max_depth :: nat
  max_object_count :: nat
  max_array_length :: nat
  max_string_length :: nat
  max_field_count :: nat
  max_total_size :: nat
  max_schema_complexity :: nat
  max_aggregate_resource_units :: nat
  max_key_length :: nat
  max_unicode_scalar_values :: nat
  max_numeric_magnitude :: rat
  enable_recursive_object_detection :: bool

definition default_rgc_policy :: RGCPolicy where
  "default_rgc_policy =
     \<lparr>max_depth = 8, max_object_count = 1000, max_array_length = 256, max_string_length = 65536,
      max_field_count = 64, max_total_size = 1048576, max_schema_complexity = 512,
      max_aggregate_resource_units = 10000, max_key_length = 256,
      max_unicode_scalar_values = 1000000, max_numeric_magnitude = 10 ^ 18,
      enable_recursive_object_detection = True\<rparr>"

text \<open>A small policy for concrete runs.\<close>

definition small_rgc_policy :: RGCPolicy where
  "small_rgc_policy =
     \<lparr>max_depth = 8, max_object_count = 10, max_array_length = 2, max_string_length = 10,
      max_field_count = 10, max_total_size = 20, max_schema_complexity = 10,
      max_aggregate_resource_units = 20, max_key_length = 10, max_unicode_scalar_values = 10,
      max_numeric_magnitude = 100, enable_recursive_object_detection = True\<rparr>"

definition EXECUTION_BUDGET_MAX_SECONDS :: secs where
  "EXECUTION_BUDGET_MAX_SECONDS = 30"

record ExecutionBudgetGuard =
  timeout_seconds :: secs
  deadline :: secs

definition new_budget_guard :: "secs \<Rightarrow> secs \<Rightarrow> ExecutionBudgetGuard option" where
  "new_budget_guard now timeout =
     (if timeout \<le> 0 then None
      else if EXECUTION_BUDGET_MAX_SECONDS < timeout then None
      else Some \<lparr>timeout_seconds = timeout, deadline = now + timeout\<rparr>)"

definition budget_check :: "secs \<Rightarrow> ExecutionBudgetGuard \<Rightarrow> unit result" where
  "budget_check now g = (if deadline g < now then Err RgcResourceLimitExceeded else Ok ())"

definition remaining_seconds :: "secs \<Rightarrow> ExecutionBudgetGuard \<Rightarrow> secs" where
  "remaining_seconds now g = (if deadline g \<le> now then 0 else deadline g - now)"

definition is_timed_out :: "secs \<Rightarrow> ExecutionBudgetGuard \<Rightarrow> bool" where
  "is_timed_out now g \<longleftrightarrow> deadline g < now"

section \<open>UTF-8\<close>

definition cont :: "u8 \<Rightarrow> bool" where
  "cont b \<longleftrightarrow> 0x80 \<le> b \<and> b \<le> 0xBF"

definition low6 :: "u8 \<Rightarrow> nat" where
  "low6 b = unat b mod 64"

fun from_utf8 :: "bytes \<Rightarrow> nat list option" where
  "from_utf8 [] = Some []"
| "from_utf8 (a # bs) =
     (if a < 0x80 then map_option ((#) (unat a)) (from_utf8 bs)
      else if 0xC2 \<le> a \<and> a \<le> 0xDF then
        (case bs of
           b # cs \<Rightarrow> if cont b then map_option ((#) (unat a mod 32 * 64 + low6 b)) (from_utf8 cs) else None
         | [] \<Rightarrow> None)
      else if 0xE0 \<le> a \<and> a \<le> 0xEF then
        (case bs of
           b # c # cs \<Rightarrow>
             if cont b \<and> cont c \<and> (a = 0xE0 \<longrightarrow> 0xA0 \<le> b) \<and> (a = 0xED \<longrightarrow> b \<le> 0x9F)
             then map_option ((#) (unat a mod 16 * 4096 + low6 b * 64 + low6 c)) (from_utf8 cs) else None
         | _ \<Rightarrow> None)
      else if 0xF0 \<le> a \<and> a \<le> 0xF4 then
        (case bs of
           b # c # d # cs \<Rightarrow>
             if cont b \<and> cont c \<and> cont d \<and> (a = 0xF0 \<longrightarrow> 0x90 \<le> b) \<and> (a = 0xF4 \<longrightarrow> b \<le> 0x8F)
             then map_option ((#) (unat a mod 8 * 262144 + low6 b * 4096 + low6 c * 64 + low6 d)) (from_utf8 cs)
             else None
         | _ \<Rightarrow> None)
      else None)"

section \<open>The scanner\<close>

text \<open>ASCII code points of the JSON punctuation.\<close>

abbreviation cp :: "char \<Rightarrow> nat" where "cp c \<equiv> of_char c"

definition is_ws :: "nat \<Rightarrow> bool" where
  "is_ws c \<longleftrightarrow> c \<in> {32, 9, 10, 13}"

definition is_digit :: "nat \<Rightarrow> bool" where
  "is_digit c \<longleftrightarrow> 48 \<le> c \<and> c \<le> 57"

datatype container = ObjectC | ArrayC

record ScanState =
  depth :: nat
  max_depth_seen :: nat
  container_stack :: "container list"
  object_count :: nat
  array_count :: nat
  total_nodes :: nat
  array_element_counts :: "(nat, nat) hmap"
  max_array_length_seen :: nat
  field_counts :: "(nat, nat) hmap"
  max_field_count_seen :: nat
  total_string_chars :: nat
  max_string_length_seen :: nat
  max_key_length_seen :: nat
  max_numeric_magnitude_seen :: rat
  schema_complexity :: nat
  aggregate_resource_units :: nat
  expecting_key :: bool

definition init_scan :: ScanState where
  "init_scan =
     \<lparr>depth = 0, max_depth_seen = 0, container_stack = [], object_count = 0, array_count = 0,
      total_nodes = 0, array_element_counts = [], max_array_length_seen = 0, field_counts = [],
      max_field_count_seen = 0, total_string_chars = 0, max_string_length_seen = 0,
      max_key_length_seen = 0, max_numeric_magnitude_seen = 0, schema_complexity = 0,
      aggregate_resource_units = 0, expecting_key = False\<rparr>"

definition check_limit :: "nat \<Rightarrow> nat \<Rightarrow> unit result" where
  "check_limit v limit = (if limit < v then Err RgcResourceLimitExceeded else Ok ())"

text \<open>A string after its opening quote: the number of characters (an escape counts two) and the rest
  after the closing quote; an unterminated string ends the text.\<close>

function scan_string :: "nat \<Rightarrow> nat list \<Rightarrow> nat \<times> nat list" where
  "scan_string n [] = (n, [])"
| "scan_string n (c # cs) =
     (if c = cp CHR 0x5C then scan_string (n + 2) (tl cs)
      else if c = cp CHR 0x22 then (n, cs)
      else scan_string (n + 1) cs)"
  by pat_completeness auto
termination by (relation "measure (\<lambda>(n, cs). length cs)") auto

text \<open>A number after its first character: integer digits, fraction digits, exponent (its sign and
  digits), and the rest.\<close>

definition scan_exponent :: "nat list \<Rightarrow> (bool \<times> nat list) option \<times> nat list" where
  "scan_exponent cs =
     (case cs of
        e # r \<Rightarrow>
          if e = cp CHR ''e'' \<or> e = cp CHR ''E'' then
            (let (neg, r1) = (case r of s # r' \<Rightarrow> if s = cp CHR ''+'' then (False, r')
                                                   else if s = cp CHR ''-'' then (True, r') else (False, r)
                              | [] \<Rightarrow> (False, []))
             in (Some (neg, takeWhile is_digit r1), dropWhile is_digit r1))
          else (None, cs)
      | [] \<Rightarrow> (None, []))"

definition scan_fraction :: "nat list \<Rightarrow> nat list \<times> nat list" where
  "scan_fraction cs =
     (case cs of
        d # r \<Rightarrow> if d = cp CHR ''.'' then (takeWhile is_digit r, dropWhile is_digit r) else ([], cs)
      | [] \<Rightarrow> ([], []))"

definition digits_val :: "nat list \<Rightarrow> nat" where
  "digits_val ds = foldl (\<lambda>acc d. acc * 10 + (d - 48)) 0 ds"

text \<open>The absolute value of \<open>num_str.parse().unwrap_or(0.0)\<close>: a token without digits, or with an
  exponent mark but no exponent digits, does not parse.\<close>

definition number_magnitude :: "nat list \<Rightarrow> nat list \<Rightarrow> (bool \<times> nat list) option \<Rightarrow> rat" where
  "number_magnitude int_digits frac_digits ex =
     (if int_digits = [] \<and> frac_digits = [] then 0
      else
        (let mant = rat_of_nat (digits_val (int_digits @ frac_digits)) / 10 ^ length frac_digits
         in case ex of
              None \<Rightarrow> mant
            | Some (neg, ds) \<Rightarrow>
                if ds = [] then 0
                else if neg then mant / 10 ^ digits_val ds else mant * 10 ^ digits_val ds))"

definition scan_number :: "nat \<Rightarrow> nat list \<Rightarrow> rat \<times> nat list" where
  "scan_number ch cs =
     (let d1 = takeWhile is_digit cs; r1 = dropWhile is_digit cs;
          (d2, r2) = scan_fraction r1;
          (ex, r3) = scan_exponent r2
      in (number_magnitude (if ch = cp CHR ''-'' then d1 else ch # d1) d2 ex, r3))"

definition string_ru :: "nat \<Rightarrow> nat" where
  "string_ru char_count = max 1 (char_count div 100)"

text \<open>Opening a container: the limit on objects is checked against the number of objects for a brace
  and against the number of all nodes for a bracket, as in the source.\<close>

definition open_container :: "RGCPolicy \<Rightarrow> ScanState \<Rightarrow> container \<Rightarrow> ScanState result" where
  "open_container p st k =
     (let st1 = st\<lparr>depth := depth st + 1, max_depth_seen := max (max_depth_seen st) (depth st + 1)\<rparr>
      in and_then (if enable_recursive_object_detection p then check_limit (depth st1) (max_depth p) else Ok ()) (\<lambda>_.
         let st2 = (case k of
                      ObjectC \<Rightarrow> st1\<lparr>object_count := object_count st1 + 1, total_nodes := total_nodes st1 + 1,
                                     aggregate_resource_units := aggregate_resource_units st1 + 11\<rparr>
                    | ArrayC \<Rightarrow> st1\<lparr>array_count := array_count st1 + 1, total_nodes := total_nodes st1 + 1,
                                    aggregate_resource_units := aggregate_resource_units st1 + 11\<rparr>)
         in and_then (check_limit (case k of ObjectC \<Rightarrow> object_count st2 | ArrayC \<Rightarrow> total_nodes st2) (max_object_count p)) (\<lambda>_.
            and_then (check_limit (aggregate_resource_units st2) (max_aggregate_resource_units p)) (\<lambda>_.
            Ok (case k of
                  ObjectC \<Rightarrow> st2\<lparr>container_stack := ObjectC # container_stack st2,
                                 field_counts := AList.update (depth st2) 0 (field_counts st2), expecting_key := True\<rparr>
                | ArrayC \<Rightarrow> st2\<lparr>container_stack := ArrayC # container_stack st2,
                                array_element_counts := AList.update (depth st2) 0 (array_element_counts st2),
                                expecting_key := False\<rparr>)))))"

definition top_is :: "ScanState \<Rightarrow> container \<Rightarrow> bool" where
  "top_is st k \<longleftrightarrow> (case container_stack st of t # _ \<Rightarrow> t = k | [] \<Rightarrow> False)"

definition leave :: "ScanState \<Rightarrow> ScanState" where
  "leave st = (let st1 = st\<lparr>depth := depth st - 1\<rparr> in st1\<lparr>expecting_key := top_is st1 ObjectC\<rparr>)"

definition close_brace :: "ScanState \<Rightarrow> ScanState" where
  "close_brace st =
     (let st1 = (if container_stack st = [] then st
                 else
                   (let st0 = (case map_of (field_counts st) (depth st) of
                                 Some fc \<Rightarrow> st\<lparr>field_counts := AList.delete (depth st) (field_counts st),
                                               max_field_count_seen := max (max_field_count_seen st) fc\<rparr>
                               | None \<Rightarrow> st)
                    in st0\<lparr>container_stack := tl (container_stack st0)\<rparr>))
      in leave st1)"

definition close_bracket :: "ScanState \<Rightarrow> ScanState" where
  "close_bracket st =
     (let st1 = (if container_stack st = [] then st
                 else
                   (let st0 = (case map_of (array_element_counts st) (depth st) of
                                 Some ac \<Rightarrow> st\<lparr>array_element_counts := AList.delete (depth st) (array_element_counts st),
                                               max_array_length_seen := max (max_array_length_seen st) ac\<rparr>
                               | None \<Rightarrow> st)
                    in st0\<lparr>container_stack := tl (container_stack st0)\<rparr>))
      in leave st1)"

definition on_colon :: "RGCPolicy \<Rightarrow> ScanState \<Rightarrow> ScanState result" where
  "on_colon p st =
     (let st1 = st\<lparr>schema_complexity := schema_complexity st + 1\<rparr>
      in and_then (check_limit (schema_complexity st1) (max_schema_complexity p)) (\<lambda>_.
         let st2 = st1\<lparr>expecting_key := False\<rparr>
         in if 0 < depth st2 then
              (let fc = (case map_of (field_counts st2) (depth st2) of Some n \<Rightarrow> n | None \<Rightarrow> 0) + 1;
                   st3 = st2\<lparr>field_counts := AList.update (depth st2) fc (field_counts st2),
                             max_field_count_seen := max (max_field_count_seen st2) fc\<rparr>
               in and_then (check_limit fc (max_field_count p)) (\<lambda>_. Ok st3))
            else Ok st2))"

definition on_comma :: "RGCPolicy \<Rightarrow> ScanState \<Rightarrow> ScanState result" where
  "on_comma p st =
     (if top_is st ArrayC then
        (let ac = (case map_of (array_element_counts st) (depth st) of Some n \<Rightarrow> n | None \<Rightarrow> 0) + 1;
             st1 = st\<lparr>array_element_counts := AList.update (depth st) ac (array_element_counts st),
                      max_array_length_seen := max (max_array_length_seen st) ac\<rparr>
         in and_then (check_limit ac (max_array_length p)) (\<lambda>_. Ok st1))
      else if top_is st ObjectC then Ok (st\<lparr>expecting_key := True\<rparr>)
      else Ok st)"

definition on_string :: "RGCPolicy \<Rightarrow> ScanState \<Rightarrow> nat \<Rightarrow> ScanState result" where
  "on_string p st char_count =
     (let st1 = st\<lparr>total_string_chars := total_string_chars st + char_count\<rparr>
      in and_then (check_limit (total_string_chars st1) (max_unicode_scalar_values p)) (\<lambda>_.
         let st2 = st1\<lparr>aggregate_resource_units := aggregate_resource_units st1 + string_ru char_count\<rparr>
         in and_then (check_limit (aggregate_resource_units st2) (max_aggregate_resource_units p)) (\<lambda>_.
            if expecting_key st2 then
              (let st3 = st2\<lparr>max_key_length_seen := max (max_key_length_seen st2) char_count\<rparr>
               in and_then (check_limit char_count (max_key_length p)) (\<lambda>_. Ok (st3\<lparr>expecting_key := False\<rparr>)))
            else
              (let st3 = st2\<lparr>max_string_length_seen := max (max_string_length_seen st2) char_count\<rparr>
               in and_then (check_limit char_count (max_string_length p)) (\<lambda>_. Ok st3)))))"

definition on_number :: "RGCPolicy \<Rightarrow> ScanState \<Rightarrow> rat \<Rightarrow> ScanState result" where
  "on_number p st magnitude =
     (let st1 = st\<lparr>max_numeric_magnitude_seen := max (max_numeric_magnitude_seen st) magnitude\<rparr>
      in if max_numeric_magnitude p < magnitude then Err RgcResourceLimitExceeded
         else
           (let st2 = st1\<lparr>aggregate_resource_units := aggregate_resource_units st1 + 1\<rparr>
            in and_then (check_limit (aggregate_resource_units st2) (max_aggregate_resource_units p)) (\<lambda>_. Ok st2)))"

definition starts_with :: "string \<Rightarrow> nat list \<Rightarrow> bool" where
  "starts_with w cs \<longleftrightarrow> take (length w) cs = map of_char w"

text \<open>One iteration of the loop: the character \<open>ch\<close> and the text after it.\<close>

definition scan_token :: "RGCPolicy \<Rightarrow> ScanState \<Rightarrow> nat \<Rightarrow> nat list \<Rightarrow> (ScanState \<times> nat list) result" where
  "scan_token p st ch cs =
     (if is_ws ch then Ok (st, cs)
      else if ch = cp CHR ''{'' then and_then (open_container p st ObjectC) (\<lambda>s. Ok (s, cs))
      else if ch = cp CHR ''['' then and_then (open_container p st ArrayC) (\<lambda>s. Ok (s, cs))
      else if ch = cp CHR ''}'' then Ok (close_brace st, cs)
      else if ch = cp CHR '']'' then Ok (close_bracket st, cs)
      else if ch = cp CHR '':'' then and_then (on_colon p st) (\<lambda>s. Ok (s, cs))
      else if ch = cp CHR '','' then and_then (on_comma p st) (\<lambda>s. Ok (s, cs))
      else if ch = cp CHR 0x22 then
        (let (n, rest) = scan_string 0 cs in and_then (on_string p st n) (\<lambda>s. Ok (s, rest)))
      else if ch = cp CHR ''-'' \<or> is_digit ch then
        (let (mag, rest) = scan_number ch cs in and_then (on_number p st mag) (\<lambda>s. Ok (s, rest)))
      else if ch = cp CHR ''t'' \<and> starts_with ''true'' (ch # cs) then Ok (st, drop 3 cs)
      else if ch = cp CHR ''f'' \<and> starts_with ''false'' (ch # cs) then Ok (st, drop 4 cs)
      else if ch = cp CHR ''n'' \<and> starts_with ''null'' (ch # cs) then Ok (st, drop 3 cs)
      else Ok (st, cs))"

lemma length_scan_string: "length (snd (scan_string n cs)) \<le> length cs"
  by (induction n cs rule: scan_string.induct) (auto intro: order_trans)

lemma length_scan_exponent: "length (snd (scan_exponent cs)) \<le> length cs"
  by (auto simp: scan_exponent_def Let_def split: list.split intro: le_SucI order_trans [OF length_dropWhile_le])

lemma length_scan_fraction: "length (snd (scan_fraction cs)) \<le> length cs"
  by (auto simp: scan_fraction_def split: list.split intro: le_SucI length_dropWhile_le)

lemma length_scan_number: "length (snd (scan_number ch cs)) \<le> length cs"
  using order_trans [OF length_scan_exponent order_trans [OF length_scan_fraction length_dropWhile_le]]
  by (simp add: scan_number_def Let_def split_beta)

lemma scan_token_progress: "scan_token p st ch cs = Ok (st', rest) \<Longrightarrow> length rest \<le> length cs"
  using length_scan_string [of 0 cs] length_scan_number [of ch cs]
  by (auto simp: scan_token_def and_then_Ok_iff Let_def split: if_splits prod.splits)

function scan_tokens :: "RGCPolicy \<Rightarrow> ScanState \<Rightarrow> nat list \<Rightarrow> ScanState result" where
  "scan_tokens p st [] = Ok st"
| "scan_tokens p st (ch # cs) =
     (case scan_token p st ch cs of
        Inl e \<Rightarrow> Err e
      | Inr (st', rest) \<Rightarrow> scan_tokens p st' rest)"
  by pat_completeness auto
termination
  by (relation "measure (\<lambda>(p, st, cs). length cs)") (auto dest: scan_token_progress)

text \<open>The bookkeeping for unclosed containers at the end of the text.\<close>

definition finish_scan :: "ScanState \<Rightarrow> ScanState" where
  "finish_scan st =
     st\<lparr>max_field_count_seen := foldl max (max_field_count_seen st) (map snd (field_counts st)),
        max_array_length_seen := foldl max (max_array_length_seen st) (map snd (array_element_counts st))\<rparr>"

definition post_checks :: "RGCPolicy \<Rightarrow> ScanState \<Rightarrow> unit result" where
  "post_checks p st =
     and_then (check_limit (max_depth_seen st) (max_depth p)) (\<lambda>_.
     and_then (check_limit (object_count st) (max_object_count p)) (\<lambda>_.
     and_then (check_limit (max_array_length_seen st) (max_array_length p)) (\<lambda>_.
     and_then (check_limit (max_string_length_seen st) (max_string_length p)) (\<lambda>_.
     and_then (check_limit (max_field_count_seen st) (max_field_count p)) (\<lambda>_.
     and_then (check_limit (schema_complexity st) (max_schema_complexity p)) (\<lambda>_.
     and_then (check_limit (max_key_length_seen st) (max_key_length p)) (\<lambda>_.
     and_then (check_limit (total_string_chars st) (max_unicode_scalar_values p)) (\<lambda>_.
     and_then (check_limit (aggregate_resource_units st) (max_aggregate_resource_units p)) (\<lambda>_.
     and_then (check_limit (total_nodes st) (max_object_count p)) (\<lambda>_.
     if max_numeric_magnitude p < max_numeric_magnitude_seen st then Err RgcResourceLimitExceeded
     else Ok ()))))))))))"

definition rgc_check :: "bytes \<Rightarrow> RGCPolicy option \<Rightarrow> unit result" where
  "rgc_check payload policy =
     (let pol = (case policy of Some p \<Rightarrow> p | None \<Rightarrow> default_rgc_policy)
      in if max_total_size pol < length payload then Err RgcResourceLimitExceeded
         else
           (case from_utf8 payload of
              None \<Rightarrow> Err AmbiguousIntent
            | Some text \<Rightarrow>
                and_then (scan_tokens pol init_scan text) (\<lambda>stats. post_checks pol (finish_scan stats))))"

section \<open>Reference: tokens and their statistics\<close>

text \<open>What the scanner reads does not depend on the limits: the text is a list of tokens, and the
  statistics are a fold over them that never fails.\<close>

datatype tok = OpenT container | CloseBraceT | CloseBracketT | ColonT | CommaT | StrT nat | NumT rat | SkipT

definition lex1 :: "nat \<Rightarrow> nat list \<Rightarrow> tok \<times> nat list" where
  "lex1 ch cs =
     (if is_ws ch then (SkipT, cs)
      else if ch = cp CHR ''{'' then (OpenT ObjectC, cs)
      else if ch = cp CHR ''['' then (OpenT ArrayC, cs)
      else if ch = cp CHR ''}'' then (CloseBraceT, cs)
      else if ch = cp CHR '']'' then (CloseBracketT, cs)
      else if ch = cp CHR '':'' then (ColonT, cs)
      else if ch = cp CHR '','' then (CommaT, cs)
      else if ch = cp CHR 0x22 then (let (n, rest) = scan_string 0 cs in (StrT n, rest))
      else if ch = cp CHR ''-'' \<or> is_digit ch then (let (mag, rest) = scan_number ch cs in (NumT mag, rest))
      else if ch = cp CHR ''t'' \<and> starts_with ''true'' (ch # cs) then (SkipT, drop 3 cs)
      else if ch = cp CHR ''f'' \<and> starts_with ''false'' (ch # cs) then (SkipT, drop 4 cs)
      else if ch = cp CHR ''n'' \<and> starts_with ''null'' (ch # cs) then (SkipT, drop 3 cs)
      else (SkipT, cs))"

lemma length_lex1: "length (snd (lex1 ch cs)) \<le> length cs"
  using length_scan_string [of 0 cs] length_scan_number [of ch cs]
  by (auto simp: lex1_def Let_def split_beta)

function lex :: "nat list \<Rightarrow> tok list" where
  "lex [] = []"
| "lex (ch # cs) = fst (lex1 ch cs) # lex (snd (lex1 ch cs))"
  by pat_completeness auto
termination
  by (relation "measure length") (auto simp: le_imp_less_Suc length_lex1)

fun tok_stats :: "ScanState \<Rightarrow> tok \<Rightarrow> ScanState" where
  "tok_stats st (OpenT ObjectC) =
     st\<lparr>depth := depth st + 1, max_depth_seen := max (max_depth_seen st) (depth st + 1),
        object_count := object_count st + 1, total_nodes := total_nodes st + 1,
        aggregate_resource_units := aggregate_resource_units st + 11,
        container_stack := ObjectC # container_stack st,
        field_counts := AList.update (depth st + 1) 0 (field_counts st), expecting_key := True\<rparr>"
| "tok_stats st (OpenT ArrayC) =
     st\<lparr>depth := depth st + 1, max_depth_seen := max (max_depth_seen st) (depth st + 1),
        array_count := array_count st + 1, total_nodes := total_nodes st + 1,
        aggregate_resource_units := aggregate_resource_units st + 11,
        container_stack := ArrayC # container_stack st,
        array_element_counts := AList.update (depth st + 1) 0 (array_element_counts st),
        expecting_key := False\<rparr>"
| "tok_stats st CloseBraceT = close_brace st"
| "tok_stats st CloseBracketT = close_bracket st"
| "tok_stats st ColonT =
     (let st1 = st\<lparr>schema_complexity := schema_complexity st + 1, expecting_key := False\<rparr>;
          fc = (case map_of (field_counts st) (depth st) of Some n \<Rightarrow> n | None \<Rightarrow> 0) + 1
      in if 0 < depth st
         then st1\<lparr>field_counts := AList.update (depth st) fc (field_counts st),
                  max_field_count_seen := max (max_field_count_seen st) fc\<rparr>
         else st1)"
| "tok_stats st CommaT =
     (let ac = (case map_of (array_element_counts st) (depth st) of Some n \<Rightarrow> n | None \<Rightarrow> 0) + 1
      in if top_is st ArrayC
         then st\<lparr>array_element_counts := AList.update (depth st) ac (array_element_counts st),
                 max_array_length_seen := max (max_array_length_seen st) ac\<rparr>
         else if top_is st ObjectC then st\<lparr>expecting_key := True\<rparr> else st)"
| "tok_stats st (StrT n) =
     (let st1 = st\<lparr>total_string_chars := total_string_chars st + n,
                   aggregate_resource_units := aggregate_resource_units st + string_ru n\<rparr>
      in if expecting_key st
         then st1\<lparr>max_key_length_seen := max (max_key_length_seen st) n, expecting_key := False\<rparr>
         else st1\<lparr>max_string_length_seen := max (max_string_length_seen st) n\<rparr>)"
| "tok_stats st (NumT mag) =
     st\<lparr>max_numeric_magnitude_seen := max (max_numeric_magnitude_seen st) mag,
        aggregate_resource_units := aggregate_resource_units st + 1\<rparr>"
| "tok_stats st SkipT = st"

definition scan_stats :: "nat list \<Rightarrow> ScanState" where
  "scan_stats text = finish_scan (foldl tok_stats init_scan (lex text))"

definition in_policy :: "RGCPolicy \<Rightarrow> ScanState \<Rightarrow> bool" where
  "in_policy p st \<longleftrightarrow>
     max_depth_seen st \<le> max_depth p \<and> object_count st \<le> max_object_count p \<and>
     max_array_length_seen st \<le> max_array_length p \<and> max_string_length_seen st \<le> max_string_length p \<and>
     max_field_count_seen st \<le> max_field_count p \<and> schema_complexity st \<le> max_schema_complexity p \<and>
     max_key_length_seen st \<le> max_key_length p \<and> total_string_chars st \<le> max_unicode_scalar_values p \<and>
     aggregate_resource_units st \<le> max_aggregate_resource_units p \<and> total_nodes st \<le> max_object_count p \<and>
     max_numeric_magnitude_seen st \<le> max_numeric_magnitude p"

definition stats_le :: "ScanState \<Rightarrow> ScanState \<Rightarrow> bool" where
  "stats_le s t \<longleftrightarrow>
     max_depth_seen s \<le> max_depth_seen t \<and> object_count s \<le> object_count t \<and>
     max_array_length_seen s \<le> max_array_length_seen t \<and> max_string_length_seen s \<le> max_string_length_seen t \<and>
     max_field_count_seen s \<le> max_field_count_seen t \<and> schema_complexity s \<le> schema_complexity t \<and>
     max_key_length_seen s \<le> max_key_length_seen t \<and> total_string_chars s \<le> total_string_chars t \<and>
     aggregate_resource_units s \<le> aggregate_resource_units t \<and> total_nodes s \<le> total_nodes t \<and>
     max_numeric_magnitude_seen s \<le> max_numeric_magnitude_seen t"

fun on_tok :: "RGCPolicy \<Rightarrow> ScanState \<Rightarrow> tok \<Rightarrow> ScanState result" where
  "on_tok p st (OpenT k) = open_container p st k"
| "on_tok p st CloseBraceT = Ok (close_brace st)"
| "on_tok p st CloseBracketT = Ok (close_bracket st)"
| "on_tok p st ColonT = on_colon p st"
| "on_tok p st CommaT = on_comma p st"
| "on_tok p st (StrT n) = on_string p st n"
| "on_tok p st (NumT m) = on_number p st m"
| "on_tok p st SkipT = Ok st"

section \<open>Early exit changes no verdict\<close>

lemma scan_token_lex1:
  "scan_token p st ch cs = and_then (on_tok p st (fst (lex1 ch cs))) (\<lambda>s. Ok (s, snd (lex1 ch cs)))"
  by (auto simp: scan_token_def lex1_def Let_def split_beta)

lemma scan_tokens_fold: "scan_tokens p st cs = fold_result (on_tok p) st (lex cs)"
proof (induction cs arbitrary: st rule: lex.induct)
  case 1
  show ?case by simp
next
  case (2 ch cs)
  then show ?case
    by (cases "on_tok p st (fst (lex1 ch cs))") (simp_all add: scan_token_lex1)
qed

lemma check_limit_Ok [simp]: "check_limit v l = Ok () \<longleftrightarrow> v \<le> l"
  by (simp add: check_limit_def)

lemma check_limit_Err: "check_limit v l = Err e \<Longrightarrow> l < v"
  by (simp add: check_limit_def split: if_splits)

lemma stats_le_tok: "stats_le s (tok_stats s t)"
  by (cases "(s, t)" rule: tok_stats.cases)
    (auto simp: stats_le_def Let_def close_brace_def close_bracket_def leave_def
      split: container.split option.split)

lemmas tok_defs = open_container_def on_colon_def on_comma_def on_string_def on_number_def check_limit_def

lemma on_tok_Ok: "on_tok p s t = Ok u \<Longrightarrow> u = tok_stats s t"
proof (cases t)
  case (OpenT k)
  assume "on_tok p s t = Ok u"
  with OpenT show ?thesis
    by (cases k) (simp_all add: tok_defs Let_def and_then_Ok_iff split: if_splits)
qed (simp_all add: tok_defs Let_def and_then_Ok_iff split: if_splits)

lemma on_tok_allowed: "in_policy p (tok_stats s t) \<Longrightarrow> on_tok p s t = Ok (tok_stats s t)"
proof (cases t)
  case (OpenT k)
  assume "in_policy p (tok_stats s t)"
  with OpenT show ?thesis
    by (cases k) (simp_all add: tok_defs Let_def in_policy_def)
qed (simp_all add: tok_defs Let_def in_policy_def split: if_splits)

interpretation rgc: early_exit "on_tok p" tok_stats "in_policy p" stats_le for p
proof
  fix s t u x e
  show "stats_le s s" by (simp add: stats_le_def)
  show "stats_le s t \<Longrightarrow> stats_le t u \<Longrightarrow> stats_le s u" by (auto simp: stats_le_def)
  show "on_tok p s x = Ok t \<Longrightarrow> t = tok_stats s x" by (rule on_tok_Ok)
  show "on_tok p s x = Err e \<Longrightarrow> \<not> in_policy p (tok_stats s x)" using on_tok_allowed [of p s x] by auto
  show "stats_le s (tok_stats s x)" by (rule stats_le_tok)
  show "stats_le s t \<Longrightarrow> in_policy p t \<Longrightarrow> in_policy p s" by (auto simp: stats_le_def in_policy_def)
qed

lemma post_checks_in_policy: "post_checks p st = Ok () \<longleftrightarrow> in_policy p st"
  by (auto simp: post_checks_def in_policy_def and_then_Ok_iff)

lemma foldl_max_ge: "(n :: nat) \<le> foldl max n xs"
  by (induction xs arbitrary: n) (auto intro: order_trans [OF max.cobounded1])

lemma stats_le_finish: "stats_le st (finish_scan st)"
  by (simp add: stats_le_def finish_scan_def foldl_max_ge)

lemma on_tok_error: "on_tok p s t = Err e \<Longrightarrow> e = RgcResourceLimitExceeded"
proof (cases t)
  case (OpenT k)
  assume "on_tok p s t = Err e"
  with OpenT show ?thesis by (cases k) (simp_all add: tok_defs Let_def split: if_splits)
qed (simp_all add: tok_defs Let_def split: if_splits)

lemma fold_tok_error: "fold_result (on_tok p) s ts = Err e \<Longrightarrow> e = RgcResourceLimitExceeded"
proof (induction ts arbitrary: s)
  case Nil
  then show ?case by simp
next
  case (Cons t ts)
  then show ?case by (cases "on_tok p s t") (auto dest: on_tok_error)
qed

lemma post_checks_error: "post_checks p st = Err e \<Longrightarrow> e = RgcResourceLimitExceeded"
  by (simp add: post_checks_def check_limit_def split: if_splits)

lemma post_checks_eq: "post_checks p st = (if in_policy p st then Ok () else Err RgcResourceLimitExceeded)"
proof (cases "post_checks p st")
  case (Inl e)
  then show ?thesis using post_checks_error [OF Inl] post_checks_in_policy [of p st] by auto
next
  case (Inr u)
  then show ?thesis using post_checks_in_policy [of p st] by auto
qed

lemma scan_verdict:
  "and_then (scan_tokens p init_scan text) (\<lambda>st. post_checks p (finish_scan st)) =
   (if in_policy p (scan_stats text) then Ok () else Err RgcResourceLimitExceeded)"
proof (cases "fold_result (on_tok p) init_scan (lex text)")
  case (Inl e)
  have "\<not> in_policy p (scan_stats text)"
    using rgc.run_Err [OF Inl] rgc.downward [OF stats_le_finish] by (auto simp: scan_stats_def)
  with Inl fold_tok_error [OF Inl] show ?thesis by (simp add: scan_tokens_fold)
next
  case (Inr st)
  with rgc.run_Ok [OF Inr] show ?thesis by (simp add: scan_tokens_fold post_checks_eq scan_stats_def)
qed

section \<open>The size of the bookkeeping\<close>

text \<open>The per-depth maps hold distinct depths between one and the greatest depth seen.\<close>

definition depth_keys :: "ScanState \<Rightarrow> (nat, nat) hmap \<Rightarrow> bool" where
  "depth_keys st m \<longleftrightarrow> hm_wf m \<and> keys m \<subseteq> {1..max_depth_seen st}"

definition scan_inv :: "ScanState \<Rightarrow> bool" where
  "scan_inv st \<longleftrightarrow> depth st \<le> max_depth_seen st \<and>
     depth_keys st (field_counts st) \<and> depth_keys st (array_element_counts st) \<and>
     length (container_stack st) \<le> depth st"

lemma depth_keys_update:
  "depth_keys st m \<Longrightarrow> 0 < k \<Longrightarrow> k \<le> max_depth_seen st' \<Longrightarrow> max_depth_seen st \<le> max_depth_seen st' \<Longrightarrow>
   depth_keys st' (AList.update k v m)"
  by (auto simp: depth_keys_def)

lemma depth_keys_delete:
  "depth_keys st m \<Longrightarrow> max_depth_seen st \<le> max_depth_seen st' \<Longrightarrow> depth_keys st' (AList.delete k m)"
  by (auto simp: depth_keys_def)

lemma depth_keys_mono: "depth_keys st m \<Longrightarrow> max_depth_seen st \<le> max_depth_seen st' \<Longrightarrow> depth_keys st' m"
  by (auto simp: depth_keys_def)

lemma depth_keys_length: "depth_keys st m \<Longrightarrow> length m \<le> max_depth_seen st"
  using card_mono [of "{1..max_depth_seen st}" "keys m"] by (simp add: depth_keys_def length_eq_card_keys)

lemmas depth_keys_intros = depth_keys_update depth_keys_delete depth_keys_mono

lemma scan_inv_init: "scan_inv init_scan"
  by (simp add: scan_inv_def init_scan_def depth_keys_def)

lemma scan_inv_leave:
  "depth st \<le> max_depth_seen st \<Longrightarrow> depth_keys st (field_counts st) \<Longrightarrow> depth_keys st (array_element_counts st) \<Longrightarrow>
   length (container_stack st) \<le> depth st - 1 \<Longrightarrow> scan_inv (leave st)"
  by (auto simp: scan_inv_def leave_def Let_def intro: depth_keys_mono)

lemma scan_inv_close_brace: "scan_inv st \<Longrightarrow> scan_inv (close_brace st)"
  unfolding close_brace_def Let_def
  by (rule scan_inv_leave) (auto simp: scan_inv_def intro: depth_keys_intros split: option.split)

lemma scan_inv_close_bracket: "scan_inv st \<Longrightarrow> scan_inv (close_bracket st)"
  unfolding close_bracket_def Let_def
  by (rule scan_inv_leave) (auto simp: scan_inv_def intro: depth_keys_intros split: option.split)

lemma top_is_depth: "scan_inv st \<Longrightarrow> top_is st k \<Longrightarrow> 0 < depth st"
  by (auto simp: scan_inv_def top_is_def split: list.splits)

lemma scan_inv_tok: "scan_inv st \<Longrightarrow> scan_inv (tok_stats st t)"
proof (induction st t rule: tok_stats.induct)
  case (6 st)
  then show ?case
    using top_is_depth [OF 6, of ArrayC] by (auto simp: scan_inv_def Let_def intro: depth_keys_intros)
qed (auto simp: scan_inv_close_brace scan_inv_close_bracket,
     auto simp: scan_inv_def Let_def intro: depth_keys_intros)

lemma scan_inv_run: "scan_inv st \<Longrightarrow> scan_inv (foldl tok_stats st ts)"
  by (induction ts arbitrary: st) (auto intro: scan_inv_tok)

lemma max_depth_allowed:
  "on_tok p s t = Ok u \<Longrightarrow> enable_recursive_object_detection p \<Longrightarrow> max_depth_seen s \<le> max_depth p \<Longrightarrow>
   max_depth_seen u \<le> max_depth p"
proof (cases t)
  case (OpenT k)
  assume "on_tok p s t = Ok u" "enable_recursive_object_detection p" "max_depth_seen s \<le> max_depth p"
  with OpenT show ?thesis by (cases k) (auto simp: tok_defs Let_def and_then_Ok_iff split: if_splits)
qed (auto simp: tok_defs Let_def and_then_Ok_iff close_brace_def close_bracket_def leave_def
       split: if_splits option.splits)

lemma max_depth_run:
  "fold_result (on_tok p) s ts = Ok u \<Longrightarrow> enable_recursive_object_detection p \<Longrightarrow> max_depth_seen s \<le> max_depth p \<Longrightarrow>
   max_depth_seen u \<le> max_depth p"
proof (induction ts arbitrary: s)
  case Nil
  then show ?case by simp
next
  case (Cons t ts)
  then show ?case by (auto simp: and_then_Ok_iff intro: max_depth_allowed)
qed

lemma length_lex: "length (lex cs) \<le> length cs"
proof (induction cs rule: lex.induct)
  case 1
  show ?case by simp
next
  case (2 ch cs)
  with length_lex1 [of ch cs] show ?case by simp
qed

lemma length_from_utf8: "from_utf8 bs = Some cs \<Longrightarrow> length cs \<le> length bs"
  by (induction bs arbitrary: cs rule: from_utf8.induct) (fastforce split: if_splits list.splits)+

section \<open>Properties\<close>

text \<open>C8. \<open>ResourceGovernanceParser::check\<close> has the verdict of the reference that reads the whole
  payload before it judges: a payload over the size limit is dropped with the resource code, one
  that is not UTF-8 with \<open>AmbiguousIntent\<close>, and every other payload is accepted exactly when the
  statistics of all its tokens are within the policy. Where in the text the scanner stops never
  shows.\<close>

theorem rgc_check_exact:
  "rgc_check payload policy =
   (let p = (case policy of Some q \<Rightarrow> q | None \<Rightarrow> default_rgc_policy)
    in if max_total_size p < length payload then Err RgcResourceLimitExceeded
       else case from_utf8 payload of
              None \<Rightarrow> Err AmbiguousIntent
            | Some text \<Rightarrow> if in_policy p (scan_stats text) then Ok () else Err RgcResourceLimitExceeded)"
  by (simp add: rgc_check_def Let_def scan_verdict split: option.split)



text \<open>What the scanner keeps does not grow with the payload: with recursion detection on, after
  any number of tokens the two per-depth maps and the stack of open containers have at most
  \<open>max_depth\<close> entries.\<close>

lemma rgc_memory_bounded:
  assumes "fold_result (on_tok p) init_scan (take k (lex chars)) = Ok st"
    and "enable_recursive_object_detection p"
  shows "length (field_counts st) \<le> max_depth p \<and> length (array_element_counts st) \<le> max_depth p \<and>
         length (container_stack st) \<le> max_depth p"
proof -
  have "scan_inv st" using rgc.run_Ok [OF assms(1)] scan_inv_run [OF scan_inv_init] by simp
  moreover have "max_depth_seen st \<le> max_depth p"
    using max_depth_run [OF assms] by (simp add: init_scan_def)
  ultimately show ?thesis by (auto simp: scan_inv_def dest!: depth_keys_length)
qed

text \<open>The limit on array elements counts commas, so an array of one element more than the limit
  passes.\<close>

theorem array_limit_counts_commas:
  "rgc_check (str_bytes ''[1,2,3]'') (Some small_rgc_policy) = Ok ()"
  by code_simp

end
