(* ===== verification/Nonce_Tracker.thy ===== *)
theory Nonce_Tracker
  imports Errors
begin

text \<open>
  The nonce tracker of \<open>src/security.rs\<close>, the replay protection of the legacy application frames.
  The map from keys to insertion times is an association list, the clock reading is an argument,
  SHA-256 is the argument \<open>sha256\<close>. The lemmas show the horizon of the protection (a nonce is
  refused for \<open>max_age_seconds\<close> after it was recorded, whatever arrives in between) and what the
  capacity check does and does not bound.
\<close>

section \<open>Definitions\<close>

definition NONCE_MAX_AGE_SECONDS :: secs where "NONCE_MAX_AGE_SECONDS = 300"
definition NONCE_MAX_ENTRIES :: nat where "NONCE_MAX_ENTRIES = 100000"
definition NONCE_PRUNE_INTERVAL :: nat where "NONCE_PRUNE_INTERVAL = 1000"

record NonceTracker =
  seen_nonces :: "(u64, secs) hmap"
  max_age_seconds :: secs
  max_entries :: nat
  insert_count :: nat

definition with_limits :: "secs \<Rightarrow> nat \<Rightarrow> NonceTracker" where
  "with_limits age entries = \<lparr>seen_nonces = [], max_age_seconds = age, max_entries = entries, insert_count = 0\<rparr>"

definition new_nonce_tracker :: NonceTracker where
  "new_nonce_tracker =
     \<lparr>seen_nonces = [], max_age_seconds = NONCE_MAX_AGE_SECONDS, max_entries = NONCE_MAX_ENTRIES,
      insert_count = 0\<rparr>"

definition composite_key :: "(bytes \<Rightarrow> bytes) \<Rightarrow> string \<Rightarrow> u64 \<Rightarrow> u64" where
  "composite_key sha256 session_id nonce =
     from_be_bytes (take 8 (sha256 (str_bytes session_id @ to_be_bytes 8 nonce)))"

definition track_key :: "secs \<Rightarrow> u64 \<Rightarrow> NonceTracker \<Rightarrow> NonceTracker \<times> unit result" where
  "track_key now key t =
     (if contains_key (seen_nonces t) key then (t, Err InvalidSignature)
      else
        (let t1 = t\<lparr>seen_nonces := AList.update key now (seen_nonces t), insert_count := insert_count t + 1\<rparr>
         in if insert_count t1 mod NONCE_PRUNE_INTERVAL = 0 \<and> max_entries t1 < length (seen_nonces t1) then
              (let t2 = t1\<lparr>seen_nonces := retain (\<lambda>_ s. now - s \<le> max_age_seconds t1) (seen_nonces t1)\<rparr>
               in if max_entries t2 < length (seen_nonces t2) then (t2, Err CircuitBreakerOpen) else (t2, Ok ()))
            else (t1, Ok ())))"

definition track :: "secs \<Rightarrow> u64 \<Rightarrow> NonceTracker \<Rightarrow> NonceTracker \<times> unit result" where
  "track now nonce t = track_key now nonce t"

definition track_scoped :: "(bytes \<Rightarrow> bytes) \<Rightarrow> secs \<Rightarrow> string \<Rightarrow> u64 \<Rightarrow> NonceTracker \<Rightarrow> NonceTracker \<times> unit result" where
  "track_scoped sha256 now session_id nonce t = track_key now (composite_key sha256 session_id nonce) t"

definition contains :: "NonceTracker \<Rightarrow> u64 \<Rightarrow> bool" where
  "contains t nonce \<longleftrightarrow> contains_key (seen_nonces t) nonce"

definition contains_scoped :: "(bytes \<Rightarrow> bytes) \<Rightarrow> NonceTracker \<Rightarrow> string \<Rightarrow> u64 \<Rightarrow> bool" where
  "contains_scoped sha256 t session_id nonce \<longleftrightarrow> contains t (composite_key sha256 session_id nonce)"

definition nonce_count :: "NonceTracker \<Rightarrow> nat" where
  "nonce_count t = length (seen_nonces t)"

definition clear_nonces :: "NonceTracker \<Rightarrow> NonceTracker" where
  "clear_nonces t = t\<lparr>seen_nonces := []\<rparr>"

text \<open>Well-formed trackers, and the state after a sequence of calls \<open>track_key\<close>.\<close>

definition tracker_wf :: "NonceTracker \<Rightarrow> bool" where
  "tracker_wf t \<longleftrightarrow> hm_wf (seen_nonces t)"

definition track_all :: "NonceTracker \<Rightarrow> (secs \<times> u64) list \<Rightarrow> NonceTracker" where
  "track_all = foldl (\<lambda>t (now, key). fst (track_key now key t))"

section \<open>Lemmas\<close>

lemma tracker_wf_init: "tracker_wf (with_limits a n)" "tracker_wf new_nonce_tracker" "tracker_wf (clear_nonces t)"
  by (simp_all add: tracker_wf_def with_limits_def new_nonce_tracker_def clear_nonces_def)

lemma tracker_wf_track_key: "tracker_wf t \<Longrightarrow> tracker_wf (fst (track_key now key t))"
  by (simp add: tracker_wf_def track_key_def Let_def)

lemma track_key_limits [simp]:
  "max_age_seconds (fst (track_key now key t)) = max_age_seconds t"
  "max_entries (fst (track_key now key t)) = max_entries t"
  by (simp_all add: track_key_def Let_def)

lemma track_key_seen: "contains t key \<Longrightarrow> track_key now key t = (t, Err InvalidSignature)"
  by (simp add: track_key_def contains_def)

lemma track_key_Ok_fresh: "snd (track_key now key t) = Ok () \<Longrightarrow> \<not> contains t key"
  by (cases "contains t key") (simp_all add: track_key_seen)

lemma track_key_records:
  assumes "tracker_wf t" "\<not> contains t key" "0 \<le> max_age_seconds t"
  shows "map_of (seen_nonces (fst (track_key now key t))) key = Some now"
  using assms by (simp add: track_key_def contains_def Let_def tracker_wf_def map_of_retain)

lemma track_key_keeps:
  assumes "tracker_wf t" "map_of (seen_nonces t) k = Some s" "now \<le> s + max_age_seconds t"
  shows "map_of (seen_nonces (fst (track_key now key t))) k = Some s"
  using assms by (auto simp: track_key_def Let_def tracker_wf_def map_of_retain map_of_update)

lemma track_all_simps [simp]:
  "track_all t [] = t"
  "track_all t (x # xs) = track_all (fst (track_key (fst x) (snd x) t)) xs"
  by (simp_all add: track_all_def split_beta)

lemma track_all_keeps:
  assumes "tracker_wf t" "map_of (seen_nonces t) k = Some s"
    "\<And>now key. (now, key) \<in> set xs \<Longrightarrow> now \<le> s + max_age_seconds t"
  shows "map_of (seen_nonces (track_all t xs)) k = Some s"
  using assms
proof (induction xs arbitrary: t)
  case Nil
  then show ?case by simp
next
  case (Cons x xs)
  have "fst x \<le> s + max_age_seconds t" using Cons.prems(3) [of "fst x" "snd x"] by simp
  then have "map_of (seen_nonces (fst (track_key (fst x) (snd x) t))) k = Some s"
    using Cons.prems by (simp add: track_key_keeps)
  then show ?case
    using Cons.IH [of "fst (track_key (fst x) (snd x) t)"] Cons.prems
    by (auto simp: tracker_wf_track_key)
qed

text \<open>While nothing has aged, a call only adds its key.\<close>

definition all_young :: "secs \<Rightarrow> NonceTracker \<Rightarrow> bool" where
  "all_young now t \<longleftrightarrow> (\<forall>(_, s) \<in> set (seen_nonces t). now - s \<le> max_age_seconds t)"

lemma retain_all: "(\<And>k v. (k, v) \<in> set m \<Longrightarrow> P k v) \<Longrightarrow> retain P m = m"
  by (auto simp: retain_def filter_id_conv)

lemma set_update_subset: "set (AList.update k v m) \<subseteq> insert (k, v) (set m)"
  by (induction m) auto

lemma track_key_young:
  assumes "all_young now t" "0 \<le> max_age_seconds t" "\<not> contains t key"
  shows "seen_nonces (fst (track_key now key t)) = AList.update key now (seen_nonces t)"
proof -
  have "retain (\<lambda>_ s. now - s \<le> max_age_seconds t) (AList.update key now (seen_nonces t)) =
        AList.update key now (seen_nonces t)"
    using assms(1,2) set_update_subset [of key now "seen_nonces t"]
    by (intro retain_all) (auto simp: all_young_def)
  with assms(3) show ?thesis by (simp add: track_key_def contains_def Let_def)
qed

lemma track_all_grows:
  assumes "tracker_wf t" "all_young now t" "0 \<le> max_age_seconds t" "distinct ks"
    "\<And>k. k \<in> set ks \<Longrightarrow> \<not> contains t k"
  shows "nonce_count (track_all t (map (Pair now) ks)) = nonce_count t + length ks"
  using assms
proof (induction ks arbitrary: t)
  case Nil
  then show ?case by simp
next
  case (Cons k ks)
  define t' where "t' = fst (track_key now k t)"
  have seen: "seen_nonces t' = AList.update k now (seen_nonces t)"
    unfolding t'_def using Cons.prems by (intro track_key_young) simp_all
  have age: "max_age_seconds t' = max_age_seconds t" by (simp add: t'_def)
  have "all_young now t'"
    using Cons.prems(2,3) set_update_subset [of k now "seen_nonces t"]
    by (auto simp: all_young_def seen age)
  moreover have "\<not> contains t' q" if "q \<in> set ks" for q
    using that Cons.prems(4,5) by (auto simp: contains_def seen)
  moreover have "nonce_count t' = Suc (nonce_count t)"
    using Cons.prems(1,5) by (simp add: nonce_count_def seen length_update tracker_wf_def contains_def keys_dom domIff)
  ultimately show ?case
    using Cons.IH [of t'] Cons.prems by (simp add: t'_def tracker_wf_track_key)
qed

section \<open>Properties\<close>

text \<open>The horizon of the replay protection: once a nonce has been taken, every later attempt to use
  it is refused with \<open>InvalidSignature\<close> and changes nothing, as long as no more than
  \<open>max_age_seconds\<close> have passed, whatever other nonces the tracker was offered in between and
  however often it pruned.\<close>

lemma nonce_refused_within_horizon:
  assumes "tracker_wf t" "0 \<le> max_age_seconds t"
    and "track_key now k t = (t1, Ok ())"
    and "\<forall>(s, key) \<in> set xs. s \<le> now + max_age_seconds t"
    and "now' \<le> now + max_age_seconds t"
  shows "track_key now' k (track_all t1 xs) = (track_all t1 xs, Err InvalidSignature)"
proof (rule track_key_seen)
  have t1: "t1 = fst (track_key now k t)" and ok: "snd (track_key now k t) = Ok ()" by (simp_all add: assms(3))
  have "map_of (seen_nonces t1) k = Some now"
    unfolding t1 using assms(1,2) track_key_Ok_fresh [OF ok] by (simp add: track_key_records)
  then have "map_of (seen_nonces (track_all t1 xs)) k = Some now"
    using assms(1,4) by (intro track_all_keeps) (auto simp: t1 tracker_wf_track_key)
  then show "contains (track_all t1 xs) k" by (simp add: contains_def)
qed

text \<open>The entry limit is not a bound on memory: for every limit, a flood of distinct nonces within
  one horizon is stored in full.\<close>

lemma nonce_map_not_bounded:
  assumes "0 \<le> age" "distinct ks"
  shows "nonce_count (track_all (with_limits age limit) (map (Pair now) ks)) = length ks"
  using track_all_grows [of "with_limits age limit" now ks] assms
  by (simp add: tracker_wf_init) (simp add: all_young_def with_limits_def contains_def nonce_count_def)

end
