(* ===== verification/Wire_Utils.thy ===== *)
theory Wire_Utils
  imports Errors
begin

text \<open>
  The helpers at the end of \<open>src/framing.rs\<close>: the payload size gate, zlib, Adler-32 and the
  constant-time comparison. The crates \<open>flate2\<close> and \<open>adler2\<close> are records of functions. The
  decoder of \<open>flate2\<close> is a state with a \<open>read\<close> that returns the next bytes (none at the end of
  the stream) or an error; the hasher of \<open>adler2\<close> is a state with \<open>write_slice\<close> and \<open>checksum\<close>.
  What the lemmas need of them are \<open>zlib_ok\<close> (decoding what was encoded reads the input back) and
  \<open>adler_streams\<close> (writing two slices is writing their concatenation).
\<close>

section \<open>Definitions\<close>

definition MAX_PAYLOAD_SIZE :: nat where "MAX_PAYLOAD_SIZE = 10000000"

definition MAX_DECOMPRESSED_SIZE :: nat where "MAX_DECOMPRESSED_SIZE = MAX_PAYLOAD_SIZE"

definition check_payload_size :: "nat \<Rightarrow> unit result" where
  "check_payload_size sz = (if MAX_PAYLOAD_SIZE < sz then Err PayloadTooLarge else Ok ())"

record 'z zlib =
  zlib_encode :: "bytes \<Rightarrow> bytes option"
  zlib_decoder :: "bytes \<Rightarrow> 'z"
  zlib_read :: "'z \<Rightarrow> (bytes \<times> 'z) option"

definition compress_zlib :: "'z zlib \<Rightarrow> bytes \<Rightarrow> bytes result" where
  "compress_zlib Z data = (case zlib_encode Z data of None \<Rightarrow> Err MalformedHeader | Some c \<Rightarrow> Ok c)"

text \<open>The loop of \<open>decompress_zlib\<close>. A read that returns no bytes ends it, and every other read makes
  \<open>out\<close> longer, so that it ends at the cap at the latest, whatever the decoder does.\<close>

function decompress_loop :: "('z \<Rightarrow> (bytes \<times> 'z) option) \<Rightarrow> 'z \<Rightarrow> bytes \<Rightarrow> bytes result" where
  "decompress_loop read dec out =
     (case read dec of
        None \<Rightarrow> Err MalformedHeader
      | Some (chunk, dec') \<Rightarrow>
          if chunk = [] then Ok out
          else if MAX_DECOMPRESSED_SIZE < length (out @ chunk) then Err PayloadTooLarge
          else decompress_loop read dec' (out @ chunk))"
  by pat_completeness auto
termination
  by (relation "measure (\<lambda>(read, dec, out). Suc MAX_DECOMPRESSED_SIZE - length out)")
    (auto simp: length_greater_0_conv [symmetric] simp del: length_greater_0_conv)

declare decompress_loop.simps [simp del]

definition decompress_zlib :: "'z zlib \<Rightarrow> bytes \<Rightarrow> bytes result" where
  "decompress_zlib Z data = decompress_loop (zlib_read Z) (zlib_decoder Z data) []"

record 's adler =
  adler_new :: 's
  write_slice :: "bytes \<Rightarrow> 's \<Rightarrow> 's"
  checksum :: "'s \<Rightarrow> u32"

definition adler32_checksum :: "'s adler \<Rightarrow> bytes \<Rightarrow> u32" where
  "adler32_checksum A data = checksum A (write_slice A data (adler_new A))"

definition adler32_checksum_multi :: "'s adler \<Rightarrow> bytes list \<Rightarrow> u32" where
  "adler32_checksum_multi A parts = checksum A (foldl (\<lambda>a part. write_slice A part a) (adler_new A) parts)"

text \<open>The bytes are taken in big-endian order; the result does not depend on the order.\<close>

definition constant_time_eq_u32 :: "u32 \<Rightarrow> u32 \<Rightarrow> bool" where
  "constant_time_eq_u32 a b =
     (let ab = to_be_bytes 4 a; bb = to_be_bytes 4 b;
          diff = foldl (\<lambda>diff i. or diff (xor (ab ! i) (bb ! i))) (0 :: u8) [0, 1, 2, 3];
          d = (ucast diff :: u32)
      in drop_bit 31 (or d (- d)) = 0)"

text \<open>What the crates promise.\<close>

inductive reads :: "('z \<Rightarrow> (bytes \<times> 'z) option) \<Rightarrow> 'z \<Rightarrow> bytes \<Rightarrow> bool" for read where
  reads_end: "read dec = Some ([], dec') \<Longrightarrow> reads read dec []"
| reads_chunk: "read dec = Some (chunk, dec') \<Longrightarrow> chunk \<noteq> [] \<Longrightarrow> reads read dec' rest \<Longrightarrow>
    reads read dec (chunk @ rest)"

definition zlib_ok :: "'z zlib \<Rightarrow> bool" where
  "zlib_ok Z \<longleftrightarrow> (\<forall>data c. zlib_encode Z data = Some c \<longrightarrow> reads (zlib_read Z) (zlib_decoder Z c) data)"

definition adler_streams :: "'s adler \<Rightarrow> bool" where
  "adler_streams A \<longleftrightarrow>
     (\<forall>s xs ys. write_slice A ys (write_slice A xs s) = write_slice A (xs @ ys) s) \<and>
     (\<forall>s. write_slice A [] s = s)"

text \<open>Concrete instances to evaluate the model on: stored blocks with a leading marker byte, read in
  chunks of two bytes, and the sums of Adler-32.\<close>

definition stored_zlib :: "bytes zlib" where
  "stored_zlib =
     \<lparr>zlib_encode = (\<lambda>data. Some (0x78 # data)), zlib_decoder = tl,
      zlib_read = (\<lambda>rest. Some (take 2 rest, drop 2 rest))\<rparr>"

definition adler_sums :: "(nat \<times> nat) adler" where
  "adler_sums =
     \<lparr>adler_new = (1, 0),
      write_slice = (\<lambda>xs s. foldl (\<lambda>(a, b) x. ((a + unat x) mod 65521, (b + (a + unat x) mod 65521) mod 65521)) s xs),
      checksum = (\<lambda>(a, b). word_of_nat (b * 65536 + a))\<rparr>"

section \<open>Decompression\<close>

inductive_cases readsE: "reads read dec out"

lemma decompress_loop_reads:
  "reads read dec rest \<Longrightarrow> length (out @ rest) \<le> MAX_DECOMPRESSED_SIZE \<Longrightarrow>
   decompress_loop read dec out = Ok (out @ rest)"
proof (induction arbitrary: out rule: reads.induct)
  case (reads_end dec dec')
  then show ?case by (simp add: decompress_loop.simps [of read dec])
next
  case (reads_chunk dec chunk dec' rest)
  from reads_chunk.IH [of "out @ chunk"] reads_chunk.prems reads_chunk.hyps
  show ?case by (simp add: decompress_loop.simps [of read dec])
qed

lemma decompress_loop_Ok:
  "decompress_loop read dec out = Ok res \<Longrightarrow> length out \<le> MAX_DECOMPRESSED_SIZE \<Longrightarrow>
   \<exists>rest. res = out @ rest \<and> reads read dec rest \<and> length res \<le> MAX_DECOMPRESSED_SIZE"
proof (induction read dec out rule: decompress_loop.induct)
  case (1 read dec out)
  show ?case
  proof (cases "read dec")
    case None
    with "1.prems" show ?thesis by (simp add: decompress_loop.simps [of read dec])
  next
    case (Some p)
    obtain chunk dec' where p: "p = (chunk, dec')" by (cases p)
    show ?thesis
    proof (cases "chunk = []")
      case True
      with "1.prems" Some p show ?thesis
        by (auto simp: decompress_loop.simps [of read dec] intro: reads_end)
    next
      case False
      with "1.prems" Some p have "\<not> MAX_DECOMPRESSED_SIZE < length (out @ chunk)"
        and "decompress_loop read dec' (out @ chunk) = Ok res"
        by (simp_all add: decompress_loop.simps [of read dec] split: if_splits)
      with "1.IH" [OF Some p [THEN sym] False] obtain rest where
        "res = (out @ chunk) @ rest" "reads read dec' rest" "length res \<le> MAX_DECOMPRESSED_SIZE"
        by auto
      with Some p False show ?thesis by (auto intro: reads_chunk)
    qed
  qed
qed

lemma decompress_compress:
  assumes "zlib_ok Z" "compress_zlib Z data = Ok c" "length data \<le> MAX_DECOMPRESSED_SIZE"
  shows "decompress_zlib Z c = Ok data"
  using assms decompress_loop_reads [of "zlib_read Z" "zlib_decoder Z c" data "[]"]
  by (auto simp: compress_zlib_def decompress_zlib_def zlib_ok_def split: option.splits)

lemma stored_zlib_reads: "reads (zlib_read stored_zlib) dec dec"
proof (induction dec rule: length_induct)
  case (1 dec)
  show ?case
  proof (cases dec)
    case Nil
    then show ?thesis by (auto simp: stored_zlib_def intro: reads_end)
  next
    case (Cons x xs)
    then have "length (drop 2 dec) < length dec" by simp
    with 1 have "reads (zlib_read stored_zlib) (drop 2 dec) (drop 2 dec)" by blast
    from reads_chunk [OF _ _ this, of dec "take 2 dec"] Cons show ?thesis
      by (simp add: stored_zlib_def)
  qed
qed

lemma stored_zlib_ok: "zlib_ok stored_zlib"
  using stored_zlib_reads by (auto simp: zlib_ok_def stored_zlib_def)

section \<open>Adler-32\<close>

lemma adler_foldl:
  "adler_streams A \<Longrightarrow> foldl (\<lambda>a part. write_slice A part a) s parts = write_slice A (concat parts) s"
  by (induction parts arbitrary: s) (auto simp: adler_streams_def)

lemma adler_sums_streams: "adler_streams adler_sums"
  by (simp add: adler_streams_def adler_sums_def)

section \<open>Constant-time comparison\<close>

lemma high_bit: "bit (w :: u32) 31 \<longleftrightarrow> 2 ^ 31 \<le> uint w"
proof -
  have "uint w < 2 ^ 32" using uint_lt2p [of w] by simp
  then have "uint w div 2 ^ 31 < 2" by (simp add: div_less_iff_less_mult)
  moreover have "0 \<le> uint w div 2 ^ 31" by (intro pos_imp_zdiv_nonneg_iff [THEN iffD2]) simp_all
  ultimately have "uint w div 2 ^ 31 = 0 \<or> uint w div 2 ^ 31 = 1" by linarith
  then have "odd (uint w div 2 ^ 31) \<longleftrightarrow> uint w div 2 ^ 31 = 1" by (elim disjE) simp_all
  moreover have "uint w div 2 ^ 31 = 1 \<longleftrightarrow> 2 ^ 31 \<le> uint w" using \<open>uint w < 2 ^ 32\<close> by auto
  moreover have "bit w 31 \<longleftrightarrow> odd (uint w div 2 ^ 31)"

    using bit_uint_iff [of w 31] by (simp add: bit_iff_odd [of "uint w"])
  ultimately show ?thesis by simp
qed

lemma neg_high_bit: "drop_bit 31 (or d (- d)) = (0 :: u32) \<longleftrightarrow> d = 0"
proof
  assume h: "drop_bit 31 (or d (- d)) = (0 :: u32)"
  show "d = 0"
  proof (rule ccontr)
    assume "d \<noteq> 0"
    then have "uint d \<noteq> 0" "uint d < 2 ^ 32" using uint_lt2p [of d] by (auto simp: uint_0_iff)
    then have "uint (- d) = 2 ^ 32 - uint d"
      using uint_word_ariths(4) [of d] by (simp add: zmod_zminus1_eq_if)
    then have "bit d 31 \<or> bit (- d) 31" by (auto simp: high_bit)
    then have "bit (or d (- d)) 31" by (simp only: bit_or_iff)
    then have "bit (drop_bit 31 (or d (- d))) 0" by (simp only: bit_drop_bit_eq comp_def) simp
    with h show False by simp
  qed
qed simp

lemma ucast_zero_iff: "(ucast (b :: u8) :: u32) = 0 \<longleftrightarrow> b = 0"
  using uint_lt2p [of b] by (simp add: word_uint_eq_iff unsigned_ucast_eq take_bit_eq_mod)

lemma or_zero_iff: "or (a :: 'a :: len word) b = 0 \<longleftrightarrow> a = 0 \<and> b = 0"
  by (auto simp: bit_eq_iff bit_or_iff)

lemma xor_zero_iff: "xor (a :: 'a :: len word) b = 0 \<longleftrightarrow> a = b"
  by (auto simp: bit_eq_iff bit_xor_iff)

lemma list4_eq: "length xs = 4 \<Longrightarrow> length ys = 4 \<Longrightarrow> xs = ys \<longleftrightarrow> (\<forall>i \<in> {0, 1, 2, 3}. xs ! i = ys ! i)"
  by (auto simp: list_eq_iff_nth_eq less_Suc_eq numeral_eq_Suc)

lemma constant_time_eq_u32_iff: "constant_time_eq_u32 a b \<longleftrightarrow> a = b"
proof -
  have "constant_time_eq_u32 a b \<longleftrightarrow> (\<forall>i \<in> {0, 1, 2, 3}. to_be_bytes 4 a ! i = to_be_bytes 4 b ! i)"
    by (simp add: constant_time_eq_u32_def Let_def neg_high_bit ucast_zero_iff del: drop_bit_or)
      (simp add: or_zero_iff xor_zero_iff)
  also have "\<dots> \<longleftrightarrow> to_be_bytes 4 a = to_be_bytes 4 b" by (simp add: list4_eq)
  also have "\<dots> \<longleftrightarrow> a = b" by (auto dest: arg_cong [where f = "from_be_bytes :: bytes \<Rightarrow> u32"])
  finally show ?thesis .
qed

section \<open>Properties\<close>

text \<open>\<open>decompress_zlib\<close> returns exactly when the decoder yields its whole stream within the limit:
  the loop always ends, and its result is what the decoder reads, no more than
  \<open>MAX_DECOMPRESSED_SIZE\<close> bytes, whatever the compressed bytes are.\<close>

lemma decompress_exact:
  "decompress_zlib Z data = Ok out \<longleftrightarrow>
   reads (zlib_read Z) (zlib_decoder Z data) out \<and> length out \<le> MAX_DECOMPRESSED_SIZE"
  using decompress_loop_reads [of "zlib_read Z" "zlib_decoder Z data" out "[]"]
    decompress_loop_Ok [of "zlib_read Z" "zlib_decoder Z data" "[]" out]
  by (auto simp: decompress_zlib_def)

text \<open>The streamed Adler-32 over the parts of a frame is the checksum of their concatenation.\<close>

lemma adler32_multi_concat:
  assumes "adler_streams A"
  shows "adler32_checksum_multi A parts = adler32_checksum A (concat parts)"
  by (simp add: adler32_checksum_multi_def adler32_checksum_def adler_foldl [OF assms])


end
