(* ===== verification/Saacp_Frame.thy ===== *)
theory Saacp_Frame
  imports Measc_Frame Rgc_Scanner Nonce_Tracker Wire_Utils
begin

text \<open>
  The two frame types of \<open>src/framing.rs\<close>: the legacy application frame \<open>SAACPFrame\<close> (101-byte
  prefix, tag, Adler-32, ciphertext) and the transport frame \<open>MEASCFrame\<close> of that file (128-byte
  header, tag, ciphertext), with their replay protection by the nonce tracker. Fixed-offset encoders
  are modelled as the source writes them, as writes into a zeroed buffer.

  The third-party code is the record \<open>wire_env\<close>: AES-GCM and HKDF (\<open>crypto\<close>), SHA-256, \<open>adler2\<close> and
  \<open>flate2\<close>; JSON parsing and the schema registry are the argument \<open>validate\<close>, the random nonce of
  \<open>build_frame\<close> is an argument.
\<close>

section \<open>Buffers and primitives\<close>

definition copy_at :: "nat \<Rightarrow> 'a list \<Rightarrow> 'a list \<Rightarrow> 'a list" where
  "copy_at i xs buf = take i buf @ xs @ drop (i + length xs) buf"

definition write_fields :: "'a list \<Rightarrow> (nat \<times> 'a list) list \<Rightarrow> 'a list" where
  "write_fields = foldl (\<lambda>buf (i, xs). copy_at i xs buf)"

record ('s, 'z) wire_env =
  w_crypto :: crypto
  w_sha256 :: "bytes \<Rightarrow> bytes"
  w_adler :: "'s adler"
  w_zlib :: "'z zlib"

definition aes_gcm_encrypt :: "crypto \<Rightarrow> bytes \<Rightarrow> bytes \<Rightarrow> bytes \<Rightarrow> bytes \<Rightarrow> (bytes \<times> bytes) result" where
  "aes_gcm_encrypt C key iv aad plaintext =
     (case seal C key iv aad plaintext of
        None \<Rightarrow> Err InvalidSignature
      | Some encrypted \<Rightarrow> Ok (take (length encrypted - 16) encrypted, drop (length encrypted - 16) encrypted))"

definition aes_gcm_decrypt :: "crypto \<Rightarrow> bytes \<Rightarrow> bytes \<Rightarrow> bytes \<Rightarrow> bytes \<Rightarrow> bytes \<Rightarrow> bytes result" where
  "aes_gcm_decrypt C key iv auth_tag aad ciphertext =
     (case open_sealed C key iv aad (ciphertext @ auth_tag) of
        None \<Rightarrow> Err InvalidSignature
      | Some plaintext \<Rightarrow> Ok plaintext)"

section \<open>SAACPFrame\<close>

definition SAACPFRAME_PREFIX_SIZE :: nat where "SAACPFRAME_PREFIX_SIZE = 101"
definition SAACPFRAME_FIXED_OVERHEAD :: nat where "SAACPFRAME_FIXED_OVERHEAD = 121"

definition FLAG_COVER_TRAFFIC :: u8 where "FLAG_COVER_TRAFFIC = 0x80"
definition FLAG_BINARY_STREAM :: u8 where "FLAG_BINARY_STREAM = 0x02"
definition FLAG_COMPRESSED :: u8 where "FLAG_COMPRESSED = 0x20"
definition STATUS_STREAM_CONTINUATION :: u8 where "STATUS_STREAM_CONTINUATION = 0x18"
definition STATUS_STREAM_END :: u8 where "STATUS_STREAM_END = 0x19"

definition is_schema_exempt :: "u8 \<Rightarrow> bool" where
  "is_schema_exempt status_code \<longleftrightarrow>
     status_code = STATUS_STREAM_CONTINUATION \<or> status_code = STATUS_STREAM_END"

record SAACPFrame =
  f_schema_id :: u16
  f_status_code :: u8
  f_flags :: u8
  f_action_class :: u8
  f_payload_length :: u32
  f_sequence_id :: u32
  f_session_uuid :: bytes
  f_traceparent :: bytes
  f_context_state_id :: bytes
  f_context_version :: u32
  f_nonce :: u64

definition encode_prefix :: "SAACPFrame \<Rightarrow> bytes" where
  "encode_prefix f =
     write_fields (replicate SAACPFRAME_PREFIX_SIZE 0)
       [(0, MEASC_MAGIC), (4, to_be_bytes 2 (f_schema_id f)), (6, [f_status_code f]), (7, [f_flags f]),
        (8, [f_action_class f]), (9, to_be_bytes 4 (f_payload_length f)),
        (13, to_be_bytes 4 (f_sequence_id f)), (17, f_session_uuid f), (33, f_traceparent f),
        (57, f_context_state_id f), (89, to_be_bytes 4 (f_context_version f)),
        (93, to_be_bytes 8 (f_nonce f))]"

definition decode_prefix :: "bytes \<Rightarrow> SAACPFrame result" where
  "decode_prefix data =
     (if length data < SAACPFRAME_PREFIX_SIZE then Err MalformedHeader
      else if take 4 data \<noteq> MEASC_MAGIC then Err MalformedHeader
      else Ok \<lparr>f_schema_id = from_be_bytes (slice 4 6 data), f_status_code = data ! 6, f_flags = data ! 7,
               f_action_class = data ! 8, f_payload_length = from_be_bytes (slice 9 13 data),
               f_sequence_id = from_be_bytes (slice 13 17 data), f_session_uuid = slice 17 33 data,
               f_traceparent = slice 33 57 data, f_context_state_id = slice 57 89 data,
               f_context_version = from_be_bytes (slice 89 93 data),
               f_nonce = from_be_bytes (slice 93 101 data)\<rparr>)"

definition saacp_derive_iv :: "(bytes \<Rightarrow> bytes) \<Rightarrow> u64 \<Rightarrow> bytes \<Rightarrow> u32 \<Rightarrow> bytes" where
  "saacp_derive_iv sha256 nonce session_uuid sequence_id =
     take 12 (sha256 (to_be_bytes 8 nonce @ session_uuid @ to_be_bytes 4 sequence_id))"

definition derive_iv_v1 :: "(bytes \<Rightarrow> bytes) \<Rightarrow> u64 \<Rightarrow> bytes \<Rightarrow> bytes" where
  "derive_iv_v1 sha256 nonce session_uuid = take 12 (sha256 (to_be_bytes 8 nonce @ session_uuid))"

text \<open>\<open>build_frame\<close>: \<open>f\<close> carries the caller's fields, the length is computed and the nonce drawn.\<close>

definition saacp_build_frame :: "('s, 'z) wire_env \<Rightarrow> u64 \<Rightarrow> SAACPFrame \<Rightarrow> bytes \<Rightarrow> bytes \<Rightarrow> bytes result" where
  "saacp_build_frame W nonce_val f payload secret_key =
     (if MAX_PAYLOAD_SIZE < length payload then Err PayloadTooLarge
      else
        and_then (if and (f_flags f) FLAG_COMPRESSED \<noteq> 0 then compress_zlib (w_zlib W) payload else Ok payload)
          (\<lambda>payload_to_encrypt.
           let frame = f\<lparr>f_payload_length := word_of_nat (length payload_to_encrypt), f_nonce := nonce_val\<rparr>;
               prefix_bytes = encode_prefix frame;
               iv = saacp_derive_iv (w_sha256 W) nonce_val (f_session_uuid f) (f_sequence_id f)
           in and_then (aes_gcm_encrypt (w_crypto W) secret_key iv prefix_bytes payload_to_encrypt)
                (\<lambda>(ciphertext, auth_tag).
                 let cs = adler32_checksum_multi (w_adler W) [prefix_bytes, auth_tag, ciphertext]
                 in Ok (prefix_bytes @ auth_tag @ to_be_bytes 4 cs @ ciphertext))))"

record ParsedSAACPFrame =
  p_schema_id :: u16
  p_status_code :: u8
  p_flags :: u8
  p_action_class :: u8
  p_sequence_id :: u32
  p_session_uuid :: bytes
  p_traceparent :: bytes
  p_context_state_id :: bytes
  p_context_version :: u32
  p_nonce :: u64
  p_payload :: bytes

definition parsed_saacp :: "SAACPFrame \<Rightarrow> bytes \<Rightarrow> ParsedSAACPFrame" where
  "parsed_saacp frame payload =
     \<lparr>p_schema_id = f_schema_id frame, p_status_code = f_status_code frame, p_flags = f_flags frame,
      p_action_class = f_action_class frame, p_sequence_id = f_sequence_id frame,
      p_session_uuid = f_session_uuid frame, p_traceparent = f_traceparent frame,
      p_context_state_id = f_context_state_id frame, p_context_version = f_context_version frame,
      p_nonce = f_nonce frame, p_payload = payload\<rparr>"

definition is_cover_traffic :: "ParsedSAACPFrame \<Rightarrow> bool" where
  "is_cover_traffic p \<longleftrightarrow> and (p_flags p) FLAG_COVER_TRAFFIC \<noteq> 0"

definition is_binary_stream :: "ParsedSAACPFrame \<Rightarrow> bool" where
  "is_binary_stream p \<longleftrightarrow> and (p_flags p) FLAG_BINARY_STREAM \<noteq> 0"

definition session_uuid_hex :: "ParsedSAACPFrame \<Rightarrow> string" where
  "session_uuid_hex p = hex_encode (p_session_uuid p)"

definition context_state_id_hex :: "ParsedSAACPFrame \<Rightarrow> string" where
  "context_state_id_hex p = hex_encode (p_context_state_id p)"

definition traceparent_hex :: "ParsedSAACPFrame \<Rightarrow> string" where
  "traceparent_hex p = hex_encode (p_traceparent p)"

text \<open>Steps 1 to 6, which only read the tracker: the decoded prefix and the authenticated bytes.\<close>

definition saacp_authenticate ::
  "('s, 'z) wire_env \<Rightarrow> bytes \<Rightarrow> bytes \<Rightarrow> NonceTracker \<Rightarrow> RGCPolicy \<Rightarrow> (SAACPFrame \<times> bytes) result" where
  "saacp_authenticate W buffer secret_key tracker pol =
     (if length buffer < SAACPFRAME_FIXED_OVERHEAD then Err MalformedHeader
      else
        (let prefix_bytes = take SAACPFRAME_PREFIX_SIZE buffer;
             auth_tag = slice SAACPFRAME_PREFIX_SIZE (SAACPFRAME_PREFIX_SIZE + 16) buffer;
             checksum_slice = slice (SAACPFRAME_PREFIX_SIZE + 16) (SAACPFRAME_PREFIX_SIZE + 20) buffer
         in and_then (decode_prefix prefix_bytes) (\<lambda>frame.
            if MAX_PAYLOAD_SIZE < unat (f_payload_length frame) then Err PayloadTooLarge
            else if max_total_size pol < unat (f_payload_length frame) then Err RgcResourceLimitExceeded
            else if contains_scoped (w_sha256 W) tracker (hex_encode (f_session_uuid frame)) (f_nonce frame)
            then Err InvalidSignature
            else
              (let ciphertext_end = SAACPFRAME_PREFIX_SIZE + 20 + unat (f_payload_length frame)
               in if length buffer < ciphertext_end then Err MalformedHeader
                  else
                    (let ciphertext = slice (SAACPFRAME_PREFIX_SIZE + 20) ciphertext_end buffer;
                         expected = adler32_checksum_multi (w_adler W) [prefix_bytes, auth_tag, ciphertext];
                         actual = from_be_bytes checksum_slice
                     in if \<not> constant_time_eq_u32 expected actual then Err MalformedHeader
                        else
                          (let iv = saacp_derive_iv (w_sha256 W) (f_nonce frame) (f_session_uuid frame) (f_sequence_id frame)
                           in and_then (aes_gcm_decrypt (w_crypto W) secret_key iv auth_tag prefix_bytes ciphertext)
                                (\<lambda>decrypted. Ok (frame, decrypted))))))))"

text \<open>Step 7: decompression and, unless the status code exempts the frame, governance and schema.\<close>

definition saacp_finish ::
  "('s, 'z) wire_env \<Rightarrow> (u16 \<Rightarrow> bytes \<Rightarrow> unit result) \<Rightarrow> RGCPolicy \<Rightarrow> SAACPFrame \<Rightarrow> bytes \<Rightarrow> ParsedSAACPFrame result" where
  "saacp_finish W validate pol frame decrypted =
     and_then (if and (f_flags frame) FLAG_COMPRESSED \<noteq> 0 then decompress_zlib (w_zlib W) decrypted else Ok decrypted)
       (\<lambda>payload.
        and_then (if is_schema_exempt (f_status_code frame) then Ok ()
                  else and_then (rgc_check payload (Some pol)) (\<lambda>_. validate (f_schema_id frame) payload))
          (\<lambda>_. Ok (parsed_saacp frame payload)))"

definition saacp_parse_header ::
  "('s, 'z) wire_env \<Rightarrow> (u16 \<Rightarrow> bytes \<Rightarrow> unit result) \<Rightarrow> secs \<Rightarrow> bytes \<Rightarrow> bytes \<Rightarrow> NonceTracker \<Rightarrow> RGCPolicy
     \<Rightarrow> NonceTracker \<times> ParsedSAACPFrame result" where
  "saacp_parse_header W validate now buffer secret_key tracker pol =
     (case saacp_authenticate W buffer secret_key tracker pol of
        Inl err \<Rightarrow> (tracker, Err err)
      | Inr (frame, decrypted) \<Rightarrow>
          (case track_scoped (w_sha256 W) now (hex_encode (f_session_uuid frame)) (f_nonce frame) tracker of
             (tracker', Inl err) \<Rightarrow> (tracker', Err err)
           | (tracker', Inr _) \<Rightarrow> (tracker', saacp_finish W validate pol frame decrypted)))"

section \<open>MEASCFrame\<close>

definition new_measc_frame :: MEASCHeader where
  "new_measc_frame =
     \<lparr>h_schema_id = 0, h_status_code = 0, h_flags = 0, h_action_class = 0, h_payload_length = 0,
      h_session_id = replicate 16 0, h_epoch_id = 0, h_psn = 0, h_context_ref_id = replicate 32 0,
      h_context_version = 0, h_traceparent = replicate 24 0\<rparr>"

definition measc_encode :: "MEASCHeader \<Rightarrow> bytes" where
  "measc_encode h =
     write_fields (replicate MEASC_HEADER_SIZE 0)
       [(0, MEASC_MAGIC), (4, to_be_bytes 2 (h_schema_id h)), (6, [h_status_code h]), (7, [h_flags h]),
        (8, [h_action_class h]), (12, to_be_bytes 4 (h_payload_length h)), (16, h_session_id h),
        (32, to_be_bytes 4 (h_epoch_id h)), (36, to_be_bytes 8 (h_psn h)), (44, h_context_ref_id h),
        (76, to_be_bytes 4 (h_context_version h)), (80, h_traceparent h)]"

definition measc_decode :: "bytes \<Rightarrow> MEASCHeader result" where
  "measc_decode data =
     (if length data < MEASC_HEADER_SIZE then Err MalformedHeader
      else if take 4 data \<noteq> MEASC_MAGIC then Err MalformedHeader
      else Ok \<lparr>h_schema_id = from_be_bytes (slice 4 6 data), h_status_code = data ! 6, h_flags = data ! 7,
               h_action_class = data ! 8, h_payload_length = from_be_bytes (slice 12 16 data),
               h_session_id = slice 16 32 data, h_epoch_id = from_be_bytes (slice 32 36 data),
               h_psn = from_be_bytes (slice 36 44 data), h_context_ref_id = slice 44 76 data,
               h_context_version = from_be_bytes (slice 76 80 data), h_traceparent = slice 80 104 data\<rparr>)"

definition FRAMING_MEASC_HKDF_INFO :: bytes where
  "FRAMING_MEASC_HKDF_INFO = str_bytes ''SAACP-FRAMING-MEASCFrame-key-iv-v1''"

definition derive_frame_key_iv :: "crypto \<Rightarrow> bytes \<Rightarrow> bytes \<Rightarrow> u32 \<Rightarrow> u64 \<Rightarrow> bytes \<times> bytes" where
  "derive_frame_key_iv C secret_key session_id epoch_id psn =
     (let okm = hkdf_sha256 C session_id secret_key
                  (FRAMING_MEASC_HKDF_INFO @ to_be_bytes 4 epoch_id @ to_be_bytes 8 psn) 44
      in (slice 0 32 okm, slice 32 44 okm))"

record ParsedFrame =
  pr_schema_id :: u16
  pr_status_code :: u8
  pr_flags :: u8
  pr_action_class :: u8
  pr_session_uuid :: string
  pr_sequence_id :: u64
  pr_context_state_id :: string
  pr_context_version :: u64
  pr_traceparent :: bytes
  pr_payload :: bytes

definition parsed_measc :: "MEASCHeader \<Rightarrow> bytes \<Rightarrow> ParsedFrame" where
  "parsed_measc frame payload =
     \<lparr>pr_schema_id = h_schema_id frame, pr_status_code = h_status_code frame, pr_flags = h_flags frame,
      pr_action_class = h_action_class frame, pr_session_uuid = hex_encode (h_session_id frame),
      pr_sequence_id = h_psn frame, pr_context_state_id = hex_encode (h_context_ref_id frame),
      pr_context_version = ucast (h_context_version frame), pr_traceparent = h_traceparent frame,
      pr_payload = payload\<rparr>"

definition measc_authenticate ::
  "('s, 'z) wire_env \<Rightarrow> bytes \<Rightarrow> bytes \<Rightarrow> NonceTracker option \<Rightarrow> (MEASCHeader \<times> bytes) result" where
  "measc_authenticate W packet secret_key tracker =
     and_then (measc_decode packet) (\<lambda>frame.
       if MAX_PAYLOAD_SIZE < unat (h_payload_length frame) then Err PayloadTooLarge
       else
         (let ciphertext_start = MEASC_HEADER_SIZE + MEASC_AUTH_TAG_SIZE;
              ciphertext_end = ciphertext_start + unat (h_payload_length frame)
          in if length packet < ciphertext_end then Err MalformedHeader
             else if (case tracker of None \<Rightarrow> False
                      | Some t \<Rightarrow> contains_scoped (w_sha256 W) t (hex_encode (h_session_id frame)) (h_psn frame))
             then Err InvalidSignature
             else
               (let (key, iv) = derive_frame_key_iv (w_crypto W) secret_key (h_session_id frame) (h_epoch_id frame) (h_psn frame)
                in and_then (aes_gcm_decrypt (w_crypto W) key iv
                               (slice MEASC_HEADER_SIZE ciphertext_start packet) (take MEASC_HEADER_SIZE packet)
                               (slice ciphertext_start ciphertext_end packet))
                     (\<lambda>payload. Ok (frame, payload)))))"

definition parse_header_inner ::
  "('s, 'z) wire_env \<Rightarrow> secs \<Rightarrow> bytes \<Rightarrow> bytes \<Rightarrow> NonceTracker option \<Rightarrow> NonceTracker option \<times> ParsedFrame result" where
  "parse_header_inner W now packet secret_key tracker =
     (case measc_authenticate W packet secret_key tracker of
        Inl err \<Rightarrow> (tracker, Err err)
      | Inr (frame, payload) \<Rightarrow>
          (case tracker of
             None \<Rightarrow> (None, Ok (parsed_measc frame payload))
           | Some t \<Rightarrow>
               (case track_scoped (w_sha256 W) now (hex_encode (h_session_id frame)) (h_psn frame) t of
                  (t', Inl err) \<Rightarrow> (Some t', Err err)
                | (t', Inr _) \<Rightarrow> (Some t', Ok (parsed_measc frame payload)))))"

definition measc_parse_header :: "('s, 'z) wire_env \<Rightarrow> secs \<Rightarrow> bytes \<Rightarrow> bytes \<Rightarrow> ParsedFrame result" where
  "measc_parse_header W now packet secret_key = snd (parse_header_inner W now packet secret_key None)"

definition parse_header_with_replay ::
  "('s, 'z) wire_env \<Rightarrow> secs \<Rightarrow> bytes \<Rightarrow> bytes \<Rightarrow> NonceTracker \<Rightarrow> NonceTracker \<times> ParsedFrame result" where
  "parse_header_with_replay W now packet secret_key t =
     (case parse_header_inner W now packet secret_key (Some t) of
        (Some t', r) \<Rightarrow> (t', r)
      | (None, r) \<Rightarrow> (t, r))"

definition encode_encrypted :: "('s, 'z) wire_env \<Rightarrow> MEASCHeader \<Rightarrow> bytes \<Rightarrow> bytes \<Rightarrow> bytes result" where
  "encode_encrypted W h payload secret_key =
     (if MAX_PAYLOAD_SIZE < length payload then Err PayloadTooLarge
      else
        (let hdr = h\<lparr>h_payload_length := word_of_nat (length payload)\<rparr>;
             header = measc_encode hdr;
             (key, iv) = derive_frame_key_iv (w_crypto W) secret_key (h_session_id hdr) (h_epoch_id hdr) (h_psn hdr)
         in and_then (aes_gcm_encrypt (w_crypto W) key iv header payload)
              (\<lambda>(ciphertext, auth_tag). Ok (header @ auth_tag @ ciphertext))))"

text \<open>A concrete sender and receiver to evaluate the model on.\<close>

definition demo_wire :: "(nat \<times> nat, bytes) wire_env" where
  "demo_wire =
     \<lparr>w_crypto = toy_crypto, w_sha256 = (\<lambda>m. take 32 (m @ replicate 32 255)), w_adler = adler_sums,
      w_zlib = stored_zlib\<rparr>"

definition demo_saacp :: SAACPFrame where
  "demo_saacp =
     \<lparr>f_schema_id = 1, f_status_code = STATUS_STREAM_END, f_flags = FLAG_COMPRESSED, f_action_class = 0,
      f_payload_length = 0, f_sequence_id = 9, f_session_uuid = replicate 16 3,
      f_traceparent = replicate 24 4, f_context_state_id = replicate 32 5, f_context_version = 1,
      f_nonce = 0\<rparr>"

definition demo_saacp_wire :: bytes where
  "demo_saacp_wire =
     (case saacp_build_frame demo_wire 77 demo_saacp [1, 2, 3] (replicate 32 2) of Inr w \<Rightarrow> w | Inl _ \<Rightarrow> [])"

definition demo_tracker :: NonceTracker where
  "demo_tracker = fst (track_scoped (w_sha256 demo_wire) 10 (hex_encode (replicate 16 3)) 77 (with_limits 300 5))"

section \<open>Buffers\<close>

lemma copy_at_append [wire]:
  "length pre \<le> i \<Longrightarrow> i + length xs \<le> length pre + n \<Longrightarrow>
   copy_at i xs (pre @ replicate n z) =
   pre @ replicate (i - length pre) z @ xs @ replicate (length pre + n - i - length xs) z"
  by (simp add: copy_at_def min_absorb2)

lemma copy_at_start [wire]:
  "i + length xs \<le> n \<Longrightarrow>
   copy_at i xs (replicate n z) = replicate i z @ xs @ replicate (n - i - length xs) z"
  using copy_at_append [of "[]" i xs n z] by simp

definition saacp_wf :: "SAACPFrame \<Rightarrow> bool" where
  "saacp_wf f \<longleftrightarrow> length (f_session_uuid f) = 16 \<and> length (f_traceparent f) = 24 \<and>
     length (f_context_state_id f) = 32"

fun lay_out :: "'a \<Rightarrow> nat \<Rightarrow> nat \<Rightarrow> (nat \<times> 'a list) list \<Rightarrow> 'a list" where
  "lay_out z pos endp [] = replicate (endp - pos) z"
| "lay_out z pos endp ((i, xs) # fs) = replicate (i - pos) z @ xs @ lay_out z (i + length xs) endp fs"

fun ordered_fields :: "nat \<Rightarrow> nat \<Rightarrow> (nat \<times> 'a list) list \<Rightarrow> bool" where
  "ordered_fields pos endp [] = (pos \<le> endp)"
| "ordered_fields pos endp ((i, xs) # fs) = (pos \<le> i \<and> ordered_fields (i + length xs) endp fs)"

lemma ordered_fields_le: "ordered_fields pos endp fs \<Longrightarrow> pos \<le> endp"
  by (induction pos endp fs rule: ordered_fields.induct) auto

lemma write_fields_from:
  "ordered_fields (length pre) endp fs \<Longrightarrow>
   write_fields (pre @ replicate (endp - length pre) z) fs = pre @ lay_out z (length pre) endp fs"
proof (induction fs arbitrary: pre)
  case Nil
  then show ?case by (simp add: write_fields_def)
next
  case (Cons f fs)
  obtain i xs where f: "f = (i, xs)" by (cases f)
  define pre' where "pre' = pre @ replicate (i - length pre) z @ xs"
  have i: "length pre \<le> i" and fs: "ordered_fields (i + length xs) endp fs" using Cons.prems by (simp_all add: f)
  have len: "length pre' = i + length xs" using i by (simp add: pre'_def)
  have "copy_at i xs (pre @ replicate (endp - length pre) z) = pre' @ replicate (endp - length pre') z"
    using i ordered_fields_le [OF fs] by (simp add: copy_at_append pre'_def)
  with Cons.IH [of pre'] fs show ?case
    by (simp add: f write_fields_def len) (simp add: pre'_def)
qed

lemma write_fields_lay_out:
  "ordered_fields 0 endp fs \<Longrightarrow> write_fields (replicate endp z) fs = lay_out z 0 endp fs"
  using write_fields_from [of "[]" endp fs z] by simp

lemma encode_prefix_append:
  assumes "saacp_wf f"
  shows "encode_prefix f =
    MEASC_MAGIC @ to_be_bytes 2 (f_schema_id f) @ [f_status_code f, f_flags f, f_action_class f] @
    to_be_bytes 4 (f_payload_length f) @ to_be_bytes 4 (f_sequence_id f) @ f_session_uuid f @
    f_traceparent f @ f_context_state_id f @ to_be_bytes 4 (f_context_version f) @ to_be_bytes 8 (f_nonce f)"
  unfolding encode_prefix_def using assms
  by (subst write_fields_lay_out) (simp_all add: saacp_wf_def SAACPFRAME_PREFIX_SIZE_def wire)

lemma length_encode_prefix: "saacp_wf f \<Longrightarrow> length (encode_prefix f) = 101"
  by (simp add: encode_prefix_append saacp_wf_def wire)

lemma decode_encode_prefix: "saacp_wf f \<Longrightarrow> decode_prefix (encode_prefix f) = Ok f"
  by (simp add: decode_prefix_def length_encode_prefix SAACPFRAME_PREFIX_SIZE_def)
    (simp add: encode_prefix_append saacp_wf_def wire nth_append nth_Cons')

lemma measc_encode_eq: "header_wf h \<Longrightarrow> measc_encode h = encode_measc_header h"
  unfolding measc_encode_def
  by (subst write_fields_lay_out)
    (simp_all add: header_wf_def measc_sizes wire encode_measc_header_def numeral_eq_Suc)

lemma measc_decode_eq:
  "measc_decode data =
   (if length data < 128 \<or> take 4 data \<noteq> MEASC_MAGIC then Err MalformedHeader else Ok (decode_measc_header data))"
  by (simp add: measc_decode_def decode_measc_header_def measc_sizes)

section \<open>Sealing and opening\<close>

lemma aes_gcm_encrypt_Ok:
  assumes "crypto_ok C" "aes_gcm_encrypt C key iv aad p = Ok (ct, tag)"
  shows "length ct = length p" "length tag = 16" "aes_gcm_decrypt C key iv tag aad ct = Ok p"
proof -
  obtain c where c: "seal C key iv aad p = Some c" "length c = length p + 16"
    using assms(1) unfolding crypto_ok_def by blast
  with assms(2) have ct: "ct = take (length p) c" "tag = drop (length p) c"
    by (simp_all add: aes_gcm_encrypt_def)
  then show "length ct = length p" "length tag = 16" using c by simp_all
  have "open_sealed C key iv aad c = Some p" using assms(1) c unfolding crypto_ok_def by blast
  then show "aes_gcm_decrypt C key iv tag aad ct = Ok p" by (simp add: aes_gcm_decrypt_def ct)
qed

lemma aes_gcm_decrypt_Ok:
  "crypto_ok C \<Longrightarrow> aes_gcm_decrypt C key iv tag aad ct = Ok p \<Longrightarrow> seal C key iv aad p = Some (ct @ tag)"
  unfolding crypto_ok_def aes_gcm_decrypt_def by (auto split: option.splits)

section \<open>SAACPFrame: what was built is what is parsed\<close>

lemma saacp_build_frame_Ok:
  assumes "saacp_build_frame W nonce f payload key = Ok wire"
  obtains pte ct tag where
    "length payload \<le> MAX_PAYLOAD_SIZE"
    "(if and (f_flags f) FLAG_COMPRESSED \<noteq> 0 then compress_zlib (w_zlib W) payload else Ok payload) = Ok pte"
    "aes_gcm_encrypt (w_crypto W) key (saacp_derive_iv (w_sha256 W) nonce (f_session_uuid f) (f_sequence_id f))
       (encode_prefix (f\<lparr>f_payload_length := word_of_nat (length pte), f_nonce := nonce\<rparr>)) pte = Ok (ct, tag)"
    "wire = (let prefix = encode_prefix (f\<lparr>f_payload_length := word_of_nat (length pte), f_nonce := nonce\<rparr>)
             in prefix @ tag @ to_be_bytes 4 (adler32_checksum_multi (w_adler W) [prefix, tag, ct]) @ ct)"
  using assms
  by (auto simp: saacp_build_frame_def Let_def and_then_Ok_iff split: if_splits prod.splits)

lemma unat_payload_length:
  "n \<le> MAX_PAYLOAD_SIZE \<Longrightarrow> unat (word_of_nat n :: u32) = n"
  by (simp add: unat_of_nat MAX_PAYLOAD_SIZE_def)

lemma saacp_authenticate_built:
  assumes C: "crypto_ok (w_crypto W)" and wf: "saacp_wf frame"
    and len: "f_payload_length frame = word_of_nat (length pte)" "length pte \<le> MAX_PAYLOAD_SIZE"
      "length pte \<le> max_total_size pol"
    and fresh: "\<not> contains_scoped (w_sha256 W) tracker (hex_encode (f_session_uuid frame)) (f_nonce frame)"
    and enc: "aes_gcm_encrypt (w_crypto W) key
        (saacp_derive_iv (w_sha256 W) (f_nonce frame) (f_session_uuid frame) (f_sequence_id frame))
        (encode_prefix frame) pte = Ok (ct, tag)"
  shows "saacp_authenticate W
      (encode_prefix frame @ tag @ to_be_bytes 4 (adler32_checksum_multi (w_adler W) [encode_prefix frame, tag, ct]) @ ct)
      key tracker pol = Ok (frame, pte)"
proof -
  note enc_Ok = aes_gcm_encrypt_Ok [OF C enc]
  have n: "unat (f_payload_length frame) = length pte" using len by (simp add: unat_payload_length)
  show ?thesis
    using enc_Ok len(2,3) fresh
    by (simp add: saacp_authenticate_def SAACPFRAME_FIXED_OVERHEAD_def SAACPFRAME_PREFIX_SIZE_def Let_def
        length_encode_prefix [OF wf] decode_encode_prefix [OF wf] n wire constant_time_eq_u32_iff)
qed

lemma track_scoped_contains:
  "snd (track_scoped sha now s n t) = Ok () \<Longrightarrow> \<not> contains_scoped sha t s n"
  unfolding track_scoped_def contains_scoped_def by (rule track_key_Ok_fresh)

lemma saacp_finish_Ok:
  assumes "zlib_ok (w_zlib W)" "length payload \<le> MAX_PAYLOAD_SIZE"
    and "(if and (f_flags frame) FLAG_COMPRESSED \<noteq> 0 then compress_zlib (w_zlib W) payload else Ok payload) = Ok pte"
    and "is_schema_exempt (f_status_code frame) \<or>
         (rgc_check payload (Some pol) = Ok () \<and> validate (f_schema_id frame) payload = Ok ())"
  shows "saacp_finish W validate pol frame pte = Ok (parsed_saacp frame payload)"
  using assms decompress_compress [of "w_zlib W" payload pte]
  by (auto simp: saacp_finish_def MAX_DECOMPRESSED_SIZE_def split: if_splits)

lemma saacp_build_then_parse:
  assumes C: "crypto_ok (w_crypto W)" and Z: "zlib_ok (w_zlib W)" and wf: "saacp_wf f"
    and built: "saacp_build_frame W nonce f payload key = Ok wire"
    and fits: "length wire \<le> SAACPFRAME_FIXED_OVERHEAD + MAX_PAYLOAD_SIZE"
      "length wire \<le> SAACPFRAME_FIXED_OVERHEAD + max_total_size pol"
    and fresh: "track_scoped (w_sha256 W) now (hex_encode (f_session_uuid f)) nonce t = (t', Ok ())"
    and valid: "is_schema_exempt (f_status_code f) \<or>
      (rgc_check payload (Some pol) = Ok () \<and> validate (f_schema_id f) payload = Ok ())"
  shows "saacp_parse_header W validate now wire key t pol =
         (t', Ok (parsed_saacp (f\<lparr>f_nonce := nonce\<rparr>) payload))"
proof -
  from saacp_build_frame_Ok [OF built] obtain pte ct tag where
    pl: "length payload \<le> MAX_PAYLOAD_SIZE" and
    pte: "(if and (f_flags f) FLAG_COMPRESSED \<noteq> 0 then compress_zlib (w_zlib W) payload else Ok payload) = Ok pte" and
    enc: "aes_gcm_encrypt (w_crypto W) key (saacp_derive_iv (w_sha256 W) nonce (f_session_uuid f) (f_sequence_id f))
       (encode_prefix (f\<lparr>f_payload_length := word_of_nat (length pte), f_nonce := nonce\<rparr>)) pte = Ok (ct, tag)" and
    wire: "wire = (let prefix = encode_prefix (f\<lparr>f_payload_length := word_of_nat (length pte), f_nonce := nonce\<rparr>)
             in prefix @ tag @ to_be_bytes 4 (adler32_checksum_multi (w_adler W) [prefix, tag, ct]) @ ct)" .
  define frame where "frame = f\<lparr>f_payload_length := word_of_nat (length pte), f_nonce := nonce\<rparr>"
  have wf': "saacp_wf frame" using wf by (simp add: saacp_wf_def frame_def)
  note enc' = enc [folded frame_def]
  have "length wire = 121 + length pte"
    using aes_gcm_encrypt_Ok(1,2) [OF C enc'] by (simp add: wire Let_def frame_def [symmetric] length_encode_prefix [OF wf'])
  with fits have le: "length pte \<le> MAX_PAYLOAD_SIZE" "length pte \<le> max_total_size pol"
    by (simp_all add: SAACPFRAME_FIXED_OVERHEAD_def)
  have new: "\<not> contains_scoped (w_sha256 W) t (hex_encode (f_session_uuid f)) nonce"
    using fresh by (intro track_scoped_contains [where now = now]) simp
  have "saacp_authenticate W wire key t pol = Ok (frame, pte)"
    unfolding wire Let_def frame_def [symmetric]
    using new enc' by (intro saacp_authenticate_built [OF C wf' _ le]) (simp_all add: frame_def)
  moreover have "saacp_finish W validate pol frame pte = Ok (parsed_saacp frame payload)"
    using valid pte by (intro saacp_finish_Ok [OF Z pl]) (simp_all add: frame_def)
  moreover have "parsed_saacp frame payload = parsed_saacp (f\<lparr>f_nonce := nonce\<rparr>) payload"
    by (simp add: parsed_saacp_def frame_def)
  ultimately show ?thesis using fresh by (simp add: saacp_parse_header_def) (simp add: frame_def)
qed

section \<open>SAACPFrame: replays and forgeries\<close>

lemma saacp_authenticate_Ok:
  assumes "saacp_authenticate W buffer key tracker pol = Ok (frame, p)"
  shows "decode_prefix (take SAACPFRAME_PREFIX_SIZE buffer) = Ok frame"
    "\<not> contains_scoped (w_sha256 W) tracker (hex_encode (f_session_uuid frame)) (f_nonce frame)"
    "aes_gcm_decrypt (w_crypto W) key
       (saacp_derive_iv (w_sha256 W) (f_nonce frame) (f_session_uuid frame) (f_sequence_id frame))
       (slice SAACPFRAME_PREFIX_SIZE (SAACPFRAME_PREFIX_SIZE + 16) buffer) (take SAACPFRAME_PREFIX_SIZE buffer)
       (slice (SAACPFRAME_PREFIX_SIZE + 20) (SAACPFRAME_PREFIX_SIZE + 20 + unat (f_payload_length frame)) buffer) = Ok p"
  using assms by (auto simp: saacp_authenticate_def Let_def and_then_Ok_iff split: if_splits)

lemma saacp_finish_fields:
  "saacp_finish W validate pol frame p = Ok r \<Longrightarrow> \<exists>payload. r = parsed_saacp frame payload"
  by (auto simp: saacp_finish_def and_then_Ok_iff)

lemma saacp_parse_header_tracker:
  "fst (saacp_parse_header W validate now buffer key t pol) = t \<or>
   (\<exists>k. fst (saacp_parse_header W validate now buffer key t pol) = fst (track_key now k t))"
proof (cases "saacp_authenticate W buffer key t pol")
  case (Inl e)
  then show ?thesis by (simp add: saacp_parse_header_def)
next
  case (Inr fp)
  have "fst (saacp_parse_header W validate now buffer key t pol) =
        fst (track_scoped (w_sha256 W) now (hex_encode (f_session_uuid (fst fp))) (f_nonce (fst fp)) t)"
    by (simp add: saacp_parse_header_def Inr split_beta split: sum.split)
  then show ?thesis unfolding track_scoped_def by blast
qed

text \<open>One arrival at a tracker: the time, the buffer, the key and the policy it is parsed with.\<close>

definition saacp_arrive ::
  "('s, 'z) wire_env \<Rightarrow> (u16 \<Rightarrow> bytes \<Rightarrow> unit result) \<Rightarrow> NonceTracker \<Rightarrow> secs \<times> bytes \<times> bytes \<times> RGCPolicy \<Rightarrow> NonceTracker" where
  "saacp_arrive W validate t x =
     (case x of (now, buffer, key, pol) \<Rightarrow> fst (saacp_parse_header W validate now buffer key t pol))"

lemma saacp_arrive_tracker: "saacp_arrive W validate t x = t \<or> (\<exists>k. saacp_arrive W validate t x = fst (track_key (fst x) k t))"
  by (cases x) (simp add: saacp_arrive_def saacp_parse_header_tracker)

lemma saacp_arrive_keeps:
  assumes "tracker_wf t" "map_of (seen_nonces t) k = Some s" "fst x \<le> s + max_age_seconds t"
  shows "tracker_wf (saacp_arrive W validate t x) \<and>
         max_age_seconds (saacp_arrive W validate t x) = max_age_seconds t \<and>
         map_of (seen_nonces (saacp_arrive W validate t x)) k = Some s"
  using saacp_arrive_tracker [of W validate t x] assms
  by (auto simp: tracker_wf_track_key track_key_keeps)

lemma saacp_arrivals_keep:
  "tracker_wf t \<Longrightarrow> map_of (seen_nonces t) k = Some s \<Longrightarrow> \<forall>x \<in> set xs. fst x \<le> s + max_age_seconds t \<Longrightarrow>
   map_of (seen_nonces (foldl (saacp_arrive W validate) t xs)) k = Some s"
proof (induction xs arbitrary: t)
  case Nil
  then show ?case by simp
next
  case (Cons x xs)
  from saacp_arrive_keeps [of t k s x W validate] Cons.prems
  show ?case using Cons.IH [of "saacp_arrive W validate t x"] by simp
qed

lemma saacp_parse_header_Ok:
  assumes "saacp_parse_header W validate now buffer key t pol = (t1, Ok p)"
  shows "t1 = fst (track_key now (composite_key (w_sha256 W) (hex_encode (p_session_uuid p)) (p_nonce p)) t)"
    "snd (track_key now (composite_key (w_sha256 W) (hex_encode (p_session_uuid p)) (p_nonce p)) t) = Ok ()"
  using assms
  by (auto simp: saacp_parse_header_def track_scoped_def parsed_saacp_def
      dest!: saacp_finish_fields split: sum.splits prod.splits)

lemma saacp_parse_header_prefix:
  assumes "saacp_parse_header W validate now buffer key t pol = (t1, Ok p)"
  shows "\<exists>frame. decode_prefix (take SAACPFRAME_PREFIX_SIZE buffer) = Ok frame \<and>
    f_session_uuid frame = p_session_uuid p \<and> f_nonce frame = p_nonce p"
  using assms
  by (auto simp: saacp_parse_header_def parsed_saacp_def
      dest!: saacp_finish_fields dest: saacp_authenticate_Ok(1) split: sum.splits prod.splits)

lemma saacp_seen_refused:
  assumes "decode_prefix (take SAACPFRAME_PREFIX_SIZE buffer) = Ok frame"
    and "contains_scoped (w_sha256 W) t (hex_encode (f_session_uuid frame)) (f_nonce frame)"
  shows "\<exists>e. saacp_parse_header W validate now buffer key t pol = (t, Err e)"
proof (cases "saacp_authenticate W buffer key t pol")
  case (Inl e)
  then show ?thesis by (simp add: saacp_parse_header_def)
next
  case (Inr fp)
  then show ?thesis using saacp_authenticate_Ok [of W buffer key t pol "fst fp" "snd fp"] assms by simp
qed

section \<open>MEASCFrame: what was built is what is parsed\<close>

lemma decode_measc_header_append:
  "header_wf h \<Longrightarrow> decode_measc_header (encode_measc_header h @ rest) = h"
  by (simp add: decode_measc_header_def encode_measc_header_def header_wf_def wire nth_append nth_Cons')

lemma measc_decode_encode: "header_wf h \<Longrightarrow> measc_decode (measc_encode h @ rest) = Ok h"
  by (simp add: measc_encode_eq measc_decode_eq length_encode_measc_header take_encode_measc_header
      decode_measc_header_append)

lemma measc_authenticate_built:
  assumes C: "crypto_ok (w_crypto W)" and wf: "header_wf h"
    and built: "encode_encrypted W h payload key = Ok packet"
    and fresh: "\<And>t. tracker = Some t \<Longrightarrow> \<not> contains_scoped (w_sha256 W) t (hex_encode (h_session_id h)) (h_psn h)"
  shows "measc_authenticate W packet key tracker =
         Ok (h\<lparr>h_payload_length := word_of_nat (length payload)\<rparr>, payload)"
proof -
  define hdr where "hdr = h\<lparr>h_payload_length := word_of_nat (length payload)\<rparr>"
  define ki where "ki = derive_frame_key_iv (w_crypto W) key (h_session_id h) (h_epoch_id h) (h_psn h)"
  have le: "length payload \<le> MAX_PAYLOAD_SIZE" using built by (simp add: encode_encrypted_def split: if_splits)
  with built obtain ct tag where
    enc: "aes_gcm_encrypt (w_crypto W) (fst ki) (snd ki) (measc_encode hdr) payload = Ok (ct, tag)" and
    packet: "packet = measc_encode hdr @ tag @ ct"
    by (auto simp: encode_encrypted_def Let_def ki_def hdr_def and_then_Ok_iff split_beta)
  have wf': "header_wf hdr" using wf by (simp add: header_wf_def hdr_def)
  have n: "unat (h_payload_length hdr) = length payload" using le by (simp add: hdr_def unat_payload_length)
  have len: "length (measc_encode hdr) = 128" using wf' by (simp add: measc_encode_eq length_encode_measc_header)
  have same: "h_session_id hdr = h_session_id h" "h_epoch_id hdr = h_epoch_id h" "h_psn hdr = h_psn h"
    by (simp_all add: hdr_def)
  show ?thesis
    unfolding hdr_def [symmetric] packet
    using aes_gcm_encrypt_Ok [OF C enc] le fresh
    by (auto simp: measc_authenticate_def measc_decode_encode [OF wf'] n same measc_sizes len Let_def
        ki_def [symmetric] split_beta wire split: option.split)
qed

section \<open>A concrete exchange\<close>

lemma demo_wire_simps [simp]:
  "w_crypto demo_wire = toy_crypto" "w_zlib demo_wire = stored_zlib"
  by (simp_all add: demo_wire_def)

lemma demo_saacp_wf: "saacp_wf (demo_saacp\<lparr>f_payload_length := n, f_nonce := k\<rparr>)" "saacp_wf demo_saacp"
  by (simp_all add: saacp_wf_def demo_saacp_def)

lemma demo_saacp_built:
  "saacp_build_frame demo_wire 77 demo_saacp [1, 2, 3] (replicate 32 2) = Ok demo_saacp_wire"
  "length demo_saacp_wire = 125"
proof -
  have "\<exists>w. saacp_build_frame demo_wire 77 demo_saacp [1, 2, 3] (replicate 32 2) = Ok w \<and> length w = 125"
    using length_encode_prefix [OF demo_saacp_wf(1)]
    by (simp add: saacp_build_frame_def MAX_PAYLOAD_SIZE_def compress_zlib_def stored_zlib_def
        aes_gcm_encrypt_def toy_crypto_def Let_def demo_saacp_def FLAG_COMPRESSED_def)
  then show "saacp_build_frame demo_wire 77 demo_saacp [1, 2, 3] (replicate 32 2) = Ok demo_saacp_wire"
    "length demo_saacp_wire = 125"
    by (auto simp: demo_saacp_wire_def)
qed

lemma demo_tracked:
  "track_scoped (w_sha256 demo_wire) 10 (hex_encode (replicate 16 3)) 77 (with_limits 300 5) = (demo_tracker, Ok ())"
  by (simp add: demo_tracker_def track_scoped_def track_key_def with_limits_def NONCE_PRUNE_INTERVAL_def)

lemma demo_parsed:
  "saacp_parse_header demo_wire (\<lambda>_ _. Ok ()) 10 demo_saacp_wire (replicate 32 2) (with_limits 300 5) small_rgc_policy =
   (demo_tracker, Ok (parsed_saacp (demo_saacp\<lparr>f_nonce := 77\<rparr>) [1, 2, 3]))"
proof (rule saacp_build_then_parse [OF _ _ _ demo_saacp_built(1)])
  show "track_scoped (w_sha256 demo_wire) 10 (hex_encode (f_session_uuid demo_saacp)) 77 (with_limits 300 5) =
        (demo_tracker, Ok ())"
    using demo_tracked by (simp add: demo_saacp_def)
qed (simp_all add: toy_crypto_ok stored_zlib_ok demo_saacp_built(2) SAACPFRAME_FIXED_OVERHEAD_def
       MAX_PAYLOAD_SIZE_def small_rgc_policy_def is_schema_exempt_def saacp_wf_def demo_saacp_def)

section \<open>Properties\<close>

text \<open>C27. Round trip of the application frame. A frame built from well-formed fields and a payload is
  parsed back to these fields and this payload by a receiver with the same key, compressed or not,
  provided the sealed bytes fit the two length limits, the nonce is new to the tracker and the payload
  passes governance and schema (or the status code exempts it).\<close>

theorem saacp_frame_roundtrip:
  assumes C: "crypto_ok (w_crypto W)" and Z: "zlib_ok (w_zlib W)" and wf: "saacp_wf f"
    and built: "saacp_build_frame W nonce f payload key = Ok wire"
    and fits: "length wire \<le> SAACPFRAME_FIXED_OVERHEAD + MAX_PAYLOAD_SIZE"
      "length wire \<le> SAACPFRAME_FIXED_OVERHEAD + max_total_size pol"
    and fresh: "track_scoped (w_sha256 W) now (hex_encode (f_session_uuid f)) nonce t = (t', Ok ())"
    and valid: "is_schema_exempt (f_status_code f) \<or>
      (rgc_check payload (Some pol) = Ok () \<and> validate (f_schema_id f) payload = Ok ())"
  shows "saacp_parse_header W validate now wire key t pol =
         (t', Ok (parsed_saacp (f\<lparr>f_nonce := nonce\<rparr>) payload))"
  using assms by (rule saacp_build_then_parse)

theorem saacp_frame_roundtrip_witness:
  "saacp_parse_header demo_wire (\<lambda>_ _. Ok ()) 10 demo_saacp_wire (replicate 32 2) (with_limits 300 5) small_rgc_policy =
   (demo_tracker, Ok (parsed_saacp (demo_saacp\<lparr>f_nonce := 77\<rparr>) [1, 2, 3]))"
proof (rule saacp_frame_roundtrip)
  show "saacp_build_frame demo_wire 77 demo_saacp [1, 2, 3] (replicate 32 2) = Ok demo_saacp_wire"
    by (rule demo_saacp_built(1))
  show "track_scoped (w_sha256 demo_wire) 10 (hex_encode (f_session_uuid demo_saacp)) 77 (with_limits 300 5) =
        (demo_tracker, Ok ())"
    using demo_tracked by (simp add: demo_saacp_def)
qed (simp_all add: toy_crypto_ok stored_zlib_ok demo_saacp_wf demo_saacp_built(2) SAACPFRAME_FIXED_OVERHEAD_def
       MAX_PAYLOAD_SIZE_def small_rgc_policy_def is_schema_exempt_def saacp_wf_def demo_saacp_def)

text \<open>C28. Replay of application frames. After a frame has been accepted, and whatever buffers arrive
  during the following \<open>max_age_seconds\<close>, every buffer whose prefix names the same session and nonce is
  refused and leaves the tracker as it is.\<close>

theorem saacp_replay_refused:
  assumes "tracker_wf t" "0 \<le> max_age_seconds t"
    and "saacp_parse_header W validate now buffer key t pol = (t1, Ok p)"
    and "\<forall>x \<in> set xs. fst x \<le> now + max_age_seconds t"
    and "decode_prefix (take SAACPFRAME_PREFIX_SIZE buffer') = Ok frame"
      "f_session_uuid frame = p_session_uuid p" "f_nonce frame = p_nonce p"
  shows "\<exists>e. saacp_parse_header W validate now' buffer' key' (foldl (saacp_arrive W validate) t1 xs) pol' =
             (foldl (saacp_arrive W validate) t1 xs, Err e)"
proof (rule saacp_seen_refused [OF assms(5)])
  define k where "k = composite_key (w_sha256 W) (hex_encode (p_session_uuid p)) (p_nonce p)"
  note t1 = saacp_parse_header_Ok [OF assms(3), folded k_def]
  have "map_of (seen_nonces t1) k = Some now"
    unfolding t1(1) using assms(1,2) track_key_Ok_fresh [OF t1(2)] by (simp add: track_key_records)
  then have "map_of (seen_nonces (foldl (saacp_arrive W validate) t1 xs)) k = Some now"
    using assms(1,4) by (intro saacp_arrivals_keep) (auto simp: t1(1) tracker_wf_track_key)
  then show "contains_scoped (w_sha256 W) (foldl (saacp_arrive W validate) t1 xs)
      (hex_encode (f_session_uuid frame)) (f_nonce frame)"
    by (simp add: contains_scoped_def contains_def assms(6,7) k_def)
qed

theorem saacp_replay_refused_witness:
  "\<exists>e. saacp_parse_header demo_wire (\<lambda>_ _. Ok ()) 250 demo_saacp_wire (replicate 32 2)
         (foldl (saacp_arrive demo_wire (\<lambda>_ _. Ok ())) demo_tracker [(20, [1], [], small_rgc_policy)]) small_rgc_policy =
       (foldl (saacp_arrive demo_wire (\<lambda>_ _. Ok ())) demo_tracker [(20, [1], [], small_rgc_policy)], Err e)"
proof -
  from saacp_parse_header_prefix [OF demo_parsed] obtain frame where
    "decode_prefix (take SAACPFRAME_PREFIX_SIZE demo_saacp_wire) = Ok frame"
    "f_session_uuid frame = p_session_uuid (parsed_saacp (demo_saacp\<lparr>f_nonce := 77\<rparr>) [1, 2, 3])"
    "f_nonce frame = p_nonce (parsed_saacp (demo_saacp\<lparr>f_nonce := 77\<rparr>) [1, 2, 3])" by blast
  then show ?thesis
    by (intro saacp_replay_refused [OF _ _ demo_parsed]) (simp_all add: tracker_wf_init, simp_all add: with_limits_def)
qed

text \<open>Only authenticated frames consume tracker capacity: if parsing a buffer changes the tracker, the
  buffer is a prefix and a sealing of some bytes under the receiver's key with that prefix as associated
  data.\<close>

lemma saacp_only_authentic_tracked:
  assumes "crypto_ok (w_crypto W)"
    and "fst (saacp_parse_header W validate now buffer key t pol) \<noteq> t"
  shows "\<exists>frame p. decode_prefix (take SAACPFRAME_PREFIX_SIZE buffer) = Ok frame \<and>
     seal (w_crypto W) key
       (saacp_derive_iv (w_sha256 W) (f_nonce frame) (f_session_uuid frame) (f_sequence_id frame))
       (take SAACPFRAME_PREFIX_SIZE buffer) p =
     Some (slice (SAACPFRAME_PREFIX_SIZE + 20) (SAACPFRAME_PREFIX_SIZE + 20 + unat (f_payload_length frame)) buffer @
           slice SAACPFRAME_PREFIX_SIZE (SAACPFRAME_PREFIX_SIZE + 16) buffer)"
proof (cases "saacp_authenticate W buffer key t pol")
  case (Inl e)
  with assms(2) show ?thesis by (simp add: saacp_parse_header_def)
next
  case (Inr fp)
  obtain frame p where fp: "fp = (frame, p)" by (cases fp)
  note ok = saacp_authenticate_Ok [OF Inr [unfolded fp]]
  from ok(1) aes_gcm_decrypt_Ok [OF assms(1) ok(3)] show ?thesis by blast
qed

text \<open>The two header codecs of the code base agree: \<open>framing::MEASCFrame\<close> writes the bytes that
  \<open>measc::MEASCFrame\<close> writes, and reads back the header from a buffer that starts with them.\<close>

lemma measc_codecs_agree:
  assumes "header_wf h"
  shows "measc_encode h = encode_measc_header h \<and> measc_decode (measc_encode h @ rest) = Ok h"
  using assms by (simp add: measc_encode_eq [symmetric] measc_decode_encode)

text \<open>Round trip of the transport frame of \<open>framing.rs\<close>: a packet encrypted under a header is parsed
  back to the header fields and the payload, with the replay check when the (session, PSN) pair is new,
  and without it always.\<close>

lemma framing_measc_roundtrip:
  assumes "crypto_ok (w_crypto W)" "header_wf h"
    and "encode_encrypted W h payload key = Ok packet"
    and "track_scoped (w_sha256 W) now (hex_encode (h_session_id h)) (h_psn h) t = (t', Ok ())"
  shows "parse_header_with_replay W now packet key t = (t', Ok (parsed_measc h payload)) \<and>
         measc_parse_header W now packet key = Ok (parsed_measc h payload)"
proof -
  have new: "\<not> contains_scoped (w_sha256 W) t (hex_encode (h_session_id h)) (h_psn h)"
    using assms(4) by (intro track_scoped_contains [where now = now]) simp
  have same: "parsed_measc (h\<lparr>h_payload_length := n\<rparr>) payload = parsed_measc h payload" for n
    by (simp add: parsed_measc_def)
  have "measc_authenticate W packet key (Some t) = Ok (h\<lparr>h_payload_length := word_of_nat (length payload)\<rparr>, payload)"
    "measc_authenticate W packet key None = Ok (h\<lparr>h_payload_length := word_of_nat (length payload)\<rparr>, payload)"
    using new by (auto intro: measc_authenticate_built [OF assms(1-3)])
  with assms(4) show ?thesis
    by (simp add: parse_header_with_replay_def measc_parse_header_def parse_header_inner_def same)
qed

end
