(* ===== verification/State_Backend.thy ===== *)
theory State_Backend
  imports Errors
begin

text \<open>
  The key-value store behind the fleet-wide state, \<open>src/state_backend.rs\<close>: the trait \<open>StateBackend\<close> is
  a record of operations on a state, and \<open>InMemoryBackend\<close> is the instance with a capped, insertion
  ordered map. The clock reading \<open>Instant::now()\<close> is an argument. An \<open>i64\<close> counter is an integer
  with the saturation written out, stored as its decimal text. A \<open>BackendResult\<close> is an option; the
  in-memory operations never fail. The Redis instance talks to a server and is not modelled.

  The locale \<open>counter_backend\<close> is what a client of the trait relies on: an abstract view of the live
  counters, and how \<open>incr_with_ttl\<close> and \<open>set\<close> change it as long as the keys in use fit the capacity.
\<close>

section \<open>Decimal text of counters\<close>

fun dec_nat :: "nat \<Rightarrow> bytes" where
  "dec_nat n = (if n < 10 then [word_of_nat (48 + n)] else dec_nat (n div 10) @ [word_of_nat (48 + n mod 10)])"

declare dec_nat.simps [simp del]

definition dec_int :: "int \<Rightarrow> bytes" where
  "dec_int i = (if i < 0 then 45 # dec_nat (nat (- i)) else dec_nat (nat i))"

definition parse_digits :: "bytes \<Rightarrow> nat option" where
  "parse_digits ds =
     (if ds \<noteq> [] \<and> list_all (\<lambda>d. 48 \<le> d \<and> d \<le> 57) ds
      then Some (foldl (\<lambda>acc d. acc * 10 + (unat d - 48)) 0 ds) else None)"

definition in_i64 :: "int \<Rightarrow> bool" where
  "in_i64 i \<longleftrightarrow> - (2 ^ 63) \<le> i \<and> i < 2 ^ 63"

definition parse_i64 :: "bytes \<Rightarrow> int option" where
  "parse_i64 bs =
     (let r = (case bs of
                 b # ds \<Rightarrow> if b = 45 then map_option (\<lambda>n. - int n) (parse_digits ds)
                           else if b = 43 then map_option int (parse_digits ds)
                           else map_option int (parse_digits bs)
               | [] \<Rightarrow> None)
      in case r of Some i \<Rightarrow> if in_i64 i then Some i else None | None \<Rightarrow> None)"

definition i64_saturating_add :: "int \<Rightarrow> int \<Rightarrow> int" where
  "i64_saturating_add a b = max (- (2 ^ 63)) (min (2 ^ 63 - 1) (a + b))"

section \<open>The trait\<close>

record 'b StateBackend =
  sb_get :: "secs \<Rightarrow> string \<Rightarrow> 'b \<Rightarrow> 'b \<times> bytes option option"
  sb_set :: "secs \<Rightarrow> string \<Rightarrow> bytes \<Rightarrow> secs option \<Rightarrow> 'b \<Rightarrow> 'b \<times> unit option"
  sb_delete :: "secs \<Rightarrow> string \<Rightarrow> 'b \<Rightarrow> 'b \<times> bool option"
  sb_incr :: "secs \<Rightarrow> string \<Rightarrow> int \<Rightarrow> 'b \<Rightarrow> 'b \<times> int option"
  sb_scan_prefix :: "secs \<Rightarrow> string \<Rightarrow> 'b \<Rightarrow> 'b \<times> string list option"
  sb_incr_with_ttl :: "secs \<Rightarrow> string \<Rightarrow> int \<Rightarrow> secs \<Rightarrow> 'b \<Rightarrow> 'b \<times> int option"
  sb_compare_and_swap :: "secs \<Rightarrow> string \<Rightarrow> bytes option \<Rightarrow> bytes \<Rightarrow> secs option \<Rightarrow> 'b \<Rightarrow> 'b \<times> bool option"

section \<open>InMemoryBackend\<close>

record Entry =
  e_value :: bytes
  expires_at :: "secs option"

definition is_expired :: "secs \<Rightarrow> Entry \<Rightarrow> bool" where
  "is_expired now e \<longleftrightarrow> (case expires_at e of Some t \<Rightarrow> t \<le> now | None \<Rightarrow> False)"

definition BACKEND_MAX_ENTRIES :: nat where "BACKEND_MAX_ENTRIES = 100000"

record InMemoryBackend =
  store :: "(string, Entry) hmap"
  order :: "string list"
  be_max_entries :: nat

definition with_max_entries :: "nat \<Rightarrow> InMemoryBackend" where
  "with_max_entries n = \<lparr>store = [], order = [], be_max_entries = n\<rparr>"

definition new_memory_backend :: InMemoryBackend where
  "new_memory_backend = with_max_entries BACKEND_MAX_ENTRIES"

text \<open>The loop of \<open>evict_over_cap\<close>: pop the queue until the map fits or the queue is empty.\<close>

fun evict_loop :: "nat \<Rightarrow> (string, Entry) hmap \<Rightarrow> string list \<Rightarrow> (string, Entry) hmap \<times> string list" where
  "evict_loop cap st [] = (st, [])"
| "evict_loop cap st (k # ks) =
     (if cap < length st then evict_loop cap (AList.delete k st) ks else (st, k # ks))"

definition compact :: "InMemoryBackend \<Rightarrow> InMemoryBackend" where
  "compact b =
     (if be_max_entries b * 2 < length (order b)
      then b\<lparr>order := filter (contains_key (store b)) (order b)\<rparr> else b)"

definition evict_over_cap :: "InMemoryBackend \<Rightarrow> InMemoryBackend" where
  "evict_over_cap b =
     (let (st, ks) = evict_loop (be_max_entries b) (store b) (order b)
      in compact (b\<lparr>store := st, order := ks\<rparr>))"

definition track_new_key :: "string \<Rightarrow> InMemoryBackend \<Rightarrow> InMemoryBackend" where
  "track_new_key key b =
     (let b1 = compact (b\<lparr>order := order b @ [key]\<rparr>)
      in if be_max_entries b1 < length (store b1) then evict_over_cap b1 else b1)"

definition put_entry :: "string \<Rightarrow> Entry \<Rightarrow> InMemoryBackend \<Rightarrow> InMemoryBackend" where
  "put_entry key e b =
     (let b1 = b\<lparr>store := AList.update key e (store b)\<rparr>
      in if contains_key (store b) key then b1 else track_new_key key b1)"

definition mem_get :: "secs \<Rightarrow> string \<Rightarrow> InMemoryBackend \<Rightarrow> InMemoryBackend \<times> bytes option option" where
  "mem_get now key b =
     (case map_of (store b) key of
        None \<Rightarrow> (b, Some None)
      | Some e \<Rightarrow> if is_expired now e then (b\<lparr>store := AList.delete key (store b)\<rparr>, Some None)
                  else (b, Some (Some (e_value e))))"

definition mem_set :: "secs \<Rightarrow> string \<Rightarrow> bytes \<Rightarrow> secs option \<Rightarrow> InMemoryBackend \<Rightarrow> InMemoryBackend \<times> unit option" where
  "mem_set now key value ttl b =
     (put_entry key \<lparr>e_value = value, expires_at = map_option (\<lambda>d. now + d) ttl\<rparr> b, Some ())"

definition mem_delete :: "secs \<Rightarrow> string \<Rightarrow> InMemoryBackend \<Rightarrow> InMemoryBackend \<times> bool option" where
  "mem_delete now key b = (b\<lparr>store := AList.delete key (store b)\<rparr>, Some (contains_key (store b) key))"

definition counter_value :: "Entry \<Rightarrow> int" where
  "counter_value e = (case parse_i64 (e_value e) of Some i \<Rightarrow> i | None \<Rightarrow> 0)"

definition mem_incr :: "secs \<Rightarrow> string \<Rightarrow> int \<Rightarrow> InMemoryBackend \<Rightarrow> InMemoryBackend \<times> int option" where
  "mem_incr now key by_n b =
     (let (current, existing_ttl) =
            (case map_of (store b) key of
               Some e \<Rightarrow> if \<not> is_expired now e then (counter_value e, expires_at e) else (0, None)
             | None \<Rightarrow> (0, None));
          next_n = i64_saturating_add current by_n
      in (put_entry key \<lparr>e_value = dec_int next_n, expires_at = existing_ttl\<rparr> b, Some next_n))"

definition starts_with_str :: "string \<Rightarrow> string \<Rightarrow> bool" where
  "starts_with_str prefix k \<longleftrightarrow> take (length prefix) k = prefix"

definition mem_scan_prefix :: "secs \<Rightarrow> string \<Rightarrow> InMemoryBackend \<Rightarrow> InMemoryBackend \<times> string list option" where
  "mem_scan_prefix now prefix b =
     (let st = retain (\<lambda>_ e. \<not> is_expired now e) (store b)
      in (b\<lparr>store := st\<rparr>, Some (filter (starts_with_str prefix) (map fst st))))"

definition mem_incr_with_ttl :: "secs \<Rightarrow> string \<Rightarrow> int \<Rightarrow> secs \<Rightarrow> InMemoryBackend \<Rightarrow> InMemoryBackend \<times> int option" where
  "mem_incr_with_ttl now key by_n ttl b =
     (case map_of (store b) key of
        Some e \<Rightarrow>
          if \<not> is_expired now e then
            (let next_n = i64_saturating_add (counter_value e) by_n;
                 e1 = e\<lparr>e_value := dec_int next_n\<rparr>;
                 e2 = (case expires_at e1 of None \<Rightarrow> e1\<lparr>expires_at := Some (now + ttl)\<rparr> | Some _ \<Rightarrow> e1)
             in (b\<lparr>store := AList.update key e2 (store b)\<rparr>, Some next_n))
          else (put_entry key \<lparr>e_value = dec_int by_n, expires_at = Some (now + ttl)\<rparr> b, Some by_n)
      | None \<Rightarrow> (put_entry key \<lparr>e_value = dec_int by_n, expires_at = Some (now + ttl)\<rparr> b, Some by_n))"

definition mem_compare_and_swap ::
  "secs \<Rightarrow> string \<Rightarrow> bytes option \<Rightarrow> bytes \<Rightarrow> secs option \<Rightarrow> InMemoryBackend \<Rightarrow> InMemoryBackend \<times> bool option" where
  "mem_compare_and_swap now key expected new_value ttl b =
     (let current = (case map_of (store b) key of
                       Some e \<Rightarrow> if \<not> is_expired now e then Some (e_value e) else None
                     | None \<Rightarrow> None)
      in if current \<noteq> expected then (b, Some False)
         else (b\<lparr>store := AList.update key \<lparr>e_value = new_value, expires_at = map_option (\<lambda>d. now + d) ttl\<rparr> (store b)\<rparr>,
               Some True))"

definition in_memory :: "InMemoryBackend StateBackend" where
  "in_memory =
     \<lparr>sb_get = mem_get, sb_set = mem_set, sb_delete = mem_delete, sb_incr = mem_incr,
      sb_scan_prefix = mem_scan_prefix, sb_incr_with_ttl = mem_incr_with_ttl,
      sb_compare_and_swap = mem_compare_and_swap\<rparr>"

section \<open>Decimal round trip\<close>

lemma digit_word: "n < 10 \<Longrightarrow> unat (word_of_nat (48 + n) :: u8) = 48 + n"
  by (simp add: unat_of_nat del: of_nat_add)

lemma digit_range: "n < 10 \<Longrightarrow> 48 \<le> (word_of_nat (48 + n) :: u8) \<and> (word_of_nat (48 + n) :: u8) \<le> 57"
  using digit_word [of n] by (simp add: word_le_nat_alt del: of_nat_add)

lemma dec_nat_nonempty: "dec_nat n \<noteq> []"
  by (subst dec_nat.simps) simp

lemma parse_digits_snoc:
  "parse_digits ds = Some m \<Longrightarrow> d < 10 \<Longrightarrow> parse_digits (ds @ [word_of_nat (48 + d)]) = Some (m * 10 + d)"
  by (simp add: parse_digits_def digit_range digit_word split: if_splits del: of_nat_add)

lemma parse_digits_dec: "parse_digits (dec_nat n) = Some n"
proof (induction n rule: dec_nat.induct)
  case (1 n)
  show ?case
  proof (cases "n < 10")
    case True
    then show ?thesis by (subst dec_nat.simps) (simp add: parse_digits_def digit_range digit_word del: of_nat_add)
  next
    case False
    then show ?thesis
      using parse_digits_snoc [OF "1.IH", of "n mod 10"] by (subst dec_nat.simps) (simp del: of_nat_add)
  qed
qed

lemma dec_nat_digit: "d \<in> set (dec_nat n) \<Longrightarrow> 48 \<le> d"
  using parse_digits_dec [of n] by (auto simp: parse_digits_def list_all_iff split: if_splits)

lemma parse_dec_int: "in_i64 i \<Longrightarrow> parse_i64 (dec_int i) = Some i"
proof (cases "i < 0")
  case True
  assume "in_i64 i"
  with True show ?thesis by (simp add: parse_i64_def dec_int_def parse_digits_dec)
next
  case False
  assume "in_i64 i"
  obtain d ds where d: "dec_nat (nat i) = d # ds" using dec_nat_nonempty [of "nat i"] by (cases "dec_nat (nat i)") auto
  then have "48 \<le> d" using dec_nat_digit [of d "nat i"] by simp
  then have "d \<noteq> 45" "d \<noteq> 43" by auto
  with False \<open>in_i64 i\<close> d parse_digits_dec [of "nat i"] show ?thesis
    by (simp add: parse_i64_def dec_int_def)
qed

section \<open>Capacity\<close>

text \<open>The queue knows every key of the map.\<close>

definition backend_inv :: "InMemoryBackend \<Rightarrow> bool" where
  "backend_inv b \<longleftrightarrow> hm_wf (store b) \<and> keys (store b) \<subseteq> set (order b) \<and> length (store b) \<le> be_max_entries b"

datatype backend_op =
    OpGet string
  | OpSet string bytes "secs option"
  | OpDelete string
  | OpIncr string int
  | OpScan string
  | OpIncrTtl string int secs

fun backend_apply :: "InMemoryBackend \<Rightarrow> secs \<times> backend_op \<Rightarrow> InMemoryBackend" where
  "backend_apply b (now, OpGet k) = fst (mem_get now k b)"
| "backend_apply b (now, OpSet k v ttl) = fst (mem_set now k v ttl b)"
| "backend_apply b (now, OpDelete k) = fst (mem_delete now k b)"
| "backend_apply b (now, OpIncr k n) = fst (mem_incr now k n b)"
| "backend_apply b (now, OpScan p) = fst (mem_scan_prefix now p b)"
| "backend_apply b (now, OpIncrTtl k n ttl) = fst (mem_incr_with_ttl now k n ttl b)"

lemma evict_loop_props:
  assumes "hm_wf st" "keys st \<subseteq> set ks"
  shows "hm_wf (fst (evict_loop cap st ks)) \<and> keys (fst (evict_loop cap st ks)) \<subseteq> set (snd (evict_loop cap st ks)) \<and>
         length (fst (evict_loop cap st ks)) \<le> cap"
  using assms
proof (induction cap st ks rule: evict_loop.induct)
  case (1 cap st)
  then show ?case by (cases st) (auto simp: keys_def)
next
  case (2 cap st k ks)
  show ?case
  proof (cases "cap < length st")
    case True
    have "keys (AList.delete k st) \<subseteq> set ks" using "2.prems" by auto
    with 2 True show ?thesis by simp
  next
    case False
    with "2.prems" show ?thesis by simp
  qed
qed

lemma compact_simps [simp]:
  "store (compact b) = store b" "be_max_entries (compact b) = be_max_entries b"
  by (simp_all add: compact_def)

lemma order_compact: "keys (store b) \<subseteq> set (order b) \<Longrightarrow> keys (store b) \<subseteq> set (order (compact b))"
  by (auto simp: compact_def keys_dom)

lemma track_new_key_inv:
  assumes "hm_wf (store b)" "keys (store b) \<subseteq> insert key (set (order b))"
  shows "backend_inv (track_new_key key b)"
proof -
  define b1 where "b1 = compact (b\<lparr>order := order b @ [key]\<rparr>)"
  have b1: "hm_wf (store b1)" "keys (store b1) \<subseteq> set (order b1)"
    using assms order_compact [of "b\<lparr>order := order b @ [key]\<rparr>"] by (simp_all add: b1_def)
  show ?thesis
  proof (cases "be_max_entries b1 < length (store b1)")
    case True
    obtain st ks where e: "evict_loop (be_max_entries b1) (store b1) (order b1) = (st, ks)" by fastforce
    with evict_loop_props [OF b1, of "be_max_entries b1"] order_compact [of "b1\<lparr>store := st, order := ks\<rparr>"] True
    show ?thesis
      by (simp add: track_new_key_def Let_def b1_def [symmetric] evict_over_cap_def backend_inv_def)
  next
    case False
    with b1 show ?thesis by (simp add: track_new_key_def Let_def b1_def [symmetric] backend_inv_def)
  qed
qed

lemma put_entry_inv: "backend_inv b \<Longrightarrow> backend_inv (put_entry key e b)"
proof (cases "contains_key (store b) key")
  case True
  assume "backend_inv b"
  with True show ?thesis
    by (auto simp: put_entry_def backend_inv_def length_update keys_dom)
next
  case False
  assume "backend_inv b"
  then have "backend_inv (track_new_key key (b\<lparr>store := AList.update key e (store b)\<rparr>))"
    by (intro track_new_key_inv) (auto simp: backend_inv_def)
  with False show ?thesis by (simp add: put_entry_def)
qed

lemma backend_inv_shrink:
  "backend_inv b \<Longrightarrow> hm_wf st \<Longrightarrow> keys st \<subseteq> keys (store b) \<Longrightarrow> length st \<le> length (store b) \<Longrightarrow> backend_inv (b\<lparr>store := st\<rparr>)"
  by (auto simp: backend_inv_def)

lemma length_delete_le: "length (AList.delete k m) \<le> length m"
  by (simp add: AList.delete_eq)

lemma backend_inv_update: "backend_inv b \<Longrightarrow> contains_key (store b) k \<Longrightarrow> backend_inv (b\<lparr>store := AList.update k e (store b)\<rparr>)"
  by (auto simp: backend_inv_def length_update keys_dom)

lemma backend_apply_inv: "backend_inv b \<Longrightarrow> backend_inv (backend_apply b x)"
proof (induction b x rule: backend_apply.induct)
  case (1 b now k)
  then show ?case
    by (auto simp: mem_get_def backend_inv_def length_delete_le intro: order_trans [OF length_delete_le] split: option.split)
next
  case (5 b now p)
  then show ?case
    by (auto simp: mem_scan_prefix_def Let_def backend_inv_def intro: order_trans [OF length_retain_le]
        dest: subsetD [OF keys_retain_subset])
qed (auto simp: mem_set_def mem_delete_def mem_incr_def mem_incr_with_ttl_def Let_def put_entry_inv split_beta
      backend_inv_update length_delete_le intro!: backend_inv_shrink split: option.split,
     auto simp: backend_inv_def)

lemma put_entry_cap [simp]: "be_max_entries (put_entry k e b) = be_max_entries b"
  by (simp add: put_entry_def track_new_key_def evict_over_cap_def Let_def split_beta)

lemma backend_apply_cap: "be_max_entries (backend_apply b x) = be_max_entries b"
  by (induction b x rule: backend_apply.induct)
    (simp_all add: mem_get_def mem_set_def mem_delete_def mem_incr_def mem_scan_prefix_def mem_incr_with_ttl_def
      Let_def split_beta split: option.split)

text \<open>What the capacity does not cover. A key created by \<open>compare_and_swap\<close> enters neither the queue nor
  the count, and the queue keeps the old entry of a key that was deleted and set again, so the newer
  entry is evicted in place of the oldest.\<close>

lemma cas_ignores_capacity:
  "length (store (foldl (\<lambda>b k. fst (mem_compare_and_swap now k None v ttl b)) (with_max_entries cap) ks)) =
   card (set ks)" if "distinct ks"
proof -
  have "length (store (foldl (\<lambda>b k. fst (mem_compare_and_swap now k None v ttl b)) b ks)) = length (store b) + length ks"
    if "hm_wf (store b)" "keys (store b) \<inter> set ks = {}" for b
    using that \<open>distinct ks\<close>
  proof (induction ks arbitrary: b)
    case Nil
    then show ?case by simp
  next
    case (Cons k ks)
    have k: "map_of (store b) k = None" using Cons.prems(2) by (auto simp: keys_dom domIff)
    define b1 where "b1 = fst (mem_compare_and_swap now k None v ttl b)"
    have st: "store b1 = AList.update k \<lparr>e_value = v, expires_at = map_option (\<lambda>d. now + d) ttl\<rparr> (store b)"
      using k by (simp add: b1_def mem_compare_and_swap_def)
    have "hm_wf (store b1)" "keys (store b1) \<inter> set ks = {}" using Cons.prems by (auto simp: st)
    moreover have "length (store b1) = Suc (length (store b))"
      using Cons.prems(1) k by (simp add: st length_update keys_dom domIff)
    ultimately show ?case using Cons.IH [of b1] Cons.prems(3) by (simp add: b1_def [symmetric])
  qed
  from this [of "with_max_entries cap"] show ?thesis
    using \<open>distinct ks\<close> by (simp add: with_max_entries_def distinct_card keys_def)
qed

lemma eviction_drops_newer:
  "map fst (store (foldl backend_apply (with_max_entries 2)
     [(0, OpSet ''a'' [] None), (1, OpSet ''b'' [] None), (2, OpDelete ''a''), (3, OpSet ''a'' [] None),
      (4, OpSet ''c'' [] None)])) = [''b'', ''c'']"
  by code_simp

section \<open>The contract of counters\<close>

text \<open>An entry that is still alive, the value of a counter text, and a sequence of increments of one
  counter at given times.\<close>

definition live :: "secs \<Rightarrow> (bytes \<times> secs option) option \<Rightarrow> (bytes \<times> secs option) option" where
  "live now v =
     (case v of
        None \<Rightarrow> None
      | Some (x, e) \<Rightarrow> (case e of Some t \<Rightarrow> if t \<le> now then None else v | None \<Rightarrow> v))"

definition text_value :: "bytes \<Rightarrow> int" where
  "text_value x = (case parse_i64 x of Some i \<Rightarrow> i | None \<Rightarrow> 0)"

fun incr_all :: "'b StateBackend \<Rightarrow> string \<Rightarrow> secs \<Rightarrow> 'b \<Rightarrow> secs list \<Rightarrow> 'b \<times> int option list" where
  "incr_all B k ttl b [] = (b, [])"
| "incr_all B k ttl b (t # ts) =
     (let (b1, r) = sb_incr_with_ttl B t k 1 ttl b; (b2, rs) = incr_all B k ttl b1 ts in (b2, r # rs))"

locale counter_backend =
  fixes B :: "'b StateBackend"
    and inv :: "'b \<Rightarrow> bool"
    and view :: "'b \<Rightarrow> string \<Rightarrow> (bytes \<times> secs option) option"
    and K :: "string set"
  assumes incr_live:
      "inv b \<Longrightarrow> k \<in> K \<Longrightarrow> live now (view b k) = Some (x, e) \<Longrightarrow>
       \<exists>b'. sb_incr_with_ttl B now k n ttl b = (b', Some (i64_saturating_add (text_value x) n)) \<and> inv b' \<and>
         view b' = (view b)(k \<mapsto> (dec_int (i64_saturating_add (text_value x) n),
           case e of None \<Rightarrow> Some (now + ttl) | Some t \<Rightarrow> Some t))"
    and incr_dead:
      "inv b \<Longrightarrow> k \<in> K \<Longrightarrow> live now (view b k) = None \<Longrightarrow>
       \<exists>b'. sb_incr_with_ttl B now k n ttl b = (b', Some n) \<and> inv b' \<and>
         view b' = (view b)(k \<mapsto> (dec_int n, Some (now + ttl)))"
    and set_view:
      "inv b \<Longrightarrow> k \<in> K \<Longrightarrow>
       \<exists>b'. sb_set B now k v life b = (b', Some ()) \<and> inv b' \<and> view b' = (view b)(k \<mapsto> (v, map_option ((+) now) life))"
begin

text \<open>In the middle of a window that ends at \<open>w\<close>, the counter stands at \<open>c\<close>.\<close>

lemma incr_step:
  assumes "inv b" "k \<in> K" "view b k = Some (dec_int c, Some w)" "t < w" "0 \<le> c" "c + 1 < 2 ^ 63"
  shows "\<exists>b'. sb_incr_with_ttl B t k 1 ttl b = (b', Some (c + 1)) \<and> inv b' \<and>
    view b' = (view b)(k \<mapsto> (dec_int (c + 1), Some w))"
proof -
  have "text_value (dec_int c) = c" using assms(5,6) by (simp add: text_value_def parse_dec_int in_i64_def)
  moreover have "i64_saturating_add c 1 = c + 1" using assms(5,6) by (simp add: i64_saturating_add_def)
  moreover have "live t (view b k) = Some (dec_int c, Some w)" using assms(3,4) by (simp add: live_def)
  ultimately show ?thesis using incr_live [OF assms(1,2), of t "dec_int c" "Some w" 1 ttl] by simp
qed

lemma incr_from:
  assumes "inv b" "k \<in> K" "view b k = Some (dec_int c, Some w)" "\<forall>t \<in> set ts. t < w"
    "0 \<le> c" "c + int (length ts) < 2 ^ 63"
  shows "snd (incr_all B k ttl b ts) = map (\<lambda>i. Some (c + 1 + int i)) [0..<length ts]"
  using assms
proof (induction ts arbitrary: b c)
  case Nil
  then show ?case by simp
next
  case (Cons t ts)
  from incr_step [OF Cons.prems(1-3), of t ttl] Cons.prems(4-6) obtain b1 where
    b1: "sb_incr_with_ttl B t k 1 ttl b = (b1, Some (c + 1))" "inv b1"
      "view b1 k = Some (dec_int (c + 1), Some w)" by auto
  have "snd (incr_all B k ttl b1 ts) = map (\<lambda>i. Some (c + 1 + 1 + int i)) [0..<length ts]"
    using Cons.IH [OF b1(2) Cons.prems(2) b1(3)] Cons.prems(4-6) by simp
  moreover have "map (\<lambda>i. Some (c + 1 + int i)) [0..<length (t # ts)] =
      Some (c + 1) # map (\<lambda>i. Some (c + 1 + 1 + int i)) [0..<length ts]"
    by (simp add: upt_conv_Cons map_Suc_upt [symmetric] comp_def del: upt_Suc)
  ultimately show ?case by (simp add: b1(1) Let_def split_beta)
qed

lemma fixed_window:
  assumes "inv b" "k \<in> K" "live t (view b k) = None" "\<forall>s \<in> set ts. s < t + ttl" "1 + int (length ts) < 2 ^ 63"
  shows "snd (incr_all B k ttl b (t # ts)) = map (\<lambda>i. Some (1 + int i)) [0..<Suc (length ts)]"
proof -
  from incr_dead [OF assms(1-3), of 1 ttl] obtain b1 where
    b1: "sb_incr_with_ttl B t k 1 ttl b = (b1, Some 1)" "inv b1" "view b1 k = Some (dec_int 1, Some (t + ttl))" by auto
  have "snd (incr_all B k ttl b1 ts) = map (\<lambda>i. Some (1 + 1 + int i)) [0..<length ts]"
    using incr_from [OF b1(2) assms(2) b1(3) assms(4)] assms(5) by simp
  moreover have "map (\<lambda>i. Some (1 + int i)) [0..<Suc (length ts)] = Some 1 # map (\<lambda>i. Some (1 + 1 + int i)) [0..<length ts]"
    by (simp add: upt_conv_Cons map_Suc_upt [symmetric] comp_def del: upt_Suc)
  ultimately show ?thesis by (simp add: b1(1) Let_def split_beta)
qed

end

text \<open>The in-memory backend meets the contract for every finite set of keys that fits its capacity.\<close>

definition mem_inv :: "string set \<Rightarrow> InMemoryBackend \<Rightarrow> bool" where
  "mem_inv K b \<longleftrightarrow> hm_wf (store b) \<and> finite K \<and> card K \<le> be_max_entries b \<and> keys (store b) \<subseteq> K"

definition mem_view :: "InMemoryBackend \<Rightarrow> string \<Rightarrow> (bytes \<times> secs option) option" where
  "mem_view b k = map_option (\<lambda>e. (e_value e, expires_at e)) (map_of (store b) k)"

lemma live_mem_view:
  "live now (mem_view b k) =
   (case map_of (store b) k of
      None \<Rightarrow> None | Some e \<Rightarrow> if is_expired now e then None else Some (e_value e, expires_at e))"
  by (auto simp: live_def mem_view_def is_expired_def split: option.split)

lemma put_entry_fits:
  assumes "mem_inv K b" "k \<in> K"
  shows "mem_inv K (put_entry k e b)" "store (put_entry k e b) = AList.update k e (store b)"
proof -
  define st where "st = AList.update k e (store b)"
  have st: "hm_wf st" "keys st \<subseteq> K" using assms by (auto simp: mem_inv_def st_def)
  have "length st \<le> be_max_entries b"
    using assms(1) st card_mono [of K "keys st"] by (simp add: mem_inv_def length_eq_card_keys)
  then show "store (put_entry k e b) = st"
    by (simp add: put_entry_def track_new_key_def Let_def st_def)
  have "be_max_entries (put_entry k e b) = be_max_entries b"
    using \<open>length st \<le> be_max_entries b\<close> by (simp add: put_entry_def track_new_key_def Let_def st_def)
  with \<open>store (put_entry k e b) = st\<close> st assms(1) show "mem_inv K (put_entry k e b)" by (simp add: mem_inv_def)
qed

lemma mem_view_update: "store b' = AList.update k e (store b) \<Longrightarrow> mem_view b' = (mem_view b)(k \<mapsto> (e_value e, expires_at e))"
  by (auto simp: mem_view_def)

interpretation mem: counter_backend in_memory "mem_inv K" mem_view K for K
proof
  fix b k now x e n ttl v life
  assume inv: "mem_inv K b" and k: "k \<in> K"
  { assume "live now (mem_view b k) = Some (x, e)"
    then obtain en where en: "map_of (store b) k = Some en" "\<not> is_expired now en" "x = e_value en" "e = expires_at en"
      by (auto simp: live_mem_view split: option.splits if_splits)
    have fits: "mem_inv K (b\<lparr>store := AList.update k en' (store b)\<rparr>)" for en'
      using inv k by (auto simp: mem_inv_def)
    show "\<exists>b'. sb_incr_with_ttl in_memory now k n ttl b = (b', Some (i64_saturating_add (text_value x) n)) \<and>
        mem_inv K b' \<and> mem_view b' = (mem_view b)(k \<mapsto> (dec_int (i64_saturating_add (text_value x) n),
           case e of None \<Rightarrow> Some (now + ttl) | Some t \<Rightarrow> Some t))"
      using en fits
      by (auto simp: in_memory_def mem_incr_with_ttl_def Let_def counter_value_def text_value_def mem_view_def
          split: option.split) }
  { assume "live now (mem_view b k) = None"
    then have "sb_incr_with_ttl in_memory now k n ttl b =
        (put_entry k \<lparr>e_value = dec_int n, expires_at = Some (now + ttl)\<rparr> b, Some n)"
      by (auto simp: live_mem_view in_memory_def mem_incr_with_ttl_def split: option.splits if_splits)
    with put_entry_fits [OF inv k] mem_view_update [OF put_entry_fits(2) [OF inv k]]
    show "\<exists>b'. sb_incr_with_ttl in_memory now k n ttl b = (b', Some n) \<and> mem_inv K b' \<and>
        mem_view b' = (mem_view b)(k \<mapsto> (dec_int n, Some (now + ttl)))" by simp }
  show "\<exists>b'. sb_set in_memory now k v life b = (b', Some ()) \<and> mem_inv K b' \<and>
      mem_view b' = (mem_view b)(k \<mapsto> (v, map_option ((+) now) life))"
    using put_entry_fits [OF inv k] mem_view_update [OF put_entry_fits(2) [OF inv k]]
    by (simp add: in_memory_def mem_set_def)
qed

section \<open>Properties\<close>

text \<open>The capacity of the in-memory backend holds under every sequence of \<open>get\<close>, \<open>set\<close>, \<open>delete\<close>,
  \<open>incr\<close>, \<open>scan_prefix\<close> and \<open>incr_with_ttl\<close>, at any times. (Keys created by \<open>compare_and_swap\<close> are
  not counted: see \<open>cas_ignores_capacity\<close>.)\<close>

lemma backend_within_capacity:
  "length (store (foldl backend_apply (with_max_entries cap) ops)) \<le> cap"
proof -
  have "backend_inv (foldl backend_apply b ops) \<and> be_max_entries (foldl backend_apply b ops) = be_max_entries b"
    if "backend_inv b" for b
    using that
  proof (induction ops arbitrary: b)
    case Nil
    then show ?case by simp
  next
    case (Cons x xs)
    have "be_max_entries (backend_apply b x) = be_max_entries b" by (rule backend_apply_cap)
    with Cons.IH [OF backend_apply_inv [OF Cons.prems]] show ?case by simp
  qed
  from this [of "with_max_entries cap"] show ?thesis by (simp add: backend_inv_def with_max_entries_def)
qed

end
