(* ===== verification/Rate_Limiter.thy ===== *)
theory Rate_Limiter
  imports State_Backend
begin

text \<open>
  The per-agent circuit breaker \<open>AgentRateLimiter\<close> of \<open>src/gateway.rs\<close> and the shard function of
  \<open>src/shard.rs\<close>. The two tables are lists of sixteen maps; a string stands for its UTF-8 bytes, one
  character per byte. The shared backend is a \<open>StateBackend\<close>. The decimal rendering of an \<open>f64\<close> time and its
  parser are the arguments \<open>show_f64\<close> and \<open>parse_f64\<close>, because times are exact rationals here. The
  background thread is the operation \<open>poll_once\<close> it calls; the process-wide instance is a value.

  The lemmas show that sharding and the sweep of stale entries are invisible (the limiter answers like
  one unbounded map), and that nodes that share a backend open the breaker at the fifth error of a
  window, whichever nodes saw the errors.
\<close>

section \<open>Shards\<close>

definition FNV_OFFSET_BASIS :: u64 where "FNV_OFFSET_BASIS = 0xcbf29ce484222325"
definition FNV_PRIME :: u64 where "FNV_PRIME = 0x00000100000001b3"

definition fnv1a_shard :: "string \<Rightarrow> nat \<Rightarrow> nat" where
  "fnv1a_shard key n_shards =
     unat (foldl (\<lambda>hash b. (xor hash (ucast b)) * FNV_PRIME) FNV_OFFSET_BASIS (str_bytes key)) mod n_shards"

section \<open>The limiter\<close>

definition RATE_LIMITER_THRESHOLD :: nat where "RATE_LIMITER_THRESHOLD = 5"
definition RATE_LIMITER_WINDOW_SECONDS :: secs where "RATE_LIMITER_WINDOW_SECONDS = 10"
definition RATE_LIMITER_LOCKOUT_SECONDS :: secs where "RATE_LIMITER_LOCKOUT_SECONDS = 30"
definition COVER_TRAFFIC_THRESHOLD :: nat where "COVER_TRAFFIC_THRESHOLD = 50"
definition COVER_TRAFFIC_WINDOW_SECONDS :: secs where "COVER_TRAFFIC_WINDOW_SECONDS = 1"
definition RATE_LIMITER_MAX_ENTRIES :: nat where "RATE_LIMITER_MAX_ENTRIES = 10000"
definition RATE_LIMITER_SHARDS :: nat where "RATE_LIMITER_SHARDS = 16"
definition RATE_LIMITER_PER_SHARD_MAX_ENTRIES :: nat where
  "RATE_LIMITER_PER_SHARD_MAX_ENTRIES = RATE_LIMITER_MAX_ENTRIES div RATE_LIMITER_SHARDS"

definition ratelimit_shard_index :: "string \<Rightarrow> nat" where
  "ratelimit_shard_index key = fnv1a_shard key RATE_LIMITER_SHARDS"

record RateRecord =
  errors :: nat
  window_start :: secs
  locked_until :: secs

record CoverRecord =
  cover_count :: nat
  cover_window_start :: secs

record AgentRateLimiter =
  records :: "(string, RateRecord) hmap list"
  cover_records :: "(string, CoverRecord) hmap list"

definition new_ratelimit_shards :: "('a, 'v) hmap list" where
  "new_ratelimit_shards = replicate RATE_LIMITER_SHARDS []"

definition new_rate_limiter :: AgentRateLimiter where
  "new_rate_limiter = \<lparr>records = new_ratelimit_shards, cover_records = new_ratelimit_shards\<rparr>"

definition ratelimit_err_key :: "string \<Rightarrow> string" where
  "ratelimit_err_key agent_id = ''ratelimit:err:'' @ agent_id"

definition ratelimit_lock_key :: "string \<Rightarrow> string" where
  "ratelimit_lock_key agent_id = ''ratelimit:lock:'' @ agent_id"

definition fresh_record :: "secs \<Rightarrow> RateRecord" where
  "fresh_record now = \<lparr>errors = 0, window_start = now, locked_until = 0\<rparr>"

text \<open>\<open>entry(agent).or_insert(fresh)\<close> on the agent's shard, then a change of the record.\<close>

definition shard_entry :: "secs \<Rightarrow> AgentRateLimiter \<Rightarrow> string \<Rightarrow> RateRecord" where
  "shard_entry now rl agent_id =
     (case map_of (records rl ! ratelimit_shard_index agent_id) agent_id of Some r \<Rightarrow> r | None \<Rightarrow> fresh_record now)"

definition put_record :: "AgentRateLimiter \<Rightarrow> string \<Rightarrow> RateRecord \<Rightarrow> AgentRateLimiter" where
  "put_record rl agent_id r =
     (let i = ratelimit_shard_index agent_id
      in rl\<lparr>records := (records rl)[i := AList.update agent_id r (records rl ! i)]\<rparr>)"

definition is_locked_at :: "AgentRateLimiter \<Rightarrow> string \<Rightarrow> secs \<Rightarrow> bool" where
  "is_locked_at rl agent_id now =
     (case map_of (records rl ! ratelimit_shard_index agent_id) agent_id of
        Some r \<Rightarrow> now < locked_until r
      | None \<Rightarrow> False)"

text \<open>The sweep of one shard, once it has reached its share of the capacity.\<close>

definition sweep_errors :: "secs \<Rightarrow> (string, RateRecord) hmap \<Rightarrow> (string, RateRecord) hmap" where
  "sweep_errors now m =
     (if RATE_LIMITER_PER_SHARD_MAX_ENTRIES \<le> length m
      then retain (\<lambda>_ r. now < locked_until r \<or> now - window_start r \<le> RATE_LIMITER_WINDOW_SECONDS) m
      else m)"

text \<open>What one error does to the record of an agent.\<close>

definition record_step :: "secs \<Rightarrow> RateRecord \<Rightarrow> RateRecord \<times> unit result" where
  "record_step now rec =
     (if now < locked_until rec then (rec, Err CircuitBreakerOpen)
      else
        (let rec1 = (if RATE_LIMITER_WINDOW_SECONDS < now - window_start rec
                     then rec\<lparr>errors := 0, window_start := now\<rparr> else rec);
             rec2 = rec1\<lparr>errors := errors rec1 + 1\<rparr>
         in if RATE_LIMITER_THRESHOLD \<le> errors rec2
            then (rec2\<lparr>locked_until := now + RATE_LIMITER_LOCKOUT_SECONDS\<rparr>, Err CircuitBreakerOpen)
            else (rec2, Ok ())))"

definition record_error_local :: "secs \<Rightarrow> string \<Rightarrow> AgentRateLimiter \<Rightarrow> AgentRateLimiter \<times> unit result" where
  "record_error_local now agent_id rl =
     (let i = ratelimit_shard_index agent_id;
          rl1 = rl\<lparr>records := (records rl)[i := sweep_errors now (records rl ! i)]\<rparr>;
          (rec, r) = record_step now (shard_entry now rl1 agent_id)
      in (put_record rl1 agent_id rec, r))"

text \<open>\<open>record_error\<close> with a backend: the shared counter decides, and only if the backend fails the local
  algorithm.\<close>

definition record_error_backend ::
  "'b StateBackend \<Rightarrow> (secs \<Rightarrow> bytes) \<Rightarrow> secs \<Rightarrow> string \<Rightarrow> AgentRateLimiter \<Rightarrow> 'b
     \<Rightarrow> AgentRateLimiter \<times> 'b \<times> unit result" where
  "record_error_backend B show_f64 now agent_id rl b =
     (if is_locked_at rl agent_id now then (rl, b, Err CircuitBreakerOpen)
      else
        (case sb_incr_with_ttl B now (ratelimit_err_key agent_id) 1 RATE_LIMITER_WINDOW_SECONDS b of
           (b1, Some shared_count) \<Rightarrow>
             if int RATE_LIMITER_THRESHOLD \<le> shared_count then
               (let until = now + RATE_LIMITER_LOCKOUT_SECONDS;
                    rec = shard_entry now rl agent_id;
                    rl1 = put_record rl agent_id (rec\<lparr>errors := nat (max shared_count 0), locked_until := until\<rparr>);
                    b2 = fst (sb_set B now (ratelimit_lock_key agent_id) (show_f64 until)
                                (Some RATE_LIMITER_LOCKOUT_SECONDS) b1)
                in (rl1, b2, Err CircuitBreakerOpen))
             else
               (let rec = shard_entry now rl agent_id
                in (put_record rl agent_id (rec\<lparr>errors := nat (max shared_count 0)\<rparr>), b1, Ok ()))
         | (b1, None) \<Rightarrow>
             (case record_error_local now agent_id rl of (rl1, r) \<Rightarrow> (rl1, b1, r))))"

definition strip_lock_prefix :: "string \<Rightarrow> string" where
  "strip_lock_prefix key =
     (if starts_with_str ''ratelimit:lock:'' key then drop (length ''ratelimit:lock:'') key else key)"

definition poll_key ::
  "'b StateBackend \<Rightarrow> (bytes \<Rightarrow> secs option) \<Rightarrow> secs \<Rightarrow> AgentRateLimiter \<times> 'b \<Rightarrow> string \<Rightarrow> AgentRateLimiter \<times> 'b" where
  "poll_key B parse_f64 now s key =
     (let (rl, b) = s; agent_id = strip_lock_prefix key
      in case sb_get B now key b of
           (b1, Some (Some bs)) \<Rightarrow>
             (case parse_f64 bs of
                Some until \<Rightarrow>
                  (let rec = shard_entry now rl agent_id
                   in (put_record rl agent_id (rec\<lparr>locked_until := max (locked_until rec) until\<rparr>), b1))
              | None \<Rightarrow> (rl, b1))
         | (b1, _) \<Rightarrow> (rl, b1))"

definition poll_once ::
  "'b StateBackend \<Rightarrow> (bytes \<Rightarrow> secs option) \<Rightarrow> secs \<Rightarrow> AgentRateLimiter \<Rightarrow> 'b \<Rightarrow> AgentRateLimiter \<times> 'b" where
  "poll_once B parse_f64 now rl b =
     (case sb_scan_prefix B now ''ratelimit:lock:'' b of
        (b1, Some ks) \<Rightarrow> foldl (poll_key B parse_f64 now) (rl, b1) ks
      | (b1, None) \<Rightarrow> (rl, b1))"

definition record_cover_traffic :: "secs \<Rightarrow> string \<Rightarrow> AgentRateLimiter \<Rightarrow> AgentRateLimiter \<times> unit result" where
  "record_cover_traffic now agent_id rl =
     (let i = ratelimit_shard_index agent_id;
          m = cover_records rl ! i;
          m1 = (if RATE_LIMITER_PER_SHARD_MAX_ENTRIES \<le> length m
                then retain (\<lambda>_ r. now - cover_window_start r \<le> COVER_TRAFFIC_WINDOW_SECONDS) m else m);
          rec = (case map_of m1 agent_id of Some r \<Rightarrow> r | None \<Rightarrow> \<lparr>cover_count = 0, cover_window_start = now\<rparr>);
          rec1 = (if COVER_TRAFFIC_WINDOW_SECONDS < now - cover_window_start rec
                  then rec\<lparr>cover_count := 0, cover_window_start := now\<rparr> else rec);
          rec2 = rec1\<lparr>cover_count := cover_count rec1 + 1\<rparr>;
          rl1 = rl\<lparr>cover_records := (cover_records rl)[i := AList.update agent_id rec2 m1]\<rparr>
      in (rl1, if COVER_TRAFFIC_THRESHOLD < cover_count rec2 then Err CircuitBreakerOpen else Ok ()))"

definition delete_all :: "'b StateBackend \<Rightarrow> secs \<Rightarrow> string list \<Rightarrow> 'b \<Rightarrow> 'b" where
  "delete_all B now ks b = foldl (\<lambda>b k. fst (sb_delete B now k b)) b ks"

definition reset_limiter :: "string option \<Rightarrow> AgentRateLimiter \<Rightarrow> AgentRateLimiter" where
  "reset_limiter agent_id rl =
     (case agent_id of
        Some a \<Rightarrow>
          (let i = ratelimit_shard_index a
           in rl\<lparr>records := (records rl)[i := AList.delete a (records rl ! i)],
                  cover_records := (cover_records rl)[i := AList.delete a (cover_records rl ! i)]\<rparr>)
      | None \<Rightarrow> rl\<lparr>records := map (\<lambda>_. []) (records rl), cover_records := map (\<lambda>_. []) (cover_records rl)\<rparr>)"

definition reset_backend :: "'b StateBackend \<Rightarrow> secs \<Rightarrow> string option \<Rightarrow> 'b \<Rightarrow> 'b" where
  "reset_backend B now agent_id b =
     (case agent_id of
        Some a \<Rightarrow> delete_all B now [ratelimit_err_key a, ratelimit_lock_key a] b
      | None \<Rightarrow>
          (case sb_scan_prefix B now ''ratelimit:'' b of
             (b1, Some ks) \<Rightarrow> delete_all B now ks b1
           | (b1, None) \<Rightarrow> b1))"

section \<open>Reference: one unbounded map\<close>

datatype limiter_op = ErrorOp string | LockedOp string | ResetOp "string option"

fun limiter_step :: "AgentRateLimiter \<Rightarrow> secs \<times> limiter_op \<Rightarrow> AgentRateLimiter \<times> bool" where
  "limiter_step rl (now, ErrorOp a) = (let (rl', r) = record_error_local now a rl in (rl', isl r))"
| "limiter_step rl (now, LockedOp a) = (rl, is_locked_at rl a now)"
| "limiter_step rl (now, ResetOp a) = (reset_limiter a rl, False)"

fun reference_step :: "(string \<Rightarrow> RateRecord option) \<Rightarrow> secs \<times> limiter_op \<Rightarrow> (string \<Rightarrow> RateRecord option) \<times> bool" where
  "reference_step m (now, ErrorOp a) =
     (let (rec, r) = record_step now (case m a of Some r \<Rightarrow> r | None \<Rightarrow> fresh_record now) in (m(a \<mapsto> rec), isl r))"
| "reference_step m (now, LockedOp a) = (m, case m a of Some r \<Rightarrow> now < locked_until r | None \<Rightarrow> False)"
| "reference_step m (now, ResetOp a) = (case a of Some a \<Rightarrow> m(a := None) | None \<Rightarrow> Map.empty, False)"

fun run_steps :: "('s \<Rightarrow> 'x \<Rightarrow> 's \<times> 'o) \<Rightarrow> 's \<Rightarrow> 'x list \<Rightarrow> 'o list" where
  "run_steps step s [] = []"
| "run_steps step s (x # xs) = (let (s', r) = step s x in r # run_steps step s' xs)"

section \<open>The tables\<close>

definition limiter_wf :: "AgentRateLimiter \<Rightarrow> bool" where
  "limiter_wf rl \<longleftrightarrow> length (records rl) = RATE_LIMITER_SHARDS \<and> (\<forall>m \<in> set (records rl). hm_wf m)"

definition lookup_record :: "AgentRateLimiter \<Rightarrow> string \<Rightarrow> RateRecord option" where
  "lookup_record rl a = map_of (records rl ! ratelimit_shard_index a) a"

lemma fnv1a_shard_less: "0 < n \<Longrightarrow> fnv1a_shard key n < n"
  by (simp add: fnv1a_shard_def)

lemma shard_index_less [simp]: "ratelimit_shard_index key < RATE_LIMITER_SHARDS"
  by (simp add: ratelimit_shard_index_def fnv1a_shard_less RATE_LIMITER_SHARDS_def)

lemma limiter_wf_new: "limiter_wf new_rate_limiter"
  by (simp add: limiter_wf_def new_rate_limiter_def new_ratelimit_shards_def)

lemma lookup_new: "lookup_record new_rate_limiter a = None"
  by (simp add: lookup_record_def new_rate_limiter_def new_ratelimit_shards_def)

lemma limiter_wf_shard: "limiter_wf rl \<Longrightarrow> hm_wf (records rl ! ratelimit_shard_index a)"
  by (simp add: limiter_wf_def)

lemma limiter_wf_update:
  "limiter_wf rl \<Longrightarrow> hm_wf m \<Longrightarrow> limiter_wf (rl\<lparr>records := (records rl)[i := m]\<rparr>)"
  by (auto simp: limiter_wf_def dest!: subsetD [OF set_update_subset_insert])

lemma lookup_update:
  "limiter_wf rl \<Longrightarrow>
   lookup_record (rl\<lparr>records := (records rl)[ratelimit_shard_index a := m]\<rparr>) q =
   (if ratelimit_shard_index q = ratelimit_shard_index a then map_of m q else lookup_record rl q)"
  by (simp add: lookup_record_def limiter_wf_def nth_list_update)

lemma shard_entry_eq: "shard_entry now rl a = (case lookup_record rl a of Some r \<Rightarrow> r | None \<Rightarrow> fresh_record now)"
  by (simp add: shard_entry_def lookup_record_def)

lemma is_locked_at_eq: "is_locked_at rl a now = (case lookup_record rl a of Some r \<Rightarrow> now < locked_until r | None \<Rightarrow> False)"
  by (simp add: is_locked_at_def lookup_record_def)

lemma put_record_props:
  assumes "limiter_wf rl"
  shows "limiter_wf (put_record rl a r)" "lookup_record (put_record rl a r) = (lookup_record rl)(a \<mapsto> r)"
proof -
  show "limiter_wf (put_record rl a r)"
    using assms by (simp add: put_record_def Let_def limiter_wf_update limiter_wf_shard)
  show "lookup_record (put_record rl a r) = (lookup_record rl)(a \<mapsto> r)"
    by (rule ext) (use assms in \<open>simp add: put_record_def Let_def lookup_update, simp add: lookup_record_def\<close>)
qed

section \<open>Sweeping is invisible\<close>

text \<open>A record that a sweep would drop, and records that no later operation can tell apart.\<close>

definition stale :: "secs \<Rightarrow> RateRecord \<Rightarrow> bool" where
  "stale now r \<longleftrightarrow> \<not> now < locked_until r \<and> RATE_LIMITER_WINDOW_SECONDS < now - window_start r"

definition same_record :: "secs \<Rightarrow> RateRecord \<Rightarrow> RateRecord \<Rightarrow> bool" where
  "same_record now r q \<longleftrightarrow> errors r = errors q \<and> window_start r = window_start q \<and>
     (locked_until r = locked_until q \<or> (locked_until r \<le> now \<and> locked_until q \<le> now))"

definition forgotten :: "secs \<Rightarrow> RateRecord option \<Rightarrow> bool" where
  "forgotten now x \<longleftrightarrow> (case x of None \<Rightarrow> True | Some r \<Rightarrow> stale now r)"

definition same_entry :: "secs \<Rightarrow> RateRecord option \<Rightarrow> RateRecord option \<Rightarrow> bool" where
  "same_entry now x y \<longleftrightarrow> (forgotten now x \<and> forgotten now y) \<or>
     (\<exists>r q. x = Some r \<and> y = Some q \<and> same_record now r q)"

definition limiter_rel :: "secs \<Rightarrow> AgentRateLimiter \<Rightarrow> (string \<Rightarrow> RateRecord option) \<Rightarrow> bool" where
  "limiter_rel now rl m \<longleftrightarrow> limiter_wf rl \<and> (\<forall>a. same_entry now (lookup_record rl a) (m a))"

lemma stale_later: "stale now r \<Longrightarrow> now \<le> t \<Longrightarrow> stale t r"
  by (auto simp: stale_def)

lemma same_entry_later: "same_entry now x y \<Longrightarrow> now \<le> t \<Longrightarrow> same_entry t x y"
  by (auto simp: same_entry_def forgotten_def same_record_def stale_later split: option.splits)

lemma same_entry_swept:
  "same_entry now x y \<Longrightarrow> same_entry now (case x of None \<Rightarrow> None | Some r \<Rightarrow> if stale now r then None else x) y"
  by (auto simp: same_entry_def forgotten_def same_record_def stale_def split: option.splits)

lemma record_step_fresh:
  "0 \<le> now \<Longrightarrow> record_step now (fresh_record now) = (\<lparr>errors = 1, window_start = now, locked_until = 0\<rparr>, Ok ())"
  by (simp add: record_step_def fresh_record_def RATE_LIMITER_WINDOW_SECONDS_def RATE_LIMITER_THRESHOLD_def)

lemma record_step_stale:
  "stale now r \<Longrightarrow> record_step now r = (\<lparr>errors = 1, window_start = now, locked_until = locked_until r\<rparr>, Ok ())"
  by (cases r) (simp add: record_step_def stale_def RATE_LIMITER_THRESHOLD_def)

lemma record_step_forgotten:
  "forgotten now x \<Longrightarrow> 0 \<le> now \<Longrightarrow>
   \<exists>l. record_step now (case x of Some r \<Rightarrow> r | None \<Rightarrow> fresh_record now) =
       (\<lparr>errors = 1, window_start = now, locked_until = l\<rparr>, Ok ()) \<and> l \<le> now"
  by (cases x) (auto simp: forgotten_def record_step_fresh record_step_stale, auto simp: stale_def)

lemma record_step_same:
  "same_record now r q \<Longrightarrow>
   same_record now (fst (record_step now r)) (fst (record_step now q)) \<and> snd (record_step now r) = snd (record_step now q)"
  by (auto simp: same_record_def record_step_def Let_def)

lemma record_step_rel:
  assumes "same_entry now x y" "0 \<le> now"
  shows "same_entry now (Some (fst (record_step now (case x of Some r \<Rightarrow> r | None \<Rightarrow> fresh_record now))))
           (Some (fst (record_step now (case y of Some r \<Rightarrow> r | None \<Rightarrow> fresh_record now)))) \<and>
         snd (record_step now (case x of Some r \<Rightarrow> r | None \<Rightarrow> fresh_record now)) =
         snd (record_step now (case y of Some r \<Rightarrow> r | None \<Rightarrow> fresh_record now))"
proof (cases "forgotten now x \<and> forgotten now y")
  case True
  then show ?thesis
    using record_step_forgotten [of now x] record_step_forgotten [of now y] assms(2)
    by (auto simp: same_entry_def same_record_def)
next
  case False
  with assms(1) obtain r q where "x = Some r" "y = Some q" "same_record now r q"
    by (auto simp: same_entry_def)
  with record_step_same [of now r q] show ?thesis by (auto simp: same_entry_def)
qed

lemma sweep_lookup:
  "hm_wf m \<Longrightarrow> map_of (sweep_errors now m) q =
   (if RATE_LIMITER_PER_SHARD_MAX_ENTRIES \<le> length m
    then (case map_of m q of None \<Rightarrow> None | Some r \<Rightarrow> if stale now r then None else Some r) else map_of m q)"
  by (auto simp: sweep_errors_def map_of_retain stale_def split: option.split)

lemma hm_wf_sweep: "hm_wf m \<Longrightarrow> hm_wf (sweep_errors now m)"
  by (simp add: sweep_errors_def)

lemma swept_rel:
  assumes "limiter_rel now rl m"
  shows "limiter_rel now (rl\<lparr>records := (records rl)[ratelimit_shard_index a :=
            sweep_errors now (records rl ! ratelimit_shard_index a)]\<rparr>) m"
proof -
  have wf: "limiter_wf rl" and rel: "same_entry now (lookup_record rl q) (m q)" for q
    using assms by (auto simp: limiter_rel_def)
  have "same_entry now (map_of (sweep_errors now (records rl ! ratelimit_shard_index a)) q) (m q)"
    if "ratelimit_shard_index q = ratelimit_shard_index a" for q
    using rel [of q] same_entry_swept [OF rel [of q]] limiter_wf_shard [OF wf, of a] that
    by (auto simp: sweep_lookup lookup_record_def split: option.splits if_splits)
  with wf rel limiter_wf_shard [OF wf, of a] show ?thesis
    by (auto simp: limiter_rel_def limiter_wf_update hm_wf_sweep lookup_update)
qed

lemma error_rel:
  assumes "limiter_rel now rl m" "0 \<le> now"
  shows "limiter_rel now (fst (limiter_step rl (now, ErrorOp a))) (fst (reference_step m (now, ErrorOp a))) \<and>
         snd (limiter_step rl (now, ErrorOp a)) = snd (reference_step m (now, ErrorOp a))"
proof -
  define rl1 where "rl1 = rl\<lparr>records := (records rl)[ratelimit_shard_index a :=
            sweep_errors now (records rl ! ratelimit_shard_index a)]\<rparr>"
  have rel1: "limiter_rel now rl1 m" unfolding rl1_def by (rule swept_rel [OF assms(1)])
  then have wf: "limiter_wf rl1" and e: "same_entry now (lookup_record rl1 a) (m a)" by (simp_all add: limiter_rel_def)
  note st = record_step_rel [OF e assms(2)]
  show ?thesis
    using rel1 st
    by (auto simp: record_error_local_def Let_def rl1_def [symmetric]
        split_beta shard_entry_eq limiter_rel_def put_record_props [OF wf])
qed

lemma locked_rel:
  assumes "same_entry now x y"
  shows "(case x of Some r \<Rightarrow> now < locked_until r | None \<Rightarrow> False) = (case y of Some r \<Rightarrow> now < locked_until r | None \<Rightarrow> False)"
  using assms by (auto simp: same_entry_def forgotten_def same_record_def stale_def split: option.splits)

lemma reset_wf: "limiter_wf rl \<Longrightarrow> limiter_wf (reset_limiter a rl)"
  by (cases a) (auto simp: reset_limiter_def Let_def limiter_wf_def dest!: subsetD [OF set_update_subset_insert])

lemma reset_lookup:
  assumes "limiter_wf rl"
  shows "lookup_record (reset_limiter a rl) = (case a of Some a \<Rightarrow> (lookup_record rl)(a := None) | None \<Rightarrow> Map.empty)"
  by (rule ext, cases a)
    (use assms in \<open>auto simp: reset_limiter_def Let_def lookup_record_def limiter_wf_def nth_list_update\<close>)

lemma step_rel:
  assumes "limiter_rel now rl m" "0 \<le> now" "now \<le> fst x"
  shows "limiter_rel (fst x) (fst (limiter_step rl x)) (fst (reference_step m x)) \<and>
         snd (limiter_step rl x) = snd (reference_step m x)"
proof -
  obtain t oper where x: "x = (t, oper)" by (cases x)
  have rel: "limiter_rel t rl m" using assms(1,3) by (auto simp: x limiter_rel_def intro: same_entry_later)
  then have wf: "limiter_wf rl" by (simp add: limiter_rel_def)
  show ?thesis
  proof (cases oper)
    case (ErrorOp a)
    with error_rel [OF rel] assms(2,3) show ?thesis by (simp add: x)
  next
    case (LockedOp a)
    with rel locked_rel [of t "lookup_record rl a" "m a"] show ?thesis
      by (simp add: x is_locked_at_eq limiter_rel_def)
  next
    case (ResetOp a)
    with rel show ?thesis
      by (auto simp: x limiter_rel_def reset_wf reset_lookup
          same_entry_def forgotten_def split: option.splits)
  qed
qed

lemma run_rel:
  "limiter_rel now rl m \<Longrightarrow> 0 \<le> now \<Longrightarrow> sorted (now # map fst xs) \<Longrightarrow>
   run_steps limiter_step rl xs = run_steps reference_step m xs"
proof (induction xs arbitrary: now rl m)
  case Nil
  then show ?case by simp
next
  case (Cons x xs)
  from Cons.prems have "now \<le> fst x" "sorted (fst x # map fst xs)" "0 \<le> fst x" by auto
  with step_rel [OF Cons.prems(1,2), of x]
    Cons.IH [of "fst x" "fst (limiter_step rl x)" "fst (reference_step m x)"]
  show ?case by (simp add: Let_def split_beta)
qed

section \<open>A fleet that shares a backend\<close>

text \<open>Nodes with their own limiter, one backend; an event is an error of one agent at a node.\<close>

definition fleet_step ::
  "'b StateBackend \<Rightarrow> (secs \<Rightarrow> bytes) \<Rightarrow> string \<Rightarrow> AgentRateLimiter list \<times> 'b \<Rightarrow> nat \<times> secs
     \<Rightarrow> (AgentRateLimiter list \<times> 'b) \<times> unit result" where
  "fleet_step B show_f64 agent s x =
     (let (rls, b) = s; (i, now) = x;
          (rl', b', r) = record_error_backend B show_f64 now agent (rls ! i) b
      in ((rls[i := rl'], b'), r))"

definition fleet_unlocked :: "AgentRateLimiter list \<Rightarrow> string \<Rightarrow> secs \<Rightarrow> bool" where
  "fleet_unlocked rls agent now \<longleftrightarrow>
     (\<forall>rl \<in> set rls. limiter_wf rl \<and>
        (case lookup_record rl agent of None \<Rightarrow> True | Some r \<Rightarrow> locked_until r \<le> now))"

lemma fleet_unlocked_not_locked:
  "fleet_unlocked rls agent now \<Longrightarrow> i < length rls \<Longrightarrow> now \<le> t \<Longrightarrow> \<not> is_locked_at (rls ! i) agent t"
  by (auto simp: fleet_unlocked_def is_locked_at_eq dest!: bspec [OF _ nth_mem] split: option.splits)

lemma fleet_unlocked_update:
  assumes "fleet_unlocked rls agent now" "i < length rls" "0 \<le> now"
  shows "fleet_unlocked (rls[i := put_record (rls ! i) agent ((shard_entry t (rls ! i) agent)\<lparr>errors := n\<rparr>)]) agent now"
proof -
  have rl: "limiter_wf (rls ! i)" "case lookup_record (rls ! i) agent of None \<Rightarrow> True | Some r \<Rightarrow> locked_until r \<le> now"
    using assms(1,2) nth_mem [of i rls] by (auto simp: fleet_unlocked_def)
  have "locked_until (shard_entry t (rls ! i) agent) \<le> now"
    using rl(2) assms(3) by (auto simp: shard_entry_eq fresh_record_def split: option.splits)
  with assms(1) rl(1) show ?thesis
    by (auto simp: fleet_unlocked_def put_record_props dest!: subsetD [OF set_update_subset_insert])
qed

lemma err_lock_keys_differ: "ratelimit_err_key a \<noteq> ratelimit_lock_key a"
  by (simp add: ratelimit_err_key_def ratelimit_lock_key_def)

definition fleet_at ::
  "('b \<Rightarrow> bool) \<Rightarrow> ('b \<Rightarrow> string \<Rightarrow> (bytes \<times> secs option) option) \<Rightarrow> string \<Rightarrow> secs \<Rightarrow> secs \<Rightarrow> int
     \<Rightarrow> AgentRateLimiter list \<times> 'b \<Rightarrow> bool" where
  "fleet_at ok view agent t0 w c s \<longleftrightarrow> ok (snd s) \<and>
     view (snd s) (ratelimit_err_key agent) = Some (dec_int c, Some w) \<and>
     (c < 5 \<longrightarrow> fleet_unlocked (fst s) agent t0)"

context counter_backend
begin

lemma fleet_step_at:
  assumes s: "fleet_at inv view agent t0 w c s" and c: "0 \<le> c" "c + 1 < 2 ^ 63"
    and K: "ratelimit_err_key agent \<in> K" "ratelimit_lock_key agent \<in> K"
    and x: "fst x < length (fst s)" "t0 \<le> snd x" "snd x < w" "0 \<le> t0"
  shows "(\<exists>c'. (c' = c + 1 \<or> c' = c \<and> 5 \<le> c) \<and> fleet_at inv view agent t0 w c' (fst (fleet_step B show_f64 agent s x))) \<and>
    length (fst (fst (fleet_step B show_f64 agent s x))) = length (fst s) \<and>
    snd (fleet_step B show_f64 agent s x) = (if c + 1 < 5 then Ok () else Err CircuitBreakerOpen)"
proof (cases "is_locked_at (fst s ! fst x) agent (snd x)")
  case True
  then have "5 \<le> c" using s fleet_unlocked_not_locked [of "fst s" agent t0 "fst x" "snd x"] x
    by (auto simp: fleet_at_def)
  moreover have "fleet_step B show_f64 agent s x = (s, Err CircuitBreakerOpen)"
    using True by (cases s) (simp add: fleet_step_def record_error_backend_def split_beta Let_def)
  ultimately show ?thesis using s by auto
next
  case False
  note at = s [unfolded fleet_at_def]
  from incr_step [of "snd s" "ratelimit_err_key agent" c w "snd x" RATE_LIMITER_WINDOW_SECONDS] at K(1) x(3) c
  obtain b1 where b1: "sb_incr_with_ttl B (snd x) (ratelimit_err_key agent) 1 RATE_LIMITER_WINDOW_SECONDS (snd s) =
      (b1, Some (c + 1))" "inv b1"
    "view b1 = (view (snd s))(ratelimit_err_key agent \<mapsto> (dec_int (c + 1), Some w))" by auto
  show ?thesis
  proof (cases "c + 1 < 5")
    case True
    have "fleet_step B show_f64 agent s x =
        (((fst s)[fst x := put_record (fst s ! fst x) agent
            ((shard_entry (snd x) (fst s ! fst x) agent)\<lparr>errors := nat (max (c + 1) 0)\<rparr>)], b1), Ok ())"
      using False True b1(1)
      by (simp add: fleet_step_def record_error_backend_def split_beta Let_def RATE_LIMITER_THRESHOLD_def)
    with True at x(1,4) b1 show ?thesis
      by (auto simp: fleet_at_def fleet_unlocked_update)
  next
    case False5: False
    obtain b2 where b2: "sb_set B (snd x) (ratelimit_lock_key agent)
        (show_f64 (snd x + RATE_LIMITER_LOCKOUT_SECONDS)) (Some RATE_LIMITER_LOCKOUT_SECONDS) b1 = (b2, Some ())"
      "inv b2" "view b2 (ratelimit_err_key agent) = view b1 (ratelimit_err_key agent)"
      using set_view [OF b1(2) K(2)] err_lock_keys_differ [of agent] by fastforce
    have "snd (fst (fleet_step B show_f64 agent s x)) = b2"
      "snd (fleet_step B show_f64 agent s x) = Err CircuitBreakerOpen"
      "length (fst (fst (fleet_step B show_f64 agent s x))) = length (fst s)"
      using False False5 b1(1) b2(1)
      by (simp_all add: fleet_step_def record_error_backend_def split_beta Let_def RATE_LIMITER_THRESHOLD_def)
    with b1 b2 False5 show ?thesis by (auto simp: fleet_at_def)
  qed
qed

lemma fleet_run:
  assumes "fleet_at inv view agent t0 w c s" "0 \<le> c" "c + int (length xs) < 2 ^ 63"
    and "ratelimit_err_key agent \<in> K" "ratelimit_lock_key agent \<in> K" "0 \<le> t0"
    and "\<forall>x \<in> set xs. fst x < length (fst s) \<and> t0 \<le> snd x \<and> snd x < w"
  shows "run_steps (fleet_step B show_f64 agent) s xs =
    map (\<lambda>i. if c + int i + 1 < 5 then Ok () else Err CircuitBreakerOpen) [0..<length xs]"
  using assms
proof (induction xs arbitrary: s c)
  case Nil
  then show ?case by simp
next
  case (Cons x xs)
  define s' where "s' = fst (fleet_step B show_f64 agent s x)"
  from fleet_step_at [of agent t0 w c s x show_f64] Cons.prems obtain c' where
    c': "c' = c + 1 \<or> c' = c \<and> 5 \<le> c" "fleet_at inv view agent t0 w c' s'" "length (fst s') = length (fst s)"
      "snd (fleet_step B show_f64 agent s x) = (if c + 1 < 5 then Ok () else Err CircuitBreakerOpen)"
    by (auto simp: s'_def)
  have "run_steps (fleet_step B show_f64 agent) s' xs =
      map (\<lambda>i. if c' + int i + 1 < 5 then Ok () else Err CircuitBreakerOpen) [0..<length xs]"
    using Cons.IH [OF c'(2)] c'(1,3) Cons.prems by auto
  also have "\<dots> = map (\<lambda>i. if c + int (Suc i) + 1 < 5 then Ok () else Err CircuitBreakerOpen) [0..<length xs]"
    using c'(1) by auto
  finally show ?case
    using c'(4) by (simp add: split_beta Let_def s'_def [symmetric] upt_conv_Cons map_Suc_upt [symmetric] comp_def del: upt_Suc)
qed

lemma fleet_window:
  assumes "inv b" "ratelimit_err_key agent \<in> K" "ratelimit_lock_key agent \<in> K"
    and "live t0 (view b (ratelimit_err_key agent)) = None" "fleet_unlocked rls agent t0"
    and "i0 < length rls" "0 \<le> t0" "int (length xs) < 2 ^ 62"
    and "\<forall>x \<in> set xs. fst x < length rls \<and> t0 \<le> snd x \<and> snd x < t0 + RATE_LIMITER_WINDOW_SECONDS"
  shows "run_steps (fleet_step B show_f64 agent) (rls, b) ((i0, t0) # xs) =
    map (\<lambda>i. if i < 4 then Ok () else Err CircuitBreakerOpen) [0..<Suc (length xs)]"
proof -
  from incr_dead [OF assms(1,2,4), of 1 RATE_LIMITER_WINDOW_SECONDS] obtain b1 where
    b1: "sb_incr_with_ttl B t0 (ratelimit_err_key agent) 1 RATE_LIMITER_WINDOW_SECONDS b = (b1, Some 1)" "inv b1"
      "view b1 (ratelimit_err_key agent) = Some (dec_int 1, Some (t0 + RATE_LIMITER_WINDOW_SECONDS))" by auto
  define rls1 where "rls1 = rls[i0 := put_record (rls ! i0) agent ((shard_entry t0 (rls ! i0) agent)\<lparr>errors := 1\<rparr>)]"
  have "\<not> is_locked_at (rls ! i0) agent t0" using fleet_unlocked_not_locked [OF assms(5,6)] by simp
  with b1(1) have first: "fleet_step B show_f64 agent (rls, b) (i0, t0) = ((rls1, b1), Ok ())"
    by (simp add: fleet_step_def record_error_backend_def RATE_LIMITER_THRESHOLD_def rls1_def)
  have at: "fleet_at inv view agent t0 (t0 + RATE_LIMITER_WINDOW_SECONDS) 1 (rls1, b1)"
    using b1 fleet_unlocked_update [OF assms(5-7)] by (simp add: fleet_at_def rls1_def)
  have "run_steps (fleet_step B show_f64 agent) (rls1, b1) xs =
      map (\<lambda>i. if 1 + int i + 1 < 5 then Ok () else Err CircuitBreakerOpen) [0..<length xs]"
    by (rule fleet_run [OF at _ _ assms(2,3,7)]) (use assms(8,9) in \<open>simp_all add: rls1_def\<close>)
  also have "\<dots> = map (\<lambda>i. if Suc i < 4 then Ok () else Err CircuitBreakerOpen) [0..<length xs]" by auto
  finally show ?thesis
    by (simp add: first upt_conv_Cons map_Suc_upt [symmetric] comp_def del: upt_Suc)
qed

end

section \<open>Properties\<close>

text \<open>Sharding and sweeping are invisible: for every sequence of recorded errors, lock queries and
  resets with non-decreasing clock readings, the limiter with sixteen swept shards answers exactly like
  one unbounded map from agents to records.\<close>

lemma limiter_refines_map:
  assumes "sorted (0 # map fst xs)"
  shows "run_steps limiter_step new_rate_limiter xs = run_steps reference_step Map.empty xs"
proof (rule run_rel [OF _ _ assms])
  show "limiter_rel 0 new_rate_limiter Map.empty"
    by (simp add: limiter_rel_def limiter_wf_new same_entry_def forgotten_def lookup_new)
qed simp

text \<open>The breaker cannot be evaded by spreading errors over nodes. Nodes that share an in-memory
  backend, with no window open for the agent and no node holding a lockout, let the first four errors
  of a window pass and refuse every further one until the window ends, whichever nodes the errors
  reach.\<close>

lemma fleet_breaker_opens:
  assumes "mem_inv K b" "ratelimit_err_key agent \<in> K" "ratelimit_lock_key agent \<in> K"
    and "live t0 (mem_view b (ratelimit_err_key agent)) = None" "fleet_unlocked rls agent t0"
    and "i0 < length rls" "0 \<le> t0" "int (length xs) < 2 ^ 62"
    and "\<forall>x \<in> set xs. fst x < length rls \<and> t0 \<le> snd x \<and> snd x < t0 + RATE_LIMITER_WINDOW_SECONDS"
  shows "run_steps (fleet_step in_memory show_f64 agent) (rls, b) ((i0, t0) # xs) =
    map (\<lambda>i. if i < 4 then Ok () else Err CircuitBreakerOpen) [0..<Suc (length xs)]"
  using assms by (rule mem.fleet_window)

end
