(* ===== verification/Circuit_Breaker.thy ===== *)
theory Circuit_Breaker
  imports Rate_Limiter
begin

text \<open>
  \<open>CircuitBreakerBackend\<close> of \<open>src/state_backend.rs\<close>, a decorator that makes a breaker-guarded backend of any
  backend, and the fallback bodies the trait gives for \<open>incr_with_ttl\<close> and \<open>compare_and_swap\<close>. A call
  consults the breaker, runs, and records its outcome; the count of consecutive failures is a natural
  number. The telemetry gauge and the messages are not modelled.

  The lemmas show that the breaker is transparent for a backend that does not fail, so that it meets the
  counter contract whenever the backend does, and that it limits the calls a dead backend receives.
\<close>

section \<open>Fallback bodies of the trait\<close>

definition default_incr_with_ttl :: "'b StateBackend \<Rightarrow> secs \<Rightarrow> string \<Rightarrow> int \<Rightarrow> secs \<Rightarrow> 'b \<Rightarrow> 'b \<times> int option" where
  "default_incr_with_ttl B now key by_n ttl b =
     (case sb_get B now key b of
        (b1, None) \<Rightarrow> (b1, None)
      | (b1, Some cur) \<Rightarrow>
          (case sb_incr B now key by_n b1 of
             (b2, None) \<Rightarrow> (b2, None)
           | (b2, Some v) \<Rightarrow>
               if cur = None then
                 (case sb_set B now key (dec_int v) (Some ttl) b2 of
                    (b3, None) \<Rightarrow> (b3, None)
                  | (b3, Some _) \<Rightarrow> (b3, Some v))
               else (b2, Some v)))"

definition default_compare_and_swap ::
  "'b StateBackend \<Rightarrow> secs \<Rightarrow> string \<Rightarrow> bytes option \<Rightarrow> bytes \<Rightarrow> secs option \<Rightarrow> 'b \<Rightarrow> 'b \<times> bool option" where
  "default_compare_and_swap B now key expected new_value ttl b =
     (case sb_get B now key b of
        (b1, None) \<Rightarrow> (b1, None)
      | (b1, Some current) \<Rightarrow>
          if current \<noteq> expected then (b1, Some False)
          else
            (case sb_set B now key new_value ttl b1 of
               (b2, None) \<Rightarrow> (b2, None)
             | (b2, Some _) \<Rightarrow> (b2, Some True)))"

section \<open>The breaker\<close>

datatype BreakerPosition = Closed | Open | HalfOpen

record 'b CircuitBreakerBackend =
  cb_inner :: 'b
  cb_position :: BreakerPosition
  consecutive_failures :: nat
  opened_at :: "secs option"
  cb_threshold :: nat
  cooldown :: secs

definition CIRCUIT_BREAKER_THRESHOLD :: nat where "CIRCUIT_BREAKER_THRESHOLD = 5"
definition CIRCUIT_BREAKER_COOLDOWN :: secs where "CIRCUIT_BREAKER_COOLDOWN = 10"

definition with_config :: "'b \<Rightarrow> nat \<Rightarrow> secs \<Rightarrow> 'b CircuitBreakerBackend" where
  "with_config b threshold cool =
     \<lparr>cb_inner = b, cb_position = Closed, consecutive_failures = 0, opened_at = None,
      cb_threshold = max threshold 1, cooldown = cool\<rparr>"

definition wrap_backend :: "'b \<Rightarrow> 'b CircuitBreakerBackend" where
  "wrap_backend b = with_config b CIRCUIT_BREAKER_THRESHOLD CIRCUIT_BREAKER_COOLDOWN"

text \<open>Whether a call may proceed; an open breaker whose cooldown is over becomes half-open.\<close>

definition check_state :: "secs \<Rightarrow> 'b CircuitBreakerBackend \<Rightarrow> 'b CircuitBreakerBackend \<times> bool" where
  "check_state now c =
     (case cb_position c of
        Closed \<Rightarrow> (c, True)
      | HalfOpen \<Rightarrow> (c, True)
      | Open \<Rightarrow>
          (case opened_at c of
             Some t \<Rightarrow> if cooldown c \<le> now - t then (c\<lparr>cb_position := HalfOpen\<rparr>, True) else (c, False)
           | None \<Rightarrow> (c, False)))"

definition record_outcome :: "secs \<Rightarrow> bool \<Rightarrow> 'b CircuitBreakerBackend \<Rightarrow> 'b CircuitBreakerBackend" where
  "record_outcome now success c =
     (if success then c\<lparr>cb_position := Closed, consecutive_failures := 0, opened_at := None\<rparr>
      else
        (let c1 = c\<lparr>consecutive_failures := consecutive_failures c + 1\<rparr>
         in if cb_position c1 = HalfOpen then c1\<lparr>cb_position := Open, opened_at := Some now\<rparr>
            else if cb_threshold c1 \<le> consecutive_failures c1 then c1\<lparr>cb_position := Open, opened_at := Some now\<rparr>
            else c1))"

definition guarded :: "secs \<Rightarrow> ('b \<Rightarrow> 'b \<times> 'r option) \<Rightarrow> 'b CircuitBreakerBackend \<Rightarrow> 'b CircuitBreakerBackend \<times> 'r option" where
  "guarded now f c =
     (case check_state now c of
        (c1, False) \<Rightarrow> (c1, None)
      | (c1, True) \<Rightarrow> (let (b, r) = f (cb_inner c1) in (record_outcome now (r \<noteq> None) (c1\<lparr>cb_inner := b\<rparr>), r)))"

definition breaker :: "'b StateBackend \<Rightarrow> 'b CircuitBreakerBackend StateBackend" where
  "breaker B =
     \<lparr>sb_get = (\<lambda>now key. guarded now (sb_get B now key)),
      sb_set = (\<lambda>now key v ttl. guarded now (sb_set B now key v ttl)),
      sb_delete = (\<lambda>now key. guarded now (sb_delete B now key)),
      sb_incr = (\<lambda>now key n. guarded now (sb_incr B now key n)),
      sb_scan_prefix = (\<lambda>now p. guarded now (sb_scan_prefix B now p)),
      sb_incr_with_ttl = (\<lambda>now key n ttl. guarded now (sb_incr_with_ttl B now key n ttl)),
      sb_compare_and_swap = (\<lambda>now key old v ttl. guarded now (sb_compare_and_swap B now key old v ttl))\<rparr>"

text \<open>How many of a sequence of calls reach the guarded backend.\<close>

fun calls_through :: "('b \<Rightarrow> 'b \<times> 'r option) \<Rightarrow> 'b CircuitBreakerBackend \<Rightarrow> secs list \<Rightarrow> nat" where
  "calls_through f c [] = 0"
| "calls_through f c (t # ts) = (if snd (check_state t c) then 1 else 0) + calls_through f (fst (guarded t f c)) ts"

section \<open>Transparency\<close>

lemma guarded_success:
  "cb_position c = Closed \<Longrightarrow> f (cb_inner c) = (b, Some r) \<Longrightarrow>
   guarded now f c = (c\<lparr>cb_inner := b, cb_position := Closed, consecutive_failures := 0, opened_at := None\<rparr>, Some r)"
  by (simp add: guarded_def check_state_def record_outcome_def)

definition breaker_inv :: "('b \<Rightarrow> bool) \<Rightarrow> 'b CircuitBreakerBackend \<Rightarrow> bool" where
  "breaker_inv ok c \<longleftrightarrow> cb_position c = Closed \<and> ok (cb_inner c)"

definition breaker_view :: "('b \<Rightarrow> 'v) \<Rightarrow> 'b CircuitBreakerBackend \<Rightarrow> 'v" where
  "breaker_view view c = view (cb_inner c)"

lemma guarded_lift:
  assumes "breaker_inv ok c" "\<exists>b. f (cb_inner c) = (b, Some r) \<and> ok b \<and> view b = v"
  shows "\<exists>c'. guarded now f c = (c', Some r) \<and> breaker_inv ok c' \<and> breaker_view view c' = v"
  using assms by (auto simp: breaker_inv_def breaker_view_def guarded_success)

lemma breaker_counter_backend:
  assumes "counter_backend B ok view K"
  shows "counter_backend (breaker B) (breaker_inv ok) (breaker_view view) K"
proof
  fix c k now x e n ttl v life
  assume inv: "breaker_inv ok c" and k: "k \<in> K"
  then have ok: "ok (cb_inner c)" by (simp add: breaker_inv_def)
  note lift = guarded_lift [OF inv, where view = view]
  show "\<exists>c'. sb_incr_with_ttl (breaker B) now k n ttl c = (c', Some (i64_saturating_add (text_value x) n)) \<and>
      breaker_inv ok c' \<and> breaker_view view c' = (breaker_view view c)(k \<mapsto>
        (dec_int (i64_saturating_add (text_value x) n), case e of None \<Rightarrow> Some (now + ttl) | Some t \<Rightarrow> Some t))"
    if "live now (breaker_view view c k) = Some (x, e)"
    using lift [where f = "sb_incr_with_ttl B now k n ttl", OF counter_backend.incr_live [OF assms ok k that [unfolded breaker_view_def]]]
    by (simp add: breaker_def breaker_view_def)
  show "\<exists>c'. sb_incr_with_ttl (breaker B) now k n ttl c = (c', Some n) \<and> breaker_inv ok c' \<and>
      breaker_view view c' = (breaker_view view c)(k \<mapsto> (dec_int n, Some (now + ttl)))"
    if "live now (breaker_view view c k) = None"
    using lift [where f = "sb_incr_with_ttl B now k n ttl", OF counter_backend.incr_dead [OF assms ok k that [unfolded breaker_view_def]]]
    by (simp add: breaker_def breaker_view_def)
  show "\<exists>c'. sb_set (breaker B) now k v life c = (c', Some ()) \<and> breaker_inv ok c' \<and>
      breaker_view view c' = (breaker_view view c)(k \<mapsto> (v, map_option ((+) now) life))"
    using lift [where f = "sb_set B now k v life", OF counter_backend.set_view [OF assms ok k]] by (simp add: breaker_def breaker_view_def)
qed

interpretation guarded_mem: counter_backend "breaker in_memory" "breaker_inv (mem_inv K)" "breaker_view mem_view" K for K
  by (rule breaker_counter_backend) (rule mem.counter_backend_axioms)

section \<open>A dead backend\<close>

lemma guarded_closed_fail:
  "cb_position c = Closed \<Longrightarrow> Suc (consecutive_failures c) < cb_threshold c \<Longrightarrow> f (cb_inner c) = (b, None) \<Longrightarrow>
   guarded now f c = (c\<lparr>cb_inner := b, consecutive_failures := Suc (consecutive_failures c)\<rparr>, None)"
  by (simp add: guarded_def check_state_def record_outcome_def Let_def)

lemma guarded_trips:
  "cb_position c = Closed \<Longrightarrow> cb_threshold c \<le> Suc (consecutive_failures c) \<Longrightarrow> f (cb_inner c) = (b, None) \<Longrightarrow>
   guarded now f c = (c\<lparr>cb_inner := b, cb_position := Open, consecutive_failures := Suc (consecutive_failures c),
     opened_at := Some now\<rparr>, None)"
  by (simp add: guarded_def check_state_def record_outcome_def Let_def)

lemma guarded_fast_fail:
  "cb_position c = Open \<Longrightarrow> opened_at c = Some t \<Longrightarrow> now - t < cooldown c \<Longrightarrow> guarded now f c = (c, None)"
  by (simp add: guarded_def check_state_def)

lemma guarded_probe_fails:
  "cb_position c = Open \<Longrightarrow> opened_at c = Some t \<Longrightarrow> cooldown c \<le> now - t \<Longrightarrow> f (cb_inner c) = (b, None) \<Longrightarrow>
   guarded now f c = (c\<lparr>cb_inner := b, cb_position := Open, consecutive_failures := Suc (consecutive_failures c),
     opened_at := Some now\<rparr>, None)"
  by (simp add: guarded_def check_state_def record_outcome_def Let_def)

lemma guarded_recovers:
  "cb_position c = Open \<Longrightarrow> opened_at c = Some t \<Longrightarrow> cooldown c \<le> now - t \<Longrightarrow> f (cb_inner c) = (b, Some r) \<Longrightarrow>
   guarded now f c = (c\<lparr>cb_inner := b, cb_position := Closed, consecutive_failures := 0, opened_at := None\<rparr>, Some r)"
  by (simp add: guarded_def check_state_def record_outcome_def Let_def)

lemma calls_through_open:
  assumes "\<And>b. snd (f b) = None" "cb_position c = Open" "opened_at c = Some t" "sorted (t # ts)"
  shows "of_nat (calls_through f c ts) * cooldown c \<le> last (t # ts) - t"
  using assms(2-)
proof (induction ts arbitrary: c t)
  case Nil
  then show ?case by simp
next
  case (Cons u us)
  obtain b where b: "f (cb_inner c) = (b, None)" using assms(1) by (metis prod.collapse)
  show ?case
  proof (cases "cooldown c \<le> u - t")
    case True
    from Cons.IH [of "fst (guarded u f c)" u] Cons.prems
    have "of_nat (calls_through f (fst (guarded u f c)) us) * cooldown c \<le> last (u # us) - u"
      by (simp add: guarded_probe_fails [where f = f, OF Cons.prems(1,2) True b])
    with True Cons.prems(1,2) show ?thesis by (simp add: check_state_def algebra_simps)
  next
    case False
    then have g: "guarded u f c = (c, None)" by (intro guarded_fast_fail [OF Cons.prems(1,2)]) simp
    have "of_nat (calls_through f c us) * cooldown c \<le> last (t # us) - t"
      using Cons.IH [OF Cons.prems(1,2)] Cons.prems(3) by simp
    moreover have "last (t # us) \<le> last (u # us)" using Cons.prems(3) by (cases us) auto
    ultimately show ?thesis using False Cons.prems(1,2) by (simp add: g check_state_def)
  qed
qed

lemma calls_through_closed:
  assumes "\<And>b. snd (f b) = None" "cb_position c = Closed" "consecutive_failures c < cb_threshold c"
    "sorted (t # ts)" "0 < cooldown c"
  shows "\<exists>n. calls_through f c ts \<le> cb_threshold c - consecutive_failures c + n \<and> of_nat n * cooldown c \<le> last (t # ts) - t"
  using assms(2-)
proof (induction ts arbitrary: c t)
  case Nil
  then show ?case by (intro exI [of _ 0]) simp
next
  case (Cons u us)
  obtain b where b: "f (cb_inner c) = (b, None)" using assms(1) by (metis prod.collapse)
  have u: "t \<le> u" "sorted (u # us)" using Cons.prems(3) by auto
  show ?case
  proof (cases "Suc (consecutive_failures c) < cb_threshold c")
    case True
    from Cons.IH [of "fst (guarded u f c)" u] Cons.prems u True obtain n where
      "calls_through f (fst (guarded u f c)) us \<le> cb_threshold c - Suc (consecutive_failures c) + n"
      "of_nat n * cooldown c \<le> last (u # us) - u"
      by (auto simp: guarded_closed_fail [where f = f, OF Cons.prems(1) True b])
    with True u Cons.prems(1) show ?thesis by (intro exI [of _ n]) (auto simp: check_state_def)
  next
    case False
    then have g: "guarded u f c = (c\<lparr>cb_inner := b, cb_position := Open,
        consecutive_failures := Suc (consecutive_failures c), opened_at := Some u\<rparr>, None)"
      using guarded_trips [where f = f, OF Cons.prems(1) _ b] by simp
    have "of_nat (calls_through f (fst (guarded u f c)) us) * cooldown c \<le> last (u # us) - u"
      using calls_through_open [of f "fst (guarded u f c)" u us] assms(1) u by (simp add: g)
    with u Cons.prems(1,2) show ?thesis
      by (intro exI [of _ "calls_through f (fst (guarded u f c)) us"]) (auto simp: check_state_def)
  qed
qed

section \<open>Properties\<close>

text \<open>The breaker limits the load on a dead backend: of any number of calls in a period of length
  \<open>T\<close>, at most the threshold plus one per whole cooldown in \<open>T\<close> reach it; the others fail at once.\<close>

lemma breaker_limits_calls:
  assumes "\<And>b. snd (f b) = None" "sorted (t # ts)" "0 < cool"
  shows "calls_through f (with_config b0 threshold cool) (t # ts) \<le> max threshold 1 + nat \<lfloor>(last (t # ts) - t) / cool\<rfloor>"
proof -
  have "sorted (t # t # ts)" using assms(2) by auto
  from calls_through_closed [of f "with_config b0 threshold cool" t "t # ts", OF assms(1) _ _ this] assms(3)
  obtain n where n: "calls_through f (with_config b0 threshold cool) (t # ts) \<le> max threshold 1 + n"
    "of_nat n * cool \<le> last (t # ts) - t"
    by (auto simp: with_config_def less_max_iff_disj simp del: calls_through.simps)
  then have "of_nat n \<le> (last (t # ts) - t) / cool" using assms(3) by (simp add: pos_le_divide_eq)
  then have "int n \<le> \<lfloor>(last (t # ts) - t) / cool\<rfloor>" by (simp add: le_floor_iff)
  with n(1) show ?thesis by linarith
qed

text \<open>The fleet-wide breaker holds over a guarded backend: nodes that share an in-memory backend behind a
  closed circuit breaker open at the fifth error of a window, whichever nodes saw the errors.\<close>

lemma guarded_fleet_breaker_opens:
  assumes "cb_position c = Closed" "mem_inv K (cb_inner c)" "ratelimit_err_key agent \<in> K" "ratelimit_lock_key agent \<in> K"
    and "live t0 (mem_view (cb_inner c) (ratelimit_err_key agent)) = None" "fleet_unlocked rls agent t0"
    and "i0 < length rls" "0 \<le> t0" "int (length xs) < 2 ^ 62"
    and "\<forall>x \<in> set xs. fst x < length rls \<and> t0 \<le> snd x \<and> snd x < t0 + RATE_LIMITER_WINDOW_SECONDS"
  shows "run_steps (fleet_step (breaker in_memory) show_f64 agent) (rls, c) ((i0, t0) # xs) =
    map (\<lambda>i. if i < 4 then Ok () else Err CircuitBreakerOpen) [0..<Suc (length xs)]"
  using assms by (intro guarded_mem.fleet_window) (auto simp: breaker_inv_def breaker_view_def)

end
