(* ===== verification/Json.thy ===== *)
theory Json
  imports Errors
begin

text \<open>
  \<open>serde_json::Value\<close> with the accessors the code uses, the hexadecimal codec of the \<open>hex\<close> crate and the
  byte comparisons of \<open>src/security.rs\<close>. Parsing and printing text is third-party code and a parameter of
  the theories that need it.
\<close>

section \<open>JSON values\<close>

datatype jnum = PosInt u64 | NegInt int | Float rat

datatype json = JNull | JBool bool | JNum jnum | JStr string | JArr "json list" | JObj "(string \<times> json) list"

fun as_str :: "json \<Rightarrow> string option" where
  "as_str (JStr s) = Some s"
| "as_str _ = None"

fun as_u64 :: "json \<Rightarrow> u64 option" where
  "as_u64 (JNum (PosInt n)) = Some n"
| "as_u64 _ = None"

fun as_f64 :: "json \<Rightarrow> secs option" where
  "as_f64 (JNum (PosInt n)) = Some (of_nat (unat n))"
| "as_f64 (JNum (NegInt i)) = Some (of_int i)"
| "as_f64 (JNum (Float r)) = Some r"
| "as_f64 _ = None"

fun as_array :: "json \<Rightarrow> json list option" where
  "as_array (JArr xs) = Some xs"
| "as_array _ = None"

fun as_object :: "json \<Rightarrow> (string \<times> json) list option" where
  "as_object (JObj kvs) = Some kvs"
| "as_object _ = None"

text \<open>\<open>v.get(k)\<close> on a value, and a claim read with an accessor.\<close>

definition json_get :: "json \<Rightarrow> string \<Rightarrow> json option" where
  "json_get v k = Option.bind (as_object v) (\<lambda>kvs. map_of kvs k)"

definition claim :: "(json \<Rightarrow> 'a option) \<Rightarrow> (string \<times> json) list \<Rightarrow> string \<Rightarrow> 'a option" where
  "claim acc obj k = Option.bind (map_of obj k) acc"

definition str_list_claim :: "(string \<times> json) list \<Rightarrow> string \<Rightarrow> string list" where
  "str_list_claim obj k = (case claim as_array obj k of Some xs \<Rightarrow> List.map_filter as_str xs | None \<Rightarrow> [])"

text \<open>\<open>v[k]\<close>: \<open>Null\<close> for a missing key or a value that is no object.\<close>

definition json_index :: "json \<Rightarrow> string \<Rightarrow> json" where
  "json_index v k = (case json_get v k of Some x \<Rightarrow> x | None \<Rightarrow> JNull)"

text \<open>\<open>v.get(k).and_then(|v| v.as_u64())\<close>\<close>

definition claim_u64 :: "json \<Rightarrow> string \<Rightarrow> u64 option" where
  "claim_u64 v k = Option.bind (json_get v k) as_u64"

section \<open>Hexadecimal and comparison\<close>

text \<open>\<open>subtle\<close> compares byte strings of equal length; the result is equality.\<close>

definition constant_time_eq :: "bytes \<Rightarrow> bytes \<Rightarrow> bool" where
  "constant_time_eq a b = (if length a \<noteq> length b then False else a = b)"

text \<open>\<open>hex::decode\<close> takes both cases and refuses odd lengths and other characters.\<close>

definition hex_val :: "char \<Rightarrow> nat option" where
  "hex_val c = (let n = of_char c :: nat in
     if 48 \<le> n \<and> n \<le> 57 then Some (n - 48)
     else if 97 \<le> n \<and> n \<le> 102 then Some (n - 87)
     else if 65 \<le> n \<and> n \<le> 70 then Some (n - 55) else None)"

fun hex_decode :: "string \<Rightarrow> bytes option" where
  "hex_decode [] = Some []"
| "hex_decode [c] = None"
| "hex_decode (c # d # s) =
     (case (hex_val c, hex_val d, hex_decode s) of
        (Some x, Some y, Some bs) \<Rightarrow> Some (word_of_nat (16 * x + y) # bs)
      | _ \<Rightarrow> None)"

definition constant_time_eq_hex :: "string \<Rightarrow> string \<Rightarrow> bool" where
  "constant_time_eq_hex a b =
     (case (hex_decode a, hex_decode b) of (Some x, Some y) \<Rightarrow> constant_time_eq x y | _ \<Rightarrow> False)"

text \<open>A string whose bytes are given (\<open>String::from_utf8\<close>).\<close>

definition bytes_str :: "bytes \<Rightarrow> string" where
  "bytes_str bs = map (\<lambda>b. char_of (unat b)) bs"

text \<open>\<open>x as u64\<close> truncates and saturates.\<close>

definition f64_as_u64 :: "secs \<Rightarrow> u64" where
  "f64_as_u64 x = word_of_nat (min (nat \<lfloor>x\<rfloor>) (2 ^ 64 - 1))"

section \<open>Round trips\<close>

lemma unat_of_char [simp]: "unat (of_char c :: u8) = of_char c"
proof -
  have "unat (word_of_nat (of_char c) :: u8) = of_char c"
    using nat_of_char_less_256 [of c] by (simp add: unat_of_nat del: nat_of_char_less_256)
  then show ?thesis by (simp add: of_nat_of_char)
qed

lemma of_char_of_unat [simp]: "of_char (char_of (unat b)) = b" for b :: u8
proof -
  have "unat b < 256" using unsigned_less [of b] by simp
  then have "unat (of_char (char_of (unat b)) :: u8) = unat b" by simp
  then show ?thesis by (rule unsigned_word_eqI)
qed

lemma bytes_str_inverse [simp]: "bytes_str (str_bytes s) = s"
  by (simp add: bytes_str_def str_bytes_def comp_def)

lemma str_bytes_inverse [simp]: "str_bytes (bytes_str bs) = bs"
  by (simp add: bytes_str_def str_bytes_def comp_def)

lemma str_bytes_inject [simp]: "str_bytes s = str_bytes t \<longleftrightarrow> s = t"
  by (metis bytes_str_inverse)

lemma constant_time_eq_iff: "constant_time_eq a b \<longleftrightarrow> a = b"
  by (auto simp: constant_time_eq_def)

lemma hex_val_digit: "n < 16 \<Longrightarrow> hex_val (hex_digit n) = Some n"
proof -
  have "\<forall>n \<in> set [0..<16]. hex_val (hex_digit n) = Some n" by code_simp
  then show "n < 16 \<Longrightarrow> hex_val (hex_digit n) = Some n" by simp
qed

lemma hex_decode_encode [simp]: "hex_decode (hex_encode bs) = Some bs"
proof (induction bs)
  case Nil
  then show ?case by (simp add: hex_encode_def)
next
  case (Cons b bs)
  have "unat b < 256" using unsigned_less [of b] by simp
  then have "hex_val (hex_digit (unat b div 16)) = Some (unat b div 16)"
    "hex_val (hex_digit (unat b mod 16)) = Some (unat b mod 16)"
    by (simp_all add: hex_val_digit)
  moreover have "(word_of_nat (16 * (unat b div 16) + unat b mod 16) :: u8) = b" by simp
  ultimately show ?case using Cons by (simp add: hex_encode_def)
qed

lemma hex_encode_inject [simp]: "hex_encode a = hex_encode b \<longleftrightarrow> a = b"
  by (metis hex_decode_encode option.inject)

lemma constant_time_eq_hex_encode:
  "constant_time_eq_hex (hex_encode a) s \<longleftrightarrow> hex_decode s = Some a"
  by (auto simp: constant_time_eq_hex_def constant_time_eq_iff split: option.splits)

end
