(* ===== verification/Gateway.thy ===== *)
theory Gateway
  imports Rate_Limiter Json "HOL-Library.List_Lexorder" "HOL-Library.Char_ord"
begin

text \<open>
  The capability-token gateway of \<open>src/gateway.rs\<close>: the token wire format, issuing, revocation, the
  verdict cache, \<open>validate_lateral_movement\<close> and \<open>DelegationGuard\<close>. Base64, SHA-256, HMAC, Ed25519 and the
  JSON parser and printer are the record \<open>gw_env\<close>; a parsed value is a \<open>json\<close>. The keys of the registered capability authority and of the trust
  store are read through shared handles, so what they hold at the time of a call is an argument
  (\<open>cva\<close>, \<open>pins\<close>). Epochs and the cache generation count up by one and are natural numbers.

  \<open>validate_lateral_movement\<close> is the composition of the phases the code runs without a common lock:
  load the epochs and consult the cache, check the token, store the verdict.
\<close>

section \<open>Primitives and helpers\<close>

record gw_env =
  b64_encode :: "bytes \<Rightarrow> bytes"
  b64_decode :: "bytes \<Rightarrow> bytes option"
  gw_sha256 :: "bytes \<Rightarrow> bytes"
  hmac_raw :: "bytes \<Rightarrow> bytes \<Rightarrow> bytes"
  json_to_vec :: "json \<Rightarrow> bytes"
  json_from_slice :: "bytes \<Rightarrow> json option"
  ed25519_key_ok :: "bytes \<Rightarrow> bool"
  ed25519_verify :: "bytes \<Rightarrow> bytes \<Rightarrow> bytes \<Rightarrow> bool"

definition TOKEN_CACHE_MAX :: nat where "TOKEN_CACHE_MAX = 10000"
definition TOKEN_CACHE_SHARDS :: nat where "TOKEN_CACHE_SHARDS = 16"
definition TOKEN_CACHE_PER_SHARD_MAX :: nat where "TOKEN_CACHE_PER_SHARD_MAX = TOKEN_CACHE_MAX div TOKEN_CACHE_SHARDS"
definition TOKEN_CACHE_TTL :: secs where "TOKEN_CACHE_TTL = 30"
definition MAX_TRUSTED_ISSUERS :: nat where "MAX_TRUSTED_ISSUERS = 10000"
definition REVOKED_TOKENS_SHARDS :: nat where "REVOKED_TOKENS_SHARDS = 16"
definition REVOKED_TOKENS_MAX :: nat where "REVOKED_TOKENS_MAX = 100000"
definition REVOKED_TOKENS_FALLBACK_TTL :: secs where "REVOKED_TOKENS_FALLBACK_TTL = 30 * 24 * 3600"
definition ACSVAF_MAX_DELEGATION_DEPTH :: u32 where "ACSVAF_MAX_DELEGATION_DEPTH = 3"

definition revoked_token_shard_index :: "string \<Rightarrow> nat" where
  "revoked_token_shard_index sig_hash = fnv1a_shard sig_hash REVOKED_TOKENS_SHARDS"

definition sha256_hex :: "gw_env \<Rightarrow> bytes \<Rightarrow> string" where
  "sha256_hex E data = hex_encode (gw_sha256 E data)"

definition hmac_sha256 :: "gw_env \<Rightarrow> bytes \<Rightarrow> bytes \<Rightarrow> bytes" where
  "hmac_sha256 E key data = hmac_raw E (if length key < 32 then gw_sha256 E key else key) data"

definition serialize_sorted_json :: "gw_env \<Rightarrow> (string \<times> json) list \<Rightarrow> bytes" where
  "serialize_sorted_json E data = json_to_vec E (JObj (sort_key fst data))"

definition sorted_str_array :: "string list \<Rightarrow> json" where
  "sorted_str_array items = JArr (map JStr (sort items))"

definition parse_token_wire :: "gw_env \<Rightarrow> bytes \<Rightarrow> (bytes \<times> bytes) result" where
  "parse_token_wire E token_b64 =
     (case b64_decode E token_b64 of
        None \<Rightarrow> Err LateralMovementBlocked
      | Some raw \<Rightarrow>
          if length raw < 4 then Err LateralMovementBlocked
          else
            (let json_len = unat (from_be_bytes (take 4 raw) :: u32)
             in if json_len = 0 \<or> length raw - 4 < json_len then Err LateralMovementBlocked
                else
                  (let token_json = slice 4 (4 + json_len) raw; signature = drop (4 + json_len) raw
                   in if length signature \<noteq> 32 \<and> length signature \<noteq> 64 then Err LateralMovementBlocked
                      else Ok (token_json, signature))))"

definition verify_ed25519_signature_inner :: "gw_env \<Rightarrow> bytes \<Rightarrow> bytes \<Rightarrow> bytes \<Rightarrow> unit result" where
  "verify_ed25519_signature_inner E token_json signature pub_key_bytes =
     (if length pub_key_bytes \<noteq> 32 then Err InvalidSignature
      else if length signature \<noteq> 64 then Err InvalidSignature
      else if \<not> ed25519_key_ok E pub_key_bytes then Err InvalidSignature
      else if ed25519_verify E pub_key_bytes token_json signature then Ok () else Err InvalidSignature)"

section \<open>State\<close>

record TokenValidationResult =
  is_valid :: bool
  source_agent :: string
  root_intent_hash :: "string option"
  max_action_class :: u8
  delegation_depth :: u32
  token_sig_hash :: string

record CacheEntry =
  expiry :: secs
  ce_result :: TokenValidationResult
  generation :: nat

record GatewayEpochs =
  strict_asymmetric_mode :: bool
  revocation_epoch :: nat
  issuer_registry_epoch :: nat
  blanket_revoked_before :: secs
  cache_generation :: nat

record ZeroTrustGateway =
  revoked_tokens :: "(string, secs) hmap list"
  token_cache :: "(string, CacheEntry) hmap list"
  trusted_issuer_keys :: "(string, bytes) hmap"
  epochs :: GatewayEpochs

definition new_gateway :: ZeroTrustGateway where
  "new_gateway =
     \<lparr>revoked_tokens = replicate REVOKED_TOKENS_SHARDS [], token_cache = replicate TOKEN_CACHE_SHARDS [],
      trusted_issuer_keys = [],
      epochs = \<lparr>strict_asymmetric_mode = False, revocation_epoch = 0, issuer_registry_epoch = 0,
                blanket_revoked_before = 0, cache_generation = 0\<rparr>\<rparr>"

definition token_cache_shard :: "string \<Rightarrow> nat" where
  "token_cache_shard cache_key = fnv1a_shard cache_key TOKEN_CACHE_SHARDS"

definition clear_token_cache :: "ZeroTrustGateway \<Rightarrow> ZeroTrustGateway" where
  "clear_token_cache g = g\<lparr>token_cache := map (\<lambda>_. []) (token_cache g)\<rparr>"

definition update_epochs :: "(GatewayEpochs \<Rightarrow> GatewayEpochs) \<Rightarrow> ZeroTrustGateway \<Rightarrow> ZeroTrustGateway" where
  "update_epochs mutate g =
     g\<lparr>epochs := mutate ((epochs g)\<lparr>cache_generation := cache_generation (epochs g) + 1\<rparr>)\<rparr>"

definition set_strict_asymmetric_mode :: "bool \<Rightarrow> ZeroTrustGateway \<Rightarrow> ZeroTrustGateway" where
  "set_strict_asymmetric_mode enabled g =
     clear_token_cache (update_epochs (\<lambda>e. e\<lparr>strict_asymmetric_mode := enabled\<rparr>) g)"

text \<open>Registering a trust store or a capability authority replaces the handle (the arguments \<open>cva\<close> and
  \<open>pins\<close> of later calls) and invalidates every cached verdict.\<close>

definition register_key_source :: "ZeroTrustGateway \<Rightarrow> ZeroTrustGateway" where
  "register_key_source g = clear_token_cache (update_epochs (\<lambda>e. e) g)"

definition is_blank :: "string \<Rightarrow> bool" where
  "is_blank s \<longleftrightarrow> list_all (\<lambda>c. c \<in> {CHR '' '', CHR 0x09, CHR 0x0A, CHR 0x0B, CHR 0x0C, CHR 0x0D}) s"

definition register_issuer_key :: "string \<Rightarrow> bytes \<Rightarrow> ZeroTrustGateway \<Rightarrow> ZeroTrustGateway \<times> unit result" where
  "register_issuer_key issuer_agent issuer_secret g =
     (if is_blank issuer_agent then (g, Err SchemaMismatch)
      else if CHR 0x00 \<in> set issuer_agent then (g, Err SchemaMismatch)
      else if length issuer_secret \<noteq> 32 then (g, Err SchemaMismatch)
      else if MAX_TRUSTED_ISSUERS \<le> length (trusted_issuer_keys g) \<and>
              \<not> contains_key (trusted_issuer_keys g) issuer_agent
      then (g, Err RgcResourceLimitExceeded)
      else
        (let g1 = g\<lparr>trusted_issuer_keys := AList.update issuer_agent issuer_secret (trusted_issuer_keys g)\<rparr>
         in (update_epochs (\<lambda>e. e\<lparr>issuer_registry_epoch := issuer_registry_epoch e + 1\<rparr>) (clear_token_cache g1), Ok ())))"

definition clear_trusted_issuers :: "ZeroTrustGateway \<Rightarrow> ZeroTrustGateway" where
  "clear_trusted_issuers g =
     update_epochs (\<lambda>e. e\<lparr>issuer_registry_epoch := issuer_registry_epoch e + 1\<rparr>)
       (clear_token_cache (g\<lparr>trusted_issuer_keys := []\<rparr>))"

section \<open>Issuing\<close>

definition token_claims ::
  "u64 \<Rightarrow> u64 \<Rightarrow> string \<Rightarrow> string list \<Rightarrow> string list \<Rightarrow> string option \<Rightarrow> u8 \<Rightarrow> string option \<Rightarrow> (string \<times> json) list" where
  "token_claims iat until issuer_agent allowed_agents forbidden_agents rih mac thash =
     [(''iss'', JStr issuer_agent), (''iat'', JNum (PosInt iat)), (''exp'', JNum (PosInt until)),
      (''allow'', sorted_str_array allowed_agents), (''forbid'', sorted_str_array forbidden_agents),
      (''max_action_class'', JNum (PosInt (ucast mac)))] @
     (case rih of Some h \<Rightarrow> [(''root_intent_hash'', JStr h)] | None \<Rightarrow> []) @
     (case thash of Some h \<Rightarrow> [(''thash'', JStr h)] | None \<Rightarrow> [])"

definition pack_token :: "gw_env \<Rightarrow> bytes \<Rightarrow> bytes \<Rightarrow> bytes" where
  "pack_token E token_json signature =
     (let json_len = (if length token_json < 2 ^ 32 then word_of_nat (length token_json) else - 1 :: u32)
      in b64_encode E (to_be_bytes 4 json_len @ token_json @ signature))"

text \<open>The result is None when \<open>iat + ttl\<close> overflows, which panics.\<close>

definition issue_capability_token ::
  "gw_env \<Rightarrow> secs \<Rightarrow> bytes \<Rightarrow> string \<Rightarrow> string list \<Rightarrow> string list \<Rightarrow> u64 \<Rightarrow> string option \<Rightarrow> u8 \<Rightarrow> string option \<Rightarrow> bytes option" where
  "issue_capability_token E now issuer_secret issuer_agent allowed_agents forbidden_agents ttl_seconds rih mac thash =
     (let iat = f64_as_u64 now
      in case checked_add iat ttl_seconds of
           None \<Rightarrow> None
         | Some until \<Rightarrow>
             (let token_json =
                    serialize_sorted_json E
                      (token_claims iat until issuer_agent allowed_agents forbidden_agents rih mac thash)
              in Some (pack_token E token_json (hmac_sha256 E issuer_secret token_json))))"

section \<open>Revocation\<close>

definition is_token_revoked :: "ZeroTrustGateway \<Rightarrow> string \<Rightarrow> bool" where
  "is_token_revoked g sig_hash \<longleftrightarrow>
     contains_key (revoked_tokens g ! revoked_token_shard_index sig_hash) sig_hash"

definition revoked_tokens_len :: "ZeroTrustGateway \<Rightarrow> nat" where
  "revoked_tokens_len g = sum_list (map length (revoked_tokens g))"

definition prune_expired_revocations :: "secs \<Rightarrow> ZeroTrustGateway \<Rightarrow> ZeroTrustGateway \<times> nat" where
  "prune_expired_revocations now g =
     (let shards = map (retain (\<lambda>_ exp_at. now < exp_at)) (revoked_tokens g)
      in (g\<lparr>revoked_tokens := shards\<rparr>, revoked_tokens_len g - sum_list (map length shards)))"

definition unrevoke :: "ZeroTrustGateway \<Rightarrow> string \<Rightarrow> ZeroTrustGateway" where
  "unrevoke g h =
     (let i = revoked_token_shard_index h
      in g\<lparr>revoked_tokens := (revoked_tokens g)[i := AList.delete h (revoked_tokens g ! i)]\<rparr>)"

definition enforce_revoked_tokens_cap :: "secs \<Rightarrow> ZeroTrustGateway \<Rightarrow> ZeroTrustGateway" where
  "enforce_revoked_tokens_cap now g =
     (if revoked_tokens_len g \<le> REVOKED_TOKENS_MAX then g
      else
        (let g1 = fst (prune_expired_revocations now g); total_n = revoked_tokens_len g1
         in if total_n \<le> REVOKED_TOKENS_MAX then g1
            else
              (let all_entries = sort_key fst (map (\<lambda>(h, ex). (ex, h)) (concat (revoked_tokens g1)))
               in foldl unrevoke g1 (map snd (take (total_n - REVOKED_TOKENS_MAX) all_entries)))))"

definition revocation_exp :: "gw_env \<Rightarrow> secs \<Rightarrow> bytes \<Rightarrow> secs" where
  "revocation_exp E now token_json =
     (case Option.bind (json_from_slice E token_json) (\<lambda>v. Option.bind (json_get v ''exp'') as_f64) of
        Some x \<Rightarrow> x | None \<Rightarrow> now + REVOKED_TOKENS_FALLBACK_TTL)"

definition insert_revocation :: "string \<Rightarrow> secs \<Rightarrow> ZeroTrustGateway \<Rightarrow> ZeroTrustGateway" where
  "insert_revocation h exp_at g =
     (let i = revoked_token_shard_index h
      in g\<lparr>revoked_tokens := (revoked_tokens g)[i := AList.update h exp_at (revoked_tokens g ! i)]\<rparr>)"

definition bump_revocation_epoch :: "ZeroTrustGateway \<Rightarrow> ZeroTrustGateway" where
  "bump_revocation_epoch g = update_epochs (\<lambda>e. e\<lparr>revocation_epoch := revocation_epoch e + 1\<rparr>) g"

definition revoke_token :: "gw_env \<Rightarrow> secs \<Rightarrow> bytes \<Rightarrow> ZeroTrustGateway \<Rightarrow> ZeroTrustGateway \<times> unit result" where
  "revoke_token E now token_b64 g =
     (case parse_token_wire E token_b64 of
        Inl err \<Rightarrow> (g, Err err)
      | Inr (token_json, signature) \<Rightarrow>
          (let g1 = insert_revocation (sha256_hex E signature) (revocation_exp E now token_json) g;
               g2 = enforce_revoked_tokens_cap now g1;
               g3 = clear_token_cache g2
           in (bump_revocation_epoch g3, Ok ())))"

definition get_revocation_epoch :: "ZeroTrustGateway \<Rightarrow> nat" where
  "get_revocation_epoch g = revocation_epoch (epochs g)"

definition revoke_all_tokens :: "secs \<Rightarrow> ZeroTrustGateway \<Rightarrow> ZeroTrustGateway \<times> nat" where
  "revoke_all_tokens now g =
     (let g1 = (clear_token_cache g)\<lparr>trusted_issuer_keys := []\<rparr>;
          g2 = update_epochs (\<lambda>e. e\<lparr>blanket_revoked_before := of_int \<lfloor>now\<rfloor>,
                 revocation_epoch := revocation_epoch e + 1, issuer_registry_epoch := issuer_registry_epoch e + 1\<rparr>) g1
      in (g2, revocation_epoch (epochs g2)))"

section \<open>Validation\<close>

definition nat_str :: "nat \<Rightarrow> string" where
  "nat_str n = map (\<lambda>b. char_of (unat b)) (dec_nat n)"

definition cache_key_of :: "gw_env \<Rightarrow> GatewayEpochs \<Rightarrow> string \<Rightarrow> bytes \<Rightarrow> bytes \<Rightarrow> string" where
  "cache_key_of E ep target_agent token_b64 issuer_secret =
     target_agent @ '':'' @ sha256_hex E token_b64 @ '':'' @ sha256_hex E issuer_secret @ '':'' @
     nat_str (issuer_registry_epoch ep) @ '':'' @ nat_str (revocation_epoch ep)"

text \<open>Phase one: the cached verdict, if it is unexpired and of the loaded generation.\<close>

definition cache_lookup :: "secs \<Rightarrow> GatewayEpochs \<Rightarrow> string \<Rightarrow> ZeroTrustGateway \<Rightarrow> TokenValidationResult option" where
  "cache_lookup now ep key g =
     (case map_of (token_cache g ! token_cache_shard key) key of
        Some entry \<Rightarrow> if now < expiry entry \<and> generation entry = cache_generation ep then Some (ce_result entry) else None
      | None \<Rightarrow> None)"

text \<open>The signature check, by the algorithm the token names.\<close>

definition check_signature ::
  "gw_env \<Rightarrow> (string \<Rightarrow> bytes option) \<Rightarrow> (string \<Rightarrow> bytes option) \<Rightarrow> (string, bytes) hmap \<Rightarrow> GatewayEpochs
     \<Rightarrow> (string \<times> json) list \<Rightarrow> string \<Rightarrow> bytes \<Rightarrow> bytes \<Rightarrow> bytes \<Rightarrow> unit result" where
  "check_signature E cva pins trusted ep obj src token_json signature issuer_secret =
     (let sig_alg = (case claim as_str obj ''_sig_alg'' of Some s \<Rightarrow> s | None \<Rightarrow> ''hmac-sha256'')
      in if strict_asymmetric_mode ep \<and> sig_alg \<noteq> ''ed25519'' then Err InvalidSignature
         else if sig_alg \<noteq> ''ed25519'' then
           (let has_registry = trusted \<noteq> []; trusted_secret = map_of trusted src
            in if has_registry \<and> trusted_secret = None then Err InvalidSignature
               else if \<not> has_registry \<and> length issuer_secret < 32 then Err InvalidSignature
               else
                 (let secret = (case trusted_secret of Some k \<Rightarrow> k | None \<Rightarrow> issuer_secret)
                  in if \<not> constant_time_eq (hmac_sha256 E secret token_json) signature then Err InvalidSignature
                     else Ok ()))
         else
           (case claim as_str obj ''kid'' of
              None \<Rightarrow> Err InvalidSignature
            | Some kid \<Rightarrow>
                (case (case cva kid of Some vk \<Rightarrow> Some vk | None \<Rightarrow> pins src) of
                   None \<Rightarrow> Err AcsvafKeyNotTrusted
                 | Some vk \<Rightarrow> verify_ed25519_signature_inner E token_json signature vk)))"

definition delegation_claim :: "(string \<times> json) list \<Rightarrow> u32 result" where
  "delegation_claim obj =
     (case map_of obj ''delegation_depth'' of
        None \<Rightarrow> Ok 0
      | Some v \<Rightarrow>
          (case as_u64 v of
             None \<Rightarrow> Err DelegationRejected
           | Some raw \<Rightarrow>
               if 2 ^ 32 \<le> unat raw then Err DelegationRejected
               else if ACSVAF_MAX_DELEGATION_DEPTH < (ucast raw :: u32) then Err DelegationRejected
               else Ok (ucast raw)))"

text \<open>The checks on the claims after the signature: blanket revocation, expiry, scope, action class,
  delegation depth. The second component is the expiry.\<close>

definition check_claims ::
  "secs \<Rightarrow> GatewayEpochs \<Rightarrow> (string \<times> json) list \<Rightarrow> string \<Rightarrow> string \<Rightarrow> string \<Rightarrow> (TokenValidationResult \<times> secs) result" where
  "check_claims now ep obj src target_agent sig_hash =
     (let iat = (case claim as_u64 obj ''iat'' of Some n \<Rightarrow> of_nat (unat n) | None \<Rightarrow> 0);
          exp_at = (case claim as_u64 obj ''exp'' of Some n \<Rightarrow> of_nat (unat n) | None \<Rightarrow> 0);
          forbid = str_list_claim obj ''forbid'';
          allow = str_list_claim obj ''allow'';
          rih = Option.bind (case map_of obj ''root_intent_hash'' of Some v \<Rightarrow> Some v | None \<Rightarrow> map_of obj ''thash'') as_str;
          mac_raw = (case claim as_u64 obj ''max_action_class'' of Some n \<Rightarrow> n | None \<Rightarrow> 0)
      in if 0 < blanket_revoked_before ep \<and> iat < blanket_revoked_before ep then Err LateralMovementBlocked
         else if exp_at < now then Err TokenExpired
         else if target_agent \<in> set forbid then Err LateralMovementBlocked
         else if target_agent \<notin> set allow then Err ScopeViolation
         else if src = target_agent \<and> src \<notin> set allow then Err SelfIssuedCapability
         else if 255 < mac_raw then Err SchemaMismatch
         else
           and_then (delegation_claim obj) (\<lambda>depth.
             Ok (\<lparr>is_valid = True, source_agent = src, root_intent_hash = rih, max_action_class = ucast mac_raw,
                  delegation_depth = depth, token_sig_hash = sig_hash\<rparr>, exp_at)))"

text \<open>Phase two: parse, revocation, signature, claims.\<close>

definition check_token ::
  "gw_env \<Rightarrow> (string \<Rightarrow> bytes option) \<Rightarrow> (string \<Rightarrow> bytes option) \<Rightarrow> secs \<Rightarrow> GatewayEpochs \<Rightarrow> ZeroTrustGateway
     \<Rightarrow> string \<Rightarrow> bytes \<Rightarrow> bytes \<Rightarrow> (TokenValidationResult \<times> secs) result" where
  "check_token E cva pins now ep g target_agent token_b64 issuer_secret =
     and_then (parse_token_wire E token_b64) (\<lambda>(token_json, signature).
       case json_from_slice E token_json of
         None \<Rightarrow> Err LateralMovementBlocked
       | Some data \<Rightarrow>
           (case as_object data of
              None \<Rightarrow> Err LateralMovementBlocked
            | Some obj \<Rightarrow>
                (let sig_hash = sha256_hex E signature;
                     src = (case claim as_str obj ''iss'' of Some s \<Rightarrow> s | None \<Rightarrow> ''Unknown_Issuer'')
                 in if is_token_revoked g sig_hash then Err LateralMovementBlocked
                    else
                      and_then (check_signature E cva pins (trusted_issuer_keys g) ep obj src token_json signature issuer_secret)
                        (\<lambda>_. check_claims now ep obj src target_agent sig_hash))))"

text \<open>Phase three: make room in the shard and store the verdict.\<close>

definition evict_cache :: "secs \<Rightarrow> nat \<Rightarrow> (string, CacheEntry) hmap \<Rightarrow> (string, CacheEntry) hmap" where
  "evict_cache now gen m =
     (if TOKEN_CACHE_PER_SHARD_MAX \<le> length m then
        (let m1 = retain (\<lambda>_ v. now < expiry v \<and> generation v = gen) m
         in if TOKEN_CACHE_PER_SHARD_MAX \<le> length m1 then
              foldl (\<lambda>m k. AList.delete k m) m1
                (take (TOKEN_CACHE_PER_SHARD_MAX div 5) (map fst (sort_key snd (map (\<lambda>(k, v). (k, expiry v)) m1))))
            else m1)
      else m)"

definition cache_store :: "secs \<Rightarrow> GatewayEpochs \<Rightarrow> string \<Rightarrow> TokenValidationResult \<Rightarrow> secs \<Rightarrow> ZeroTrustGateway \<Rightarrow> ZeroTrustGateway" where
  "cache_store now ep key res exp_at g =
     (let i = token_cache_shard key;
          entry = \<lparr>expiry = min (now + TOKEN_CACHE_TTL) exp_at, ce_result = res, generation = cache_generation ep\<rparr>;
          m = evict_cache now (cache_generation ep) (token_cache g ! i)
      in g\<lparr>token_cache := (token_cache g)[i := AList.update key entry m]\<rparr>)"

definition validate_lateral_movement ::
  "gw_env \<Rightarrow> (string \<Rightarrow> bytes option) \<Rightarrow> (string \<Rightarrow> bytes option) \<Rightarrow> secs \<Rightarrow> string \<Rightarrow> bytes \<Rightarrow> bytes \<Rightarrow> ZeroTrustGateway
     \<Rightarrow> ZeroTrustGateway \<times> TokenValidationResult result" where
  "validate_lateral_movement E cva pins now target_agent token_b64 issuer_secret g =
     (let ep = epochs g; key = cache_key_of E ep target_agent token_b64 issuer_secret
      in case cache_lookup now ep key g of
           Some res \<Rightarrow> (g, Ok res)
         | None \<Rightarrow>
             (case check_token E cva pins now ep g target_agent token_b64 issuer_secret of
                Inl err \<Rightarrow> (g, Err err)
              | Inr (res, until) \<Rightarrow> (cache_store now ep key res until g, Ok res)))"

section \<open>Delegation guard\<close>

definition validate_not_self_signed :: "gw_env \<Rightarrow> bytes \<Rightarrow> bytes \<Rightarrow> unit result" where
  "validate_not_self_signed E token_b64 root_secret =
     (case b64_decode E token_b64 of
        None \<Rightarrow> Err DelegationRejected
      | Some raw \<Rightarrow>
          if length raw < 4 then Err DelegationRejected
          else
            (let json_len = unat (from_be_bytes (take 4 raw) :: u32)
             in if json_len = 0 \<or> length raw - 4 < json_len then Err DelegationRejected
                else
                  (let token_json = slice 4 (4 + json_len) raw; signature = drop (4 + json_len) raw
                   in if \<not> constant_time_eq (hmac_sha256 E root_secret token_json) signature
                      then Err DelegationRejected else Ok ())))"

text \<open>Concrete primitives and a token to evaluate the model on: every body parses to the same claims and
  every authentication code is the same 32 bytes.\<close>

definition demo_claims :: "(string \<times> json) list" where
  "demo_claims = [(''allow'', JArr [JStr ''t'']), (''exp'', JNum (PosInt 100)), (''iss'', JStr ''i'')]"

definition demo_gw :: gw_env where
  "demo_gw =
     \<lparr>b64_encode = (\<lambda>x. x), b64_decode = Some, gw_sha256 = (\<lambda>m. replicate 32 9),
      hmac_raw = (\<lambda>k m. replicate 32 7), json_to_vec = (\<lambda>v. [1]), json_from_slice = (\<lambda>b. Some (JObj demo_claims)),
      ed25519_key_ok = (\<lambda>k. True), ed25519_verify = (\<lambda>k m s. False)\<rparr>"

definition demo_token :: bytes where
  "demo_token = [0, 0, 0, 1, 1] @ replicate 32 7"

definition demo_result :: TokenValidationResult where
  "demo_result =
     \<lparr>is_valid = True, source_agent = ''i'', root_intent_hash = None, max_action_class = 0, delegation_depth = 0,
      token_sig_hash = hex_encode (replicate 32 9)\<rparr>"

section \<open>What an accepted token has passed\<close>

lemma check_claims_sig_hash: "check_claims now ep obj src target h = Ok (r, until) \<Longrightarrow> token_sig_hash r = h"
  unfolding check_claims_def Let_def by (auto simp: and_then_Ok_iff split: if_split_asm)

lemma check_token_OkE:
  assumes "check_token E cva pins now ep g target tok sec = Ok (r, until)"
  obtains token_json signature data obj src where
    "parse_token_wire E tok = Ok (token_json, signature)" "json_from_slice E token_json = Some data"
    "as_object data = Some obj" "src = (case claim as_str obj ''iss'' of Some s \<Rightarrow> s | None \<Rightarrow> ''Unknown_Issuer'')"
    "\<not> is_token_revoked g (sha256_hex E signature)"
    "check_signature E cva pins (trusted_issuer_keys g) ep obj src token_json signature sec = Ok ()"
    "check_claims now ep obj src target (sha256_hex E signature) = Ok (r, until)"
proof -
  obtain token_json signature where p: "parse_token_wire E tok = Ok (token_json, signature)"
    using assms by (auto simp: check_token_def and_then_Ok_iff)
  then obtain data where d: "json_from_slice E token_json = Some data"
    using assms by (cases "json_from_slice E token_json") (simp_all add: check_token_def)
  then obtain obj where o: "as_object data = Some obj"
    using assms p by (cases "as_object data") (simp_all add: check_token_def)
  have "\<not> is_token_revoked g (sha256_hex E signature)"
    using assms p d o by (simp add: check_token_def Let_def split: if_split_asm)
  moreover from this have
    "check_signature E cva pins (trusted_issuer_keys g) ep obj
       (case claim as_str obj ''iss'' of Some s \<Rightarrow> s | None \<Rightarrow> ''Unknown_Issuer'') token_json signature sec = Ok ()"
    "check_claims now ep obj (case claim as_str obj ''iss'' of Some s \<Rightarrow> s | None \<Rightarrow> ''Unknown_Issuer'')
       target (sha256_hex E signature) = Ok (r, until)"
    using assms p d o by (simp_all add: check_token_def Let_def and_then_Ok_iff)
  ultimately show thesis using p d o that by simp
qed

section \<open>The concrete token\<close>

lemma demo_parse: "parse_token_wire demo_gw demo_token = Ok ([1], replicate 32 7)"
proof -
  have "unat (from_be_bytes [0, 0, 0, 1] :: u32) = 1" by code_simp
  then show ?thesis by (simp add: parse_token_wire_def demo_gw_def demo_token_def slice_def)
qed

lemma demo_check:
  assumes "strict_asymmetric_mode ep = False" "blanket_revoked_before ep = 0" "trusted_issuer_keys g = []"
    "\<not> is_token_revoked g (hex_encode (replicate 32 9))" "now \<le> 100"
  shows "check_token demo_gw cva pins now ep g ''t'' demo_token (replicate 32 5) = Ok (demo_result, 100)"
proof -
  have "sha256_hex demo_gw (replicate 32 7) = hex_encode (replicate 32 9)"
    by (simp add: sha256_hex_def demo_gw_def)
  moreover have "json_from_slice demo_gw [1] = Some (JObj demo_claims)" by (simp add: demo_gw_def)
  moreover have "check_signature demo_gw cva pins [] ep demo_claims ''i'' [1] (replicate 32 7) (replicate 32 5) = Ok ()"
    using assms(1)
    by (simp add: check_signature_def demo_claims_def claim_def hmac_sha256_def demo_gw_def constant_time_eq_def)
  moreover have "check_claims now ep demo_claims ''i'' ''t'' (hex_encode (replicate 32 9)) = Ok (demo_result, 100)"
    using assms(2,5)
    by (simp add: check_claims_def demo_claims_def claim_def str_list_claim_def demo_result_def delegation_claim_def
        map_filter_simps)
  moreover have "claim as_str demo_claims ''iss'' = Some ''i''" by (simp add: demo_claims_def claim_def)
  ultimately show ?thesis using assms(3,4) by (simp add: check_token_def demo_parse)
qed

lemma revoked_tokens_len_insert:
  assumes "length (revoked_tokens g) = REVOKED_TOKENS_SHARDS"
  shows "revoked_tokens_len (insert_revocation h ex g) \<le> Suc (revoked_tokens_len g)"
proof -
  define i where "i = revoked_token_shard_index h"
  have i: "i < length (revoked_tokens g)"
    using assms by (simp add: i_def revoked_token_shard_index_def fnv1a_shard_less REVOKED_TOKENS_SHARDS_def)
  have "length (AList.update h ex m) \<le> Suc (length m)" for m :: "(string, secs) hmap"
    by (induction m) auto
  then show ?thesis
    using i elem_le_sum_list [of i "map length (revoked_tokens g)"]
    by (simp add: revoked_tokens_len_def insert_revocation_def Let_def i_def [symmetric] map_update sum_list_update le_diff_conv)
qed

end
