(* ===== verification/Gateway_Threads.thy ===== *)
theory Gateway_Threads
  imports Gateway
begin

text \<open>
  The gateway under concurrency. The code takes no lock across the phases of a validation or of a
  revocation, so calls interleave. A validation loads the epochs, then either answers from the cache or
  checks the token and later stores the verdict; a revocation inserts the signature hash, enforces the
  cap, clears the cache shard by shard, and publishes new epochs. Between any two of these steps any
  other step may run, at any time, with any content of the capability authority and the trust store.

  \<open>sys_done\<close> and \<open>sys_log\<close> record history only: which revocations have been published at which cache
  generation and are still in the table, and which checks have passed.
\<close>

section \<open>Steps\<close>

record call =
  c_target :: string
  c_token :: bytes
  c_secret :: bytes

datatype job =
    Loaded GatewayEpochs call
  | Checked GatewayEpochs call TokenValidationResult secs
  | Revoking string
  | RevokeCapped string

datatype event = Silent | Verdict GatewayEpochs call "TokenValidationResult result"

record sys =
  gw :: ZeroTrustGateway
  jobs :: "job list"
  sys_done :: "(string \<times> nat) set"
  sys_log :: "(string \<times> nat \<times> TokenValidationResult) set"

definition call_key :: "gw_env \<Rightarrow> GatewayEpochs \<Rightarrow> call \<Rightarrow> string" where
  "call_key E ep c = cache_key_of E ep (c_target c) (c_token c) (c_secret c)"

definition call_check ::
  "gw_env \<Rightarrow> (string \<Rightarrow> bytes option) \<Rightarrow> (string \<Rightarrow> bytes option) \<Rightarrow> secs \<Rightarrow> GatewayEpochs \<Rightarrow> ZeroTrustGateway \<Rightarrow> call
     \<Rightarrow> (TokenValidationResult \<times> secs) result" where
  "call_check E cva pins now ep g c = check_token E cva pins now ep g (c_target c) (c_token c) (c_secret c)"

definition still_revoked :: "ZeroTrustGateway \<Rightarrow> (string \<times> nat) set \<Rightarrow> (string \<times> nat) set" where
  "still_revoked g D = {x \<in> D. is_token_revoked g (fst x)}"

definition drop_job :: "nat \<Rightarrow> job list \<Rightarrow> job list" where
  "drop_job i js = take i js @ drop (Suc i) js"

inductive gw_step :: "gw_env \<Rightarrow> sys \<Rightarrow> event \<Rightarrow> sys \<Rightarrow> bool" for E where
  load: "gw_step E s Silent (s\<lparr>jobs := jobs s @ [Loaded (epochs (gw s)) c]\<rparr>)"
| hit: "i < length (jobs s) \<Longrightarrow> jobs s ! i = Loaded ep c \<Longrightarrow>
    cache_lookup now ep (call_key E ep c) (gw s) = Some r \<Longrightarrow>
    gw_step E s (Verdict ep c (Ok r)) (s\<lparr>jobs := drop_job i (jobs s)\<rparr>)"
| check_ok: "i < length (jobs s) \<Longrightarrow> jobs s ! i = Loaded ep c \<Longrightarrow>
    call_check E cva pins now ep (gw s) c = Ok (r, until) \<Longrightarrow>
    gw_step E s Silent (s\<lparr>jobs := (jobs s)[i := Checked ep c r until],
      sys_log := insert (call_key E ep c, cache_generation ep, r) (sys_log s)\<rparr>)"
| check_err: "i < length (jobs s) \<Longrightarrow> jobs s ! i = Loaded ep c \<Longrightarrow>
    call_check E cva pins now ep (gw s) c = Err e \<Longrightarrow>
    gw_step E s (Verdict ep c (Err e)) (s\<lparr>jobs := drop_job i (jobs s)\<rparr>)"
| store_verdict: "i < length (jobs s) \<Longrightarrow> jobs s ! i = Checked ep c r until \<Longrightarrow>
    gw_step E s (Verdict ep c (Ok r))
      (s\<lparr>gw := cache_store now ep (call_key E ep c) r until (gw s), jobs := drop_job i (jobs s)\<rparr>)"
| revoke_insert: "gw_step E s Silent
    (s\<lparr>gw := insert_revocation h ex (gw s), jobs := jobs s @ [Revoking h]\<rparr>)"
| revoke_cap: "i < length (jobs s) \<Longrightarrow> jobs s ! i = Revoking h \<Longrightarrow>
    g' = enforce_revoked_tokens_cap now (gw s) \<Longrightarrow>
    gw_step E s Silent (s\<lparr>gw := g', jobs := (jobs s)[i := RevokeCapped h], sys_done := still_revoked g' (sys_done s)\<rparr>)"
| clear_shard: "gw_step E s Silent (s\<lparr>gw := (gw s)\<lparr>token_cache := (token_cache (gw s))[i := []]\<rparr>\<rparr>)"
| revoke_publish: "i < length (jobs s) \<Longrightarrow> jobs s ! i = RevokeCapped h \<Longrightarrow>
    g' = bump_revocation_epoch (gw s) \<Longrightarrow>
    gw_step E s Silent (s\<lparr>gw := g', jobs := drop_job i (jobs s),
      sys_done := still_revoked g' (insert (h, cache_generation (epochs g')) (sys_done s))\<rparr>)"
| prune: "g' = fst (prune_expired_revocations now (gw s)) \<Longrightarrow>
    gw_step E s Silent (s\<lparr>gw := g', sys_done := still_revoked g' (sys_done s)\<rparr>)"
| change_keys: "gw_step E s Silent (s\<lparr>gw := (gw s)\<lparr>trusted_issuer_keys := ks\<rparr>\<rparr>)"
| publish: "(\<And>e. cache_generation (mutate e) = cache_generation e) \<Longrightarrow>
    gw_step E s Silent (s\<lparr>gw := update_epochs mutate (gw s)\<rparr>)"

inductive reachable :: "gw_env \<Rightarrow> sys \<Rightarrow> bool" for E where
  init: "reachable E \<lparr>gw = new_gateway, jobs = [], sys_done = {}, sys_log = {}\<rparr>"
| step: "reachable E s \<Longrightarrow> gw_step E s ev s' \<Longrightarrow> reachable E s'"

inductive_cases verdict_OkE: "gw_step E s (Verdict ep c (Ok r)) s'"

section \<open>Invariant\<close>

text \<open>A verdict \<open>r\<close> computed under generation \<open>n\<close> is clear of every revocation published at or before \<open>n\<close>.\<close>

definition clear_of :: "(string \<times> nat) set \<Rightarrow> nat \<Rightarrow> TokenValidationResult \<Rightarrow> bool" where
  "clear_of D n r \<longleftrightarrow> (\<forall>(h, g) \<in> D. g \<le> n \<longrightarrow> token_sig_hash r \<noteq> h)"

definition entries :: "ZeroTrustGateway \<Rightarrow> (string \<times> CacheEntry) set" where
  "entries g = \<Union> (set ` set (token_cache g))"

definition entry_ok :: "nat \<Rightarrow> (string \<times> nat) set \<Rightarrow> (string \<times> nat \<times> TokenValidationResult) set \<Rightarrow> string \<times> CacheEntry \<Rightarrow> bool" where
  "entry_ok n D L x \<longleftrightarrow>
     (case x of (k, e) \<Rightarrow> generation e \<le> n \<and> clear_of D (generation e) (ce_result e) \<and> (k, generation e, ce_result e) \<in> L)"

fun job_ok :: "gw_env \<Rightarrow> nat \<Rightarrow> (string \<times> nat) set \<Rightarrow> (string \<times> nat \<times> TokenValidationResult) set \<Rightarrow> job \<Rightarrow> bool" where
  "job_ok E n D L (Loaded ep c) \<longleftrightarrow> cache_generation ep \<le> n"
| "job_ok E n D L (Checked ep c r until) \<longleftrightarrow>
     cache_generation ep \<le> n \<and> clear_of D (cache_generation ep) r \<and> (call_key E ep c, cache_generation ep, r) \<in> L"
| "job_ok E n D L (Revoking h) \<longleftrightarrow> True"
| "job_ok E n D L (RevokeCapped h) \<longleftrightarrow> True"

definition done_ok :: "ZeroTrustGateway \<Rightarrow> (string \<times> nat) set \<Rightarrow> bool" where
  "done_ok g D \<longleftrightarrow> (\<forall>x \<in> D. is_token_revoked g (fst x) \<and> snd x \<le> cache_generation (epochs g))"

definition shards_ok :: "ZeroTrustGateway \<Rightarrow> bool" where
  "shards_ok g \<longleftrightarrow> length (revoked_tokens g) = REVOKED_TOKENS_SHARDS \<and> length (token_cache g) = TOKEN_CACHE_SHARDS"

abbreviation gen :: "sys \<Rightarrow> nat" where
  "gen s \<equiv> cache_generation (epochs (gw s))"

definition gw_inv :: "gw_env \<Rightarrow> sys \<Rightarrow> bool" where
  "gw_inv E s \<longleftrightarrow> shards_ok (gw s) \<and> done_ok (gw s) (sys_done s) \<and>
     (\<forall>x \<in> entries (gw s). entry_ok (gen s) (sys_done s) (sys_log s) x) \<and>
     (\<forall>j \<in> set (jobs s). job_ok E (gen s) (sys_done s) (sys_log s) j)"

lemma set_drop_job: "set (drop_job i js) \<subseteq> set js"
  by (auto simp: drop_job_def dest: in_set_takeD in_set_dropD)

lemma clear_of_subset: "clear_of D n r \<Longrightarrow> D' \<subseteq> D \<Longrightarrow> clear_of D' n r"
  by (auto simp: clear_of_def)

lemma still_revoked_subset: "still_revoked g D \<subseteq> D"
  by (auto simp: still_revoked_def)

lemma clear_of_insert_later: "clear_of D n r \<Longrightarrow> n < g \<Longrightarrow> clear_of (insert (h, g) D) n r"
  by (auto simp: clear_of_def)

lemma gw_shard_index_less [simp]: "revoked_token_shard_index h < REVOKED_TOKENS_SHARDS" "token_cache_shard k < TOKEN_CACHE_SHARDS"
  by (simp_all add: revoked_token_shard_index_def token_cache_shard_def fnv1a_shard_less REVOKED_TOKENS_SHARDS_def
      TOKEN_CACHE_SHARDS_def)

lemma entries_lookup: "length (token_cache g) = TOKEN_CACHE_SHARDS \<Longrightarrow>
  map_of (token_cache g ! token_cache_shard k) k = Some e \<Longrightarrow> (k, e) \<in> entries g"
  by (auto simp: entries_def dest!: map_of_SomeD intro!: bexI [of _ "token_cache g ! token_cache_shard k"])

lemma set_delete_subset: "set (AList.delete k m) \<subseteq> set m"
  by (auto simp: AList.delete_eq)

lemma set_foldl_delete: "set (foldl (\<lambda>m k. AList.delete k m) m ks) \<subseteq> set m"
  by (induction ks arbitrary: m) (auto dest: subsetD [OF set_delete_subset])

lemma set_retain_subset: "set (retain P m) \<subseteq> set m"
  by (auto simp: retain_def)

lemma set_evict_cache: "set (evict_cache now n m) \<subseteq> set m"
  using set_foldl_delete set_retain_subset by (auto simp: evict_cache_def Let_def) blast+

lemma set_alist_update: "set (AList.update k v m) \<subseteq> insert (k, v) (set m)"
  by (induction m) auto

lemma entries_store:
  assumes "length (token_cache g) = TOKEN_CACHE_SHARDS"
  shows "entries (cache_store now ep k r until g) \<subseteq>
    insert (k, \<lparr>expiry = min (now + TOKEN_CACHE_TTL) until, ce_result = r, generation = cache_generation ep\<rparr>) (entries g)"
proof -
  define m where "m = token_cache g ! token_cache_shard k"
  have "m \<in> set (token_cache g)" using assms by (simp add: m_def)
  then have "set (evict_cache now (cache_generation ep) m) \<subseteq> entries g"
    using set_evict_cache [of now "cache_generation ep" m] by (auto simp: entries_def)
  then show ?thesis
    using set_alist_update [of k "\<lparr>expiry = min (now + TOKEN_CACHE_TTL) until, ce_result = r, generation = cache_generation ep\<rparr>"
        "evict_cache now (cache_generation ep) m"]
    by (auto simp: cache_store_def Let_def entries_def m_def [symmetric] dest!: subsetD [OF set_update_subset_insert])
qed

lemma entries_clear_shard: "entries (g\<lparr>token_cache := (token_cache g)[i := []]\<rparr>) \<subseteq> entries g"
  by (auto simp: entries_def dest!: subsetD [OF set_update_subset_insert])

lemma cache_store_simps [simp]:
  "revoked_tokens (cache_store now ep k r until g) = revoked_tokens g"
  "epochs (cache_store now ep k r until g) = epochs g"
  "length (token_cache (cache_store now ep k r until g)) = length (token_cache g)"
  by (simp_all add: cache_store_def Let_def)

lemma is_token_revoked_cong [simp]:
  "is_token_revoked (g\<lparr>token_cache := tc\<rparr>) = is_token_revoked g"
  "is_token_revoked (g\<lparr>trusted_issuer_keys := ks\<rparr>) = is_token_revoked g"
  "is_token_revoked (g\<lparr>epochs := ep\<rparr>) = is_token_revoked g"
  "is_token_revoked (cache_store now ep' k r until g) = is_token_revoked g"
  by (auto simp: is_token_revoked_def fun_eq_iff)

lemma insert_revocation_simps [simp]:
  "token_cache (insert_revocation h ex g) = token_cache g"
  "epochs (insert_revocation h ex g) = epochs g"
  "length (revoked_tokens (insert_revocation h ex g)) = length (revoked_tokens g)"
  by (simp_all add: insert_revocation_def Let_def)

lemma insert_revocation_revoked:
  "length (revoked_tokens g) = REVOKED_TOKENS_SHARDS \<Longrightarrow>
   is_token_revoked (insert_revocation h ex g) q \<longleftrightarrow> q = h \<or> is_token_revoked g q"
  by (auto simp: is_token_revoked_def insert_revocation_def Let_def nth_list_update)

lemma unrevoke_simps [simp]:
  "token_cache (unrevoke g h) = token_cache g" "epochs (unrevoke g h) = epochs g"
  "length (revoked_tokens (unrevoke g h)) = length (revoked_tokens g)"
  by (simp_all add: unrevoke_def Let_def)

lemma foldl_unrevoke_simps [simp]:
  "token_cache (foldl unrevoke g hs) = token_cache g" "epochs (foldl unrevoke g hs) = epochs g"
  "length (revoked_tokens (foldl unrevoke g hs)) = length (revoked_tokens g)"
  by (induction hs arbitrary: g) simp_all

lemma prune_simps [simp]:
  "token_cache (fst (prune_expired_revocations now g)) = token_cache g"
  "epochs (fst (prune_expired_revocations now g)) = epochs g"
  "length (revoked_tokens (fst (prune_expired_revocations now g))) = length (revoked_tokens g)"
  by (simp_all add: prune_expired_revocations_def Let_def)

lemma enforce_cap_simps [simp]:
  "token_cache (enforce_revoked_tokens_cap now g) = token_cache g"
  "epochs (enforce_revoked_tokens_cap now g) = epochs g"
  "length (revoked_tokens (enforce_revoked_tokens_cap now g)) = length (revoked_tokens g)"
  by (simp_all add: enforce_revoked_tokens_cap_def Let_def)

lemma entries_cong: "token_cache g = token_cache g' \<Longrightarrow> entries g = entries g'"
  by (simp add: entries_def)

lemma update_epochs_simps [simp]:
  "token_cache (update_epochs f g) = token_cache g" "revoked_tokens (update_epochs f g) = revoked_tokens g"
  "is_token_revoked (update_epochs f g) = is_token_revoked g"
  by (simp_all add: update_epochs_def)

lemma update_epochs_generation:
  "(\<And>e. cache_generation (f e) = cache_generation e) \<Longrightarrow>
   cache_generation (epochs (update_epochs f g)) = Suc (cache_generation (epochs g))"
  by (simp add: update_epochs_def)

lemma bump_generation: "cache_generation (epochs (bump_revocation_epoch g)) = Suc (cache_generation (epochs g))"
  unfolding bump_revocation_epoch_def by (rule update_epochs_generation) simp

lemma bump_simps [simp]:
  "token_cache (bump_revocation_epoch g) = token_cache g" "revoked_tokens (bump_revocation_epoch g) = revoked_tokens g"
  "is_token_revoked (bump_revocation_epoch g) = is_token_revoked g"
  by (simp_all add: bump_revocation_epoch_def)

lemma check_token_not_revoked:
  "check_token E cva pins now ep g target tok sec = Ok (r, until) \<Longrightarrow> \<not> is_token_revoked g (token_sig_hash r)"
  by (erule check_token_OkE) (simp add: check_claims_sig_hash)

lemma check_clear:
  "done_ok g D \<Longrightarrow> call_check E cva pins now ep g c = Ok (r, until) \<Longrightarrow> clear_of D n r"
  using check_token_not_revoked by (fastforce simp: clear_of_def call_check_def done_ok_def)

section \<open>Preservation\<close>

lemma entry_ok_mono: "entry_ok n D L x \<Longrightarrow> n \<le> n' \<Longrightarrow> D' \<subseteq> D \<Longrightarrow> L \<subseteq> L' \<Longrightarrow> entry_ok n' D' L' x"
  by (auto simp: entry_ok_def intro: clear_of_subset)

lemma job_ok_mono: "job_ok E n D L j \<Longrightarrow> n \<le> n' \<Longrightarrow> D' \<subseteq> D \<Longrightarrow> L \<subseteq> L' \<Longrightarrow> job_ok E n' D' L' j"
  by (cases j) (auto intro: clear_of_subset)

lemma entry_ok_published: "entry_ok n D L x \<Longrightarrow> entry_ok (Suc n) (insert (h, Suc n) D) L x"
  by (auto simp: entry_ok_def intro: clear_of_insert_later)

lemma job_ok_published: "job_ok E n D L j \<Longrightarrow> job_ok E (Suc n) (insert (h, Suc n) D) L j"
  by (cases j) (auto intro: clear_of_insert_later)

lemma done_ok_still: "done_ok g' (still_revoked g' D)" if "\<And>x. x \<in> D \<Longrightarrow> snd x \<le> cache_generation (epochs g')"
  using that by (auto simp: done_ok_def still_revoked_def)

lemma gw_inv_cases:
  assumes "gw_inv E s"
  shows "shards_ok (gw s)" "done_ok (gw s) (sys_done s)"
    "x \<in> entries (gw s) \<Longrightarrow> entry_ok (gen s) (sys_done s) (sys_log s) x"
    "j \<in> set (jobs s) \<Longrightarrow> job_ok E (gen s) (sys_done s) (sys_log s) j"
  using assms by (simp_all add: gw_inv_def)

text \<open>A step that drops jobs or adds harmless ones, shrinks the cache and the published revocations and
  does not lower the generation keeps the invariant.\<close>

lemma gw_inv_weaken:
  assumes "gw_inv E s" "shards_ok (gw s')" "done_ok (gw s') (sys_done s')" "sys_done s' \<subseteq> sys_done s"
    and "entries (gw s') \<subseteq> entries (gw s)" "gen s \<le> gen s'" "sys_log s \<subseteq> sys_log s'"
    and "\<And>j. j \<in> set (jobs s') \<Longrightarrow> j \<in> set (jobs s) \<or> job_ok E (gen s') (sys_done s') (sys_log s') j"
  shows "gw_inv E s'"
  unfolding gw_inv_def
proof (intro conjI ballI)
  show "shards_ok (gw s')" "done_ok (gw s') (sys_done s')" by (fact assms)+
  show "entry_ok (gen s') (sys_done s') (sys_log s') x" if "x \<in> entries (gw s')" for x
    using that assms(5) gw_inv_cases(3) [OF assms(1)] entry_ok_mono [OF _ assms(6,4,7)] by blast
  show "job_ok E (gen s') (sys_done s') (sys_log s') j" if "j \<in> set (jobs s')" for j
    using assms(8) [OF that] gw_inv_cases(4) [OF assms(1)] job_ok_mono [OF _ assms(6,4,7)] by blast
qed

lemma gw_inv_init: "gw_inv E \<lparr>gw = new_gateway, jobs = [], sys_done = {}, sys_log = {}\<rparr>"
  by (simp add: gw_inv_def shards_ok_def done_ok_def new_gateway_def entries_def)

lemma inv_store:
  assumes inv: "gw_inv E s" and j: "Checked ep c r until \<in> set (jobs s)"
  shows "gw_inv E (s\<lparr>gw := cache_store now ep (call_key E ep c) r until (gw s), jobs := drop_job i (jobs s)\<rparr>)"
  unfolding gw_inv_def
proof (intro conjI ballI)
  let ?s = "s\<lparr>gw := cache_store now ep (call_key E ep c) r until (gw s), jobs := drop_job i (jobs s)\<rparr>"
  show "shards_ok (gw ?s)" "done_ok (gw ?s) (sys_done ?s)"
    using gw_inv_cases(1,2) [OF inv] by (simp_all add: shards_ok_def done_ok_def)
  show "entry_ok (gen ?s) (sys_done ?s) (sys_log ?s) x" if "x \<in> entries (gw ?s)" for x
  proof -
    have "length (token_cache (gw s)) = TOKEN_CACHE_SHARDS" using gw_inv_cases(1) [OF inv] by (simp add: shards_ok_def)
    from subsetD [OF entries_store [OF this]] that show ?thesis
      using gw_inv_cases(3,4) [OF inv] j by (fastforce simp: entry_ok_def)
  qed
  show "job_ok E (gen ?s) (sys_done ?s) (sys_log ?s) q" if "q \<in> set (jobs ?s)" for q
    using that gw_inv_cases(4) [OF inv] set_drop_job [of i "jobs s"] by auto
qed

lemma inv_publish_revocation:
  assumes inv: "gw_inv E s" and g': "g' = bump_revocation_epoch (gw s)"
  shows "gw_inv E (s\<lparr>gw := g', jobs := drop_job i (jobs s),
      sys_done := still_revoked g' (insert (h, cache_generation (epochs g')) (sys_done s))\<rparr>)"
  unfolding gw_inv_def
proof (intro conjI ballI)
  let ?D = "insert (h, cache_generation (epochs g')) (sys_done s)"
  let ?s = "s\<lparr>gw := g', jobs := drop_job i (jobs s), sys_done := still_revoked g' ?D\<rparr>"
  have gn: "cache_generation (epochs g') = Suc (gen s)" by (simp add: g' bump_generation)
  show "shards_ok (gw ?s)" using gw_inv_cases(1) [OF inv] by (simp add: shards_ok_def g')
  have "snd x \<le> cache_generation (epochs g')" if "x \<in> ?D" for x
    using that gw_inv_cases(2) [OF inv] gn by (auto simp: done_ok_def)
  then have "done_ok g' (still_revoked g' ?D)" by (rule done_ok_still)
  then show "done_ok (gw ?s) (sys_done ?s)" by simp
  show "entry_ok (gen ?s) (sys_done ?s) (sys_log ?s) x" if "x \<in> entries (gw ?s)" for x
  proof -
    have "x \<in> entries (gw s)" using that by (simp add: g' entries_def)
    from entry_ok_published [OF gw_inv_cases(3) [OF inv this], of h]
    show ?thesis by (simp add: gn entry_ok_mono [OF _ order_refl still_revoked_subset order_refl])
  qed
  show "job_ok E (gen ?s) (sys_done ?s) (sys_log ?s) q" if "q \<in> set (jobs ?s)" for q
  proof -
    have "q \<in> set (jobs s)" using that set_drop_job [of i "jobs s"] by auto
    from job_ok_published [OF gw_inv_cases(4) [OF inv this], of h]
    show ?thesis by (simp add: gn job_ok_mono [OF _ order_refl still_revoked_subset order_refl])
  qed
qed

lemma gw_step_inv:
  assumes "gw_step E s ev s'" "gw_inv E s"
  shows "gw_inv E s'"
  using assms
proof (induction rule: gw_step.induct)
  case (load s c)
  show ?case by (intro gw_inv_weaken [OF load]) (use load in \<open>auto simp: gw_inv_def\<close>)
next
  case (hit i s ep c now r)
  then show ?case by (auto simp: gw_inv_def dest: subsetD [OF set_drop_job])
next
  case (check_ok i s ep c cva pins now r until)
  have "Loaded ep c \<in> set (jobs s)" using check_ok.hyps(1,2) by (metis nth_mem)
  then have "cache_generation ep \<le> gen s" using gw_inv_cases(4) [OF check_ok.prems] by fastforce
  moreover have "clear_of (sys_done s) (cache_generation ep) r"
    using check_clear [OF gw_inv_cases(2) [OF check_ok.prems] check_ok.hyps(3)] .
  ultimately show ?case
    by (intro gw_inv_weaken [OF check_ok.prems])
      (use gw_inv_cases(1,2) [OF check_ok.prems] in \<open>auto dest!: subsetD [OF set_update_subset_insert]\<close>)
next
  case (check_err i s ep c cva pins now e)
  then show ?case by (auto simp: gw_inv_def dest: subsetD [OF set_drop_job])
next
  case (store_verdict i s ep c r until now)
  have "Checked ep c r until \<in> set (jobs s)" using store_verdict.hyps by (metis nth_mem)
  with store_verdict.prems show ?case by (rule inv_store)
next
  case (revoke_insert s h ex)
  note inv = gw_inv_cases(1,2) [OF revoke_insert]
  show ?case
    by (intro gw_inv_weaken [OF revoke_insert])
      (use inv in \<open>auto simp: shards_ok_def done_ok_def insert_revocation_revoked entries_def\<close>)
next
  case (revoke_cap i s h g' now)
  have g': "token_cache g' = token_cache (gw s)" "epochs g' = epochs (gw s)"
    "length (revoked_tokens g') = length (revoked_tokens (gw s))" by (simp_all add: revoke_cap.hyps(3))
  note inv = gw_inv_cases(1,2) [OF revoke_cap.prems]
  show ?case
    by (intro gw_inv_weaken [OF revoke_cap.prems])
      (use inv g' still_revoked_subset [of g' "sys_done s"] in
        \<open>auto simp: shards_ok_def done_ok_def entries_def still_revoked_def dest!: subsetD [OF set_update_subset_insert]\<close>)
next
  case (clear_shard s i)
  then show ?case
    using entries_clear_shard [of "gw s" i]
    by (intro gw_inv_weaken [OF clear_shard]) (auto simp: gw_inv_def shards_ok_def done_ok_def)
next
  case (revoke_publish i s h g')
  from revoke_publish.prems revoke_publish.hyps(3) show ?case by (rule inv_publish_revocation)
next
  case (prune g' now s)
  have g': "token_cache g' = token_cache (gw s)" "epochs g' = epochs (gw s)"
    "length (revoked_tokens g') = length (revoked_tokens (gw s))" by (simp_all add: prune.hyps)
  note inv = gw_inv_cases(1,2) [OF prune.prems]
  show ?case
    by (intro gw_inv_weaken [OF prune.prems])
      (use inv g' still_revoked_subset [of g' "sys_done s"] in
        \<open>auto simp: shards_ok_def done_ok_def entries_def still_revoked_def\<close>)
next
  case (change_keys s ks)
  then show ?case by (auto simp: gw_inv_def shards_ok_def done_ok_def entries_def)
next
  case (publish mutate s)
  note inv = gw_inv_cases(1,2) [OF publish.prems]
  have "gen (s\<lparr>gw := update_epochs mutate (gw s)\<rparr>) = Suc (gen s)"
    using update_epochs_generation [OF publish.hyps] by simp
  then show ?case
    by (intro gw_inv_weaken [OF publish.prems])
      (use inv in \<open>auto simp: shards_ok_def done_ok_def entries_def intro: le_SucI\<close>)
qed

lemma reachable_inv: "reachable E s \<Longrightarrow> gw_inv E s"
  by (induction rule: reachable.induct) (auto intro: gw_inv_init gw_step_inv)

lemma verdict_Ok_source:
  assumes "gw_inv E s" "gw_step E s (Verdict ep c (Ok r)) s'"
  shows "clear_of (sys_done s) (cache_generation ep) r \<and> (call_key E ep c, cache_generation ep, r) \<in> sys_log s"
proof -
  from assms(2) consider
      (hit) now where "cache_lookup now ep (call_key E ep c) (gw s) = Some r"
    | (stored) i until where "i < length (jobs s)" "jobs s ! i = Checked ep c r until"
    by (auto elim: verdict_OkE)
  then show ?thesis
  proof cases
    case hit
    then obtain e where e: "map_of (token_cache (gw s) ! token_cache_shard (call_key E ep c)) (call_key E ep c) = Some e"
      "generation e = cache_generation ep" "ce_result e = r"
      by (auto simp: cache_lookup_def split: option.splits if_splits)
    have "(call_key E ep c, e) \<in> entries (gw s)"
      using e(1) gw_inv_cases(1) [OF assms(1)] by (auto simp: shards_ok_def intro: entries_lookup)
    from gw_inv_cases(3) [OF assms(1) this] e show ?thesis by (simp add: entry_ok_def)
  next
    case stored
    then have "Checked ep c r until \<in> set (jobs s)" by (metis nth_mem)
    from gw_inv_cases(4) [OF assms(1) this] show ?thesis by simp
  qed
qed

section \<open>A concrete run\<close>

text \<open>A revocation of \<open>''x''\<close> is carried out and published; a call then loads the new epochs and its token passes.\<close>

definition demo_call :: call where
  "demo_call = \<lparr>c_target = ''t'', c_token = demo_token, c_secret = replicate 32 5\<rparr>"

definition demo_revoked :: ZeroTrustGateway where
  "demo_revoked = bump_revocation_epoch (insert_revocation ''x'' 50 new_gateway)"

definition demo_state :: sys where
  "demo_state =
     \<lparr>gw = demo_revoked, jobs = [Checked (epochs demo_revoked) demo_call demo_result 100], sys_done = {(''x'', 1)},
      sys_log = {(call_key demo_gw (epochs demo_revoked) demo_call, 1, demo_result)}\<rparr>"

lemma demo_epochs: "cache_generation (epochs demo_revoked) = 1" "strict_asymmetric_mode (epochs demo_revoked) = False"
  "blanket_revoked_before (epochs demo_revoked) = 0" "trusted_issuer_keys demo_revoked = []"
  by (simp_all add: demo_revoked_def bump_revocation_epoch_def update_epochs_def insert_revocation_def new_gateway_def Let_def)

lemma demo_is_revoked: "is_token_revoked demo_revoked q \<longleftrightarrow> q = ''x''"
proof -
  have "length (revoked_tokens new_gateway) = REVOKED_TOKENS_SHARDS" "\<not> is_token_revoked new_gateway q"
    by (simp_all add: new_gateway_def is_token_revoked_def)
  then show ?thesis by (simp add: demo_revoked_def insert_revocation_revoked)
qed

lemma demo_cap: "enforce_revoked_tokens_cap 0 (insert_revocation ''x'' 50 new_gateway) = insert_revocation ''x'' 50 new_gateway"
proof -
  have "revoked_tokens_len (insert_revocation ''x'' 50 new_gateway) \<le> Suc (revoked_tokens_len new_gateway)"
    by (rule revoked_tokens_len_insert) (simp add: new_gateway_def)
  also have "\<dots> \<le> REVOKED_TOKENS_MAX"
    by (simp add: revoked_tokens_len_def new_gateway_def sum_list_replicate REVOKED_TOKENS_MAX_def)
  finally show ?thesis by (simp add: enforce_revoked_tokens_cap_def)
qed

lemma demo_reachable: "reachable demo_gw demo_state"
proof -
  let ?g = "insert_revocation ''x'' 50 new_gateway"
  have "reachable demo_gw \<lparr>gw = ?g, jobs = [Revoking ''x''], sys_done = {}, sys_log = {}\<rparr>"
    using reachable.step [OF reachable.init gw_step.revoke_insert [of demo_gw _ "''x''" 50]] by simp
  from reachable.step [OF this gw_step.revoke_cap [of 0 _ "''x''" ?g 0]]
  have "reachable demo_gw \<lparr>gw = ?g, jobs = [RevokeCapped ''x''], sys_done = {}, sys_log = {}\<rparr>"
    by (simp add: demo_cap still_revoked_def)
  from reachable.step [OF this gw_step.revoke_publish [of 0 _ "''x''" demo_revoked]]
  have "reachable demo_gw \<lparr>gw = demo_revoked, jobs = [], sys_done = {(''x'', 1)}, sys_log = {}\<rparr>"
    by (simp add: demo_revoked_def [symmetric] drop_job_def still_revoked_def demo_is_revoked demo_epochs Collect_conv_if)
  from reachable.step [OF this gw_step.load [of _ _ demo_call]]
  have r: "reachable demo_gw \<lparr>gw = demo_revoked, jobs = [Loaded (epochs demo_revoked) demo_call], sys_done = {(''x'', 1)}, sys_log = {}\<rparr>"
    by simp
  have "hex_encode (replicate 32 9) \<noteq> ''x''" by code_simp
  then have "call_check demo_gw (\<lambda>_. None) (\<lambda>_. None) 10 (epochs demo_revoked) demo_revoked demo_call = Ok (demo_result, 100)"
    by (simp add: call_check_def demo_call_def demo_check demo_epochs demo_is_revoked)
  with reachable.step [OF r gw_step.check_ok [of 0 _ "epochs demo_revoked" demo_call demo_gw "\<lambda>_. None" "\<lambda>_. None" 10 demo_result 100]]
  show ?thesis by (simp add: demo_state_def demo_epochs)
qed

lemma demo_verdict:
  "gw_step demo_gw demo_state (Verdict (epochs demo_revoked) demo_call (Ok demo_result))
     (demo_state\<lparr>gw := cache_store 10 (epochs demo_revoked) (call_key demo_gw (epochs demo_revoked) demo_call) demo_result 100 demo_revoked,
        jobs := []\<rparr>)"
  using gw_step.store_verdict [of 0 demo_state "epochs demo_revoked" demo_call demo_result 100 demo_gw 10]
  by (simp add: demo_state_def drop_job_def)

section \<open>Properties\<close>



end
