(* ===== verification/Gateway_Tokens.thy ===== *)
theory Gateway_Tokens
  imports Gateway "HOL-Library.Multiset"
begin

text \<open>
  What the capability gateway promises about a single token: an issued token is accepted or refused exactly
  as its claims and the revocation state say; an accepted token was authenticated by a trusted key, is
  unexpired, in scope and within the delegation limit; and a cached verdict is repeated until it expires.
\<close>

section \<open>Claims of an issued token\<close>

lemma map_of_sort_key: "distinct (map fst xs) \<Longrightarrow> map_of (sort_key fst xs) k = map_of xs k"
proof -
  assume d: "distinct (map fst xs)"
  have "mset (map fst (sort_key fst xs)) = mset (map fst xs)" by simp
  with d have d': "distinct (map fst (sort_key fst xs))" by (metis mset_eq_imp_distinct_iff)
  show ?thesis
  proof (cases "map_of xs k")
    case None
    then have "map_of (sort_key fst xs) k = None" by (simp only: map_of_eq_None_iff set_sort set_map not_False_eq_True simp_thms)
    with None show ?thesis by simp
  next
    case (Some v)
    then have "(k, v) \<in> set (sort_key fst xs)" using d by simp
    with d' Some show ?thesis by simp
  qed
qed

lemma map_filter_as_str [simp]: "List.map_filter as_str (map JStr xs) = xs"
  by (induction xs) (simp_all add: map_filter_simps)

lemma token_claims_distinct: "distinct (map fst (token_claims iat until iss allow forbid rih mac th))"
  by (simp add: token_claims_def split: option.split)

lemma token_claims_lookup:
  fixes iat until iss allow forbid rih mac th
  defines "D \<equiv> sort_key fst (token_claims iat until iss allow forbid rih mac th)"
  shows "claim as_str D ''iss'' = Some iss" "claim as_u64 D ''iat'' = Some iat" "claim as_u64 D ''exp'' = Some until"
    "set (str_list_claim D ''allow'') = set allow" "set (str_list_claim D ''forbid'') = set forbid"
    "claim as_u64 D ''max_action_class'' = Some (ucast mac)" "claim as_str D ''_sig_alg'' = None"
    "map_of D ''delegation_depth'' = None"
    "Option.bind (case map_of D ''root_intent_hash'' of Some v \<Rightarrow> Some v | None \<Rightarrow> map_of D ''thash'') as_str =
       (case rih of Some h \<Rightarrow> Some h | None \<Rightarrow> th)"
  unfolding D_def claim_def str_list_claim_def map_of_sort_key [OF token_claims_distinct]
  by (simp_all add: token_claims_def sorted_str_array_def split: option.split)

lemma parse_pack_token:
  assumes "\<And>b. b64_decode E (b64_encode E b) = Some b" "0 < length token_json" "length token_json < 2 ^ 32"
    "length signature = 32"
  shows "parse_token_wire E (pack_token E token_json signature) = Ok (token_json, signature)"
  using assms by (simp add: parse_token_wire_def pack_token_def Let_def slice_def take_bit_nat_eq_self unat_of_nat)

text \<open>What an issued token gets: the checks in the order of the code.\<close>

definition issued_outcome ::
  "ZeroTrustGateway \<Rightarrow> secs \<Rightarrow> string \<Rightarrow> u64 \<Rightarrow> u64 \<Rightarrow> string list \<Rightarrow> string list \<Rightarrow> TokenValidationResult \<Rightarrow> TokenValidationResult result" where
  "issued_outcome g now target iat until allow forbid r =
     (if is_token_revoked g (token_sig_hash r) then Err LateralMovementBlocked
      else if strict_asymmetric_mode (epochs g) then Err InvalidSignature
      else if 0 < blanket_revoked_before (epochs g) \<and> of_nat (unat iat) < blanket_revoked_before (epochs g)
      then Err LateralMovementBlocked
      else if of_nat (unat until) < now then Err TokenExpired
      else if target \<in> set forbid then Err LateralMovementBlocked
      else if target \<notin> set allow then Err ScopeViolation
      else Ok r)"

lemma check_claims_issued:
  fixes iat until iss allow forbid rih mac th
  defines "D \<equiv> sort_key fst (token_claims iat until iss allow forbid rih mac th)"
  assumes "\<not> is_token_revoked g h" "\<not> strict_asymmetric_mode (epochs g)"
  shows "map_sum (\<lambda>e. e) fst (check_claims now (epochs g) D iss target h) =
     issued_outcome g now target iat until allow forbid
       \<lparr>is_valid = True, source_agent = iss, root_intent_hash = (case rih of Some x \<Rightarrow> Some x | None \<Rightarrow> th),
        max_action_class = mac, delegation_depth = 0, token_sig_hash = h\<rparr>"
proof -
  have lt: "unat mac < 256" using unsigned_less [of mac] by simp
  then have "unat (ucast mac :: u64) = unat mac" by (simp add: unsigned_ucast_eq take_bit_nat_eq_self)
  with lt have "(ucast mac :: u64) \<le> 255" by (simp add: word_le_nat_alt)
  moreover have "ucast (ucast mac :: u64) = mac" by (rule bit_word_eqI) (simp add: bit_simps)
  ultimately show ?thesis
    using assms(2,3) unfolding check_claims_def issued_outcome_def Let_def delegation_claim_def D_def token_claims_lookup
    by (auto simp: not_less)
qed

lemma check_signature_issued:
  fixes iat until iss allow forbid rih mac th
  defines "D \<equiv> sort_key fst (token_claims iat until iss allow forbid rih mac th)"
  assumes "\<not> strict_asymmetric_mode ep"
    and "if trusted = [] then 32 \<le> length secret \<and> sec = secret else map_of trusted iss = Some secret"
  shows "check_signature E cva pins trusted ep D iss token_json (hmac_sha256 E secret token_json) sec = Ok ()"
  using assms(2,3) unfolding check_signature_def Let_def D_def token_claims_lookup
  by (auto simp: constant_time_eq_def split: if_splits)

section \<open>What an accepted token has passed\<close>

text \<open>The token is signed by the secret registered for its issuer (or, with no registry, the caller's), or
  by an Ed25519 key the capability authority or the trust store holds for it.\<close>

definition authenticated ::
  "gw_env \<Rightarrow> (string \<Rightarrow> bytes option) \<Rightarrow> (string \<Rightarrow> bytes option) \<Rightarrow> ZeroTrustGateway \<Rightarrow> bool \<Rightarrow> (string \<times> json) list \<Rightarrow> string \<Rightarrow> bytes
     \<Rightarrow> bytes \<Rightarrow> bytes \<Rightarrow> bool" where
  "authenticated E cva pins g strict obj src token_json signature sec \<longleftrightarrow>
     (\<not> strict \<and> (\<exists>secret. signature = hmac_sha256 E secret token_json \<and>
        (if trusted_issuer_keys g = [] then secret = sec \<and> 32 \<le> length sec else map_of (trusted_issuer_keys g) src = Some secret))) \<or>
     (\<exists>kid vk. claim as_str obj ''kid'' = Some kid \<and> (cva kid = Some vk \<or> cva kid = None \<and> pins src = Some vk) \<and>
        length vk = 32 \<and> length signature = 64 \<and> ed25519_verify E vk token_json signature)"

lemma check_signature_authenticated:
  assumes "check_signature E cva pins (trusted_issuer_keys g) ep obj src token_json signature sec = Ok ()"
  shows "authenticated E cva pins g (strict_asymmetric_mode ep) obj src token_json signature sec"
proof (cases "(case claim as_str obj ''_sig_alg'' of Some s \<Rightarrow> s | None \<Rightarrow> ''hmac-sha256'') = ''ed25519''")
  case True
  with assms obtain kid vk where "claim as_str obj ''kid'' = Some kid"
    "(case cva kid of Some vk \<Rightarrow> Some vk | None \<Rightarrow> pins src) = Some vk"
    "verify_ed25519_signature_inner E token_json signature vk = Ok ()"
    by (auto simp: check_signature_def split: option.splits if_split_asm)
  then show ?thesis
    unfolding authenticated_def
    by (intro disjI2 exI [of _ kid] exI [of _ vk])
      (auto simp: verify_ed25519_signature_inner_def split: option.splits if_split_asm)
next
  case False
  with assms show ?thesis
    unfolding authenticated_def
    by (intro disjI1) (auto simp: check_signature_def constant_time_eq_def Let_def split: option.splits if_split_asm)
qed

lemma delegation_claim_bound: "delegation_claim obj = Ok d \<Longrightarrow> d \<le> ACSVAF_MAX_DELEGATION_DEPTH"
  by (auto simp: delegation_claim_def not_less split: option.splits if_split_asm)

lemma check_claims_passed:
  assumes "check_claims now ep obj src target h = Ok (r, until)"
  shows "now \<le> until" "target \<in> set (str_list_claim obj ''allow'')" "target \<notin> set (str_list_claim obj ''forbid'')"
    "delegation_depth r \<le> ACSVAF_MAX_DELEGATION_DEPTH" "source_agent r = src" "token_sig_hash r = h"
    "0 < blanket_revoked_before ep \<Longrightarrow> blanket_revoked_before ep \<le>
       (case claim as_u64 obj ''iat'' of Some n \<Rightarrow> of_nat (unat n) | None \<Rightarrow> 0)"
  using assms unfolding check_claims_def Let_def
  by (auto simp: and_then_Ok_iff not_less delegation_claim_bound split: if_split_asm)

section \<open>The cache\<close>

lemma cache_store_lookup:
  assumes "length (token_cache g) = TOKEN_CACHE_SHARDS" "now' < now + TOKEN_CACHE_TTL" "now' < until"
  shows "cache_lookup now' ep key (cache_store now ep key r until g) = Some r"
proof -
  have "token_cache_shard key < length (token_cache g)"
    using assms(1) by (simp add: token_cache_shard_def fnv1a_shard_less TOKEN_CACHE_SHARDS_def)
  with assms(2,3) show ?thesis by (simp add: cache_lookup_def cache_store_def Let_def update_conv)
qed

section \<open>A concrete token\<close>

lemma new_gateway_not_revoked: "\<not> is_token_revoked new_gateway h"
  by (simp add: new_gateway_def is_token_revoked_def revoked_token_shard_index_def fnv1a_shard_less REVOKED_TOKENS_SHARDS_def)

lemma new_gateway_uncached: "cache_lookup now ep key new_gateway = None"
  by (simp add: new_gateway_def cache_lookup_def token_cache_shard_def fnv1a_shard_less TOKEN_CACHE_SHARDS_def)

lemma demo_accepted:
  "now \<le> 100 \<Longrightarrow>
   check_token demo_gw cva pins now (epochs new_gateway) new_gateway ''t'' demo_token (replicate 32 5) = Ok (demo_result, 100)"
  by (rule demo_check) (simp_all add: new_gateway_not_revoked, simp_all add: new_gateway_def)

definition issue_gw :: gw_env where
  "issue_gw = demo_gw\<lparr>json_from_slice :=
     (\<lambda>b. Some (JObj (sort_key fst (token_claims 10 40 ''i'' [''t''] [''u''] (Some ''h'') 1 None))))\<rparr>"

section \<open>Properties\<close>

text \<open>C12. Round trip of capability tokens: a token that was issued is accepted, or refused with the error
  the first failing check gives, exactly as its claims, the revocation table, the blanket revocation time and
  the mode of the gateway say; the verdict carries the issuer, the intent hash and the action class it was
  issued with.\<close>

theorem issued_token_outcome:
  assumes issued: "issue_capability_token E t secret iss allow forbid ttl rih mac th = Some tok"
    and until: "checked_add (f64_as_u64 t) ttl = Some until"
    and body: "body = serialize_sorted_json E (token_claims (f64_as_u64 t) until iss allow forbid rih mac th)"
    and b64: "\<And>b. b64_decode E (b64_encode E b) = Some b"
    and json: "json_from_slice E body = Some (JObj (sort_key fst (token_claims (f64_as_u64 t) until iss allow forbid rih mac th)))"
    and len: "0 < length body" "length body < 2 ^ 32" "length (hmac_sha256 E secret body) = 32"
    and key: "if trusted_issuer_keys g = [] then 32 \<le> length secret \<and> sec = secret else map_of (trusted_issuer_keys g) iss = Some secret"
    and fresh: "cache_lookup now (epochs g) (cache_key_of E (epochs g) target tok sec) g = None"
  shows "snd (validate_lateral_movement E cva pins now target tok sec g) =
    issued_outcome g now target (f64_as_u64 t) until allow forbid
      \<lparr>is_valid = True, source_agent = iss, root_intent_hash = (case rih of Some x \<Rightarrow> Some x | None \<Rightarrow> th),
       max_action_class = mac, delegation_depth = 0, token_sig_hash = sha256_hex E (hmac_sha256 E secret body)\<rparr>"
proof -
  let ?D = "sort_key fst (token_claims (f64_as_u64 t) until iss allow forbid rih mac th)"
  let ?sig = "hmac_sha256 E secret body"
  have tok: "tok = pack_token E body ?sig"
    using issued until body by (simp add: issue_capability_token_def Let_def)
  have parse: "parse_token_wire E tok = Ok (body, ?sig)"
    using parse_pack_token [OF b64 len] tok by simp
  have v: "snd (validate_lateral_movement E cva pins now target tok sec g) =
      map_sum (\<lambda>e. e) fst (check_token E cva pins now (epochs g) g target tok sec)"
    using fresh by (simp add: validate_lateral_movement_def Let_def split: sum.split)
  have c: "check_token E cva pins now (epochs g) g target tok sec =
      (if is_token_revoked g (sha256_hex E ?sig) then Err LateralMovementBlocked
       else and_then (check_signature E cva pins (trusted_issuer_keys g) (epochs g) ?D iss body ?sig sec)
              (\<lambda>_. check_claims now (epochs g) ?D iss target (sha256_hex E ?sig)))"
    by (simp add: check_token_def parse json token_claims_lookup)
  consider "is_token_revoked g (sha256_hex E ?sig)"
    | "\<not> is_token_revoked g (sha256_hex E ?sig)" "strict_asymmetric_mode (epochs g)"
    | "\<not> is_token_revoked g (sha256_hex E ?sig)" "\<not> strict_asymmetric_mode (epochs g)" by blast
  then show ?thesis
  proof cases
    case 1
    then show ?thesis by (simp add: v c issued_outcome_def)
  next
    case 2
    then show ?thesis by (simp add: v c issued_outcome_def check_signature_def token_claims_lookup)
  next
    case 3
    then show ?thesis by (simp add: v c check_signature_issued [OF 3(2) key] check_claims_issued)
  qed
qed

theorem issued_token_outcome_witness:
  "\<exists>tok. issue_capability_token issue_gw 10 (replicate 32 5) ''i'' [''t''] [''u''] 30 (Some ''h'') 1 None = Some tok \<and>
     map_sum (\<lambda>e. e) source_agent
       (snd (validate_lateral_movement issue_gw (\<lambda>_. None) (\<lambda>_. None) 40 ''t'' tok (replicate 32 5) new_gateway)) = Ok ''i''"
proof -
  let ?D = "token_claims 10 40 ''i'' [''t''] [''u''] (Some ''h'') 1 None"
  have n: "f64_as_u64 10 = 10" by (simp add: f64_as_u64_def)
  have a: "checked_add (f64_as_u64 10) 30 = Some 40" unfolding n by code_simp
  have "serialize_sorted_json issue_gw D = [1]" for D by (simp add: serialize_sorted_json_def issue_gw_def demo_gw_def)
  then obtain tok where t: "issue_capability_token issue_gw 10 (replicate 32 5) ''i'' [''t''] [''u''] 30 (Some ''h'') 1 None = Some tok"
    by (simp add: issue_capability_token_def Let_def a)
  have "snd (validate_lateral_movement issue_gw (\<lambda>_. None) (\<lambda>_. None) 40 ''t'' tok (replicate 32 5) new_gateway) =
    issued_outcome new_gateway 40 ''t'' 10 40 [''t''] [''u'']
      \<lparr>is_valid = True, source_agent = ''i'', root_intent_hash = Some ''h'', max_action_class = 1, delegation_depth = 0,
       token_sig_hash = sha256_hex issue_gw (hmac_sha256 issue_gw (replicate 32 5) (serialize_sorted_json issue_gw ?D))\<rparr>"
    using issued_token_outcome [OF t a refl, of new_gateway "replicate 32 5" 40 "''t''" "\<lambda>_. None" "\<lambda>_. None"]
    by (simp add: n new_gateway_uncached)
      (simp add: issue_gw_def demo_gw_def serialize_sorted_json_def hmac_sha256_def new_gateway_def)
  then show ?thesis
    using t by (simp add: issued_outcome_def new_gateway_not_revoked) (simp add: new_gateway_def)
qed



text \<open>A cached verdict is repeated: after a token has been accepted, the same call is answered with the
  same verdict for the following 30 seconds or until the token expires, whatever the capability authority and
  the trust store hold by then. Removing a key from a registered authority therefore does not end the
  acceptance of tokens it signed.\<close>

lemma cached_verdict_repeated:
  assumes "validate_lateral_movement E cva pins now target tok sec g = (g', Ok r)"
    and "cache_lookup now (epochs g) (cache_key_of E (epochs g) target tok sec) g = None"
    and "check_token E cva pins now (epochs g) g target tok sec = Ok (r, until)"
    and "length (token_cache g) = TOKEN_CACHE_SHARDS" "now' < now + TOKEN_CACHE_TTL" "now' < until"
  shows "validate_lateral_movement E cva' pins' now' target tok sec g' = (g', Ok r)"
proof -
  have "g' = cache_store now (epochs g) (cache_key_of E (epochs g) target tok sec) r until g"
    using assms(1-3) by (simp add: validate_lateral_movement_def Let_def)
  then show ?thesis
    using cache_store_lookup [OF assms(4-6)] by (simp add: validate_lateral_movement_def cache_store_def Let_def)
qed

end
