(* ===== verification/Rrbc.thy ===== *)
theory Rrbc
  imports Gateway_Tokens
begin

text \<open>
  Replay-resistant bound capabilities, \<open>RRBCGateway\<close> of \<open>src/gateway.rs\<close>: issuing, redeeming with or without
  proof of possession, revocation and the replay registry. The fresh identifier of an issued token is the
  argument \<open>jti\<close>. A redemption runs the phases of the code in order: it verifies the token, enters the
  triple of identifier, nonce and session into the registry, takes one use, and then checks the proof of
  possession. The outcome None is the panic on \<open>max_use - 1\<close> below the range of i64.

  The lemmas show that a triple is redeemed at most once, that a registered token is redeemed at most
  \<open>max_use\<close> times, and where the usage limit is not enforced.
\<close>

section \<open>State\<close>

record RRBCRedemptionResult =
  rr_jti :: string
  issuer_agent :: string
  allowed_agents :: "string list"
  forbidden_agents :: "string list"
  actions :: "string list"
  audience :: "string list"
  rr_sid :: string
  rr_cid :: string
  rr_oaid :: string
  remaining_uses :: int
  rr_max_action_class :: u8

record RRBCTokenRecord =
  tr_data :: json
  remaining :: int
  tr_revoked :: bool

definition RRBC_REPLAY_REGISTRY_MAX :: nat where "RRBC_REPLAY_REGISTRY_MAX = 500000"

record RRBCGateway =
  replay_registry :: "(string \<times> string \<times> string, secs) hmap"
  tokens :: "(string, RRBCTokenRecord) hmap"
  revoked_jtis :: "string set"

definition new_rrbc :: RRBCGateway where
  "new_rrbc = \<lparr>replay_registry = [], tokens = [], revoked_jtis = {}\<rparr>"

fun as_i64 :: "json \<Rightarrow> int option" where
  "as_i64 (JNum (PosInt n)) = (if unat n < 2 ^ 63 then Some (int (unat n)) else None)"
| "as_i64 (JNum (NegInt i)) = (if - (2 ^ 63) \<le> i then Some i else None)"
| "as_i64 _ = None"

definition json_i64 :: "int \<Rightarrow> json" where
  "json_i64 i = JNum (if i < 0 then NegInt i else PosInt (word_of_int i))"

definition str_claim :: "(string \<times> json) list \<Rightarrow> string \<Rightarrow> string" where
  "str_claim obj k = (case claim as_str obj k of Some s \<Rightarrow> s | None \<Rightarrow> [])"

definition time_claim :: "(string \<times> json) list \<Rightarrow> string \<Rightarrow> secs" where
  "time_claim obj k = (case claim as_f64 obj k of Some t \<Rightarrow> t | None \<Rightarrow> 0)"

section \<open>Issuing\<close>

record rrbc_request =
  rq_issuer :: string
  rq_allowed :: "string list"
  rq_forbidden :: "string list"
  rq_actions :: "string list"
  rq_audience :: "string list"
  rq_sid :: string
  rq_cid :: string
  rq_oaid :: string
  rq_max_use :: int
  rq_ttl :: u64
  rq_max_action_class :: u8
  rq_pop_key :: "bytes option"

definition rrbc_claims :: "gw_env \<Rightarrow> string \<Rightarrow> u64 \<Rightarrow> u64 \<Rightarrow> rrbc_request \<Rightarrow> (string \<times> json) list" where
  "rrbc_claims E jti iat until q =
     [(''jti'', JStr jti), (''iat'', JNum (PosInt iat)), (''nbf'', JNum (PosInt iat)), (''exp'', JNum (PosInt until)),
      (''iss'', JStr (rq_issuer q)), (''aud'', JArr (map JStr (rq_audience q))), (''sid'', JStr (rq_sid q)),
      (''cid'', JStr (rq_cid q)), (''oaid'', JStr (rq_oaid q)), (''actions'', JArr (map JStr (rq_actions q))),
      (''allow'', JArr (map JStr (rq_allowed q))), (''forbid'', JArr (map JStr (rq_forbidden q))),
      (''max_use'', json_i64 (rq_max_use q)), (''max_action_class'', JNum (PosInt (ucast (rq_max_action_class q))))] @
     (case rq_pop_key q of Some k \<Rightarrow> [(''pop_key'', JStr (map (\<lambda>b. char_of (unat b)) (b64_encode E k)))] | None \<Rightarrow> [])"

definition rrbc_issue_token ::
  "gw_env \<Rightarrow> string \<Rightarrow> secs \<Rightarrow> bytes \<Rightarrow> rrbc_request \<Rightarrow> RRBCGateway \<Rightarrow> RRBCGateway \<times> bytes option" where
  "rrbc_issue_token E jti now issuer_secret q g =
     (let iat = f64_as_u64 now
      in case checked_add iat (rq_ttl q) of
           None \<Rightarrow> (g, None)
         | Some until \<Rightarrow>
             (let token_json = json_to_vec E (JObj (sort_key fst (rrbc_claims E jti iat until q)));
                  signature = hmac_sha256 E issuer_secret token_json;
                  data = (case json_from_slice E token_json of Some v \<Rightarrow> v | None \<Rightarrow> JNull);
                  rec = \<lparr>tr_data = data, remaining = rq_max_use q, tr_revoked = False\<rparr>
              in (g\<lparr>tokens := AList.update jti rec (tokens g)\<rparr>, Some (pack_token E token_json signature))))"

section \<open>Redeeming\<close>

record presentation =
  p_token :: bytes
  p_rnonce :: string
  p_agent :: string
  p_sid :: string
  p_cid :: string
  p_oaid :: string
  p_secret :: bytes
  p_proof :: "bytes option"

text \<open>The checks that change nothing: signature, revocation, validity period, bindings, audience.\<close>

definition rrbc_verify :: "gw_env \<Rightarrow> secs \<Rightarrow> presentation \<Rightarrow> RRBCGateway \<Rightarrow> (string \<times> json) list result" where
  "rrbc_verify E now p g =
     (case parse_token_wire E (p_token p) of
        Inl _ \<Rightarrow> Err LateralMovementBlocked
      | Inr (token_json, signature) \<Rightarrow>
          (let expected_sig = hmac_sha256 E (p_secret p) token_json
           in if length signature \<noteq> length expected_sig \<or> \<not> constant_time_eq expected_sig signature
              then Err InvalidSignature
              else
                (case json_from_slice E token_json of
                   None \<Rightarrow> Err LateralMovementBlocked
                 | Some data \<Rightarrow>
                     (case as_object data of
                        None \<Rightarrow> Err LateralMovementBlocked
                      | Some obj \<Rightarrow>
                          if str_claim obj ''jti'' \<in> revoked_jtis g then Err LateralMovementBlocked
                          else if now < time_claim obj ''nbf'' then Err TokenExpired
                          else if time_claim obj ''exp'' < now then Err TokenExpired
                          else if p_sid p \<noteq> str_claim obj ''sid'' \<or> p_cid p \<noteq> str_claim obj ''cid'' \<or>
                                  p_oaid p \<noteq> str_claim obj ''oaid''
                          then Err RrbcBindingMismatch
                          else if p_agent p \<notin> set (str_list_claim obj ''aud'') then Err ScopeViolation
                          else Ok obj))))"

definition rrbc_consume ::
  "secs \<Rightarrow> string \<times> string \<times> string \<Rightarrow> secs \<Rightarrow> RRBCGateway \<Rightarrow> RRBCGateway \<times> unit result" where
  "rrbc_consume now replay_key exp_at g =
     (let reg = (if RRBC_REPLAY_REGISTRY_MAX div 2 \<le> length (replay_registry g)
                 then retain (\<lambda>_ token_exp. now < token_exp) (replay_registry g) else replay_registry g);
          g1 = g\<lparr>replay_registry := reg\<rparr>
      in if RRBC_REPLAY_REGISTRY_MAX \<le> length reg then (g1, Err CircuitBreakerOpen)
         else if contains_key reg replay_key then (g1, Err RrbcReplayDetected)
         else (g\<lparr>replay_registry := AList.update replay_key exp_at reg\<rparr>, Ok ()))"

definition rrbc_use :: "string \<Rightarrow> (string \<times> json) list \<Rightarrow> RRBCGateway \<Rightarrow> RRBCGateway \<times> int result option" where
  "rrbc_use jti obj g =
     (case map_of (tokens g) jti of
        Some rec \<Rightarrow>
          if remaining rec \<le> 0 then (g, Some (Err RrbcUsageExhausted))
          else (g\<lparr>tokens := AList.update jti (rec\<lparr>remaining := remaining rec - 1\<rparr>) (tokens g)\<rparr>,
                Some (Ok (remaining rec - 1)))
      | None \<Rightarrow>
          (let max_use = (case claim as_i64 obj ''max_use'' of Some n \<Rightarrow> n | None \<Rightarrow> 1)
           in (g, if max_use = - (2 ^ 63) then None else Some (Ok (max_use - 1)))))"

definition rrbc_pop :: "gw_env \<Rightarrow> (string \<times> json) list \<Rightarrow> string \<Rightarrow> bytes option \<Rightarrow> unit result" where
  "rrbc_pop E obj rnonce pop_proof =
     (case claim as_str obj ''pop_key'' of
        Some pop_key_b64 \<Rightarrow>
          (case b64_decode E (str_bytes pop_key_b64) of
             None \<Rightarrow> Err RrbcPopFailed
           | Some pop_key \<Rightarrow>
               (case pop_proof of
                  None \<Rightarrow> Err RrbcPopFailed
                | Some proof \<Rightarrow>
                    (case verify_ed25519_signature_inner E (str_bytes rnonce) proof pop_key of
                       Inl _ \<Rightarrow> Err RrbcPopFailed | Inr _ \<Rightarrow> Ok ())))
      | None \<Rightarrow> if pop_proof \<noteq> None then Err RrbcPopFailed else Ok ())"

definition rrbc_result :: "(string \<times> json) list \<Rightarrow> int \<Rightarrow> RRBCRedemptionResult result" where
  "rrbc_result obj left =
     (let mac_raw = (case claim as_u64 obj ''max_action_class'' of Some n \<Rightarrow> n | None \<Rightarrow> 0)
      in if 255 < mac_raw then Err ActionClassEscalation
         else Ok \<lparr>rr_jti = str_claim obj ''jti'', issuer_agent = str_claim obj ''iss'',
                  allowed_agents = str_list_claim obj ''allow'', forbidden_agents = str_list_claim obj ''forbid'',
                  actions = str_list_claim obj ''actions'', audience = str_list_claim obj ''aud'',
                  rr_sid = str_claim obj ''sid'', rr_cid = str_claim obj ''cid'', rr_oaid = str_claim obj ''oaid'',
                  remaining_uses = left, rr_max_action_class = ucast mac_raw\<rparr>)"

definition redeem_token_with_pop ::
  "gw_env \<Rightarrow> secs \<Rightarrow> presentation \<Rightarrow> RRBCGateway \<Rightarrow> RRBCGateway \<times> RRBCRedemptionResult result option" where
  "redeem_token_with_pop E now p g =
     (case rrbc_verify E now p g of
        Inl e \<Rightarrow> (g, Some (Err e))
      | Inr obj \<Rightarrow>
          (let jti = str_claim obj ''jti''
           in case rrbc_consume now (jti, p_rnonce p, p_sid p) (time_claim obj ''exp'') g of
                (g1, Inl e) \<Rightarrow> (g1, Some (Err e))
              | (g1, Inr _) \<Rightarrow>
                  (case rrbc_use jti obj g1 of
                     (g2, None) \<Rightarrow> (g2, None)
                   | (g2, Some (Inl e)) \<Rightarrow> (g2, Some (Err e))
                   | (g2, Some (Inr left)) \<Rightarrow>
                       (g2, Some (and_then (rrbc_pop E obj (p_rnonce p) (p_proof p)) (\<lambda>_. rrbc_result obj left))))))"

definition redeem_token ::
  "gw_env \<Rightarrow> secs \<Rightarrow> presentation \<Rightarrow> RRBCGateway \<Rightarrow> RRBCGateway \<times> RRBCRedemptionResult result option" where
  "redeem_token E now p g = redeem_token_with_pop E now (p\<lparr>p_proof := None\<rparr>) g"

section \<open>Revocation and the registry\<close>

definition rrbc_revoke_token :: "string \<Rightarrow> RRBCGateway \<Rightarrow> RRBCGateway" where
  "rrbc_revoke_token jti g =
     (let g1 = g\<lparr>revoked_jtis := insert jti (revoked_jtis g)\<rparr>
      in case map_of (tokens g1) jti of
           Some rec \<Rightarrow> g1\<lparr>tokens := AList.update jti (rec\<lparr>tr_revoked := True, remaining := 0\<rparr>) (tokens g1)\<rparr>
         | None \<Rightarrow> g1)"

definition is_jti_revoked :: "RRBCGateway \<Rightarrow> string \<Rightarrow> bool" where
  "is_jti_revoked g jti \<longleftrightarrow> jti \<in> revoked_jtis g"

definition get_remaining_uses :: "RRBCGateway \<Rightarrow> string \<Rightarrow> int option" where
  "get_remaining_uses g jti = map_option remaining (map_of (tokens g) jti)"

definition clear_replay_registry :: "RRBCGateway \<Rightarrow> RRBCGateway \<times> nat" where
  "clear_replay_registry g = (g\<lparr>replay_registry := []\<rparr>, length (replay_registry g))"

definition prune_expired_replay_entries :: "secs \<Rightarrow> RRBCGateway \<Rightarrow> RRBCGateway \<times> nat" where
  "prune_expired_replay_entries now g =
     (let reg = retain (\<lambda>_ token_exp. now < token_exp) (replay_registry g)
      in (g\<lparr>replay_registry := reg\<rparr>, length (replay_registry g) - length reg))"

definition replay_registry_size :: "RRBCGateway \<Rightarrow> nat" where
  "replay_registry_size g = length (replay_registry g)"

section \<open>Runs\<close>

datatype rrbc_op =
    IssueOp string bytes rrbc_request
  | RedeemOp presentation
  | RevokeOp string
  | PruneOp
  | ClearOp

fun rrbc_step :: "gw_env \<Rightarrow> RRBCGateway \<Rightarrow> secs \<times> rrbc_op \<Rightarrow> RRBCGateway \<times> RRBCRedemptionResult option" where
  "rrbc_step E g (now, IssueOp jti secret q) = (fst (rrbc_issue_token E jti now secret q g), None)"
| "rrbc_step E g (now, RedeemOp p) =
     (case redeem_token_with_pop E now p g of (g', Some (Inr r)) \<Rightarrow> (g', Some r) | (g', _) \<Rightarrow> (g', None))"
| "rrbc_step E g (now, RevokeOp jti) = (rrbc_revoke_token jti g, None)"
| "rrbc_step E g (now, PruneOp) = (fst (prune_expired_replay_entries now g), None)"
| "rrbc_step E g (now, ClearOp) = (fst (clear_replay_registry g), None)"

definition rrbc_run :: "gw_env \<Rightarrow> RRBCGateway \<Rightarrow> (secs \<times> rrbc_op) list \<Rightarrow> RRBCGateway" where
  "rrbc_run E g xs = foldl (\<lambda>g x. fst (rrbc_step E g x)) g xs"

text \<open>How often a run redeems the identifier \<open>j\<close>.\<close>

fun redemptions :: "gw_env \<Rightarrow> string \<Rightarrow> RRBCGateway \<Rightarrow> (secs \<times> rrbc_op) list \<Rightarrow> nat" where
  "redemptions E j g [] = 0"
| "redemptions E j g (x # xs) =
     (case rrbc_step E g x of
        (g', Some r) \<Rightarrow> (if rr_jti r = j then 1 else 0) + redemptions E j g' xs
      | (g', None) \<Rightarrow> redemptions E j g' xs)"

fun issues :: "string \<Rightarrow> secs \<times> rrbc_op \<Rightarrow> bool" where
  "issues j (now, IssueOp jti secret q) \<longleftrightarrow> jti = j"
| "issues j (now, _) \<longleftrightarrow> False"

section \<open>One redemption\<close>

lemma rrbc_result_jti: "rrbc_result obj left = Ok r \<Longrightarrow> rr_jti r = str_claim obj ''jti'' \<and> remaining_uses r = left"
  by (auto simp: rrbc_result_def Let_def split: if_split_asm)

lemma rrbc_consume_tokens: "tokens (fst (rrbc_consume now k x g)) = tokens g"
  by (simp add: rrbc_consume_def Let_def)

lemma rrbc_use_registry: "replay_registry (fst (rrbc_use j obj g)) = replay_registry g"
  by (auto simp: rrbc_use_def Let_def split: option.split)

lemma redeem_OkE:
  assumes "redeem_token_with_pop E now p g = (g', Some (Ok r))"
  obtains obj g1 left where "rrbc_verify E now p g = Ok obj"
    "rrbc_consume now (str_claim obj ''jti'', p_rnonce p, p_sid p) (time_claim obj ''exp'') g = (g1, Ok ())"
    "rrbc_use (str_claim obj ''jti'') obj g1 = (g', Some (Ok left))"
    "rrbc_pop E obj (p_rnonce p) (p_proof p) = Ok ()" "rrbc_result obj left = Ok r"
proof (cases "rrbc_verify E now p g")
  case (Inl e)
  then show thesis using assms by (simp add: redeem_token_with_pop_def)
next
  case (Inr obj)
  let ?j = "str_claim obj ''jti''"
  obtain g1 c where c: "rrbc_consume now (?j, p_rnonce p, p_sid p) (time_claim obj ''exp'') g = (g1, c)" by fastforce
  obtain g2 u where u: "rrbc_use ?j obj g1 = (g2, u)" by fastforce
  have c': "c = Ok ()"
    using assms Inr c by (cases c) (simp_all add: redeem_token_with_pop_def Let_def)
  with assms Inr c u have *: "(case u of None \<Rightarrow> (g2, None) | Some (Inl e) \<Rightarrow> (g2, Some (Err e))
      | Some (Inr left) \<Rightarrow> (g2, Some (and_then (rrbc_pop E obj (p_rnonce p) (p_proof p)) (\<lambda>_. rrbc_result obj left)))) =
      (g', Some (Ok r))"
    by (simp add: redeem_token_with_pop_def Let_def)
  then obtain left where "u = Some (Ok left)" by (auto split: option.splits sum.splits)
  with * c c' u show thesis by (intro that [OF Inr]) (auto simp: and_then_Ok_iff)
qed

text \<open>What any redemption, accepted or not, does to the registry and to the counters.\<close>

lemma redeem_state:
  assumes "redeem_token_with_pop E now p g = (g', out)"
  obtains (refused) "g' = g"
  | (reached) k x g1 where "g1 = fst (rrbc_consume now k x g)" "g' = g1 \<or> (\<exists>j obj. g' = fst (rrbc_use j obj g1))"
proof (cases "rrbc_verify E now p g")
  case (Inl e)
  then show thesis using assms refused by (simp add: redeem_token_with_pop_def)
next
  case (Inr obj)
  let ?k = "(str_claim obj ''jti'', p_rnonce p, p_sid p)"
  obtain g1 c where c: "rrbc_consume now ?k (time_claim obj ''exp'') g = (g1, c)" by fastforce
  obtain g2 u where u: "rrbc_use (str_claim obj ''jti'') obj g1 = (g2, u)" by fastforce
  have "g' = g1 \<or> g' = g2"
    using assms Inr c u by (auto simp: redeem_token_with_pop_def Let_def split: sum.splits option.splits)
  moreover have "g2 = fst (rrbc_use (str_claim obj ''jti'') obj g1)" using u by simp
  moreover have "g1 = fst (rrbc_consume now ?k (time_claim obj ''exp'') g)" using c by simp
  ultimately show thesis using reached by blast
qed

section \<open>Usage\<close>

definition uses_left :: "RRBCGateway \<Rightarrow> string \<Rightarrow> int option" where
  "uses_left g j = map_option remaining (map_of (tokens g) j)"

lemma rrbc_use_left:
  assumes "uses_left g j = Some n"
  shows "\<exists>n' \<le> n. uses_left (fst (rrbc_use i obj g)) j = Some n' \<and> (0 \<le> n \<longrightarrow> 0 \<le> n')"
  using assms by (auto simp: rrbc_use_def uses_left_def Let_def split: option.split)

lemma rrbc_use_Ok:
  assumes "rrbc_use j obj g = (g', Some (Ok left))" "uses_left g j = Some n"
  shows "0 < n" "uses_left g' j = Some (n - 1)"
  using assms by (auto simp: rrbc_use_def uses_left_def Let_def split: option.splits if_split_asm)

lemma redeem_uses_left:
  assumes "redeem_token_with_pop E now p g = (g', out)" "uses_left g j = Some n" "0 \<le> n"
  shows "\<exists>n'. uses_left g' j = Some n' \<and> 0 \<le> n' \<and> n' \<le> n"
  using assms(1)
proof (cases rule: redeem_state)
  case refused
  then show ?thesis using assms(2,3) by auto
next
  case (reached k x g1)
  then have "uses_left g1 j = Some n" using assms(2) by (simp add: uses_left_def rrbc_consume_tokens)
  with reached(2) rrbc_use_left [OF this] assms(3) show ?thesis by auto
qed

lemma step_uses_left:
  assumes "uses_left g j = Some n" "0 \<le> n" "\<not> issues j x"
  shows "\<exists>n'. uses_left (fst (rrbc_step E g x)) j = Some n' \<and> 0 \<le> n' \<and>
    n' + (case snd (rrbc_step E g x) of Some r \<Rightarrow> if rr_jti r = j then 1 else 0 | None \<Rightarrow> 0) \<le> n"
proof (cases "(E, g, x)" rule: rrbc_step.cases)
  case (1 E' g0 now jti secret q)
  then show ?thesis
    using assms by (auto simp: rrbc_issue_token_def Let_def uses_left_def split: option.split)
next
  case (2 E' g0 now p)
  obtain g' out where r: "redeem_token_with_pop E now p g = (g', out)" by fastforce
  show ?thesis
  proof (cases "\<exists>q. out = Some (Ok q) \<and> rr_jti q = j")
    case True
    then obtain q where q: "out = Some (Ok q)" "rr_jti q = j" by blast
    from redeem_OkE [OF r [unfolded q(1)]] obtain obj g1 left where
      o: "rrbc_consume now (str_claim obj ''jti'', p_rnonce p, p_sid p) (time_claim obj ''exp'') g = (g1, Ok ())"
      "rrbc_use (str_claim obj ''jti'') obj g1 = (g', Some (Ok left))" "rrbc_result obj left = Ok q" by metis
    have "str_claim obj ''jti'' = j" using rrbc_result_jti [OF o(3)] q(2) by simp
    moreover have "uses_left g1 j = Some n"
      using rrbc_consume_tokens [of now "(str_claim obj ''jti'', p_rnonce p, p_sid p)" "time_claim obj ''exp''" g] o(1) assms(1)
      by (simp add: uses_left_def)
    ultimately have "0 < n" "uses_left g' j = Some (n - 1)" using rrbc_use_Ok [of j obj g1 g' left n] o(2) by auto
    then show ?thesis using 2 r q by simp
  next
    case False
    from redeem_uses_left [OF r assms(1,2)] obtain n' where "uses_left g' j = Some n'" "0 \<le> n'" "n' \<le> n" by blast
    with False 2 r show ?thesis by (cases out; cases "the out") auto
  qed
next
  case (3 E' g0 now jti)
  then show ?thesis
    using assms by (auto simp: rrbc_revoke_token_def Let_def uses_left_def split: option.split)
next
  case (4 E' g0 now)
  then show ?thesis using assms by (auto simp: prune_expired_replay_entries_def Let_def uses_left_def)
next
  case (5 E' g0 now)
  then show ?thesis using assms by (auto simp: clear_replay_registry_def uses_left_def)
qed

lemma redemptions_bounded:
  assumes "uses_left g j = Some n" "0 \<le> n" "\<forall>x \<in> set xs. \<not> issues j x"
  shows "int (redemptions E j g xs) \<le> n"
  using assms
proof (induction xs arbitrary: g n)
  case Nil
  then show ?case by simp
next
  case (Cons x xs)
  from step_uses_left [OF Cons.prems(1,2), of x E] Cons.prems(3) obtain n' where
    n': "uses_left (fst (rrbc_step E g x)) j = Some n'" "0 \<le> n'"
      "n' + (case snd (rrbc_step E g x) of Some r \<Rightarrow> if rr_jti r = j then 1 else 0 | None \<Rightarrow> 0) \<le> n" by auto
  have "int (redemptions E j (fst (rrbc_step E g x)) xs) \<le> n'" using Cons.IH [OF n'(1,2)] Cons.prems(3) by simp
  with n'(3) show ?case by (cases "rrbc_step E g x"; cases "snd (rrbc_step E g x)") auto
qed

section \<open>Replay\<close>

definition holds_key :: "string \<times> string \<times> string \<Rightarrow> secs \<Rightarrow> RRBCGateway \<Rightarrow> bool" where
  "holds_key k x g \<longleftrightarrow> hm_wf (replay_registry g) \<and> map_of (replay_registry g) k = Some x"

lemma rrbc_consume_wf: "hm_wf (replay_registry g) \<Longrightarrow> hm_wf (replay_registry (fst (rrbc_consume now k x g)))"
  by (simp add: rrbc_consume_def Let_def)

lemma rrbc_consume_holds:
  assumes "holds_key k x g" "now < x"
  shows "holds_key k x (fst (rrbc_consume now k' x' g)) \<and> snd (rrbc_consume now k x'' g) \<noteq> Ok ()"
proof -
  define reg where "reg = (if RRBC_REPLAY_REGISTRY_MAX div 2 \<le> length (replay_registry g)
    then retain (\<lambda>_ token_exp. now < token_exp) (replay_registry g) else replay_registry g)"
  have "hm_wf reg" "map_of reg k = Some x"
    using assms by (simp_all add: reg_def holds_key_def map_of_retain)
  then show ?thesis
    by (auto simp: holds_key_def rrbc_consume_def Let_def reg_def [symmetric])
qed

lemma rrbc_consume_Ok_holds:
  "hm_wf (replay_registry g) \<Longrightarrow> rrbc_consume now k x g = (g', Ok ()) \<Longrightarrow> holds_key k x g'"
  by (auto simp: rrbc_consume_def Let_def holds_key_def split: if_split_asm)

lemma step_holds:
  assumes "holds_key k x g" "fst y < x" "snd y \<noteq> ClearOp"
  shows "holds_key k x (fst (rrbc_step E g y))"
proof (cases "(E, g, y)" rule: rrbc_step.cases)
  case (1 E' g0 now jti secret q)
  then show ?thesis using assms by (auto simp: holds_key_def rrbc_issue_token_def Let_def split: option.split)
next
  case (2 E' g0 now p)
  obtain g' out where r: "redeem_token_with_pop E now p g = (g', out)" by fastforce
  then have "holds_key k x g'"
  proof (cases rule: redeem_state)
    case refused
    then show ?thesis using assms by simp
  next
    case (reached k' x' g1)
    then have "holds_key k x g1" using rrbc_consume_holds [of k x g now k' x'] assms 2 by simp
    with reached(2) show ?thesis by (auto simp: holds_key_def rrbc_use_registry)
  qed
  then show ?thesis using 2 r by (cases out; cases "the out") auto
next
  case (3 E' g0 now jti)
  then show ?thesis using assms by (auto simp: holds_key_def rrbc_revoke_token_def Let_def split: option.split)
next
  case (4 E' g0 now)
  then show ?thesis using assms by (simp add: holds_key_def prune_expired_replay_entries_def Let_def map_of_retain)
next
  case (5 E' g0 now)
  then show ?thesis using assms by simp
qed

lemma run_holds:
  "holds_key k x g \<Longrightarrow> \<forall>y \<in> set ys. fst y < x \<and> snd y \<noteq> ClearOp \<Longrightarrow> holds_key k x (rrbc_run E g ys)"
proof (induction ys arbitrary: g)
  case Nil
  then show ?case by (simp add: rrbc_run_def)
next
  case (Cons y ys)
  then show ?case using step_holds [of k x g y E] by (simp add: rrbc_run_def)
qed

lemma rrbc_verify_body:
  "rrbc_verify E now p g = Ok obj \<Longrightarrow>
   \<exists>token_json sig. parse_token_wire E (p_token p) = Ok (token_json, sig) \<and> json_from_slice E token_json = Some (JObj obj) \<and>
     sig = hmac_sha256 E (p_secret p) token_json \<and> str_claim obj ''jti'' \<notin> revoked_jtis g \<and>
     time_claim obj ''nbf'' \<le> now \<and> now \<le> time_claim obj ''exp'' \<and> p_sid p = str_claim obj ''sid'' \<and>
     p_cid p = str_claim obj ''cid'' \<and> p_oaid p = str_claim obj ''oaid'' \<and> p_agent p \<in> set (str_list_claim obj ''aud'')"
  by (auto simp: rrbc_verify_def Let_def constant_time_eq_def not_less elim!: as_object.elims
      split: sum.splits option.splits if_split_asm)

section \<open>Concrete tokens\<close>

definition rrbc_demo_claims :: "(string \<times> json) list" where
  "rrbc_demo_claims =
     [(''aud'', JArr [JStr ''a'']), (''exp'', JNum (PosInt 100)), (''jti'', JStr ''j''), (''max_use'', JNum (PosInt 1)), (''sid'', JStr ''s'')]"

definition rrbc_demo_env :: gw_env where
  "rrbc_demo_env = demo_gw\<lparr>json_from_slice := (\<lambda>b. Some (JObj rrbc_demo_claims))\<rparr>"

definition rrbc_demo :: "string \<Rightarrow> presentation" where
  "rrbc_demo nonce =
     \<lparr>p_token = demo_token, p_rnonce = nonce, p_agent = ''a'', p_sid = ''s'', p_cid = [], p_oaid = [],
      p_secret = replicate 32 5, p_proof = None\<rparr>"

lemma rrbc_demo_verify: "0 \<le> now \<Longrightarrow> now \<le> 100 \<Longrightarrow> ''j'' \<notin> revoked_jtis g \<Longrightarrow>
  rrbc_verify rrbc_demo_env now (rrbc_demo nonce) g = Ok rrbc_demo_claims"
proof -
  assume *: "0 \<le> now" "now \<le> 100" "''j'' \<notin> revoked_jtis g"
  have "parse_token_wire rrbc_demo_env demo_token = Ok ([1], replicate 32 7)"
    using demo_parse by (simp add: rrbc_demo_env_def parse_token_wire_def)
  moreover have "hmac_sha256 rrbc_demo_env k m = replicate 32 7" "json_from_slice rrbc_demo_env m = Some (JObj rrbc_demo_claims)" for k m
    by (simp_all add: rrbc_demo_env_def demo_gw_def hmac_sha256_def)
  moreover have "str_claim rrbc_demo_claims ''jti'' = ''j''" "time_claim rrbc_demo_claims ''nbf'' = 0"
    "time_claim rrbc_demo_claims ''exp'' = 100" "str_claim rrbc_demo_claims ''sid'' = ''s''"
    "str_claim rrbc_demo_claims ''cid'' = []" "str_claim rrbc_demo_claims ''oaid'' = []"
    "str_list_claim rrbc_demo_claims ''aud'' = [''a'']"
    by (simp_all add: rrbc_demo_claims_def str_claim_def time_claim_def str_list_claim_def claim_def map_filter_simps)
  ultimately show ?thesis using * by (simp add: rrbc_verify_def rrbc_demo_def constant_time_eq_def)
qed

lemma rrbc_demo_step:
  assumes "tokens g = []" "revoked_jtis g = {}" "length (replay_registry g) < RRBC_REPLAY_REGISTRY_MAX div 2"
    "(''j'', nonce, ''s'') \<notin> keys (replay_registry g)"
  shows "\<exists>r. rrbc_step rrbc_demo_env g (10, RedeemOp (rrbc_demo nonce)) =
    (g\<lparr>replay_registry := AList.update (''j'', nonce, ''s'') 100 (replay_registry g)\<rparr>, Some r) \<and> rr_jti r = ''j''"
proof -
  have obj: "str_claim rrbc_demo_claims ''jti'' = ''j''" "time_claim rrbc_demo_claims ''exp'' = 100"
    "claim as_i64 rrbc_demo_claims ''max_use'' = Some 1" "claim as_str rrbc_demo_claims ''pop_key'' = None"
    "claim as_u64 rrbc_demo_claims ''max_action_class'' = None"
    by (simp_all add: rrbc_demo_claims_def str_claim_def time_claim_def claim_def)
  have c: "rrbc_consume 10 (''j'', nonce, ''s'') 100 g =
      (g\<lparr>replay_registry := AList.update (''j'', nonce, ''s'') 100 (replay_registry g)\<rparr>, Ok ())"
    using assms(3,4) by (simp add: rrbc_consume_def Let_def keys_dom domIff)
  have p: "p_rnonce (rrbc_demo nonce) = nonce" "p_sid (rrbc_demo nonce) = ''s''" "p_proof (rrbc_demo nonce) = None"
    by (simp_all add: rrbc_demo_def)
  show ?thesis
    using assms(1) rrbc_demo_verify [of 10 g nonce] assms(2)
    by (simp add: redeem_token_with_pop_def Let_def obj c p rrbc_use_def rrbc_pop_def rrbc_result_def)
qed

lemma rrbc_demo_run:
  assumes "tokens g = []" "revoked_jtis g = {}" "length (replay_registry g) + length ns < RRBC_REPLAY_REGISTRY_MAX div 2"
    "distinct ns" "\<forall>x \<in> set ns. (''j'', x, ''s'') \<notin> keys (replay_registry g)"
  shows "redemptions rrbc_demo_env ''j'' g (map (\<lambda>x. (10, RedeemOp (rrbc_demo x))) ns) = length ns"
  using assms
proof (induction ns arbitrary: g)
  case Nil
  then show ?case by simp
next
  case (Cons x ns)
  let ?g = "g\<lparr>replay_registry := AList.update (''j'', x, ''s'') 100 (replay_registry g)\<rparr>"
  obtain r where r: "rrbc_step rrbc_demo_env g (10, RedeemOp (rrbc_demo x)) = (?g, Some r)" "rr_jti r = ''j''"
    using rrbc_demo_step [of g x] Cons.prems by auto
  have "length (AList.update k v m) \<le> Suc (length m)" for k v and m :: "(string \<times> string \<times> string, secs) hmap"
    by (induction m) auto
  from this [of "(''j'', x, ''s'')" 100 "replay_registry g"]
  have "length (replay_registry ?g) + length ns < RRBC_REPLAY_REGISTRY_MAX div 2"
    using Cons.prems(3) by simp
  moreover have "\<forall>y \<in> set ns. y \<noteq> x" using Cons.prems(4) by auto
  ultimately show ?case using Cons.IH [of ?g] Cons.prems r by (simp del: rrbc_step.simps)
qed

text \<open>The proof of possession is checked last: a presentation that fails it has used up its nonce and one
  use of the token.\<close>

lemma pop_failure_consumes:
  assumes "rrbc_verify E now p g = Ok obj" "j = str_claim obj ''jti''" "uses_left g j = Some n" "0 < n"
    "rrbc_consume now (j, p_rnonce p, p_sid p) (time_claim obj ''exp'') g = (g1, Ok ())"
    "rrbc_pop E obj (p_rnonce p) (p_proof p) = Err e"
  shows "snd (redeem_token_with_pop E now p g) = Some (Err e) \<and>
    uses_left (fst (redeem_token_with_pop E now p g)) j = Some (n - 1)"
proof -
  have "tokens g1 = tokens g"
    using rrbc_consume_tokens [of now "(j, p_rnonce p, p_sid p)" "time_claim obj ''exp''" g] assms(5) by simp
  with assms show ?thesis
    by (auto simp: redeem_token_with_pop_def Let_def rrbc_use_def uses_left_def split: option.splits)
qed

section \<open>Properties\<close>

text \<open>C23. The usage limit of a registered token: after a gateway has issued a token with identifier \<open>j\<close> and
  limit \<open>max_use\<close>, every sequence of redemptions by anyone, revocations, prunings and registry resets redeems
  \<open>j\<close> at most \<open>max_use\<close> times.\<close>

theorem rrbc_usage_limit:
  assumes "rrbc_issue_token E j t secret q g = (g1, Some tok)" "0 \<le> rq_max_use q" "\<forall>x \<in> set xs. \<not> issues j x"
  shows "int (redemptions E j g1 xs) \<le> rq_max_use q"
proof -
  have "uses_left g1 j = Some (rq_max_use q)"
    using assms(1) by (auto simp: rrbc_issue_token_def uses_left_def Let_def split: option.splits)
  with assms(2,3) show ?thesis by (intro redemptions_bounded)
qed

theorem rrbc_usage_limit_witness:
  "\<exists>q g1 tok. rrbc_issue_token rrbc_demo_env ''j'' 10 (replicate 32 5) q new_rrbc = (g1, Some tok) \<and> rq_max_use q = 1 \<and>
     int (redemptions rrbc_demo_env ''j'' g1 [(20, RedeemOp (rrbc_demo ''m'')), (21, RedeemOp (rrbc_demo ''n''))]) \<le> 1"
proof -
  define q where "q = \<lparr>rq_issuer = ''i'', rq_allowed = [], rq_forbidden = [], rq_actions = [], rq_audience = [''a''],
    rq_sid = ''s'', rq_cid = [], rq_oaid = [], rq_max_use = 1, rq_ttl = 30, rq_max_action_class = 0, rq_pop_key = None\<rparr>"
  have n: "f64_as_u64 10 = 10" by (simp add: f64_as_u64_def)
  have "checked_add (f64_as_u64 10) (rq_ttl q) = Some 40" unfolding n q_def by code_simp
  then obtain g1 tok where i: "rrbc_issue_token rrbc_demo_env ''j'' 10 (replicate 32 5) q new_rrbc = (g1, Some tok)"
    by (simp add: rrbc_issue_token_def Let_def)
  have "int (redemptions rrbc_demo_env ''j'' g1 [(20, RedeemOp (rrbc_demo ''m'')), (21, RedeemOp (rrbc_demo ''n''))]) \<le> rq_max_use q"
    by (rule rrbc_usage_limit [OF i]) (simp_all add: q_def)
  with i show ?thesis by (intro exI [of _ q] exI [of _ g1] exI [of _ tok]) (simp add: q_def)
qed



text \<open>A gateway that has not issued a token itself does not enforce its usage limit: a token with
  \<open>max_use = 1\<close> is redeemed once per fresh nonce, any number of times up to half the registry.\<close>

lemma rrbc_unregistered_not_limited:
  assumes "distinct ns" "length ns < RRBC_REPLAY_REGISTRY_MAX div 2"
  shows "claim as_i64 rrbc_demo_claims ''max_use'' = Some 1 \<and>
    redemptions rrbc_demo_env ''j'' new_rrbc (map (\<lambda>x. (10, RedeemOp (rrbc_demo x))) ns) = length ns"
  using rrbc_demo_run [of new_rrbc ns] assms
  by (simp add: new_rrbc_def keys_def) (simp add: rrbc_demo_claims_def claim_def)

end
