(* ===== verification/Streaming.thy ===== *)
theory Streaming
  imports Rate_Limiter
begin

text \<open>
  Stream sessions, \<open>src/streaming.rs\<close>: \<open>StreamSession\<close> and \<open>StreamRegistry\<close> in its two modes, eight local
  shards with a count of streams per agent, or sessions kept in a shared \<open>StateBackend\<close>. The JSON codec
  of a session is the pair of arguments \<open>enc\<close>, \<open>dec\<close>. Byte counts are lengths of buffers in memory and are
  natural numbers. The locks of the shards and of the counts are not modelled; an operation is atomic.

  The lemmas show that a session keeps its limits, that the local registry keeps its global limit and how
  its counts relate to the streams that exist.
\<close>

section \<open>Sessions\<close>

definition STREAM_MAX_TOTAL_BYTES :: nat where "STREAM_MAX_TOTAL_BYTES = 5 * 1024 * 1024"
definition STREAM_MAX_DURATION_SECONDS :: secs where "STREAM_MAX_DURATION_SECONDS = 120"
definition STREAM_MAX_FRAME_GAP_SECONDS :: secs where "STREAM_MAX_FRAME_GAP_SECONDS = 10"
definition MAX_ACTIVE_STREAMS :: nat where "MAX_ACTIVE_STREAMS = 1000"
definition MAX_STREAMS_PER_AGENT :: nat where "MAX_STREAMS_PER_AGENT = 10"

record StreamSession =
  stream_id :: string
  st_agent_id :: string
  st_source_agent :: string
  last_sequence :: u64
  last_sequence_id :: "u64 option"
  total_bytes :: nat
  frame_count :: nat
  started_at :: secs
  last_frame_at :: secs
  st_closed :: bool
  st_token_sig_hash :: string
  token_exp :: secs
  st_max_action_class :: u8

definition new_stream_session :: "secs \<Rightarrow> string \<Rightarrow> string \<Rightarrow> nat \<Rightarrow> StreamSession" where
  "new_stream_session now sid agent first_frame_bytes =
     \<lparr>stream_id = sid, st_agent_id = agent, st_source_agent = [], last_sequence = 0, last_sequence_id = None,
      total_bytes = first_frame_bytes, frame_count = 0, started_at = now, last_frame_at = now, st_closed = False,
      st_token_sig_hash = [], token_exp = 0, st_max_action_class = 0\<rparr>"

definition validate_continuation :: "secs \<Rightarrow> u64 \<Rightarrow> nat \<Rightarrow> StreamSession \<Rightarrow> StreamSession result" where
  "validate_continuation now sequence frame_bytes s =
     (if st_closed s then Err StreamAbort
      else if sequence \<le> last_sequence s then Err StreamAbort
      else if STREAM_MAX_TOTAL_BYTES < total_bytes s + frame_bytes then Err StreamAbort
      else if STREAM_MAX_DURATION_SECONDS < now - started_at s then Err StreamAbort
      else if STREAM_MAX_FRAME_GAP_SECONDS < now - last_frame_at s then Err StreamAbort
      else Ok (s\<lparr>last_sequence := sequence, last_sequence_id := Some sequence,
                 total_bytes := total_bytes s + frame_bytes, frame_count := frame_count s + 1, last_frame_at := now\<rparr>))"

definition close_session :: "StreamSession \<Rightarrow> StreamSession" where
  "close_session s = s\<lparr>st_closed := True\<rparr>"

section \<open>The local registry\<close>

definition STREAM_SHARDS :: nat where "STREAM_SHARDS = 8"

definition stream_shard_index :: "string \<Rightarrow> nat" where
  "stream_shard_index sid = fnv1a_shard sid STREAM_SHARDS"

record StreamRegistry =
  streams :: "(string, StreamSession) hmap list"
  agent_counts :: "(string, nat) hmap"

definition new_stream_registry :: StreamRegistry where
  "new_stream_registry = \<lparr>streams = replicate STREAM_SHARDS [], agent_counts = []\<rparr>"

abbreviation stream_shard :: "StreamRegistry \<Rightarrow> string \<Rightarrow> (string, StreamSession) hmap" where
  "stream_shard R sid \<equiv> streams R ! stream_shard_index sid"

definition put_shard :: "nat \<Rightarrow> (string, StreamSession) hmap \<Rightarrow> StreamRegistry \<Rightarrow> StreamRegistry" where
  "put_shard i m R = R\<lparr>streams := (streams R)[i := m]\<rparr>"

definition agent_stream_count :: "StreamRegistry \<Rightarrow> string \<Rightarrow> nat" where
  "agent_stream_count R agent = (case map_of (agent_counts R) agent of Some n \<Rightarrow> n | None \<Rightarrow> 0)"

definition active_count :: "StreamRegistry \<Rightarrow> nat" where
  "active_count R = sum_list (map length (streams R))"

text \<open>Take one stream off the count of its agent and drop a count of zero. In eviction an absent count starts at
  one, elsewhere at zero, which makes no difference.\<close>

definition release_agent :: "string \<Rightarrow> StreamRegistry \<Rightarrow> StreamRegistry" where
  "release_agent agent R =
     (let n = agent_stream_count R agent - 1
      in R\<lparr>agent_counts := (if n = 0 then AList.delete agent (agent_counts R) else AList.update agent n (agent_counts R))\<rparr>)"

definition get_stream :: "StreamRegistry \<Rightarrow> string \<Rightarrow> StreamSession option" where
  "get_stream R sid = map_of (stream_shard R sid) sid"

text \<open>The session with the earliest start of one shard (the first one in iteration order among equals), and of
  all shards.\<close>

fun min_started :: "(string, StreamSession) hmap \<Rightarrow> (string \<times> StreamSession) option" where
  "min_started [] = None"
| "min_started (x # xs) =
     (case min_started xs of
        Some y \<Rightarrow> if started_at (snd y) < started_at (snd x) then Some y else Some x
      | None \<Rightarrow> Some x)"

definition oldest_stream :: "(string, StreamSession) hmap list \<Rightarrow> (nat \<times> string \<times> StreamSession) option" where
  "oldest_stream shards =
     foldl (\<lambda>old (i, m).
        case min_started m of
          None \<Rightarrow> old
        | Some (sid, s) \<Rightarrow>
            (case old of
               None \<Rightarrow> Some (i, sid, s)
             | Some (j, x, s') \<Rightarrow> if started_at s < started_at s' then Some (i, sid, s) else old))
       None (zip [0..<length shards] shards)"

definition evict_oldest :: "StreamRegistry \<Rightarrow> StreamRegistry" where
  "evict_oldest R =
     (if MAX_ACTIVE_STREAMS \<le> active_count R then
        (case oldest_stream (streams R) of
           Some (i, sid, s) \<Rightarrow> release_agent (st_agent_id s) (put_shard i (AList.delete sid (streams R ! i)) R)
         | None \<Rightarrow> R)
      else R)"

definition register_local :: "StreamSession \<Rightarrow> StreamRegistry \<Rightarrow> StreamRegistry \<times> unit result" where
  "register_local session R =
     (if MAX_STREAMS_PER_AGENT \<le> agent_stream_count R (st_agent_id session) then (R, Err StreamAbort)
      else
        (let R1 = evict_oldest R; i = stream_shard_index (stream_id session);
             R2 = put_shard i (AList.update (stream_id session) session (streams R1 ! i)) R1
         in (R2\<lparr>agent_counts :=
                  AList.update (st_agent_id session) (agent_stream_count R2 (st_agent_id session) + 1) (agent_counts R2)\<rparr>,
             Ok ())))"

definition start_stream_local :: "secs \<Rightarrow> string \<Rightarrow> string \<Rightarrow> string \<Rightarrow> StreamRegistry \<Rightarrow> StreamRegistry \<times> unit result" where
  "start_stream_local now sid source_agent agent R =
     register_local ((new_stream_session now sid agent 0)\<lparr>st_source_agent := source_agent\<rparr>) R"

text \<open>\<open>validate_frame\<close>, and \<open>continue_stream\<close> which differs in the type of its error only.\<close>

definition validate_frame_local :: "secs \<Rightarrow> string \<Rightarrow> u64 \<Rightarrow> nat \<Rightarrow> StreamRegistry \<Rightarrow> StreamRegistry \<times> unit result" where
  "validate_frame_local now sid sequence frame_bytes R =
     (case get_stream R sid of
        None \<Rightarrow> (R, Err StreamAbort)
      | Some s \<Rightarrow>
          (case validate_continuation now sequence frame_bytes s of
             Inl e \<Rightarrow> (R, Err e)
           | Inr s' \<Rightarrow> (put_shard (stream_shard_index sid) (AList.update sid s' (stream_shard R sid)) R, Ok ())))"

definition remove_stream :: "string \<Rightarrow> StreamRegistry \<Rightarrow> StreamRegistry" where
  "remove_stream sid R = put_shard (stream_shard_index sid) (AList.delete sid (stream_shard R sid)) R"

definition close_stream_local :: "string \<Rightarrow> StreamRegistry \<Rightarrow> StreamRegistry \<times> unit result" where
  "close_stream_local sid R =
     (case get_stream R sid of
        Some s \<Rightarrow> (release_agent (st_agent_id s) (remove_stream sid R), Ok ())
      | None \<Rightarrow> (R, Err StreamAbort))"

text \<open>\<open>abort_stream\<close> keeps a count that has reached zero.\<close>

definition abort_stream_local :: "string \<Rightarrow> StreamRegistry \<Rightarrow> StreamRegistry" where
  "abort_stream_local sid R =
     (case get_stream R sid of
        Some s \<Rightarrow>
          (let R1 = remove_stream sid R
           in R1\<lparr>agent_counts :=
                AList.update (st_agent_id s) (agent_stream_count R1 (st_agent_id s) - 1) (agent_counts R1)\<rparr>)
      | None \<Rightarrow> R)"

definition end_stream_local :: "string \<Rightarrow> StreamRegistry \<Rightarrow> StreamRegistry \<times> StreamSession option" where
  "end_stream_local sid R =
     (case get_stream R sid of
        Some s \<Rightarrow> (release_agent (st_agent_id s) (remove_stream sid R), Some (close_session s))
      | None \<Rightarrow> (R, None))"

definition stale_session :: "secs \<Rightarrow> StreamSession \<Rightarrow> bool" where
  "stale_session now s \<longleftrightarrow>
     STREAM_MAX_DURATION_SECONDS < now - started_at s \<or> STREAM_MAX_FRAME_GAP_SECONDS < now - last_frame_at s"

definition sweep_one :: "nat \<Rightarrow> StreamRegistry \<times> nat \<Rightarrow> string \<Rightarrow> StreamRegistry \<times> nat" where
  "sweep_one i acc sid =
     (case map_of (streams (fst acc) ! i) sid of
        Some s \<Rightarrow> (release_agent (st_agent_id s) (put_shard i (AList.delete sid (streams (fst acc) ! i)) (fst acc)), snd acc + 1)
      | None \<Rightarrow> acc)"

definition sweep_shard :: "secs \<Rightarrow> StreamRegistry \<times> nat \<Rightarrow> nat \<Rightarrow> StreamRegistry \<times> nat" where
  "sweep_shard now acc i =
     foldl (sweep_one i) acc (map fst (filter (\<lambda>x. stale_session now (snd x)) (streams (fst acc) ! i)))"

definition sweep_expired_local :: "secs \<Rightarrow> StreamRegistry \<Rightarrow> StreamRegistry \<times> nat" where
  "sweep_expired_local now R = foldl (sweep_shard now) (R, 0) [0..<length (streams R)]"

definition stream_info :: "StreamSession \<Rightarrow> secs \<times> string \<times> u64 option \<times> u8 \<times> string" where
  "stream_info s = (token_exp s, st_token_sig_hash s, last_sequence_id s, st_max_action_class s, st_source_agent s)"

definition get_stream_info_local :: "StreamRegistry \<Rightarrow> string \<Rightarrow> (secs \<times> string \<times> u64 option \<times> u8 \<times> string) option" where
  "get_stream_info_local R sid = map_option stream_info (get_stream R sid)"

definition set_token_info :: "string \<Rightarrow> secs \<Rightarrow> string \<Rightarrow> u8 \<Rightarrow> StreamSession \<Rightarrow> StreamSession" where
  "set_token_info sig_hash until source_agent mac s =
     s\<lparr>st_token_sig_hash := sig_hash, token_exp := until, st_source_agent := source_agent, st_max_action_class := mac\<rparr>"

definition set_stream_token_info_local ::
  "string \<Rightarrow> string \<Rightarrow> secs \<Rightarrow> string \<Rightarrow> u8 \<Rightarrow> StreamRegistry \<Rightarrow> StreamRegistry" where
  "set_stream_token_info_local sid sig_hash until source_agent mac R =
     (case get_stream R sid of
        Some s \<Rightarrow>
          put_shard (stream_shard_index sid)
            (AList.update sid (set_token_info sig_hash until source_agent mac s) (stream_shard R sid)) R
      | None \<Rightarrow> R)"

section \<open>The registry over a backend\<close>

record session_codec =
  enc_session :: "StreamSession \<Rightarrow> bytes"
  dec_session :: "bytes \<Rightarrow> StreamSession option"

definition stream_backend_ttl :: secs where
  "stream_backend_ttl = STREAM_MAX_DURATION_SECONDS + STREAM_MAX_FRAME_GAP_SECONDS + 30"

definition stream_key :: "string \<Rightarrow> string" where
  "stream_key sid = ''stream:'' @ sid"

definition get_session_backend ::
  "'b StateBackend \<Rightarrow> session_codec \<Rightarrow> secs \<Rightarrow> string \<Rightarrow> 'b \<Rightarrow> 'b \<times> StreamSession option" where
  "get_session_backend B J now sid b =
     (case sb_get B now (stream_key sid) b of
        (b1, Some (Some bs)) \<Rightarrow> (b1, dec_session J bs)
      | (b1, _) \<Rightarrow> (b1, None))"

definition put_session_backend :: "'b StateBackend \<Rightarrow> session_codec \<Rightarrow> secs \<Rightarrow> StreamSession \<Rightarrow> 'b \<Rightarrow> 'b" where
  "put_session_backend B J now s b =
     fst (sb_set B now (stream_key (stream_id s)) (enc_session J s) (Some stream_backend_ttl) b)"

fun load_keys :: "'b StateBackend \<Rightarrow> session_codec \<Rightarrow> secs \<Rightarrow> string list \<Rightarrow> 'b \<Rightarrow> 'b \<times> StreamSession list" where
  "load_keys B J now [] b = (b, [])"
| "load_keys B J now (k # ks) b =
     (let (b1, r) = sb_get B now k b; (b2, ss) = load_keys B J now ks b1
      in (b2, case r of Some (Some bs) \<Rightarrow> (case dec_session J bs of Some s \<Rightarrow> s # ss | None \<Rightarrow> ss) | _ \<Rightarrow> ss))"

definition all_sessions_backend :: "'b StateBackend \<Rightarrow> session_codec \<Rightarrow> secs \<Rightarrow> 'b \<Rightarrow> 'b \<times> StreamSession list" where
  "all_sessions_backend B J now b =
     (case sb_scan_prefix B now ''stream:'' b of
        (b1, r) \<Rightarrow> load_keys B J now (case r of Some ks \<Rightarrow> ks | None \<Rightarrow> []) b1)"

definition register_backend ::
  "'b StateBackend \<Rightarrow> session_codec \<Rightarrow> secs \<Rightarrow> StreamSession \<Rightarrow> 'b \<Rightarrow> 'b \<times> unit result" where
  "register_backend B J now session b =
     (let (b1, existing) = all_sessions_backend B J now b
      in if MAX_STREAMS_PER_AGENT \<le> length (filter (\<lambda>s. st_agent_id s = st_agent_id session) existing)
         then (b1, Err StreamAbort)
         else
           (let b2 = (if MAX_ACTIVE_STREAMS \<le> length existing then
                        (case sort_key started_at existing of
                           oldest # _ \<Rightarrow> fst (sb_delete B now (stream_key (stream_id oldest)) b1)
                         | [] \<Rightarrow> b1)
                      else b1)
            in (put_session_backend B J now session b2, Ok ())))"

definition MAX_CAS_ATTEMPTS :: nat where "MAX_CAS_ATTEMPTS = 5"

text \<open>One attempt reads, validates and swaps; Inr False is a lost race.\<close>

definition cas_attempt ::
  "'b StateBackend \<Rightarrow> session_codec \<Rightarrow> secs \<Rightarrow> string \<Rightarrow> u64 \<Rightarrow> nat \<Rightarrow> 'b \<Rightarrow> 'b \<times> bool result" where
  "cas_attempt B J now sid sequence frame_bytes b =
     (case sb_get B now (stream_key sid) b of
        (b1, Some (Some raw)) \<Rightarrow>
          (case dec_session J raw of
             None \<Rightarrow> (b1, Err StreamAbort)
           | Some s \<Rightarrow>
               (case validate_continuation now sequence frame_bytes s of
                  Inl e \<Rightarrow> (b1, Err e)
                | Inr s' \<Rightarrow>
                    (case sb_compare_and_swap B now (stream_key sid) (Some raw) (enc_session J s') (Some stream_backend_ttl) b1 of
                       (b2, Some won) \<Rightarrow> (b2, Ok won)
                     | (b2, None) \<Rightarrow> (b2, Err StreamAbort))))
      | (b1, _) \<Rightarrow> (b1, Err StreamAbort))"

fun cas_loop ::
  "nat \<Rightarrow> 'b StateBackend \<Rightarrow> session_codec \<Rightarrow> secs \<Rightarrow> string \<Rightarrow> u64 \<Rightarrow> nat \<Rightarrow> 'b \<Rightarrow> 'b \<times> unit result" where
  "cas_loop 0 B J now sid sequence frame_bytes b = (b, Err StreamAbort)"
| "cas_loop (Suc n) B J now sid sequence frame_bytes b =
     (case cas_attempt B J now sid sequence frame_bytes b of
        (b1, Inl e) \<Rightarrow> (b1, Err e)
      | (b1, Inr True) \<Rightarrow> (b1, Ok ())
      | (b1, Inr False) \<Rightarrow> cas_loop n B J now sid sequence frame_bytes b1)"

definition validate_frame_backend ::
  "'b StateBackend \<Rightarrow> session_codec \<Rightarrow> secs \<Rightarrow> string \<Rightarrow> u64 \<Rightarrow> nat \<Rightarrow> 'b \<Rightarrow> 'b \<times> unit result" where
  "validate_frame_backend B J now sid sequence frame_bytes b = cas_loop MAX_CAS_ATTEMPTS B J now sid sequence frame_bytes b"

text \<open>\<open>continue_stream\<close> over a backend writes the session back without comparing, also after a refusal.\<close>

definition continue_stream_backend ::
  "'b StateBackend \<Rightarrow> session_codec \<Rightarrow> secs \<Rightarrow> string \<Rightarrow> u64 \<Rightarrow> nat \<Rightarrow> 'b \<Rightarrow> 'b \<times> unit result" where
  "continue_stream_backend B J now sid sequence frame_bytes b =
     (case get_session_backend B J now sid b of
        (b1, None) \<Rightarrow> (b1, Err StreamAbort)
      | (b1, Some s) \<Rightarrow>
          (case validate_continuation now sequence frame_bytes s of
             Inl e \<Rightarrow> (put_session_backend B J now s b1, Err e)
           | Inr s' \<Rightarrow> (put_session_backend B J now s' b1, Ok ())))"

definition close_stream_backend :: "'b StateBackend \<Rightarrow> secs \<Rightarrow> string \<Rightarrow> 'b \<Rightarrow> 'b \<times> unit result" where
  "close_stream_backend B now sid b =
     (case sb_delete B now (stream_key sid) b of
        (b1, Some True) \<Rightarrow> (b1, Ok ())
      | (b1, _) \<Rightarrow> (b1, Err StreamAbort))"

definition abort_stream_backend :: "'b StateBackend \<Rightarrow> secs \<Rightarrow> string \<Rightarrow> 'b \<Rightarrow> 'b" where
  "abort_stream_backend B now sid b = fst (sb_delete B now (stream_key sid) b)"

definition active_count_backend :: "'b StateBackend \<Rightarrow> secs \<Rightarrow> 'b \<Rightarrow> 'b \<times> nat" where
  "active_count_backend B now b =
     (case sb_scan_prefix B now ''stream:'' b of (b1, r) \<Rightarrow> (b1, case r of Some ks \<Rightarrow> length ks | None \<Rightarrow> 0))"

definition agent_stream_count_backend :: "'b StateBackend \<Rightarrow> session_codec \<Rightarrow> secs \<Rightarrow> string \<Rightarrow> 'b \<Rightarrow> 'b \<times> nat" where
  "agent_stream_count_backend B J now agent b =
     (let (b1, ss) = all_sessions_backend B J now b in (b1, length (filter (\<lambda>s. st_agent_id s = agent) ss)))"

definition get_stream_info_backend ::
  "'b StateBackend \<Rightarrow> session_codec \<Rightarrow> secs \<Rightarrow> string \<Rightarrow> 'b \<Rightarrow> 'b \<times> (secs \<times> string \<times> u64 option \<times> u8 \<times> string) option" where
  "get_stream_info_backend B J now sid b =
     (let (b1, r) = get_session_backend B J now sid b in (b1, map_option stream_info r))"

definition end_stream_backend ::
  "'b StateBackend \<Rightarrow> session_codec \<Rightarrow> secs \<Rightarrow> string \<Rightarrow> 'b \<Rightarrow> 'b \<times> StreamSession option" where
  "end_stream_backend B J now sid b =
     (case get_session_backend B J now sid b of
        (b1, None) \<Rightarrow> (b1, None)
      | (b1, Some s) \<Rightarrow> (fst (sb_delete B now (stream_key sid) b1), Some (close_session s)))"

definition set_stream_token_info_backend ::
  "'b StateBackend \<Rightarrow> session_codec \<Rightarrow> secs \<Rightarrow> string \<Rightarrow> string \<Rightarrow> secs \<Rightarrow> string \<Rightarrow> u8 \<Rightarrow> 'b \<Rightarrow> 'b" where
  "set_stream_token_info_backend B J now sid sig_hash until source_agent mac b =
     (case get_session_backend B J now sid b of
        (b1, Some s) \<Rightarrow> put_session_backend B J now (set_token_info sig_hash until source_agent mac s) b1
      | (b1, None) \<Rightarrow> b1)"

section \<open>Runs\<close>

text \<open>A session offered frames (time, sequence, bytes): the final session and the frames it accepted.\<close>

fun accept_frames :: "StreamSession \<Rightarrow> (secs \<times> u64 \<times> nat) list \<Rightarrow> StreamSession \<times> (secs \<times> u64 \<times> nat) list" where
  "accept_frames s [] = (s, [])"
| "accept_frames s ((now, q, n) # fs) =
     (case validate_continuation now q n s of
        Inl _ \<Rightarrow> accept_frames s fs
      | Inr s' \<Rightarrow> (let (t, acc) = accept_frames s' fs in (t, (now, q, n) # acc)))"

datatype stream_op =
    StartOp string string string
  | RegisterOp StreamSession
  | FrameOp string u64 nat
  | CloseOp string
  | AbortOp string
  | EndOp string
  | SweepOp
  | TokenInfoOp string string secs string u8

fun stream_step :: "StreamRegistry \<Rightarrow> secs \<times> stream_op \<Rightarrow> StreamRegistry" where
  "stream_step R (now, StartOp sid src agent) = fst (start_stream_local now sid src agent R)"
| "stream_step R (now, RegisterOp s) = fst (register_local s R)"
| "stream_step R (now, FrameOp sid q n) = fst (validate_frame_local now sid q n R)"
| "stream_step R (now, CloseOp sid) = fst (close_stream_local sid R)"
| "stream_step R (now, AbortOp sid) = abort_stream_local sid R"
| "stream_step R (now, EndOp sid) = fst (end_stream_local sid R)"
| "stream_step R (now, SweepOp) = fst (sweep_expired_local now R)"
| "stream_step R (now, TokenInfoOp sid h until src mac) = set_stream_token_info_local sid h until src mac R"

section \<open>Limits of a session\<close>

lemma validate_continuation_Ok:
  assumes "validate_continuation now q n s = Ok s'"
  shows "last_sequence s < q" "last_sequence s' = q" "total_bytes s' = total_bytes s + n"
    "total_bytes s' \<le> STREAM_MAX_TOTAL_BYTES" "started_at s' = started_at s" "last_frame_at s' = now"
    "now \<le> started_at s + STREAM_MAX_DURATION_SECONDS" "now \<le> last_frame_at s + STREAM_MAX_FRAME_GAP_SECONDS"
    "st_agent_id s' = st_agent_id s" "stream_id s' = stream_id s"
  using assms by (auto simp: validate_continuation_def not_less not_le split: if_split_asm)

definition within_gaps :: "secs \<Rightarrow> secs list \<Rightarrow> bool" where
  "within_gaps t ts \<longleftrightarrow> successively (\<lambda>a b. b \<le> a + STREAM_MAX_FRAME_GAP_SECONDS) (t # ts)"

lemma accept_frames_limits:
  assumes "accept_frames s fs = (s', acc)" "total_bytes s \<le> STREAM_MAX_TOTAL_BYTES"
  shows "sorted_wrt (<) (last_sequence s # map (\<lambda>f. fst (snd f)) acc)"
    and "total_bytes s' = total_bytes s + sum_list (map (\<lambda>f. snd (snd f)) acc) \<and> total_bytes s' \<le> STREAM_MAX_TOTAL_BYTES"
    and "\<forall>f \<in> set acc. fst f \<le> started_at s + STREAM_MAX_DURATION_SECONDS"
    and "within_gaps (last_frame_at s) (map fst acc)"
proof -
  have "sorted_wrt (<) (last_sequence s # map (\<lambda>f. fst (snd f)) acc) \<and>
    total_bytes s' = total_bytes s + sum_list (map (\<lambda>f. snd (snd f)) acc) \<and> total_bytes s' \<le> STREAM_MAX_TOTAL_BYTES \<and>
    (\<forall>f \<in> set acc. fst f \<le> started_at s + STREAM_MAX_DURATION_SECONDS) \<and> within_gaps (last_frame_at s) (map fst acc)"
    using assms
  proof (induction s fs arbitrary: s' acc rule: accept_frames.induct)
    case (1 s)
    then show ?case by (simp add: within_gaps_def)
  next
    case (2 s now q n fs)
    show ?case
    proof (cases "validate_continuation now q n s")
      case (Inl e)
      from "2.IH"(1) [OF Inl] "2.prems" Inl show ?thesis by simp
    next
      case (Inr s1)
      note v = validate_continuation_Ok [OF Inr]
      obtain acc' where r: "accept_frames s1 fs = (s', acc')" "acc = (now, q, n) # acc'"
        using "2.prems"(1) Inr by (auto split: prod.splits)
      from "2.IH"(2) [OF Inr r(1)] v have
        "sorted_wrt (<) (q # map (\<lambda>f. fst (snd f)) acc')" "total_bytes s' \<le> STREAM_MAX_TOTAL_BYTES"
        "total_bytes s' = total_bytes s1 + sum_list (map (\<lambda>f. snd (snd f)) acc')"
        "\<forall>f \<in> set acc'. fst f \<le> started_at s + STREAM_MAX_DURATION_SECONDS" "within_gaps now (map fst acc')"
        by auto
      with v r(2) show ?thesis by (auto simp: within_gaps_def)
    qed
  qed
  then show "sorted_wrt (<) (last_sequence s # map (\<lambda>f. fst (snd f)) acc)"
    and "total_bytes s' = total_bytes s + sum_list (map (\<lambda>f. snd (snd f)) acc) \<and> total_bytes s' \<le> STREAM_MAX_TOTAL_BYTES"
    and "\<forall>f \<in> set acc. fst f \<le> started_at s + STREAM_MAX_DURATION_SECONDS"
    and "within_gaps (last_frame_at s) (map fst acc)" by blast+
qed

section \<open>The registry as a map\<close>

definition registry_wf :: "StreamRegistry \<Rightarrow> bool" where
  "registry_wf R \<longleftrightarrow> length (streams R) = STREAM_SHARDS \<and>
     (\<forall>i < STREAM_SHARDS. hm_wf (streams R ! i) \<and> (\<forall>k \<in> keys (streams R ! i). stream_shard_index k = i))"

lemma stream_shard_less [simp]: "stream_shard_index sid < STREAM_SHARDS"
  by (simp add: stream_shard_index_def fnv1a_shard_less STREAM_SHARDS_def)

lemma registry_wf_new: "registry_wf new_stream_registry"
  by (simp add: registry_wf_def new_stream_registry_def hm_wf_def keys_def)

lemma get_stream_new: "get_stream new_stream_registry = Map.empty"
  by (simp add: get_stream_def new_stream_registry_def fun_eq_iff)

lemma put_shard_simps [simp]:
  "agent_counts (put_shard i m R) = agent_counts R" "length (streams (put_shard i m R)) = length (streams R)"
  by (simp_all add: put_shard_def)

lemma put_update:
  assumes "registry_wf R"
  shows "registry_wf (put_shard (stream_shard_index sid) (AList.update sid s (stream_shard R sid)) R)"
    "get_stream (put_shard (stream_shard_index sid) (AList.update sid s (stream_shard R sid)) R) = (get_stream R)(sid \<mapsto> s)"
proof -
  have len: "length (streams R) = STREAM_SHARDS" using assms by (simp add: registry_wf_def)
  show "registry_wf (put_shard (stream_shard_index sid) (AList.update sid s (stream_shard R sid)) R)"
    using assms by (auto simp: registry_wf_def put_shard_def nth_list_update)
  show "get_stream (put_shard (stream_shard_index sid) (AList.update sid s (stream_shard R sid)) R) = (get_stream R)(sid \<mapsto> s)"
    using len by (auto simp: get_stream_def put_shard_def nth_list_update fun_eq_iff)
qed

lemma put_delete:
  assumes "registry_wf R" "i < STREAM_SHARDS" "sid \<in> keys (streams R ! i)"
  shows "registry_wf (put_shard i (AList.delete sid (streams R ! i)) R)"
    "get_stream (put_shard i (AList.delete sid (streams R ! i)) R) = (get_stream R)(sid := None)"
proof -
  have i: "i = stream_shard_index sid" "length (streams R) = STREAM_SHARDS" using assms by (simp_all add: registry_wf_def)
  show "registry_wf (put_shard i (AList.delete sid (streams R ! i)) R)"
    using assms by (auto simp: registry_wf_def put_shard_def nth_list_update)
  show "get_stream (put_shard i (AList.delete sid (streams R ! i)) R) = (get_stream R)(sid := None)"
    using i by (auto simp: get_stream_def put_shard_def nth_list_update fun_eq_iff)
qed

lemma get_stream_keys:
  "get_stream R sid = Some s \<Longrightarrow> sid \<in> keys (stream_shard R sid)"
  by (auto simp: get_stream_def keys_dom)

lemma remove_stream_props:
  assumes "registry_wf R" "get_stream R sid = Some s"
  shows "registry_wf (remove_stream sid R)" "get_stream (remove_stream sid R) = (get_stream R)(sid := None)"
    "agent_counts (remove_stream sid R) = agent_counts R"
  using put_delete [OF assms(1) _ get_stream_keys [OF assms(2)]] by (simp_all add: remove_stream_def)

lemma dom_get_stream:
  assumes "registry_wf R"
  shows "dom (get_stream R) = (\<Union>i < STREAM_SHARDS. keys (streams R ! i))"
proof
  show "dom (get_stream R) \<subseteq> (\<Union>i < STREAM_SHARDS. keys (streams R ! i))"
    using get_stream_keys stream_shard_less by (fastforce simp: dom_def)
  show "(\<Union>i < STREAM_SHARDS. keys (streams R ! i)) \<subseteq> dom (get_stream R)"
  proof
    fix k
    assume "k \<in> (\<Union>i < STREAM_SHARDS. keys (streams R ! i))"
    then obtain i where i: "i < STREAM_SHARDS" "k \<in> keys (streams R ! i)" by blast
    with assms have "stream_shard_index k = i" by (simp add: registry_wf_def)
    with i show "k \<in> dom (get_stream R)" by (auto simp: get_stream_def keys_dom)
  qed
qed

lemma finite_dom_get_stream: "registry_wf R \<Longrightarrow> finite (dom (get_stream R))"
  by (simp add: dom_get_stream keys_def)

lemma active_count_card:
  assumes "registry_wf R"
  shows "active_count R = card (dom (get_stream R))"
proof -
  have len: "length (streams R) = STREAM_SHARDS" using assms by (simp add: registry_wf_def)
  have "active_count R = (\<Sum>i < STREAM_SHARDS. length (streams R ! i))"
    using len by (simp add: active_count_def sum_list_sum_nth atLeast0LessThan)
  also have "\<dots> = (\<Sum>i < STREAM_SHARDS. card (keys (streams R ! i)))"
    using assms by (intro sum.cong) (simp_all add: registry_wf_def length_eq_card_keys)
  also have "\<dots> = card (\<Union>i < STREAM_SHARDS. keys (streams R ! i))"
  proof (intro card_UN_disjoint [symmetric] ballI impI)
    fix i j
    assume ij: "i \<in> {..<STREAM_SHARDS}" "j \<in> {..<STREAM_SHARDS}" "i \<noteq> j"
    then have "\<forall>k \<in> keys (streams R ! i). stream_shard_index k = i" "\<forall>k \<in> keys (streams R ! j). stream_shard_index k = j"
      using assms by (simp_all add: registry_wf_def)
    with ij(3) show "keys (streams R ! i) \<inter> keys (streams R ! j) = {}" by auto
  qed simp_all
  finally show ?thesis by (simp add: dom_get_stream [OF assms])
qed

section \<open>Limits of the registry\<close>

definition owned :: "(string \<Rightarrow> StreamSession option) \<Rightarrow> string \<Rightarrow> string set" where
  "owned m a = {sid. \<exists>s. m sid = Some s \<and> st_agent_id s = a}"

lemma finite_owned: "finite (dom m) \<Longrightarrow> finite (owned m a)"
  by (rule finite_subset [of _ "dom m"]) (auto simp: owned_def)

lemma owned_remove:
  "finite (dom m) \<Longrightarrow> m sid = Some s \<Longrightarrow>
   card (owned (m(sid := None)) a) = (if st_agent_id s = a then card (owned m a) - 1 else card (owned m a))"
proof -
  assume *: "finite (dom m)" "m sid = Some s"
  have "owned (m(sid := None)) a = owned m a - {sid}" by (auto simp: owned_def)
  with * show ?thesis by (auto simp: owned_def)
qed

lemma owned_put:
  assumes "finite (dom m)"
  shows "card (owned (m(sid \<mapsto> s)) a) \<le> card (owned m a) + (if st_agent_id s = a then 1 else 0)"
proof (cases "st_agent_id s = a")
  case True
  have "owned (m(sid \<mapsto> s)) a = insert sid (owned m a)" using True by (auto simp: owned_def)
  with True show ?thesis by (simp add: card_insert_if finite_owned [OF assms])
next
  case False
  have "owned (m(sid \<mapsto> s)) a \<subseteq> owned m a" using False by (auto simp: owned_def split: if_split_asm)
  from card_mono [OF finite_owned [OF assms] this] False show ?thesis by simp
qed

lemma owned_same:
  "m sid = Some s \<Longrightarrow> st_agent_id s' = st_agent_id s \<Longrightarrow> owned (m(sid \<mapsto> s')) = owned m"
  by (auto simp: owned_def fun_eq_iff)

lemma release_agent_simps [simp]:
  "streams (release_agent a R) = streams R" "get_stream (release_agent a R) = get_stream R"
  "registry_wf (release_agent a R) = registry_wf R" "active_count (release_agent a R) = active_count R"
  by (simp_all add: release_agent_def Let_def get_stream_def registry_wf_def active_count_def fun_eq_iff)

lemma release_agent_count:
  "agent_stream_count (release_agent a R) b = (if b = a then agent_stream_count R a - 1 else agent_stream_count R b)"
  by (auto simp: release_agent_def Let_def agent_stream_count_def)

lemma agent_stream_count_cong: "agent_counts R = agent_counts R' \<Longrightarrow> agent_stream_count R = agent_stream_count R'"
  by (simp add: agent_stream_count_def fun_eq_iff)

definition counts_ok :: "StreamRegistry \<Rightarrow> bool" where
  "counts_ok R \<longleftrightarrow> registry_wf R \<and> (\<forall>a. card (owned (get_stream R) a) \<le> agent_stream_count R a) \<and>
     (\<forall>a. agent_stream_count R a \<le> MAX_STREAMS_PER_AGENT)"

definition registry_inv :: "StreamRegistry \<Rightarrow> bool" where
  "registry_inv R \<longleftrightarrow> counts_ok R \<and> active_count R \<le> MAX_ACTIVE_STREAMS"

lemma registry_inv_new: "registry_inv new_stream_registry"
proof -
  have "agent_stream_count new_stream_registry a = 0" for a
    by (simp add: agent_stream_count_def new_stream_registry_def)
  with registry_wf_new show ?thesis
    by (simp add: registry_inv_def counts_ok_def active_count_card get_stream_new owned_def)
qed

text \<open>Removing a stream and giving its place back.\<close>

lemma release_removed:
  assumes "counts_ok R" "registry_wf R1" "get_stream R1 = (get_stream R)(sid := None)" "get_stream R sid = Some s"
    "\<And>a. agent_stream_count R2 a = (if a = st_agent_id s then agent_stream_count R a - 1 else agent_stream_count R a)"
    "registry_wf R2" "get_stream R2 = get_stream R1"
  shows "counts_ok R2" "Suc (active_count R2) = active_count R"
proof -
  have fin: "finite (dom (get_stream R))" using assms(1) by (simp add: counts_ok_def finite_dom_get_stream)
  show "counts_ok R2"
    using assms(1,5,6) owned_remove [OF fin assms(4)]
    by (auto simp: counts_ok_def assms(3,7) intro: diff_le_mono order_trans [OF diff_le_self])
  have "sid \<in> dom (get_stream R)" using assms(4) by blast
  then have "Suc (card (dom (get_stream R) - {sid})) = card (dom (get_stream R))" using fin by (rule card_Suc_Diff1 [rotated])
  then show "Suc (active_count R2) = active_count R"
    using assms(1,6) by (simp add: active_count_card counts_ok_def assms(3,7))
qed

lemma release_remove_stream:
  assumes "registry_inv R" "get_stream R sid = Some s"
  shows "registry_inv (release_agent (st_agent_id s) (remove_stream sid R))"
proof -
  have R: "counts_ok R" "registry_wf R" using assms(1) by (simp_all add: registry_inv_def counts_ok_def)
  note rm = remove_stream_props [OF R(2) assms(2)]
  have "agent_stream_count (remove_stream sid R) = agent_stream_count R" by (rule agent_stream_count_cong) (rule rm(3))
  then have "counts_ok (release_agent (st_agent_id s) (remove_stream sid R))"
    "Suc (active_count (release_agent (st_agent_id s) (remove_stream sid R))) = active_count R"
    using release_removed [OF R(1) rm(1,2) assms(2), of "release_agent (st_agent_id s) (remove_stream sid R)"] rm
    by (simp_all add: release_agent_count)
  then show ?thesis using assms(1) by (simp add: registry_inv_def)
qed

lemma release_shard_entry:
  assumes "counts_ok R" "i < STREAM_SHARDS" "map_of (streams R ! i) sid = Some s"
  shows "counts_ok (release_agent (st_agent_id s) (put_shard i (AList.delete sid (streams R ! i)) R))"
    "Suc (active_count (release_agent (st_agent_id s) (put_shard i (AList.delete sid (streams R ! i)) R))) = active_count R"
proof -
  have wf: "registry_wf R" and k: "sid \<in> keys (streams R ! i)" using assms by (auto simp: counts_ok_def keys_dom)
  then have i: "stream_shard_index sid = i" using assms(2) by (simp add: registry_wf_def)
  note pd = put_delete [OF wf assms(2) k]
  have "get_stream R sid = Some s" using assms(3) by (simp add: get_stream_def i)
  moreover have "agent_stream_count (put_shard i (AList.delete sid (streams R ! i)) R) = agent_stream_count R"
    by (rule agent_stream_count_cong) simp
  ultimately show "counts_ok (release_agent (st_agent_id s) (put_shard i (AList.delete sid (streams R ! i)) R))"
    "Suc (active_count (release_agent (st_agent_id s) (put_shard i (AList.delete sid (streams R ! i)) R))) = active_count R"
    using pd(1) release_removed [OF assms(1) pd, of s "release_agent (st_agent_id s) (put_shard i (AList.delete sid (streams R ! i)) R)"]
    by (simp_all add: release_agent_count)
qed

lemma min_started_SomeD: "min_started m = Some (sid, s) \<Longrightarrow> (sid, s) \<in> set m"
  by (induction m) (auto split: option.splits if_split_asm)

lemma min_started_None_iff: "min_started m = None \<longleftrightarrow> m = []"
  by (cases m) (auto split: option.split)

lemma oldest_stream_fold:
  "foldl (\<lambda>old (i, m).
        case min_started m of
          None \<Rightarrow> old
        | Some (sid, s) \<Rightarrow>
            (case old of
               None \<Rightarrow> Some (i, sid, s)
             | Some (j, x, s') \<Rightarrow> if started_at s < started_at s' then Some (i, sid, s) else old)) old xs = r \<Longrightarrow>
   (r = None \<longrightarrow> old = None \<and> (\<forall>(i, m) \<in> set xs. m = [])) \<and>
   (\<forall>i sid s. r = Some (i, sid, s) \<longrightarrow> old = Some (i, sid, s) \<or> (\<exists>m. (i, m) \<in> set xs \<and> (sid, s) \<in> set m))"
proof (induction xs arbitrary: old)
  case Nil
  then show ?case by simp
next
  case (Cons x xs)
  obtain i m where x: "x = (i, m)" by fastforce
  show ?case
  proof (cases "min_started m")
    case None
    then show ?thesis using Cons.IH [of old] Cons.prems by (auto simp: x min_started_None_iff)
  next
    case (Some y)
    obtain sid s where y: "y = (sid, s)" by fastforce
    let ?o = "case old of None \<Rightarrow> Some (i, sid, s) | Some (j, x, s') \<Rightarrow> if started_at s < started_at s' then Some (i, sid, s) else old"
    have "?o = old \<and> old \<noteq> None \<or> ?o = Some (i, sid, s)" by (auto split: option.split)
    moreover have "(sid, s) \<in> set m" using min_started_SomeD Some y by blast
    ultimately show ?thesis using Cons.IH [of ?o] Cons.prems Some by (auto simp: x y)
  qed
qed

lemma oldest_stream_Some:
  assumes "oldest_stream shards = Some (i, sid, s)"
  shows "i < length shards \<and> (sid, s) \<in> set (shards ! i)"
  using oldest_stream_fold [OF assms [unfolded oldest_stream_def]] by (auto simp: set_zip)

lemma oldest_stream_None:
  assumes "oldest_stream shards = None"
  shows "sum_list (map length shards) = 0"
proof -
  have "\<forall>(i, m) \<in> set (zip [0..<length shards] shards). m = []"
    using oldest_stream_fold [OF assms [unfolded oldest_stream_def]] by simp
  then have "\<forall>m \<in> set shards. m = []" by (fastforce simp: set_zip in_set_conv_nth)
  then show ?thesis by simp
qed

lemma evict_oldest_inv:
  assumes "registry_inv R"
  shows "counts_ok (evict_oldest R)" "active_count (evict_oldest R) < MAX_ACTIVE_STREAMS"
proof -
  have "counts_ok (evict_oldest R) \<and> active_count (evict_oldest R) < MAX_ACTIVE_STREAMS"
  proof (cases "MAX_ACTIVE_STREAMS \<le> active_count R")
    case False
    then show ?thesis using assms by (simp add: evict_oldest_def registry_inv_def)
  next
    case True
    then have "active_count R \<noteq> 0" by (simp add: MAX_ACTIVE_STREAMS_def)
    then have "oldest_stream (streams R) \<noteq> None"
      using oldest_stream_None [of "streams R"] by (auto simp only: active_count_def)
    then obtain i sid s where o: "oldest_stream (streams R) = Some (i, sid, s)" by auto
    from oldest_stream_Some [OF o] assms have "i < STREAM_SHARDS" "map_of (streams R ! i) sid = Some s"
      by (auto simp: registry_inv_def counts_ok_def registry_wf_def hm_wf_def)
    from release_shard_entry [OF _ this] assms True o show ?thesis
      by (simp add: evict_oldest_def registry_inv_def)
  qed
  then show "counts_ok (evict_oldest R)" "active_count (evict_oldest R) < MAX_ACTIVE_STREAMS" by blast+
qed

lemma update_stream_inv:
  assumes "registry_inv R" "get_stream R sid = Some s" "st_agent_id s' = st_agent_id s"
  shows "registry_inv (put_shard (stream_shard_index sid) (AList.update sid s' (stream_shard R sid)) R)"
proof -
  have wf: "registry_wf R" using assms(1) by (simp add: registry_inv_def counts_ok_def)
  have "dom ((get_stream R)(sid \<mapsto> s')) = dom (get_stream R)" using assms(2) by auto
  then show ?thesis
    using assms(1) put_update [OF wf, of sid s'] owned_same [of "get_stream R", OF assms(2,3)]
    by (simp add: registry_inv_def counts_ok_def active_count_card [OF wf] active_count_card agent_stream_count_def)
qed

lemma evict_oldest_count: "agent_stream_count (evict_oldest R) b \<le> agent_stream_count R b"
proof -
  have "agent_stream_count (put_shard i m R) = agent_stream_count R" for i m by (rule agent_stream_count_cong) simp
  then show ?thesis by (simp add: evict_oldest_def release_agent_count split: option.split)
qed

lemma insert_stream_inv:
  assumes "counts_ok R1" "active_count R1 < MAX_ACTIVE_STREAMS" "agent_stream_count R1 (st_agent_id s) < MAX_STREAMS_PER_AGENT"
    and "registry_wf R3" "get_stream R3 = (get_stream R1)(sid \<mapsto> s)"
    and c: "\<And>b. agent_stream_count R3 b = agent_stream_count R1 b + (if st_agent_id s = b then 1 else 0)"
  shows "registry_inv R3"
proof -
  have wf: "registry_wf R1" using assms(1) by (simp add: counts_ok_def)
  then have fin: "finite (dom (get_stream R1))" by (rule finite_dom_get_stream)
  have "card (owned (get_stream R3) b) \<le> agent_stream_count R3 b" for b
  proof -
    have "card (owned (get_stream R3) b) \<le> card (owned (get_stream R1) b) + (if st_agent_id s = b then 1 else 0)"
      unfolding assms(5) by (rule owned_put [OF fin])
    also have "\<dots> \<le> agent_stream_count R1 b + (if st_agent_id s = b then 1 else 0)" using assms(1) by (simp add: counts_ok_def)
    finally show ?thesis by (simp only: c)
  qed
  moreover have "agent_stream_count R3 b \<le> MAX_STREAMS_PER_AGENT" for b
    using assms(1,3) by (cases "st_agent_id s = b") (simp_all add: c counts_ok_def)
  moreover have "card (insert sid (dom (get_stream R1))) \<le> Suc (card (dom (get_stream R1)))"
    using fin by (simp add: card_insert_if)
  ultimately show ?thesis
    using assms(2,4) by (simp add: registry_inv_def counts_ok_def active_count_card active_count_card [OF wf] assms(5))
qed

lemma register_local_inv:
  assumes "registry_inv R"
  shows "registry_inv (fst (register_local session R))"
proof (cases "MAX_STREAMS_PER_AGENT \<le> agent_stream_count R (st_agent_id session)")
  case True
  then show ?thesis using assms by (simp add: register_local_def)
next
  case False
  define R1 where "R1 = evict_oldest R"
  define R2 where "R2 = put_shard (stream_shard_index (stream_id session))
    (AList.update (stream_id session) session (stream_shard R1 (stream_id session))) R1"
  define R3 where "R3 = R2\<lparr>agent_counts :=
    AList.update (st_agent_id session) (agent_stream_count R2 (st_agent_id session) + 1) (agent_counts R2)\<rparr>"
  have R1: "counts_ok R1" "active_count R1 < MAX_ACTIVE_STREAMS"
    using evict_oldest_inv [OF assms] by (simp_all add: R1_def)
  have wf: "registry_wf R1" using R1(1) by (simp add: counts_ok_def)
  have R2: "registry_wf R2" "get_stream R2 = (get_stream R1)(stream_id session \<mapsto> session)" "agent_counts R2 = agent_counts R1"
    using put_update [OF wf, of "stream_id session" session] by (simp_all add: R2_def)
  have "streams R3 = streams R2" by (simp add: R3_def)
  then have R3: "registry_wf R3" "get_stream R3 = get_stream R2"
    using R2(1) by (simp_all add: registry_wf_def get_stream_def fun_eq_iff)
  have "registry_inv R3"
  proof (rule insert_stream_inv [OF R1])
    show "agent_stream_count R1 (st_agent_id session) < MAX_STREAMS_PER_AGENT"
      using False evict_oldest_count [of R "st_agent_id session"] by (simp add: R1_def)
    show "agent_stream_count R3 b = agent_stream_count R1 b + (if st_agent_id session = b then 1 else 0)" for b
      by (simp add: R3_def agent_stream_count_def R2(3))
    show "registry_wf R3" by (rule R3(1))
    show "get_stream R3 = (get_stream R1)(stream_id session \<mapsto> session)" using R3(2) R2(2) by simp
  qed
  moreover have "fst (register_local session R) = R3"
    using False by (simp add: register_local_def Let_def R1_def R2_def R3_def)
  ultimately show ?thesis by simp
qed

lemma abort_stream_inv:
  assumes "registry_inv R"
  shows "registry_inv (abort_stream_local sid R)"
proof (cases "get_stream R sid")
  case None
  then show ?thesis using assms by (simp add: abort_stream_local_def)
next
  case (Some s)
  have R: "counts_ok R" "registry_wf R" using assms by (simp_all add: registry_inv_def counts_ok_def)
  note rm = remove_stream_props [OF R(2) Some]
  let ?R = "abort_stream_local sid R"
  have c: "agent_stream_count ?R a = (if a = st_agent_id s then agent_stream_count R a - 1 else agent_stream_count R a)" for a
    using Some rm(3) by (simp add: abort_stream_local_def Let_def agent_stream_count_def)
  have "streams ?R = streams (remove_stream sid R)" using Some by (simp add: abort_stream_local_def Let_def)
  then have "registry_wf ?R" "get_stream ?R = get_stream (remove_stream sid R)"
    using rm(1) by (simp_all add: registry_wf_def get_stream_def fun_eq_iff)
  from release_removed [OF R(1) rm(1,2) Some c this] assms show ?thesis by (simp add: registry_inv_def)
qed

lemma sweep_one_inv:
  assumes "registry_inv (fst acc)" "i < STREAM_SHARDS"
  shows "registry_inv (fst (sweep_one i acc sid))"
proof (cases "map_of (streams (fst acc) ! i) sid")
  case None
  then show ?thesis using assms by (simp add: sweep_one_def)
next
  case (Some s)
  then show ?thesis
    using release_shard_entry [OF _ assms(2) Some] assms(1) by (simp add: sweep_one_def registry_inv_def)
qed

lemma sweep_expired_inv:
  assumes "registry_inv R"
  shows "registry_inv (fst (sweep_expired_local now R))"
proof -
  have one: "registry_inv (fst (foldl (sweep_one i) acc xs))" if "registry_inv (fst acc)" "i < STREAM_SHARDS" for i acc xs
    using that by (induction xs arbitrary: acc) (simp_all add: sweep_one_inv)
  have "registry_inv (fst (foldl (sweep_shard now) acc is))" if "registry_inv (fst acc)" "\<forall>i \<in> set is. i < STREAM_SHARDS" for acc "is"
    using that by (induction "is" arbitrary: acc) (simp_all add: sweep_shard_def one)
  moreover have "length (streams R) = STREAM_SHARDS" using assms by (simp add: registry_inv_def counts_ok_def registry_wf_def)
  ultimately show ?thesis using assms by (simp add: sweep_expired_local_def)
qed

lemma stream_step_inv:
  assumes "registry_inv R"
  shows "registry_inv (stream_step R x)"
proof (cases "(R, x)" rule: stream_step.cases)
  case (3 R' now sid q n)
  then show ?thesis
    using assms by (auto simp: validate_frame_local_def update_stream_inv validate_continuation_Ok(9) split: option.split sum.split)
next
  case (8 R' now sid h until src mac)
  then show ?thesis
    using assms by (auto simp: set_stream_token_info_local_def update_stream_inv set_token_info_def split: option.split)
qed (use assms in \<open>auto simp: start_stream_local_def register_local_inv close_stream_local_def end_stream_local_def
    release_remove_stream abort_stream_inv sweep_expired_inv split: option.split\<close>)

lemma stream_run_inv: "registry_inv R \<Longrightarrow> registry_inv (foldl stream_step R xs)"
  by (induction xs arbitrary: R) (simp_all add: stream_step_inv)

section \<open>Counts that drift\<close>

lemma register_local_accepts:
  assumes "registry_wf R" "active_count R < MAX_ACTIVE_STREAMS" "agent_stream_count R (st_agent_id s) < MAX_STREAMS_PER_AGENT"
  shows "\<exists>R'. register_local s R = (R', Ok ()) \<and> registry_wf R' \<and> get_stream R' = (get_stream R)(stream_id s \<mapsto> s) \<and>
    agent_stream_count R' (st_agent_id s) = Suc (agent_stream_count R (st_agent_id s))"
proof -
  define R2 where "R2 = put_shard (stream_shard_index (stream_id s)) (AList.update (stream_id s) s (stream_shard R (stream_id s))) R"
  define R3 where "R3 = R2\<lparr>agent_counts := AList.update (st_agent_id s) (agent_stream_count R2 (st_agent_id s) + 1) (agent_counts R2)\<rparr>"
  have R2: "registry_wf R2" "get_stream R2 = (get_stream R)(stream_id s \<mapsto> s)" "agent_counts R2 = agent_counts R"
    using put_update [OF assms(1), of "stream_id s" s] by (simp_all add: R2_def)
  have "streams R3 = streams R2" by (simp add: R3_def)
  then have "registry_wf R3" "get_stream R3 = get_stream R2"
    using R2(1) by (simp_all add: registry_wf_def get_stream_def fun_eq_iff)
  moreover have "register_local s R = (R3, Ok ())"
    using assms(2,3) by (simp add: register_local_def Let_def evict_oldest_def R2_def R3_def)
  ultimately show ?thesis using R2 by (simp add: R3_def agent_stream_count_def)
qed

lemma restarts:
  assumes "n \<le> MAX_STREAMS_PER_AGENT" "R = foldl stream_step new_stream_registry (replicate n (now, StartOp sid src agent))"
  shows "registry_wf R \<and> agent_stream_count R agent = n \<and> dom (get_stream R) \<subseteq> {sid}"
  using assms
proof (induction n arbitrary: R)
  case 0
  then show ?case
    using registry_wf_new by (simp add: get_stream_new agent_stream_count_def) (simp add: new_stream_registry_def)
next
  case (Suc n)
  define Q where "Q = foldl stream_step new_stream_registry (replicate n (now, StartOp sid src agent))"
  have Q: "registry_wf Q" "agent_stream_count Q agent = n" "dom (get_stream Q) \<subseteq> {sid}"
    using Suc.IH [OF _ Q_def] Suc.prems(1) by simp_all
  have "active_count Q \<le> 1" using card_mono [OF _ Q(3)] by (simp add: active_count_card [OF Q(1)])
  then have lt: "active_count Q < MAX_ACTIVE_STREAMS" by (simp add: MAX_ACTIVE_STREAMS_def)
  let ?s = "(new_stream_session now sid agent 0)\<lparr>st_source_agent := src\<rparr>"
  have s: "stream_id ?s = sid" "st_agent_id ?s = agent" by (simp_all add: new_stream_session_def)
  from register_local_accepts [OF Q(1) lt, of ?s] Q(2) Suc.prems(1) obtain R' where
    "register_local ?s Q = (R', Ok ())" "registry_wf R'" "get_stream R' = (get_stream Q)(sid \<mapsto> ?s)"
    "agent_stream_count R' agent = Suc n" by (auto simp: s)
  moreover have "R = fst (register_local ?s Q)"
  proof -
    have "replicate (Suc n) x = replicate n x @ [x]" for x :: "secs \<times> stream_op" by (simp add: replicate_append_same)
    then show ?thesis by (simp only: Suc.prems(2) Q_def) (simp add: start_stream_local_def)
  qed
  moreover have "x = sid" if "get_stream Q x = Some y" for x y using Q(3) that by blast
  ultimately show ?case by (auto split: if_split_asm)
qed

section \<open>Properties\<close>

text \<open>The limits of a stream session: of any frames offered to a session, at any times, the accepted ones
  have strictly increasing sequence numbers, carry at most five megabytes together, all arrive within two
  minutes of the start, and each within ten seconds of the one before.\<close>

lemma stream_session_limits:
  assumes "accept_frames (new_stream_session t0 sid agent first_bytes) fs = (s, acc)" "first_bytes \<le> STREAM_MAX_TOTAL_BYTES"
  shows "sorted_wrt (<) (0 # map (\<lambda>f. fst (snd f)) acc) \<and>
    first_bytes + sum_list (map (\<lambda>f. snd (snd f)) acc) \<le> STREAM_MAX_TOTAL_BYTES \<and>
    (\<forall>f \<in> set acc. fst f \<le> t0 + STREAM_MAX_DURATION_SECONDS) \<and> within_gaps t0 (map fst acc)"
proof -
  let ?s = "new_stream_session t0 sid agent first_bytes"
  have n: "last_sequence ?s = 0" "total_bytes ?s = first_bytes" "started_at ?s = t0" "last_frame_at ?s = t0"
    by (simp_all add: new_stream_session_def)
  have "total_bytes ?s \<le> STREAM_MAX_TOTAL_BYTES" using assms(2) by (simp add: n)
  from accept_frames_limits [OF assms(1) this] show ?thesis by (simp add: n)
qed


text \<open>Registering the same stream again replaces the session but counts it once more: after ten starts of one
  stream, with one stream in the registry, the agent is refused any further stream.\<close>

lemma stream_restarts_lock_out:
  "active_count (foldl stream_step new_stream_registry (replicate MAX_STREAMS_PER_AGENT (now, StartOp sid src agent))) \<le> 1 \<and>
   snd (start_stream_local now' sid' src' agent
     (foldl stream_step new_stream_registry (replicate MAX_STREAMS_PER_AGENT (now, StartOp sid src agent)))) = Err StreamAbort"
proof -
  define R where "R = foldl stream_step new_stream_registry (replicate MAX_STREAMS_PER_AGENT (now, StartOp sid src agent))"
  from restarts [OF order_refl R_def] have r: "registry_wf R" "agent_stream_count R agent = MAX_STREAMS_PER_AGENT"
    "dom (get_stream R) \<subseteq> {sid}" by simp_all
  have "active_count R \<le> 1" using card_mono [OF _ r(3)] by (simp add: active_count_card [OF r(1)])
  moreover have "snd (start_stream_local now' sid' src' agent R) = Err StreamAbort"
    using r(2) by (simp add: start_stream_local_def register_local_def new_stream_session_def)
  ultimately show ?thesis by (simp add: R_def)
qed

end
