(* ===== verification/Stream_Threads.thy ===== *)
theory Stream_Threads
  imports Streaming Circuit_Breaker "HOL-Library.Countable"
begin

text \<open>
  Frames of one stream handled by several nodes that share a backend. Each call of \<open>validate_frame_backend\<close>
  (\<open>src/streaming.rs\<close>) is split where another node may act: it reads the stored session and validates the
  frame against it, and later swaps the new session in if the stored bytes are still the ones it read; a
  lost swap starts over, five times at most. Nodes may also register the stream anew and close it, and time
  passes between any two steps.

  The locale \<open>cas_backend\<close> adds to the contract of counters what the loop relies on. It is interpreted on the
  in-memory backend, bare and behind the circuit breaker. A refused frame may be refused at any
  time, whatever the reason. \<open>fs_base\<close> and \<open>fs_accepted\<close> record history only:
  the session last registered and the frames accepted since.
\<close>

section \<open>The contract\<close>

locale cas_backend = counter_backend +
  assumes get_live:
      "inv b \<Longrightarrow> k \<in> K \<Longrightarrow>
       \<exists>b'. sb_get B now k b = (b', Some (map_option fst (live now (view b k)))) \<and> inv b' \<and>
         (\<forall>t j. now \<le> t \<longrightarrow> live t (view b' j) = live t (view b j))"
    and swap_view:
      "inv b \<Longrightarrow> k \<in> K \<Longrightarrow>
       \<exists>b'. sb_compare_and_swap B now k old v life b = (b', Some (map_option fst (live now (view b k)) = old)) \<and> inv b' \<and>
         view b' = (if map_option fst (live now (view b k)) = old then (view b)(k \<mapsto> (v, map_option ((+) now) life)) else view b)"
    and delete_view:
      "inv b \<Longrightarrow> \<exists>b' r. sb_delete B now k b = (b', Some r) \<and> inv b' \<and> view b' = (view b)(k := None)"

section \<open>Steps\<close>

datatype fjob = Waiting nat u64 nat | Validated nat u64 nat bytes StreamSession

record 'b fsys =
  fs_store :: 'b
  fs_clock :: secs
  fs_jobs :: "fjob list"
  fs_base :: StreamSession
  fs_accepted :: "(u64 \<times> nat) list"

definition drop_nth :: "nat \<Rightarrow> 'a list \<Rightarrow> 'a list" where
  "drop_nth i xs = take i xs @ drop (Suc i) xs"

inductive frame_step :: "'b StateBackend \<Rightarrow> session_codec \<Rightarrow> string \<Rightarrow> 'b fsys \<Rightarrow> 'b fsys \<Rightarrow> bool" for B J sid where
  tick: "fs_clock s \<le> t \<Longrightarrow> frame_step B J sid s (s\<lparr>fs_clock := t\<rparr>)"
| arrive: "frame_step B J sid s (s\<lparr>fs_jobs := fs_jobs s @ [Waiting MAX_CAS_ATTEMPTS q n]\<rparr>)"
| fetch: "i < length (fs_jobs s) \<Longrightarrow> fs_jobs s ! i = Waiting (Suc a) q n \<Longrightarrow>
    sb_get B (fs_clock s) (stream_key sid) (fs_store s) = (b, Some (Some raw)) \<Longrightarrow> dec_session J raw = Some x \<Longrightarrow>
    validate_continuation (fs_clock s) q n x = Ok x' \<Longrightarrow>
    frame_step B J sid s (s\<lparr>fs_store := b, fs_jobs := (fs_jobs s)[i := Validated a q n raw x']\<rparr>)"
| refuse: "i < length (fs_jobs s) \<Longrightarrow> fs_jobs s ! i = Waiting a q n \<Longrightarrow>
    fst (sb_get B (fs_clock s) (stream_key sid) (fs_store s)) = b \<Longrightarrow>
    frame_step B J sid s (s\<lparr>fs_store := b, fs_jobs := drop_nth i (fs_jobs s)\<rparr>)"
| won: "i < length (fs_jobs s) \<Longrightarrow> fs_jobs s ! i = Validated a q n raw x' \<Longrightarrow>
    sb_compare_and_swap B (fs_clock s) (stream_key sid) (Some raw) (enc_session J x') (Some stream_backend_ttl) (fs_store s)
      = (b, Some True) \<Longrightarrow>
    frame_step B J sid s (s\<lparr>fs_store := b, fs_jobs := drop_nth i (fs_jobs s), fs_accepted := fs_accepted s @ [(q, n)]\<rparr>)"
| lost: "i < length (fs_jobs s) \<Longrightarrow> fs_jobs s ! i = Validated a q n raw x' \<Longrightarrow>
    sb_compare_and_swap B (fs_clock s) (stream_key sid) (Some raw) (enc_session J x') (Some stream_backend_ttl) (fs_store s)
      = (b, Some False) \<Longrightarrow>
    frame_step B J sid s (s\<lparr>fs_store := b, fs_jobs := (fs_jobs s)[i := Waiting a q n]\<rparr>)"
| register: "stream_id x = sid \<Longrightarrow> total_bytes x \<le> STREAM_MAX_TOTAL_BYTES \<Longrightarrow>
    frame_step B J sid s (s\<lparr>fs_store := put_session_backend B J (fs_clock s) x (fs_store s), fs_base := x, fs_accepted := []\<rparr>)"
| close: "frame_step B J sid s (s\<lparr>fs_store := fst (close_stream_backend B (fs_clock s) sid (fs_store s))\<rparr>)"

inductive frame_run :: "'b StateBackend \<Rightarrow> session_codec \<Rightarrow> string \<Rightarrow> 'b fsys \<Rightarrow> 'b fsys \<Rightarrow> bool" for B J sid s0 where
  start: "frame_run B J sid s0 s0"
| step: "frame_run B J sid s0 s \<Longrightarrow> frame_step B J sid s s' \<Longrightarrow> frame_run B J sid s0 s'"

section \<open>Invariant\<close>

definition history_ok :: "StreamSession \<Rightarrow> (u64 \<times> nat) list \<Rightarrow> bool" where
  "history_ok base acc \<longleftrightarrow> sorted_wrt (<) (last_sequence base # map fst acc) \<and>
     total_bytes base + sum_list (map snd acc) \<le> STREAM_MAX_TOTAL_BYTES"

definition at_history :: "StreamSession \<Rightarrow> (u64 \<times> nat) list \<Rightarrow> StreamSession \<Rightarrow> bool" where
  "at_history base acc x \<longleftrightarrow> last_sequence x = last (last_sequence base # map fst acc) \<and>
     total_bytes x = total_bytes base + sum_list (map snd acc)"

lemma at_history_start: "at_history x [] x"
  by (simp add: at_history_def)

lemma history_ok_start: "total_bytes x \<le> STREAM_MAX_TOTAL_BYTES \<Longrightarrow> history_ok x []"
  by (simp add: history_ok_def)

lemma sorted_wrt_less_last: "sorted_wrt (<) (x # xs) \<Longrightarrow> y \<in> set (x # xs) \<Longrightarrow> y \<le> last (x # xs)" for y :: "'a::order"
  by (induction xs arbitrary: x) (auto simp: less_imp_le split: if_split_asm)

lemma history_extend:
  assumes "history_ok base acc" "at_history base acc x" "validate_continuation t q n x = Ok x'"
  shows "history_ok base (acc @ [(q, n)])" "at_history base (acc @ [(q, n)]) x'"
proof -
  note v = validate_continuation_Ok [OF assms(3)]
  have "y < q" if "y \<in> set (last_sequence base # map fst acc)" for y
  proof -
    have "y \<le> last_sequence x"
      using sorted_wrt_less_last [OF _ that] assms(1,2) by (simp only: history_ok_def at_history_def)
    with v(1) show ?thesis by simp
  qed
  moreover have "sorted_wrt (<) ((last_sequence base # map fst acc) @ [q]) \<longleftrightarrow>
      sorted_wrt (<) (last_sequence base # map fst acc) \<and> (\<forall>y \<in> set (last_sequence base # map fst acc). y < q)"
    by (simp only: sorted_wrt_append) simp
  ultimately show "history_ok base (acc @ [(q, n)])"
    using assms(1,2) v(3,4) by (simp add: history_ok_def at_history_def)
  show "at_history base (acc @ [(q, n)]) x'"
    using assms(2) v(2,3) by (simp add: at_history_def)
qed

fun fjob_ok :: "session_codec \<Rightarrow> fjob \<Rightarrow> bool" where
  "fjob_ok J (Waiting a q n) \<longleftrightarrow> True"
| "fjob_ok J (Validated a q n raw x') \<longleftrightarrow> (\<exists>x t. dec_session J raw = Some x \<and> validate_continuation t q n x = Ok x')"

definition stored_ok :: "session_codec \<Rightarrow> 'b fsys \<Rightarrow> (bytes \<times> secs option) option \<Rightarrow> bool" where
  "stored_ok J s v \<longleftrightarrow>
     (\<forall>raw e. v = Some (raw, e) \<longrightarrow> (\<exists>x. dec_session J raw = Some x \<and> at_history (fs_base s) (fs_accepted s) x))"

lemma live_mono: "live t v = Some y \<Longrightarrow> now \<le> t \<Longrightarrow> live now v = Some y"
  by (auto simp: live_def split: option.splits if_split_asm)

lemma live_Some_eq: "live t v = Some y \<Longrightarrow> v = Some y"
  by (auto simp: live_def split: option.splits if_split_asm)

definition frames_inv ::
  "('b \<Rightarrow> bool) \<Rightarrow> ('b \<Rightarrow> string \<Rightarrow> (bytes \<times> secs option) option) \<Rightarrow> session_codec \<Rightarrow> string \<Rightarrow> 'b fsys \<Rightarrow> bool" where
  "frames_inv ok view J sid s \<longleftrightarrow> ok (fs_store s) \<and> history_ok (fs_base s) (fs_accepted s) \<and>
     (\<forall>j \<in> set (fs_jobs s). fjob_ok J j) \<and> stored_ok J s (live (fs_clock s) (view (fs_store s) (stream_key sid)))"

lemma set_drop_nth: "set (drop_nth i xs) \<subseteq> set xs"
  by (auto simp: drop_nth_def dest: in_set_takeD in_set_dropD)

lemma frames_invD:
  assumes "frames_inv ok view J sid s"
  shows "ok (fs_store s)" "history_ok (fs_base s) (fs_accepted s)" "j \<in> set (fs_jobs s) \<Longrightarrow> fjob_ok J j"
    "live (fs_clock s) (view (fs_store s) (stream_key sid)) = Some (raw, e) \<Longrightarrow>
       \<exists>x. dec_session J raw = Some x \<and> at_history (fs_base s) (fs_accepted s) x"
  using assms by (auto simp: frames_inv_def stored_ok_def)

context cas_backend
begin

text \<open>A step that stores nothing new for the stream and keeps the history.\<close>

lemma frames_inv_quiet:
  assumes "frames_inv inv view J sid s" "inv (fs_store s')" "fs_base s' = fs_base s" "fs_accepted s' = fs_accepted s"
    and "\<And>j. j \<in> set (fs_jobs s') \<Longrightarrow> j \<in> set (fs_jobs s) \<or> fjob_ok J j"
    and "\<And>y. live (fs_clock s') (view (fs_store s') (stream_key sid)) = Some y \<Longrightarrow>
      live (fs_clock s) (view (fs_store s) (stream_key sid)) = Some y"
  shows "frames_inv inv view J sid s'"
  using assms frames_invD(3) [OF assms(1)] by (fastforce simp: frames_inv_def stored_ok_def)

lemma frame_step_inv:
  assumes "frame_step B J sid s s'" "frames_inv inv view J sid s" "stream_key sid \<in> K" "\<And>x. dec_session J (enc_session J x) = Some x"
  shows "frames_inv inv view J sid s'"
  using assms(1,2)
proof (induction rule: frame_step.induct)
  case (tick s t)
  then show ?case by (intro frames_inv_quiet [OF tick.prems]) (auto dest: live_mono simp: frames_inv_def)
next
  case (arrive s q n)
  then show ?case by (intro frames_inv_quiet [OF arrive]) (auto simp: frames_inv_def)
next
  case (fetch i s a q n b raw x x')
  from get_live [OF frames_invD(1) [OF fetch.prems] assms(3), of "fs_clock s"] fetch.hyps(3)
  have "inv b" "\<forall>t j. fs_clock s \<le> t \<longrightarrow> live t (view b j) = live t (view (fs_store s) j)" by auto
  then show ?case
    using fetch.hyps(4,5) by (intro frames_inv_quiet [OF fetch.prems]) (auto dest!: subsetD [OF set_update_subset_insert])
next
  case (refuse i s a q n b)
  from get_live [OF frames_invD(1) [OF refuse.prems] assms(3), of "fs_clock s"] refuse.hyps(3)
  have "inv b" "\<forall>t j. fs_clock s \<le> t \<longrightarrow> live t (view b j) = live t (view (fs_store s) j)" by auto
  then show ?case
    by (intro frames_inv_quiet [OF refuse.prems]) (auto dest: subsetD [OF set_drop_nth])
next
  case (won i s a q n raw x' b)
  have "Validated a q n raw x' \<in> set (fs_jobs s)" using won.hyps(1,2) by (metis nth_mem)
  with frames_invD(3) [OF won.prems] obtain x t where
    x: "dec_session J raw = Some x" "validate_continuation t q n x = Ok x'" by force
  from swap_view [OF frames_invD(1) [OF won.prems] assms(3), of "fs_clock s" "Some raw" "enc_session J x'" "Some stream_backend_ttl"]
    won.hyps(3)
  have b: "inv b" "map_option fst (live (fs_clock s) (view (fs_store s) (stream_key sid))) = Some raw"
    "view b = (view (fs_store s))(stream_key sid \<mapsto> (enc_session J x', map_option ((+) (fs_clock s)) (Some stream_backend_ttl)))"
    by auto
  from b(2) obtain e where "live (fs_clock s) (view (fs_store s) (stream_key sid)) = Some (raw, e)" by auto
  from frames_invD(4) [OF won.prems this] x(1) have "at_history (fs_base s) (fs_accepted s) x" by simp
  note h = history_extend [OF frames_invD(2) [OF won.prems] this x(2)]
  have "stored_ok J (s\<lparr>fs_store := b, fs_jobs := drop_nth i (fs_jobs s), fs_accepted := fs_accepted s @ [(q, n)]\<rparr>)
      (live (fs_clock s) (view b (stream_key sid)))"
    using h(2) assms(4) by (auto simp: stored_ok_def b(3) dest!: live_Some_eq)
  then show ?case
    using b(1) h(1) frames_invD(3) [OF won.prems] set_drop_nth [of i "fs_jobs s"] by (auto simp: frames_inv_def)
next
  case (lost i s a q n raw x' b)
  from swap_view [OF frames_invD(1) [OF lost.prems] assms(3), of "fs_clock s" "Some raw" "enc_session J x'" "Some stream_backend_ttl"]
    lost.hyps(3)
  have "inv b" "view b = view (fs_store s)" by auto
  then show ?case
    by (intro frames_inv_quiet [OF lost.prems]) (auto dest!: subsetD [OF set_update_subset_insert])
next
  case (register x s)
  from set_view [OF frames_invD(1) [OF register.prems] assms(3), of "fs_clock s" "enc_session J x" "Some stream_backend_ttl"] register.hyps(1)
  obtain b where b: "put_session_backend B J (fs_clock s) x (fs_store s) = b" "inv b"
    "view b = (view (fs_store s))(stream_key sid \<mapsto> (enc_session J x, map_option ((+) (fs_clock s)) (Some stream_backend_ttl)))"
    by (auto simp: put_session_backend_def)
  have "stored_ok J (s\<lparr>fs_store := b, fs_base := x, fs_accepted := []\<rparr>) (live (fs_clock s) (view b (stream_key sid)))"
    using assms(4) by (auto simp: stored_ok_def b(3) at_history_start dest!: live_Some_eq)
  then show ?case
    using b(1,2) history_ok_start [OF register.hyps(2)] frames_invD(3) [OF register.prems] by (simp add: frames_inv_def)
next
  case (close s)
  from delete_view [OF frames_invD(1) [OF close], of "fs_clock s" "stream_key sid"] obtain b r where
    "sb_delete B (fs_clock s) (stream_key sid) (fs_store s) = (b, Some r)" "inv b"
    "view b = (view (fs_store s))(stream_key sid := None)" by blast
  moreover from this(1) have "fst (close_stream_backend B (fs_clock s) sid (fs_store s)) = b"
    by (auto simp: close_stream_backend_def split: bool.split)
  ultimately show ?case by (intro frames_inv_quiet [OF close]) (auto simp: live_def)
qed

lemma frame_run_inv:
  "frame_run B J sid s0 s \<Longrightarrow> frames_inv inv view J sid s0 \<Longrightarrow> stream_key sid \<in> K \<Longrightarrow>
   (\<And>x. dec_session J (enc_session J x) = Some x) \<Longrightarrow> frames_inv inv view J sid s"
  by (induction rule: frame_run.induct) (auto intro: frame_step_inv)

end

section \<open>The in-memory backend\<close>

lemma mem_get_view:
  assumes "mem_inv K b"
  shows "\<exists>b'. sb_get in_memory now k b = (b', Some (map_option fst (live now (mem_view b k)))) \<and> mem_inv K b' \<and>
    (\<forall>t j. now \<le> t \<longrightarrow> live t (mem_view b' j) = live t (mem_view b j))"
proof (cases "\<exists>e. map_of (store b) k = Some e \<and> is_expired now e")
  case True
  then obtain e where e: "map_of (store b) k = Some e" "is_expired now e" by blast
  have "mem_get now k b = (b\<lparr>store := AList.delete k (store b)\<rparr>, Some None)" using e by (simp add: mem_get_def)
  moreover have "is_expired t e" if "now \<le> t" for t using e(2) that by (auto simp: is_expired_def split: option.splits)
  ultimately show ?thesis
    using assms e by (auto simp: in_memory_def live_mem_view mem_inv_def)
next
  case False
  then have "mem_get now k b = (b, Some (map_option fst (live now (mem_view b k))))"
    by (auto simp: mem_get_def live_mem_view split: option.split)
  then show ?thesis using assms by (simp add: in_memory_def)
qed

interpretation mem: cas_backend in_memory "mem_inv K" mem_view K for K
proof
  fix b k now old v life
  assume inv: "mem_inv K b"
  show "\<exists>b'. sb_get in_memory now k b = (b', Some (map_option fst (live now (mem_view b k)))) \<and> mem_inv K b' \<and>
      (\<forall>t j. now \<le> t \<longrightarrow> live t (mem_view b' j) = live t (mem_view b j))"
    using mem_get_view [OF inv] .
  { assume "k \<in> K"
    have "(case map_of (store b) k of Some e \<Rightarrow> if \<not> is_expired now e then Some (e_value e) else None | None \<Rightarrow> None)
        = map_option fst (live now (mem_view b k))"
      by (simp add: live_mem_view split: option.split)
    with inv \<open>k \<in> K\<close>
    show "\<exists>b'. sb_compare_and_swap in_memory now k old v life b = (b', Some (map_option fst (live now (mem_view b k)) = old)) \<and>
        mem_inv K b' \<and> mem_view b' = (if map_option fst (live now (mem_view b k)) = old
          then (mem_view b)(k \<mapsto> (v, map_option ((+) now) life)) else mem_view b)"
      by (auto simp: in_memory_def mem_compare_and_swap_def Let_def mem_inv_def mem_view_def fun_eq_iff) }
  show "\<exists>b' r. sb_delete in_memory now k b = (b', Some r) \<and> mem_inv K b' \<and> mem_view b' = (mem_view b)(k := None)"
    using inv by (auto simp: in_memory_def mem_delete_def mem_inv_def mem_view_def fun_eq_iff)
qed

section \<open>Behind the circuit breaker\<close>

lemma guarded_step:
  assumes "breaker_inv ok c" "f (cb_inner c) = (b, Some r)" "ok b"
  shows "\<exists>c'. guarded now f c = (c', Some r) \<and> breaker_inv ok c' \<and> cb_inner c' = b"
  using assms by (auto simp: breaker_inv_def guarded_success)

lemma breaker_cas_backend:
  assumes "cas_backend B ok view K"
  shows "cas_backend (breaker B) (breaker_inv ok) (breaker_view view) K"
proof (rule cas_backend.intro)
  show "counter_backend (breaker B) (breaker_inv ok) (breaker_view view) K"
    using assms by (intro breaker_counter_backend) (simp add: cas_backend_def)
  show "cas_backend_axioms (breaker B) (breaker_inv ok) (breaker_view view) K"
  proof
    fix c k now old v life
    assume inv: "breaker_inv ok c"
    then have ok: "ok (cb_inner c)" by (simp add: breaker_inv_def)
    { assume k: "k \<in> K"
      from cas_backend.get_live [OF assms ok k, of now]
      show "\<exists>c'. sb_get (breaker B) now k c = (c', Some (map_option fst (live now (breaker_view view c k)))) \<and> breaker_inv ok c' \<and>
          (\<forall>t j. now \<le> t \<longrightarrow> live t (breaker_view view c' j) = live t (breaker_view view c j))"
        using guarded_step [OF inv, of "sb_get B now k"] by (fastforce simp: breaker_def breaker_view_def)
      from cas_backend.swap_view [OF assms ok k, of now old v life]
      show "\<exists>c'. sb_compare_and_swap (breaker B) now k old v life c =
            (c', Some (map_option fst (live now (breaker_view view c k)) = old)) \<and> breaker_inv ok c' \<and>
          breaker_view view c' = (if map_option fst (live now (breaker_view view c k)) = old
            then (breaker_view view c)(k \<mapsto> (v, map_option ((+) now) life)) else breaker_view view c)"
        using guarded_step [OF inv, of "sb_compare_and_swap B now k old v life"]
        by (fastforce simp: breaker_def breaker_view_def) }
    from cas_backend.delete_view [OF assms ok, of now k]
    show "\<exists>c' r. sb_delete (breaker B) now k c = (c', Some r) \<and> breaker_inv ok c' \<and>
        breaker_view view c' = (breaker_view view c)(k := None)"
      using guarded_step [OF inv, of "sb_delete B now k"] by (fastforce simp: breaker_def breaker_view_def)
  qed
qed

interpretation guarded_mem: cas_backend "breaker in_memory" "breaker_inv (mem_inv K)" "breaker_view mem_view" K for K
  by (rule breaker_cas_backend) (rule mem.cas_backend_axioms)

section \<open>A concrete run\<close>

definition session_fields where
  "session_fields s = ((stream_id s, st_agent_id s, st_source_agent s, last_sequence s, last_sequence_id s, total_bytes s),
     (frame_count s, started_at s, last_frame_at s, st_closed s, st_token_sig_hash s, token_exp s, st_max_action_class s))"

definition demo_codec :: session_codec where
  "demo_codec = \<lparr>enc_session = (\<lambda>s. replicate (to_nat (session_fields s)) 0),
     dec_session = (\<lambda>bs. case from_nat (length bs) of
       ((i, a, src, q, qo, n), (fc, t0, t1, cl, h, ex, mac)) \<Rightarrow>
         Some \<lparr>stream_id = i, st_agent_id = a, st_source_agent = src, last_sequence = q, last_sequence_id = qo,
           total_bytes = n, frame_count = fc, started_at = t0, last_frame_at = t1, st_closed = cl, st_token_sig_hash = h,
           token_exp = ex, st_max_action_class = mac\<rparr>)\<rparr>"

lemma demo_codec_inverse: "dec_session demo_codec (enc_session demo_codec s) = Some s"
  by (simp add: demo_codec_def session_fields_def)


definition demo_session :: StreamSession where
  "demo_session = new_stream_session 0 ''s'' ''a'' 0"

definition demo_next :: StreamSession where
  "demo_next = demo_session\<lparr>last_sequence := 5, last_sequence_id := Some 5, total_bytes := 3, frame_count := 1\<rparr>"

definition demo_start :: "InMemoryBackend fsys" where
  "demo_start = \<lparr>fs_store = with_max_entries 8, fs_clock = 0, fs_jobs = [], fs_base = demo_session, fs_accepted = []\<rparr>"

abbreviation demo_store :: "StreamSession \<Rightarrow> InMemoryBackend" where
  "demo_store x \<equiv> \<lparr>store = [(stream_key ''s'', \<lparr>e_value = enc_session demo_codec x, expires_at = Some stream_backend_ttl\<rparr>)],
     order = [stream_key ''s''], be_max_entries = 8\<rparr>"

lemma demo_run:
  "frame_run in_memory demo_codec ''s'' demo_start
     \<lparr>fs_store = demo_store demo_next, fs_clock = 0, fs_jobs = [], fs_base = demo_session, fs_accepted = [(5, 3)]\<rparr>"
proof -
  let ?J = demo_codec and ?k = "stream_key ''s''"
  have ttl: "\<not> stream_backend_ttl \<le> 0"
    by (simp add: stream_backend_ttl_def STREAM_MAX_DURATION_SECONDS_def STREAM_MAX_FRAME_GAP_SECONDS_def)
  have x: "stream_id demo_session = ''s''" "total_bytes demo_session \<le> STREAM_MAX_TOTAL_BYTES"
    by (simp_all add: demo_session_def new_stream_session_def)
  have put: "put_session_backend in_memory ?J 0 demo_session (with_max_entries 8) = demo_store demo_session"
    by (simp add: put_session_backend_def in_memory_def mem_set_def put_entry_def track_new_key_def with_max_entries_def State_Backend.compact_def x)
  have get: "sb_get in_memory 0 ?k (demo_store demo_session) = (demo_store demo_session, Some (Some (enc_session ?J demo_session)))"
    using ttl by (simp add: in_memory_def mem_get_def is_expired_def)
  have swap: "sb_compare_and_swap in_memory 0 ?k (Some (enc_session ?J demo_session)) (enc_session ?J demo_next)
      (Some stream_backend_ttl) (demo_store demo_session) = (demo_store demo_next, Some True)"
    using ttl by (simp add: in_memory_def mem_compare_and_swap_def is_expired_def)
  have valid: "validate_continuation 0 5 3 demo_session = Ok demo_next"
    by (simp add: validate_continuation_def demo_session_def demo_next_def new_stream_session_def STREAM_MAX_TOTAL_BYTES_def
        STREAM_MAX_DURATION_SECONDS_def STREAM_MAX_FRAME_GAP_SECONDS_def)
  have "frame_run in_memory ?J ''s'' demo_start
      \<lparr>fs_store = demo_store demo_session, fs_clock = 0, fs_jobs = [], fs_base = demo_session, fs_accepted = []\<rparr>"
    using frame_run.step [OF frame_run.start frame_step.register [OF x, of in_memory ?J demo_start]]
    by (simp add: demo_start_def put)
  from frame_run.step [OF this frame_step.arrive [of _ _ _ _ 5 3]]
  have "frame_run in_memory ?J ''s'' demo_start
      \<lparr>fs_store = demo_store demo_session, fs_clock = 0, fs_jobs = [Waiting (Suc 4) 5 3], fs_base = demo_session, fs_accepted = []\<rparr>"
    by (simp add: MAX_CAS_ATTEMPTS_def)
  from frame_run.step [OF this frame_step.fetch [of 0 _ 4 5 3 in_memory "''s''" "demo_store demo_session"
      "enc_session ?J demo_session" ?J demo_session demo_next]] get valid
  have "frame_run in_memory ?J ''s'' demo_start
      \<lparr>fs_store = demo_store demo_session, fs_clock = 0, fs_jobs = [Validated 4 5 3 (enc_session ?J demo_session) demo_next],
       fs_base = demo_session, fs_accepted = []\<rparr>"
    by (simp add: demo_codec_inverse)
  from frame_run.step [OF this frame_step.won [of 0 _ 4 5 3 "enc_session ?J demo_session" demo_next in_memory "''s''" ?J
      "demo_store demo_next"]] swap
  show ?thesis by (simp add: drop_nth_def)
qed

section \<open>Properties\<close>



end
