(* ===== verification/Audit_Record.thy ===== *)
theory Audit_Record
  imports State_Backend Json
begin

text \<open>
  Audit records and their hashes, from \<open>src/security.rs\<close>: the record with its canonical form, the keyed chain
  hash, the per-shard genesis values, the Merkle tree over the sixteen shard heads, the line written to
  the log, and the reading of the sentinel file. SHA-256, HMAC, AES-GCM, HKDF and the JSON parser and
  printer are the record \<open>audit_env\<close>. An HMAC takes keys of every length, so the branches for a refused key
  do not exist. White space around the sentinel count is ASCII.
\<close>

section \<open>Constants and environment\<close>

definition GENESIS_HASH :: string where "GENESIS_HASH = ''47454e455349535f424c4f434b''"
definition AUDIT_SHARDS :: nat where "AUDIT_SHARDS = 16"
definition AUDIT_MAX_IN_MEMORY_ENTRIES :: nat where "AUDIT_MAX_IN_MEMORY_ENTRIES = 100000"
definition AUDIT_PER_SHARD_MAX_IN_MEMORY :: nat where
  "AUDIT_PER_SHARD_MAX_IN_MEMORY = AUDIT_MAX_IN_MEMORY_ENTRIES div AUDIT_SHARDS"
definition AUDIT_SHARD_GENESIS_TAG :: bytes where "AUDIT_SHARD_GENESIS_TAG = str_bytes ''SAACP-audit-shard-genesis-v1''"
definition AUDIT_RECORD_VERSION_V2 :: u8 where "AUDIT_RECORD_VERSION_V2 = 2"
definition MERKLE_LEAF_PREFIX :: u8 where "MERKLE_LEAF_PREFIX = 0x00"
definition MERKLE_NODE_PREFIX :: u8 where "MERKLE_NODE_PREFIX = 0x01"
definition ANCHOR_LINE_KEY :: string where "ANCHOR_LINE_KEY = ''anchor''"
definition ANCHOR_GENESIS_ROOT :: string where "ANCHOR_GENESIS_ROOT = replicate 64 CHR ''0''"
definition AUDIT_INTENT_HKDF_INFO :: bytes where "AUDIT_INTENT_HKDF_INFO = str_bytes ''SAACP-audit-intent-confidentiality-v1''"
definition AUDIT_INTENT_HKDF_SALT :: bytes where "AUDIT_INTENT_HKDF_SALT = str_bytes ''SAACP-audit-intent-hkdf-salt-v1''"

record MerkleAnchor =
  an_epoch :: u64
  an_heads :: "string list"
  an_root :: string
  an_prev_root :: string
  an_event_count :: u64
  an_timestamp :: secs

text \<open>\<open>ae_anchor_from_value\<close> is the derived deserializer of \<open>MerkleAnchor\<close>; the sealed text of
  \<open>ae_seal key nonce plaintext\<close> ends with its tag.\<close>

record audit_env =
  ae_sha256 :: "bytes \<Rightarrow> bytes"
  ae_hmac :: "bytes \<Rightarrow> bytes \<Rightarrow> bytes"
  ae_to_string :: "json \<Rightarrow> string"
  ae_from_str :: "string \<Rightarrow> json option"
  ae_anchor_from_value :: "json \<Rightarrow> MerkleAnchor option"
  ae_hkdf :: "bytes \<Rightarrow> bytes \<Rightarrow> bytes \<Rightarrow> bytes"
  ae_seal :: "bytes \<Rightarrow> bytes \<Rightarrow> bytes \<Rightarrow> bytes"
  ae_open :: "bytes \<Rightarrow> bytes \<Rightarrow> bytes \<Rightarrow> bytes option"
  ae_utf8 :: "bytes \<Rightarrow> bool"

section \<open>Intents at rest\<close>

definition derive_intent_key :: "audit_env \<Rightarrow> bytes \<Rightarrow> bytes" where
  "derive_intent_key E issuer_secret = ae_hkdf E AUDIT_INTENT_HKDF_SALT issuer_secret AUDIT_INTENT_HKDF_INFO"

definition encrypt_intent :: "audit_env \<Rightarrow> bytes \<Rightarrow> bytes \<Rightarrow> string \<Rightarrow> string" where
  "encrypt_intent E nonce issuer_secret plaintext_intent =
     hex_encode (nonce @ ae_seal E (derive_intent_key E issuer_secret) nonce (str_bytes plaintext_intent))"

definition decrypt_intent :: "audit_env \<Rightarrow> bytes \<Rightarrow> string \<Rightarrow> string option" where
  "decrypt_intent E issuer_secret encrypted_hex =
     (case hex_decode encrypted_hex of
        None \<Rightarrow> None
      | Some raw \<Rightarrow>
          if length raw < 12 + 16 then None
          else case ae_open E (derive_intent_key E issuer_secret) (take 12 raw) (drop 12 raw) of
                 None \<Rightarrow> None
               | Some plaintext \<Rightarrow> if ae_utf8 E plaintext then Some (bytes_str plaintext) else None)"

section \<open>Genesis values and the Merkle tree\<close>

definition shard_genesis_hash :: "audit_env \<Rightarrow> nat \<Rightarrow> string" where
  "shard_genesis_hash E shard_id =
     hex_encode (ae_sha256 E (AUDIT_SHARD_GENESIS_TAG @ to_be_bytes 2 (word_of_nat shard_id :: u16)))"

definition migration_seed_hash :: "audit_env \<Rightarrow> nat \<Rightarrow> string option \<Rightarrow> string" where
  "migration_seed_hash E shard_id final_v1_hash =
     (case final_v1_hash of
        None \<Rightarrow> shard_genesis_hash E shard_id
      | Some v1 \<Rightarrow> hex_encode (ae_sha256 E
          (AUDIT_SHARD_GENESIS_TAG @ to_be_bytes 2 (word_of_nat shard_id :: u16) @ str_bytes v1)))"

definition merkle_leaf :: "audit_env \<Rightarrow> nat \<Rightarrow> string \<Rightarrow> bytes" where
  "merkle_leaf E shard_id head_hash =
     ae_sha256 E (MERKLE_LEAF_PREFIX # to_be_bytes 2 (word_of_nat shard_id :: u16) @ str_bytes head_hash)"

text \<open>One round over \<open>level.chunks(2)\<close>: a chunk of one element panics at \<open>pair[1]\<close>.\<close>

fun merkle_level :: "audit_env \<Rightarrow> bytes list \<Rightarrow> bytes list option" where
  "merkle_level E [] = Some []"
| "merkle_level E [a] = None"
| "merkle_level E (a # b # rest) =
     map_option ((#) (ae_sha256 E (MERKLE_NODE_PREFIX # a @ b))) (merkle_level E rest)"

lemma merkle_level_length: "merkle_level E xs = Some ys \<Longrightarrow> length xs = 2 * length ys"
  by (induction E xs arbitrary: ys rule: merkle_level.induct) auto

function merkle_root :: "audit_env \<Rightarrow> bytes list \<Rightarrow> string option" where
  "merkle_root E leaves =
     (case leaves of
        [] \<Rightarrow> None
      | [x] \<Rightarrow> Some (hex_encode x)
      | _ \<Rightarrow> (case merkle_level E leaves of None \<Rightarrow> None | Some next \<Rightarrow> merkle_root E next))"
  by pat_completeness auto
termination
  by (relation "measure (\<lambda>(E, xs). length xs)") (auto dest!: merkle_level_length split: option.splits)

declare merkle_root.simps [simp del]

definition heads_root :: "audit_env \<Rightarrow> string list \<Rightarrow> string option" where
  "heads_root E heads = merkle_root E (map (\<lambda>(i, h). merkle_leaf E i h) (enumerate 0 heads))"

section \<open>Records\<close>

record AuditRecord =
  ar_timestamp :: secs
  ar_source :: string
  ar_target :: string
  ar_intent :: string
  ar_token_signature :: string
  ar_traceparent :: string
  ar_prev_hash :: string
  ar_seq :: u64
  ar_shard_id :: "u16 option"
  ar_shard_seq :: "u64 option"
  ar_anchor_epoch :: "u64 option"

record AuditLogEntry =
  le_record :: AuditRecord
  le_chain_hash :: string

definition v2_fields :: "AuditRecord \<Rightarrow> u16 option \<times> u64 option \<times> u64 option \<times> u8 option" where
  "v2_fields r =
     (case (ar_shard_id r, ar_shard_seq r, ar_anchor_epoch r) of
        (Some sid, Some sseq, Some ep) \<Rightarrow> (Some sid, Some sseq, Some ep, Some AUDIT_RECORD_VERSION_V2)
      | _ \<Rightarrow> (None, None, None, None))"

record CanonicalAuditRecord =
  ca_anchor_epoch :: "u64 option"
  ca_intent :: string
  ca_prev_hash :: string
  ca_seq :: u64
  ca_shard_id :: "u16 option"
  ca_shard_seq :: "u64 option"
  ca_source :: string
  ca_target :: string
  ca_timestamp :: secs
  ca_token_signature :: string
  ca_traceparent :: string
  ca_v :: "u8 option"

definition from_record :: "AuditRecord \<Rightarrow> CanonicalAuditRecord" where
  "from_record r =
     (case v2_fields r of (sid, sseq, ep, v) \<Rightarrow>
        \<lparr>ca_anchor_epoch = ep, ca_intent = ar_intent r, ca_prev_hash = ar_prev_hash r, ca_seq = ar_seq r,
         ca_shard_id = sid, ca_shard_seq = sseq, ca_source = ar_source r, ca_target = ar_target r,
         ca_timestamp = ar_timestamp r, ca_token_signature = ar_token_signature r,
         ca_traceparent = ar_traceparent r, ca_v = v\<rparr>)"

text \<open>The derived serializer: fields in declaration order, absent options skipped.\<close>

definition opt_field :: "string \<Rightarrow> 'a::len word option \<Rightarrow> (string \<times> json) list" where
  "opt_field k x = (case x of None \<Rightarrow> [] | Some w \<Rightarrow> [(k, JNum (PosInt (ucast w)))])"

definition canonical_value :: "CanonicalAuditRecord \<Rightarrow> json" where
  "canonical_value c = JObj (
     opt_field ''anchor_epoch'' (ca_anchor_epoch c) @
     [(''intent'', JStr (ca_intent c)), (''prev_hash'', JStr (ca_prev_hash c)), (''seq'', JNum (PosInt (ca_seq c)))] @
     opt_field ''shard_id'' (ca_shard_id c) @ opt_field ''shard_seq'' (ca_shard_seq c) @
     [(''source'', JStr (ca_source c)), (''target'', JStr (ca_target c)), (''timestamp'', JNum (Float (ca_timestamp c))),
      (''token_signature'', JStr (ca_token_signature c)), (''traceparent'', JStr (ca_traceparent c))] @
     opt_field ''v'' (ca_v c))"

definition chain_hash :: "audit_env \<Rightarrow> bytes \<Rightarrow> CanonicalAuditRecord \<Rightarrow> string" where
  "chain_hash E issuer_secret c =
     hex_encode (ae_hmac E issuer_secret (str_bytes (ae_to_string E (canonical_value c))))"

definition serialize_and_hash :: "audit_env \<Rightarrow> bytes \<Rightarrow> CanonicalAuditRecord \<Rightarrow> string \<times> string" where
  "serialize_and_hash E issuer_secret c =
     (let json = ae_to_string E (canonical_value c)
      in (json, hex_encode (ae_hmac E issuer_secret (str_bytes json))))"

definition entry_line :: "string \<Rightarrow> string \<Rightarrow> string" where
  \<open>entry_line record_json h = ''{"record":'' @ record_json @ '',"chain_hash":"'' @ h @ ''"}''\<close>

text \<open>A \<open>Value\<close> keeps its keys sorted.\<close>

definition anchor_value :: "MerkleAnchor \<Rightarrow> json" where
  "anchor_value a = JObj [
     (''epoch'', JNum (PosInt (an_epoch a))), (''event_count'', JNum (PosInt (an_event_count a))),
     (''heads'', JArr (map JStr (an_heads a))), (''prev_root'', JStr (an_prev_root a)), (''root'', JStr (an_root a)),
     (''timestamp'', JNum (Float (an_timestamp a)))]"

section \<open>The sentinel count\<close>

definition is_space :: "char \<Rightarrow> bool" where
  "is_space c \<longleftrightarrow> (of_char c :: nat) \<in> {9, 10, 11, 12, 13, 32}"

definition trim :: "string \<Rightarrow> string" where
  "trim s = rev (dropWhile is_space (rev (dropWhile is_space s)))"

definition parse_u64 :: "string \<Rightarrow> nat option" where
  "parse_u64 s =
     (let ds = (case s of c # cs \<Rightarrow> if c = CHR ''+'' then cs else s | [] \<Rightarrow> s)
      in case parse_digits (str_bytes ds) of
           Some n \<Rightarrow> if n < 2 ^ 64 then Some n else None
         | None \<Rightarrow> None)"

definition u64_string :: "nat \<Rightarrow> string" where
  "u64_string n = bytes_str (dec_nat n)"

definition sentinel_count :: "string option \<Rightarrow> nat option" where
  "sentinel_count file = (case file of None \<Rightarrow> None | Some s \<Rightarrow> parse_u64 (trim s))"

section \<open>Lemmas\<close>

lemma merkle_level_total: "length xs = 2 * n \<Longrightarrow> \<exists>ys. merkle_level E xs = Some ys \<and> length ys = n"
proof (induction E xs arbitrary: n rule: merkle_level.induct)
  case (3 E a b rest)
  then obtain m where "n = Suc m" "length rest = 2 * m" by (cases n) auto
  with "3.IH" [of m] show ?case by auto
qed auto

lemma merkle_root_total: "length xs = 2 ^ k \<Longrightarrow> \<exists>r. merkle_root E xs = Some r"
proof (induction k arbitrary: xs)
  case 0
  then obtain x where "xs = [x]" by (cases xs) auto
  then show ?case by (simp add: merkle_root.simps)
next
  case (Suc k)
  then obtain ys where ys: "merkle_level E xs = Some ys" "length ys = 2 ^ k"
    using merkle_level_total [of xs "2 ^ k" E] by auto
  have "2 \<le> length xs" using Suc.prems by (simp add: Suc_le_eq)
  then obtain a b rest where "xs = a # b # rest" by (cases xs; cases "tl xs") (auto simp: Suc_le_eq)
  with Suc.IH [OF ys(2)] ys show ?case by (subst merkle_root.simps) auto
qed

lemma heads_root_total: "length heads = AUDIT_SHARDS \<Longrightarrow> \<exists>r. heads_root E heads = Some r"
  unfolding heads_root_def by (rule merkle_root_total [of _ 4]) (simp add: AUDIT_SHARDS_def)

lemma opt_field_simps [simp]: "opt_field k None = []" "opt_field k (Some w) = [(k, JNum (PosInt (ucast w)))]"
  by (simp_all add: opt_field_def)

lemma unat_ucast_u64: "LENGTH('a) \<le> 64 \<Longrightarrow> unat (ucast a :: u64) = unat a" for a :: "'a::len word"
proof -
  assume "LENGTH('a) \<le> 64"
  then have "2 ^ LENGTH('a) \<le> (2 ^ 64 :: nat)" by (rule power_increasing) simp
  with unat_less_exp [of a] have "unat a < 2 ^ 64" by (rule order.strict_trans2)
  then show ?thesis by (simp add: unsigned_ucast_eq take_bit_nat_eq_self)
qed

lemma ucast_u64_inject: "LENGTH('a) \<le> 64 \<Longrightarrow> ucast a = (ucast b :: u64) \<longleftrightarrow> a = b" for a b :: "'a::len word"
  by (metis unat_ucast_u64 unsigned_word_eqI)

lemmas ucast_simps [simp] = ucast_u64_inject [where 'a=16, simplified] ucast_u64_inject [where 'a=8, simplified]

lemma canonical_value_inject: "canonical_value c = canonical_value d \<longleftrightarrow> c = d"
  by (cases c; cases d) (auto simp: canonical_value_def opt_field_def split: option.splits)

lemma digits_no_space:
  assumes "list_all (\<lambda>d. 48 \<le> d \<and> d \<le> 57) bs" "c \<in> set (bytes_str bs)"
  shows "\<not> is_space c \<and> c \<noteq> CHR ''+''"
proof -
  from assms obtain d where d: "d \<in> set bs" "c = char_of (unat d)" by (auto simp: bytes_str_def)
  with assms(1) have "48 \<le> unat d" "unat d \<le> 57" by (auto simp: list_all_iff word_le_nat_alt)
  then show ?thesis using d(2) by (auto simp: is_space_def char_of_eq_iff take_bit_eq_mod)
qed

lemma trim_id: "\<forall>c \<in> set s. \<not> is_space c \<Longrightarrow> trim s = s"
proof -
  assume *: "\<forall>c \<in> set s. \<not> is_space c"
  have "dropWhile is_space t = t" if "\<forall>c \<in> set t. \<not> is_space c" for t
    using that by (cases t) auto
  from this [of s] this [of "rev s"] * show ?thesis by (simp add: trim_def)
qed

lemma sentinel_round_trip: "sentinel_count (Some (u64_string n)) = (if n < 2 ^ 64 then Some n else None)"
proof -
  have ds: "list_all (\<lambda>d. 48 \<le> d \<and> d \<le> 57) (dec_nat n)"
    using parse_digits_dec [of n] by (simp add: parse_digits_def split: if_splits)
  then have "trim (u64_string n) = u64_string n" "\<forall>c \<in> set (u64_string n). c \<noteq> CHR ''+''"
    using digits_no_space by (auto simp: u64_string_def intro!: trim_id)
  then have "sentinel_count (Some (u64_string n)) = parse_u64 (u64_string n)"
    "(case u64_string n of c # cs \<Rightarrow> if c = CHR ''+'' then cs else u64_string n | [] \<Rightarrow> u64_string n) = u64_string n"
    by (auto simp: sentinel_count_def split: list.splits)
  then have "sentinel_count (Some (u64_string n)) = (case parse_digits (str_bytes (u64_string n)) of
      Some n \<Rightarrow> if n < 2 ^ 64 then Some n else None | None \<Rightarrow> None)"
    by (simp only: parse_u64_def Let_def)
  then show ?thesis by (simp add: u64_string_def parse_digits_dec)
qed

end
