(* ===== verification/Audit_Log.thy ===== *)
theory Audit_Log
  imports Audit_Record
begin

text \<open>
  The in-memory side of \<open>ImmutableAuditLog\<close> (\<open>src/security.rs\<close>): sixteen hash chains, the published heads, the
  bounded channel to the writer thread, the health signal, \<open>verify_chain\<close>, and the two gates of
  \<open>src/handler.rs\<close> that tie irreversible actions to the audit trail.

  An append runs through phases between which other threads may act: it reserves a global number, extends the
  chain of its thread's shard under that shard's lock, publishes the head, queues the line, recomputes the
  health and calls the observers. Each phase is a function and \<open>append_event_inner\<close> composes them. The
  channel is the list of its messages and whether its receiver still exists. \<open>sink_calls\<close> and
  \<open>subscriber_calls\<close> list what the observers were called with. The events counted by \<open>global_seq\<close> are a natural number
  whose low 64 bits are stamped into the record. A poisoned lock is taken like an intact one, as in the code.
\<close>

section \<open>Health\<close>

datatype AuditHealth = Healthy | Degraded | Saturated | Fatal

fun as_u8 :: "AuditHealth \<Rightarrow> u8" where
  "as_u8 Healthy = 0"
| "as_u8 Degraded = 1"
| "as_u8 Saturated = 2"
| "as_u8 Fatal = 3"

definition from_u8 :: "u8 \<Rightarrow> AuditHealth" where
  "from_u8 v = (if v = 0 then Healthy else if v = 1 then Degraded else if v = 2 then Saturated else Fatal)"

instantiation AuditHealth :: linorder
begin

definition less_eq_AuditHealth :: "AuditHealth \<Rightarrow> AuditHealth \<Rightarrow> bool" where
  "less_eq_AuditHealth a b \<longleftrightarrow> as_u8 a \<le> as_u8 b"

definition less_AuditHealth :: "AuditHealth \<Rightarrow> AuditHealth \<Rightarrow> bool" where
  "less_AuditHealth a b \<longleftrightarrow> as_u8 a < as_u8 b"

instance
proof
  fix a b :: AuditHealth
  show "a \<le> b \<Longrightarrow> b \<le> a \<Longrightarrow> a = b" by (cases a; cases b) (simp_all add: less_eq_AuditHealth_def word_le_nat_alt)
qed (auto simp: less_eq_AuditHealth_def less_AuditHealth_def)

end

section \<open>State\<close>

definition AUDIT_WAL_QUEUE_CAPACITY :: nat where "AUDIT_WAL_QUEUE_CAPACITY = 100000"
definition AUDIT_HEALTH_DEGRADED_PCT :: rat where "AUDIT_HEALTH_DEGRADED_PCT = 70 / 100"
definition AUDIT_HEALTH_SATURATED_PCT :: rat where "AUDIT_HEALTH_SATURATED_PCT = 95 / 100"

datatype WalMessage = WalEntry string nat | WalFlush | WalReset

record ShardInner =
  last_hash :: string
  shard_seq :: u64
  entries :: "AuditLogEntry list"

record ImmutableAuditLog =
  shards :: "ShardInner list"
  shard_heads :: "string list"
  global_seq :: nat
  log_file :: string
  count_file :: string
  anchor_epoch :: u64
  wal_queue :: "WalMessage list"
  wal_receiver :: bool
  health_level :: u8
  dropped_audits :: nat
  health_floor :: u8
  wal_write_failures :: nat
  queue_len :: usize
  subscriber_calls :: "AuditRecord list"
  sink_calls :: "string list"

definition genesis_shard :: "audit_env \<Rightarrow> nat \<Rightarrow> ShardInner" where
  "genesis_shard E i = \<lparr>last_hash = shard_genesis_hash E i, shard_seq = 0, entries = []\<rparr>"

definition with_paths :: "audit_env \<Rightarrow> string \<Rightarrow> string \<Rightarrow> ImmutableAuditLog" where
  "with_paths E lf cf =
     \<lparr>shards = map (genesis_shard E) [0..<AUDIT_SHARDS], shard_heads = map (shard_genesis_hash E) [0..<AUDIT_SHARDS],
      global_seq = 0, log_file = lf, count_file = cf, anchor_epoch = 0, wal_queue = [], wal_receiver = True,
      health_level = as_u8 Healthy, dropped_audits = 0, health_floor = as_u8 Healthy, wal_write_failures = 0,
      queue_len = 0, subscriber_calls = [], sink_calls = []\<rparr>"

definition new_audit_log :: "audit_env \<Rightarrow> string \<Rightarrow> ImmutableAuditLog" where
  "new_audit_log E lf = with_paths E lf (if lf = [] then [] else lf @ ''.sentinel'')"

definition reset_chain_state_to_genesis :: "audit_env \<Rightarrow> ImmutableAuditLog \<Rightarrow> ImmutableAuditLog" where
  "reset_chain_state_to_genesis E L =
     L\<lparr>global_seq := 0, anchor_epoch := 0, shards := map (genesis_shard E) [0..<AUDIT_SHARDS],
       shard_heads := map (shard_genesis_hash E) [0..<AUDIT_SHARDS]\<rparr>"

section \<open>Appending\<close>

record audit_event =
  ev_source :: string
  ev_target :: string
  ev_token_signature :: string
  ev_intent :: string
  ev_traceparent :: string

definition reserve_seq :: "ImmutableAuditLog \<Rightarrow> u64 \<times> ImmutableAuditLog" where
  "reserve_seq L = (word_of_nat (global_seq L), L\<lparr>global_seq := Suc (global_seq L)\<rparr>)"

definition make_record :: "nat \<Rightarrow> secs \<Rightarrow> u64 \<Rightarrow> u64 \<Rightarrow> audit_event \<Rightarrow> ShardInner \<Rightarrow> AuditRecord" where
  "make_record slot timestamp epoch seq ev sh =
     \<lparr>ar_timestamp = timestamp, ar_source = ev_source ev, ar_target = ev_target ev, ar_intent = ev_intent ev,
      ar_token_signature = ev_token_signature ev, ar_traceparent = ev_traceparent ev, ar_prev_hash = last_hash sh,
      ar_seq = seq, ar_shard_id = Some (word_of_nat slot), ar_shard_seq = Some (shard_seq sh),
      ar_anchor_epoch = Some epoch\<rparr>"

definition drain_entries :: "AuditLogEntry list \<Rightarrow> AuditLogEntry list" where
  "drain_entries es =
     (if length es > AUDIT_PER_SHARD_MAX_IN_MEMORY then drop (AUDIT_PER_SHARD_MAX_IN_MEMORY div 5) es else es)"

definition shard_append :: "AuditRecord \<Rightarrow> string \<Rightarrow> ShardInner \<Rightarrow> ShardInner" where
  "shard_append r h sh =
     \<lparr>last_hash = h, shard_seq = shard_seq sh + 1,
      entries = drain_entries (entries sh @ [\<lparr>le_record = r, le_chain_hash = h\<rparr>])\<rparr>"

definition lock_append ::
  "audit_env \<Rightarrow> bytes \<Rightarrow> nat \<Rightarrow> secs \<Rightarrow> u64 \<Rightarrow> u64 \<Rightarrow> audit_event \<Rightarrow> ImmutableAuditLog \<Rightarrow>
   (AuditRecord \<times> string \<times> string) \<times> ImmutableAuditLog" where
  "lock_append E issuer_secret slot timestamp epoch seq ev L =
     (let sh = shards L ! slot;
          r = make_record slot timestamp epoch seq ev sh;
          (record_json, h) = serialize_and_hash E issuer_secret (from_record r)
      in ((r, entry_line record_json h, h), L\<lparr>shards := (shards L)[slot := shard_append r h sh]\<rparr>))"

definition publish_head :: "nat \<Rightarrow> string \<Rightarrow> ImmutableAuditLog \<Rightarrow> ImmutableAuditLog" where
  "publish_head slot h L = L\<lparr>shard_heads := (shard_heads L)[slot := h]\<rparr>"

definition enqueue_wal_line :: "string \<Rightarrow> ImmutableAuditLog \<Rightarrow> bool \<times> ImmutableAuditLog" where
  "enqueue_wal_line entry_json L =
     (if wal_receiver L \<and> length (wal_queue L) < AUDIT_WAL_QUEUE_CAPACITY
      then (True, L\<lparr>wal_queue := wal_queue L @ [WalEntry entry_json (global_seq L)], queue_len := queue_len L + 1\<rparr>)
      else (False, L\<lparr>dropped_audits := Suc (dropped_audits L), health_floor := max (health_floor L) (as_u8 Saturated)\<rparr>))"

definition recompute_health :: "ImmutableAuditLog \<Rightarrow> ImmutableAuditLog" where
  "recompute_health L =
     (let pct = of_nat (unat (queue_len L)) / of_nat AUDIT_WAL_QUEUE_CAPACITY;
          level = (if pct > AUDIT_HEALTH_SATURATED_PCT then Saturated
                   else if pct > AUDIT_HEALTH_DEGRADED_PCT then Degraded else Healthy)
      in if health_level L = as_u8 Fatal then L else L\<lparr>health_level := as_u8 level\<rparr>)"

definition append_event_inner ::
  "audit_env \<Rightarrow> bytes \<Rightarrow> nat \<Rightarrow> secs \<Rightarrow> audit_event \<Rightarrow> ImmutableAuditLog \<Rightarrow> ImmutableAuditLog" where
  "append_event_inner E issuer_secret slot timestamp ev L =
     (let epoch = anchor_epoch L;
          (seq, L1) = reserve_seq L;
          ((r, entry_json, h), L2) = lock_append E issuer_secret slot timestamp epoch seq ev L1;
          (sent, L3) = enqueue_wal_line entry_json (publish_head slot h L2);
          L4 = recompute_health L3
      in L4\<lparr>sink_calls := sink_calls L4 @ [entry_json], subscriber_calls := subscriber_calls L4 @ [r]\<rparr>)"

definition append_event ::
  "audit_env \<Rightarrow> bytes \<Rightarrow> bytes \<Rightarrow> nat \<Rightarrow> secs \<Rightarrow> audit_event \<Rightarrow> ImmutableAuditLog \<Rightarrow> ImmutableAuditLog" where
  "append_event E nonce issuer_secret slot timestamp ev L =
     append_event_inner E issuer_secret slot timestamp
       (ev\<lparr>ev_intent := encrypt_intent E nonce issuer_secret (ev_intent ev)\<rparr>) L"

definition try_append_event ::
  "audit_env \<Rightarrow> bytes \<Rightarrow> nat \<Rightarrow> secs \<Rightarrow> audit_event \<Rightarrow> ImmutableAuditLog \<Rightarrow> unit result \<times> ImmutableAuditLog" where
  "try_append_event E issuer_secret slot timestamp ev L =
     (let epoch = anchor_epoch L;
          (seq, L1) = reserve_seq L;
          ((r, entry_json, h), L2) = lock_append E issuer_secret slot timestamp epoch seq ev L1;
          (sent, L3) = enqueue_wal_line entry_json (publish_head slot h L2);
          L4 = recompute_health L3
      in if sent then (Ok (), L4\<lparr>subscriber_calls := subscriber_calls L4 @ [r]\<rparr>)
         else (Err AuditSubsystemDegraded, L4))"

section \<open>Health, acknowledgement and counters\<close>

definition health :: "ImmutableAuditLog \<Rightarrow> AuditHealth" where
  "health L = from_u8 (max (health_level L) (health_floor L))"

definition acknowledge_dropped_audits :: "ImmutableAuditLog \<Rightarrow> nat \<times> ImmutableAuditLog" where
  "acknowledge_dropped_audits L = (dropped_audits L, L\<lparr>health_floor := as_u8 Healthy\<rparr>)"

text \<open>One wake-up of the task of \<open>spawn_dropped_audit_autoack\<close>, with the count it saw last.\<close>

definition autoack_tick :: "nat \<Rightarrow> ImmutableAuditLog \<Rightarrow> nat \<times> ImmutableAuditLog" where
  "autoack_tick last_seen L =
     (let current = dropped_audits L
      in if current = 0 then (0, L)
         else if current = last_seen then (current, snd (acknowledge_dropped_audits L))
         else (current, L))"

definition event_count :: "ImmutableAuditLog \<Rightarrow> nat" where
  "event_count L = global_seq L"

definition in_memory_entries_len :: "ImmutableAuditLog \<Rightarrow> nat" where
  "in_memory_entries_len L = sum_list (map (\<lambda>sh. length (entries sh)) (shards L))"

section \<open>Verification in memory\<close>

fun verify_entries :: "audit_env \<Rightarrow> bytes \<Rightarrow> nat \<Rightarrow> string \<Rightarrow> AuditLogEntry list \<Rightarrow> bool" where
  "verify_entries E issuer_secret idx expected_prev_hash [] = True"
| "verify_entries E issuer_secret idx expected_prev_hash (e # es) =
     (if ar_shard_id (le_record e) \<noteq> Some (word_of_nat idx) then False
      else if ar_prev_hash (le_record e) \<noteq> expected_prev_hash then False
      else if \<not> constant_time_eq_hex (chain_hash E issuer_secret (from_record (le_record e))) (le_chain_hash e) then False
      else verify_entries E issuer_secret idx (le_chain_hash e) es)"

definition verify_shard :: "audit_env \<Rightarrow> bytes \<Rightarrow> nat \<Rightarrow> ShardInner \<Rightarrow> bool" where
  "verify_shard E issuer_secret idx sh =
     (case entries sh of [] \<Rightarrow> True
      | e # es \<Rightarrow> verify_entries E issuer_secret idx (ar_prev_hash (le_record e)) (entries sh))"

definition verify_chain :: "audit_env \<Rightarrow> bytes \<Rightarrow> string option \<Rightarrow> ImmutableAuditLog \<Rightarrow> bool" where
  "verify_chain E issuer_secret sentinel L =
     (if \<not> list_all (\<lambda>(idx, sh). verify_shard E issuer_secret idx sh) (enumerate 0 (shards L)) then False
      else if in_memory_entries_len L = 0 then
        (if event_count L \<noteq> 0 then False
         else case sentinel_count sentinel of Some n \<Rightarrow> \<not> n > 0 | None \<Rightarrow> True)
      else case sentinel_count sentinel of Some n \<Rightarrow> \<not> event_count L < n | None \<Rightarrow> True)"

section \<open>The gates\<close>

definition gate_2_5_kinetic_firewall :: "u8 \<Rightarrow> u8 \<Rightarrow> ImmutableAuditLog \<Rightarrow> unit result" where
  "gate_2_5_kinetic_firewall action_class max_action_class L =
     (if action_class > max_action_class then Err ActionClassEscalation
      else if action_class \<ge> 0x02 \<and> health L \<ge> Saturated then Err AuditSubsystemDegraded
      else Ok ())"

definition gate_6_0_audit_checkpoint ::
  "audit_env \<Rightarrow> bytes \<Rightarrow> nat \<Rightarrow> secs \<Rightarrow> audit_event \<Rightarrow> u8 \<Rightarrow> ImmutableAuditLog \<Rightarrow> unit result \<times> ImmutableAuditLog" where
  "gate_6_0_audit_checkpoint E issuer_secret slot timestamp ev action_class L =
     (if action_class \<ge> 0x02 \<and> health L = Fatal then (Err AuditSubsystemDegraded, L)
      else case try_append_event E issuer_secret slot timestamp ev L of
             (Ok _, L1) \<Rightarrow> (Ok (), L1)
           | (Err e, L1) \<Rightarrow> if action_class \<ge> 0x02 then (Err e, L1) else (Ok (), L1))"

section \<open>Histories\<close>

text \<open>All entries ever appended to a shard, chained from its seed. A shard keeps a suffix of them.\<close>

fun hist_ok :: "audit_env \<Rightarrow> bytes \<Rightarrow> nat \<Rightarrow> string \<Rightarrow> AuditLogEntry list \<Rightarrow> bool" where
  "hist_ok E secret i seed [] = True"
| "hist_ok E secret i seed (e # es) =
     (ar_shard_id (le_record e) = Some (word_of_nat i) \<and> ar_shard_seq (le_record e) \<noteq> None \<and>
      ar_anchor_epoch (le_record e) \<noteq> None \<and> ar_prev_hash (le_record e) = seed \<and>
      le_chain_hash e = chain_hash E secret (from_record (le_record e)) \<and> hist_ok E secret i (le_chain_hash e) es)"

definition end_hash :: "string \<Rightarrow> AuditLogEntry list \<Rightarrow> string" where
  "end_hash seed es = (if es = [] then seed else le_chain_hash (last es))"

definition shard_ok :: "audit_env \<Rightarrow> bytes \<Rightarrow> nat \<Rightarrow> string \<Rightarrow> AuditLogEntry list \<Rightarrow> ShardInner \<Rightarrow> bool" where
  "shard_ok E secret i seed es sh \<longleftrightarrow>
     hist_ok E secret i seed es \<and> last_hash sh = end_hash seed es \<and> shard_seq sh = word_of_nat (length es) \<and>
     (\<exists>n. entries sh = drop n es) \<and> (entries sh = [] \<longrightarrow> es = []) \<and>
     length (entries sh) \<le> AUDIT_PER_SHARD_MAX_IN_MEMORY"

definition log_ok :: "audit_env \<Rightarrow> bytes \<Rightarrow> (nat \<Rightarrow> string) \<Rightarrow> AuditLogEntry list list \<Rightarrow> ImmutableAuditLog \<Rightarrow> bool" where
  "log_ok E secret seed hs L \<longleftrightarrow>
     length (shards L) = AUDIT_SHARDS \<and> length hs = AUDIT_SHARDS \<and>
     (\<forall>i < AUDIT_SHARDS. shard_ok E secret i (seed i) (hs ! i) (shards L ! i))"

section \<open>Lemmas\<close>

lemma hist_ok_append:
  "hist_ok E secret i seed (xs @ ys) \<longleftrightarrow> hist_ok E secret i seed xs \<and> hist_ok E secret i (end_hash seed xs) ys"
  by (induction xs arbitrary: seed) (auto simp: end_hash_def)

lemma chain_hash_compare:
  "constant_time_eq_hex (chain_hash E secret c) h \<longleftrightarrow>
     hex_decode h = Some (ae_hmac E secret (str_bytes (ae_to_string E (canonical_value c))))"
  by (simp add: chain_hash_def constant_time_eq_hex_encode)

lemma chain_hash_self [simp]: "constant_time_eq_hex (chain_hash E secret c) (chain_hash E secret c)"
  by (simp add: chain_hash_compare) (simp add: chain_hash_def)

lemma hist_ok_verify: "hist_ok E secret i seed es \<Longrightarrow> verify_entries E secret i seed es"
proof (induction es arbitrary: seed)
  case (Cons e es)
  then have "verify_entries E secret i (le_chain_hash e) es"
    "constant_time_eq_hex (chain_hash E secret (from_record (le_record e))) (le_chain_hash e)" by auto
  with Cons.prems show ?case by simp
qed simp

lemma hist_ok_first: "hist_ok E secret i seed (e # es) \<Longrightarrow> ar_prev_hash (le_record e) = seed"
  by simp

lemma hist_ok_suffix:
  assumes "hist_ok E secret i seed es" "drop n es = e # rest"
  shows "verify_entries E secret i (ar_prev_hash (le_record e)) (drop n es)"
proof -
  have "hist_ok E secret i (end_hash seed (take n es)) (drop n es)"
    using assms(1) hist_ok_append [of E secret i seed "take n es" "drop n es"] by simp
  with hist_ok_verify [OF this] hist_ok_first [of E secret i _ e rest] assms(2) show ?thesis by simp
qed

lemma shard_ok_verify: "shard_ok E secret i seed es sh \<Longrightarrow> verify_shard E secret i sh"
  by (cases "entries sh") (auto simp: shard_ok_def verify_shard_def simp del: verify_entries.simps intro: hist_ok_suffix [OF _ sym])

lemma shard_ok_genesis: "shard_ok E secret i (shard_genesis_hash E i) [] (genesis_shard E i)"
  by (simp add: shard_ok_def genesis_shard_def end_hash_def)

lemma drain_entries_drop: "\<exists>n. drain_entries es = drop n es"
  by (auto simp: drain_entries_def intro: exI [of _ 0])

lemma drain_entries_bound:
  assumes "length es \<le> Suc AUDIT_PER_SHARD_MAX_IN_MEMORY"
  shows "length (drain_entries es) \<le> AUDIT_PER_SHARD_MAX_IN_MEMORY" "es \<noteq> [] \<Longrightarrow> drain_entries es \<noteq> []"
  using assms by (auto simp: drain_entries_def AUDIT_PER_SHARD_MAX_IN_MEMORY_def AUDIT_MAX_IN_MEMORY_ENTRIES_def AUDIT_SHARDS_def)

lemma shard_append_ok:
  assumes "shard_ok E secret i seed es sh"
    and "e = \<lparr>le_record = r, le_chain_hash = h\<rparr>" "h = chain_hash E secret (from_record r)"
    and "ar_shard_id r = Some (word_of_nat i)" "ar_shard_seq r \<noteq> None" "ar_anchor_epoch r \<noteq> None"
    and "ar_prev_hash r = last_hash sh"
  shows "shard_ok E secret i seed (es @ [e]) (shard_append r h sh)"
proof -
  obtain n where n: "entries sh = drop n es" using assms(1) by (auto simp: shard_ok_def)
  have len: "length (entries sh @ [e]) \<le> Suc AUDIT_PER_SHARD_MAX_IN_MEMORY"
    using assms(1) by (simp add: shard_ok_def)
  have "\<exists>m. entries sh @ [e] = drop m (es @ [e])"
  proof (cases "n \<le> length es")
    case True
    then show ?thesis using n by (intro exI [of _ n]) simp
  next
    case False
    then show ?thesis using n by (intro exI [of _ "length es"]) simp
  qed
  then obtain m where "entries sh @ [e] = drop m (es @ [e])" ..
  with drain_entries_drop [of "entries sh @ [e]"] have "\<exists>k. drain_entries (entries sh @ [e]) = drop k (es @ [e])"
    by (metis drop_drop)
  with assms drain_entries_bound [OF len] show ?thesis
    by (simp add: shard_ok_def shard_append_def hist_ok_append end_hash_def)
qed

lemma serialize_and_hash_eq:
  "serialize_and_hash E secret c = (ae_to_string E (canonical_value c), chain_hash E secret c)"
  by (simp add: serialize_and_hash_def chain_hash_def Let_def)

lemma make_record_simps [simp]:
  "ar_shard_id (make_record slot ts ep q ev sh) = Some (word_of_nat slot)"
  "ar_shard_seq (make_record slot ts ep q ev sh) = Some (shard_seq sh)"
  "ar_anchor_epoch (make_record slot ts ep q ev sh) = Some ep"
  "ar_prev_hash (make_record slot ts ep q ev sh) = last_hash sh"
  "ar_seq (make_record slot ts ep q ev sh) = q"
  by (simp_all add: make_record_def)

definition record_line :: "audit_env \<Rightarrow> bytes \<Rightarrow> AuditRecord \<Rightarrow> string" where
  "record_line E secret r = entry_line (ae_to_string E (canonical_value (from_record r))) (chain_hash E secret (from_record r))"

definition record_entry :: "audit_env \<Rightarrow> bytes \<Rightarrow> AuditRecord \<Rightarrow> AuditLogEntry" where
  "record_entry E secret r = \<lparr>le_record = r, le_chain_hash = chain_hash E secret (from_record r)\<rparr>"

lemma lock_append_eq:
  "lock_append E secret slot ts ep q ev L =
     (let r = make_record slot ts ep q ev (shards L ! slot); h = chain_hash E secret (from_record r)
      in ((r, record_line E secret r, h), L\<lparr>shards := (shards L)[slot := shard_append r h (shards L ! slot)]\<rparr>))"
  by (simp add: lock_append_def serialize_and_hash_eq record_line_def Let_def)

lemma lock_append_ok:
  assumes "log_ok E secret seed hs L" "slot < AUDIT_SHARDS" "lock_append E secret slot ts ep q ev L = ((r, line, h), L')"
  shows "log_ok E secret seed (hs[slot := hs ! slot @ [record_entry E secret r]]) L'"
proof -
  let ?sh = "shards L ! slot"
  have r: "r = make_record slot ts ep q ev ?sh" "h = chain_hash E secret (from_record r)"
    "L' = L\<lparr>shards := (shards L)[slot := shard_append r h ?sh]\<rparr>"
    using assms(3) by (auto simp: lock_append_eq Let_def)
  have "shard_ok E secret slot (seed slot) (hs ! slot @ [record_entry E secret r]) (shard_append r h ?sh)"
    using assms(1,2) r by (intro shard_append_ok) (simp_all add: log_ok_def record_entry_def)
  with assms(1,2) r(3) show ?thesis by (auto simp: log_ok_def nth_list_update)
qed

lemma log_ok_cong: "shards L' = shards L \<Longrightarrow> log_ok E secret seed hs L' \<longleftrightarrow> log_ok E secret seed hs L"
  by (simp add: log_ok_def)

lemma log_ok_start: "log_ok E secret (shard_genesis_hash E) (replicate AUDIT_SHARDS []) (with_paths E lf cf)"
  by (simp add: log_ok_def with_paths_def shard_ok_genesis)

lemma log_ok_retained:
  assumes "log_ok E secret seed hs L"
  shows "in_memory_entries_len L \<le> AUDIT_MAX_IN_MEMORY_ENTRIES"
    and "in_memory_entries_len L = 0 \<Longrightarrow> hs = replicate AUDIT_SHARDS []"
proof -
  have *: "shard_ok E secret i (seed i) (hs ! i) (shards L ! i)" if "i < AUDIT_SHARDS" for i
    using assms that by (simp add: log_ok_def)
  have "sum_list (map (\<lambda>sh. length (entries sh)) (shards L)) \<le> sum_list (map (\<lambda>sh. AUDIT_PER_SHARD_MAX_IN_MEMORY) (shards L))"
    using assms * by (intro sum_list_mono) (auto simp: log_ok_def shard_ok_def in_set_conv_nth)
  then show "in_memory_entries_len L \<le> AUDIT_MAX_IN_MEMORY_ENTRIES"
    using assms by (simp add: in_memory_entries_len_def log_ok_def sum_list_triv AUDIT_PER_SHARD_MAX_IN_MEMORY_def
        AUDIT_MAX_IN_MEMORY_ENTRIES_def AUDIT_SHARDS_def)
  show "hs = replicate AUDIT_SHARDS []" if "in_memory_entries_len L = 0"
  proof (rule nth_equalityI)
    show "length hs = length (replicate AUDIT_SHARDS [])" using assms by (simp add: log_ok_def)
    fix i assume "i < length hs"
    then have i: "i < AUDIT_SHARDS" using assms by (simp add: log_ok_def)
    then have "entries (shards L ! i) = []"
      using that assms by (auto simp: in_memory_entries_len_def log_ok_def)
    with * [OF i] i show "hs ! i = replicate AUDIT_SHARDS [] ! i" by (simp add: shard_ok_def)
  qed
qed

lemma log_ok_verify:
  assumes "log_ok E secret seed hs L"
    and "in_memory_entries_len L = 0 \<Longrightarrow> event_count L = 0"
    and "\<And>n. sentinel_count sentinel = Some n \<Longrightarrow> n \<le> event_count L"
  shows "verify_chain E secret sentinel L"
proof -
  have "list_all (\<lambda>(i, sh). verify_shard E secret i sh) (enumerate 0 (shards L))"
    using assms(1) by (auto simp: list_all_length nth_enumerate_eq log_ok_def intro: shard_ok_verify)
  with assms(2,3) show ?thesis by (auto simp: verify_chain_def split: option.splits)
qed

lemmas phase_defs = reserve_seq_def publish_head_def enqueue_wal_line_def recompute_health_def

lemma phase_shards [simp]:
  "shards (snd (reserve_seq L)) = shards L" "shards (publish_head i h L) = shards L"
  "shards (snd (enqueue_wal_line l L)) = shards L" "shards (recompute_health L) = shards L"
  by (simp_all add: phase_defs Let_def)

end
