(* ===== verification/Audit_Disk.thy ===== *)
theory Audit_Disk
  imports Audit_Log
begin

text \<open>
  The log file of \<open>ImmutableAuditLog\<close> (\<open>src/security.rs\<close>): the writer thread with rotation, batched flushing,
  sentinel and Merkle anchors, \<open>verify_chain_disk\<close>, and \<open>initialize_chain\<close>, which adopts a file at start-up.

  A file is the list of its lines. The buffer of the writer holds lines not yet on disk; a line reaches the disk
  whole, when the buffer is flushed. Each system call that may fail has its outcome in the record \<open>io\<close>, with the
  monotonic and the wall clock read at that point; a failed flush leaves the buffer as it was. Files that were
  rotated away are keyed by the second in their name. Their compression and archival are not modelled.
\<close>

section \<open>The writer\<close>

definition AUDIT_MAX_LOG_SIZE :: nat where "AUDIT_MAX_LOG_SIZE = 50000000"
definition AUDIT_WAL_FLUSH_EVERY_N_ENTRIES :: nat where "AUDIT_WAL_FLUSH_EVERY_N_ENTRIES = 200"
definition AUDIT_WAL_FLUSH_INTERVAL :: secs where "AUDIT_WAL_FLUSH_INTERVAL = 50 / 1000"
definition AUDIT_ANCHOR_EVERY_N_EVENTS :: nat where "AUDIT_ANCHOR_EVERY_N_EVENTS = 4096"
definition AUDIT_ANCHOR_INTERVAL :: secs where "AUDIT_ANCHOR_INTERVAL = 1"

record io =
  io_now :: secs
  io_wall :: secs
  io_rotate_sync :: bool
  io_rename :: bool
  io_reopen :: bool
  io_write :: bool
  io_sync :: bool
  io_sentinel :: bool

record wal_files =
  wf_log :: "string list option"
  wf_buffer :: "string list"
  wf_sentinel :: "string option"
  wf_rotated :: "(nat, string list) hmap"

record WalWriter =
  ww_open :: bool
  ww_size :: nat
  ww_entries_since_flush :: nat
  ww_last_flush :: secs
  ww_pending_event_count :: nat

definition file_lines :: "wal_files \<Rightarrow> string list" where
  "file_lines f = (case wf_log f of Some ls \<Rightarrow> ls | None \<Rightarrow> [])"

definition open_writer :: "io \<Rightarrow> wal_files \<Rightarrow> (WalWriter \<times> wal_files) option" where
  "open_writer o1 f =
     (if io_reopen o1
      then Some (\<lparr>ww_open = True, ww_size = sum_list (map (\<lambda>l. length l + 1) (file_lines f)),
                  ww_entries_since_flush = 0, ww_last_flush = io_now o1, ww_pending_event_count = 0\<rparr>,
                 f\<lparr>wf_log := Some (file_lines f), wf_buffer := []\<rparr>)
      else None)"

definition hard_reset :: "io \<Rightarrow> wal_files \<Rightarrow> (WalWriter \<times> wal_files) option" where
  "hard_reset o1 f = open_writer o1 (f\<lparr>wf_log := None, wf_sentinel := None, wf_buffer := []\<rparr>)"

definition flush_buffer :: "wal_files \<Rightarrow> wal_files" where
  "flush_buffer f = f\<lparr>wf_log := Some (file_lines f @ wf_buffer f), wf_buffer := []\<rparr>"

definition maybe_rotate :: "io \<Rightarrow> WalWriter \<Rightarrow> wal_files \<Rightarrow> WalWriter \<times> wal_files \<times> bool" where
  "maybe_rotate o1 w f =
     (if ww_size w \<le> AUDIT_MAX_LOG_SIZE then (w, f, True)
      else if ww_open w \<and> \<not> io_rotate_sync o1 then (w, f, False)
      else
        let f1 = (if ww_open w then flush_buffer f else f);
            f2 = (if io_rename o1 \<and> wf_log f1 \<noteq> None
                  then f1\<lparr>wf_rotated := AList.update (nat \<lfloor>io_wall o1\<rfloor>) (file_lines f1) (wf_rotated f1), wf_log := None\<rparr>
                  else f1)
        in if io_reopen o1
           then (w\<lparr>ww_open := True, ww_size := 0\<rparr>, f2\<lparr>wf_log := Some (file_lines f2)\<rparr>, True)
           else (w\<lparr>ww_open := False\<rparr>, f2, False))"

definition flush_and_sync :: "io \<Rightarrow> WalWriter \<Rightarrow> wal_files \<Rightarrow> WalWriter \<times> wal_files \<times> bool" where
  "flush_and_sync o1 w f =
     (if ww_open w \<and> \<not> io_sync o1 then (w, f, False)
      else let f1 = (if ww_open w then flush_buffer f else f)
           in if \<not> io_sentinel o1 then (w, f1, False)
              else (w\<lparr>ww_entries_since_flush := 0, ww_last_flush := io_now o1\<rparr>,
                    f1\<lparr>wf_sentinel := Some (u64_string (ww_pending_event_count w))\<rparr>, True))"

text \<open>\<open>None\<close> is the panic of \<open>expect("writer present after maybe_rotate")\<close>.\<close>

definition write_entry ::
  "io \<Rightarrow> string \<Rightarrow> nat \<Rightarrow> WalWriter \<Rightarrow> wal_files \<Rightarrow> (WalWriter \<times> wal_files \<times> bool) option" where
  "write_entry o1 entry_json count w f =
     (case maybe_rotate o1 w f of
        (w1, f1, ok) \<Rightarrow>
          if \<not> ok then Some (w1, f1, False)
          else if \<not> ww_open w1 then None
          else if \<not> io_write o1 then Some (w1, f1, False)
          else
            let f2 = f1\<lparr>wf_buffer := wf_buffer f1 @ [entry_json]\<rparr>;
                w2 = w1\<lparr>ww_size := ww_size w1 + length entry_json + 1,
                        ww_entries_since_flush := Suc (ww_entries_since_flush w1), ww_pending_event_count := count\<rparr>
            in if ww_entries_since_flush w2 \<ge> AUDIT_WAL_FLUSH_EVERY_N_ENTRIES \<or>
                  io_now o1 - ww_last_flush w2 \<ge> AUDIT_WAL_FLUSH_INTERVAL
               then Some (flush_and_sync o1 w2 f2) else Some (w2, f2, True))"

section \<open>The worker thread\<close>

record wal_worker =
  wk_writer :: WalWriter
  wk_files :: wal_files
  wk_events_since_anchor :: nat
  wk_last_anchor :: secs
  wk_prev_root :: string

definition start_worker :: "io \<Rightarrow> wal_files \<Rightarrow> ImmutableAuditLog \<Rightarrow> (ImmutableAuditLog \<times> wal_worker option)" where
  "start_worker o1 f L =
     (case open_writer o1 f of
        None \<Rightarrow> (L\<lparr>health_level := as_u8 Fatal, wal_receiver := False, wal_queue := []\<rparr>, None)
      | Some (w, f1) \<Rightarrow>
          (L, Some \<lparr>wk_writer = w, wk_files = f1, wk_events_since_anchor = 0, wk_last_anchor = io_now o1,
                    wk_prev_root = ANCHOR_GENESIS_ROOT\<rparr>))"

definition build_anchor_line ::
  "audit_env \<Rightarrow> secs \<Rightarrow> string \<Rightarrow> nat \<Rightarrow> ImmutableAuditLog \<Rightarrow> (string \<times> string) option \<times> ImmutableAuditLog" where
  "build_anchor_line E wall prev_root count L =
     (case heads_root E (shard_heads L) of
        None \<Rightarrow> (None, L)
      | Some rt \<Rightarrow>
          let a = \<lparr>an_epoch = anchor_epoch L, an_heads = shard_heads L, an_root = rt, an_prev_root = prev_root,
                   an_event_count = word_of_nat count, an_timestamp = wall\<rparr>
          in (Some (ae_to_string E (JObj [(ANCHOR_LINE_KEY, anchor_value a)]), rt),
              L\<lparr>anchor_epoch := anchor_epoch L + 1\<rparr>))"

definition write_failed :: "ImmutableAuditLog \<Rightarrow> ImmutableAuditLog" where
  "write_failed L = L\<lparr>wal_write_failures := Suc (wal_write_failures L), health_level := as_u8 Fatal\<rparr>"

definition write_anchor ::
  "audit_env \<Rightarrow> io \<Rightarrow> nat \<Rightarrow> ImmutableAuditLog \<Rightarrow> wal_worker \<Rightarrow> (ImmutableAuditLog \<times> wal_worker) option" where
  "write_anchor E o2 count L k =
     (let k1 = k\<lparr>wk_events_since_anchor := 0, wk_last_anchor := io_now o2\<rparr>
      in case build_anchor_line E (io_wall o2) (wk_prev_root k) count L of
           (None, L1) \<Rightarrow> Some (L1, k1)
         | (Some (line, rt), L1) \<Rightarrow>
             (case write_entry o2 line count (wk_writer k) (wk_files k) of
                None \<Rightarrow> None
              | Some (w, f, True) \<Rightarrow> Some (L1, k1\<lparr>wk_writer := w, wk_files := f, wk_prev_root := rt\<rparr>)
              | Some (w, f, False) \<Rightarrow>
                  Some (L1\<lparr>wal_write_failures := Suc (wal_write_failures L1)\<rparr>, k1\<lparr>wk_writer := w, wk_files := f\<rparr>)))"

definition handle_entry ::
  "audit_env \<Rightarrow> io \<Rightarrow> io \<Rightarrow> string \<Rightarrow> nat \<Rightarrow> ImmutableAuditLog \<Rightarrow> wal_worker \<Rightarrow> (ImmutableAuditLog \<times> wal_worker) option" where
  "handle_entry E o1 o2 line count L k =
     (case write_entry o1 line count (wk_writer k) (wk_files k) of
        None \<Rightarrow> None
      | Some (w, f, ok) \<Rightarrow>
          let L1 = (if ok then L else write_failed L);
              k1 = k\<lparr>wk_writer := w, wk_files := f, wk_events_since_anchor := Suc (wk_events_since_anchor k)\<rparr>
          in if wk_events_since_anchor k1 \<ge> AUDIT_ANCHOR_EVERY_N_EVENTS \<or>
                io_now o2 - wk_last_anchor k1 \<ge> AUDIT_ANCHOR_INTERVAL
             then write_anchor E o2 count L1 k1 else Some (L1, k1))"

definition handle_flush :: "io \<Rightarrow> ImmutableAuditLog \<Rightarrow> wal_worker \<Rightarrow> ImmutableAuditLog \<times> wal_worker" where
  "handle_flush o1 L k =
     (case flush_and_sync o1 (wk_writer k) (wk_files k) of
        (w, f, ok) \<Rightarrow> (if ok then L else write_failed L, k\<lparr>wk_writer := w, wk_files := f\<rparr>))"

definition handle_reset :: "io \<Rightarrow> ImmutableAuditLog \<Rightarrow> wal_worker \<Rightarrow> ImmutableAuditLog \<times> wal_worker" where
  "handle_reset o1 L k =
     (case hard_reset o1 (wk_files k) of
        None \<Rightarrow> (L\<lparr>health_level := as_u8 Fatal, wal_receiver := False, wal_queue := []\<rparr>,
                 k\<lparr>wk_files := (wk_files k)\<lparr>wf_log := None, wf_sentinel := None, wf_buffer := []\<rparr>\<rparr>)
      | Some (w, f) \<Rightarrow> (L, k\<lparr>wk_writer := w, wk_files := f, wk_events_since_anchor := 0, wk_last_anchor := io_now o1,
                              wk_prev_root := ANCHOR_GENESIS_ROOT\<rparr>))"

text \<open>One message of \<open>run_wal_worker\<close>.\<close>

definition worker_step ::
  "audit_env \<Rightarrow> io \<Rightarrow> io \<Rightarrow> ImmutableAuditLog \<Rightarrow> wal_worker \<Rightarrow> (ImmutableAuditLog \<times> wal_worker) option" where
  "worker_step E o1 o2 L k =
     (case wal_queue L of
        [] \<Rightarrow> Some (L, k)
      | msg # rest \<Rightarrow>
          let L1 = L\<lparr>wal_queue := rest, queue_len := queue_len L - 1\<rparr>
          in if log_file L = [] then Some (L1, k)
             else case msg of
                    WalEntry line count \<Rightarrow> handle_entry E o1 o2 line count L1 k
                  | WalFlush \<Rightarrow> Some (handle_flush o1 L1 k)
                  | WalReset \<Rightarrow> Some (handle_reset o1 L1 k))"

text \<open>\<open>flush\<close> and \<open>reset\<close> send with a blocking \<open>send\<close>; \<open>acked\<close> tells whether the answer came in time.\<close>

definition send_wal :: "WalMessage \<Rightarrow> ImmutableAuditLog \<Rightarrow> ImmutableAuditLog option" where
  "send_wal msg L =
     (if wal_receiver L then Some (L\<lparr>wal_queue := wal_queue L @ [msg], queue_len := queue_len L + 1\<rparr>) else None)"

definition audit_flush :: "bool \<Rightarrow> ImmutableAuditLog \<Rightarrow> bool \<times> ImmutableAuditLog" where
  "audit_flush acked L = (case send_wal WalFlush L of None \<Rightarrow> (False, L) | Some L1 \<Rightarrow> (acked, L1))"

definition audit_reset :: "audit_env \<Rightarrow> bool \<Rightarrow> ImmutableAuditLog \<Rightarrow> wal_files \<Rightarrow> ImmutableAuditLog \<times> wal_files" where
  "audit_reset E acked L f =
     (let L1 = (reset_chain_state_to_genesis E L)\<lparr>health_floor := as_u8 Healthy\<rparr>
      in case send_wal WalReset L1 of
           Some L2 \<Rightarrow> if acked then (L2, f) else (L2, f\<lparr>wf_log := None, wf_sentinel := None\<rparr>)
         | None \<Rightarrow> (L1, f\<lparr>wf_log := None, wf_sentinel := None\<rparr>))"

section \<open>Verification of the file\<close>

datatype disk_line = AnchorLine json | RecordLine CanonicalAuditRecord string

definition record_fields :: "json \<Rightarrow> CanonicalAuditRecord option" where
  "record_fields rec =
     (case (as_str (json_index rec ''intent''), as_u64 (json_index rec ''seq''), as_str (json_index rec ''source''),
            as_str (json_index rec ''target''), as_f64 (json_index rec ''timestamp''),
            as_str (json_index rec ''token_signature''), as_str (json_index rec ''traceparent'')) of
        (Some intent, Some seq, Some source, Some target, Some timestamp, Some token_signature, Some traceparent) \<Rightarrow>
          Some \<lparr>ca_anchor_epoch = None, ca_intent = intent,
                ca_prev_hash = (case as_str (json_index rec ''prev_hash'') of Some p \<Rightarrow> p | None \<Rightarrow> []),
                ca_seq = seq, ca_shard_id = None, ca_shard_seq = None, ca_source = source, ca_target = target,
                ca_timestamp = timestamp, ca_token_signature = token_signature, ca_traceparent = traceparent, ca_v = None\<rparr>
      | _ \<Rightarrow> None)"

definition shard_fields :: "json \<Rightarrow> CanonicalAuditRecord \<Rightarrow> CanonicalAuditRecord option" where
  "shard_fields rec c =
     (case claim_u64 rec ''shard_id'' of
        None \<Rightarrow> Some c
      | Some sid \<Rightarrow>
          if unat sid \<ge> AUDIT_SHARDS then None
          else case (claim_u64 rec ''shard_seq'', claim_u64 rec ''anchor_epoch'', claim_u64 rec ''v'') of
                 (Some sseq, Some ep, Some v) \<Rightarrow>
                   if v = ucast AUDIT_RECORD_VERSION_V2
                   then Some (c\<lparr>ca_anchor_epoch := Some ep, ca_shard_id := Some (ucast sid), ca_shard_seq := Some sseq,
                                ca_v := Some AUDIT_RECORD_VERSION_V2\<rparr>)
                   else None
               | _ \<Rightarrow> None)"

definition parse_line :: "audit_env \<Rightarrow> string \<Rightarrow> disk_line option" where
  "parse_line E line =
     (case ae_from_str E line of
        None \<Rightarrow> None
      | Some entry \<Rightarrow>
          (case json_get entry ANCHOR_LINE_KEY of
             Some v \<Rightarrow> Some (AnchorLine v)
           | None \<Rightarrow>
               (case as_str (json_index entry ''chain_hash'') of
                  None \<Rightarrow> None
                | Some h \<Rightarrow>
                    (case record_fields (json_index entry ''record'') of
                       None \<Rightarrow> None
                     | Some c \<Rightarrow> map_option (\<lambda>c'. RecordLine c' h) (shard_fields (json_index entry ''record'') c)))))"

record walk =
  expected_v1_hash :: string
  final_v1_hash :: "string option"
  expected_v2 :: "string option list"
  expected_prev_root :: string

definition walk_start :: walk where
  "walk_start = \<lparr>expected_v1_hash = GENESIS_HASH, final_v1_hash = None, expected_v2 = replicate AUDIT_SHARDS None,
                 expected_prev_root = ANCHOR_GENESIS_ROOT\<rparr>"

definition shard_head :: "audit_env \<Rightarrow> walk \<Rightarrow> nat \<Rightarrow> string" where
  "shard_head E w i = (case expected_v2 w ! i of Some h \<Rightarrow> h | None \<Rightarrow> migration_seed_hash E i (final_v1_hash w))"

definition check_anchor :: "audit_env \<Rightarrow> json \<Rightarrow> walk \<Rightarrow> walk option" where
  "check_anchor E v w =
     (case ae_anchor_from_value E v of
        None \<Rightarrow> None
      | Some a \<Rightarrow>
          if length (an_heads a) \<noteq> AUDIT_SHARDS then None
          else if an_prev_root a \<noteq> expected_prev_root w then None
          else if heads_root E (an_heads a) \<noteq> Some (an_root a) then None
          else if list_ex (\<lambda>(i, h). shard_head E w i \<noteq> h) (enumerate 0 (an_heads a)) then None
          else Some (w\<lparr>expected_prev_root := an_root a\<rparr>))"

definition check_v2 :: "audit_env \<Rightarrow> bytes \<Rightarrow> nat \<Rightarrow> CanonicalAuditRecord \<Rightarrow> string \<Rightarrow> walk \<Rightarrow> walk option" where
  "check_v2 E issuer_secret sid c h w =
     (if ca_prev_hash c \<noteq> shard_head E w sid then None
      else if \<not> constant_time_eq_hex (chain_hash E issuer_secret c) h then None
      else Some (w\<lparr>expected_v2 := (expected_v2 w)[sid := Some h]\<rparr>))"

definition check_v1 :: "audit_env \<Rightarrow> bytes \<Rightarrow> CanonicalAuditRecord \<Rightarrow> string \<Rightarrow> walk \<Rightarrow> walk option" where
  "check_v1 E issuer_secret c h w =
     (if list_ex (\<lambda>e. e \<noteq> None) (expected_v2 w) then None
      else if ca_prev_hash c \<noteq> expected_v1_hash w then None
      else if \<not> constant_time_eq_hex (chain_hash E issuer_secret c) h then None
      else Some (w\<lparr>expected_v1_hash := h, final_v1_hash := Some h\<rparr>))"

definition check_line :: "audit_env \<Rightarrow> bytes \<Rightarrow> string \<Rightarrow> walk \<Rightarrow> walk option" where
  "check_line E issuer_secret line w =
     (case parse_line E line of
        None \<Rightarrow> None
      | Some (AnchorLine v) \<Rightarrow> check_anchor E v w
      | Some (RecordLine c h) \<Rightarrow>
          (case ca_shard_id c of
             Some sid \<Rightarrow> check_v2 E issuer_secret (unat sid) c h w
           | None \<Rightarrow> check_v1 E issuer_secret c h w))"

fun check_lines :: "audit_env \<Rightarrow> bytes \<Rightarrow> string list \<Rightarrow> walk \<Rightarrow> walk option" where
  "check_lines E issuer_secret [] w = Some w"
| "check_lines E issuer_secret (l # ls) w =
     (case check_line E issuer_secret l w of None \<Rightarrow> None | Some w1 \<Rightarrow> check_lines E issuer_secret ls w1)"

fun str_contains :: "string \<Rightarrow> string \<Rightarrow> bool" where
  "str_contains needle [] \<longleftrightarrow> needle = []"
| "str_contains needle (c # s) \<longleftrightarrow> take (length needle) (c # s) = needle \<or> str_contains needle s"

definition is_record_line :: "audit_env \<Rightarrow> string \<Rightarrow> bool" where
  \<open>is_record_line E line \<longleftrightarrow>
     (if \<not> str_contains ''"anchor"'' line then True
      else case ae_from_str E line of Some v \<Rightarrow> json_get v ANCHOR_LINE_KEY = None | None \<Rightarrow> False)\<close>

definition verify_chain_disk ::
  "audit_env \<Rightarrow> bytes \<Rightarrow> string list option \<Rightarrow> string option \<Rightarrow> ImmutableAuditLog \<Rightarrow> bool" where
  "verify_chain_disk E issuer_secret content sentinel L =
     (case content of
        None \<Rightarrow> global_seq L = 0
      | Some ls0 \<Rightarrow>
          let ls = filter (\<lambda>l. l \<noteq> []) ls0;
              record_lines = length (filter (is_record_line E) ls)
          in if (case sentinel_count sentinel of Some n \<Rightarrow> record_lines < n | None \<Rightarrow> False) then False
             else if ls = [] then True
             else check_lines E issuer_secret ls walk_start \<noteq> None)"

section \<open>Adopting a file\<close>

record adopted =
  ad_record_count :: nat
  ad_final_v1_hash :: "string option"
  ad_heads :: "(string \<times> u64) option list"
  ad_max_anchor_epoch :: u64

definition adopt_line :: "audit_env \<Rightarrow> string \<Rightarrow> adopted \<Rightarrow> adopted" where
  "adopt_line E line a =
     (case ae_from_str E line of
        None \<Rightarrow> a
      | Some entry \<Rightarrow>
          (case json_get entry ANCHOR_LINE_KEY of
             Some v \<Rightarrow> a\<lparr>ad_max_anchor_epoch := max (ad_max_anchor_epoch a)
                                     (case claim_u64 v ''epoch'' of Some e \<Rightarrow> e | None \<Rightarrow> 0)\<rparr>
           | None \<Rightarrow>
               (case as_str (json_index entry ''chain_hash'') of
                  None \<Rightarrow> a
                | Some h \<Rightarrow>
                    let a1 = a\<lparr>ad_record_count := Suc (ad_record_count a)\<rparr>; rec = json_index entry ''record''
                    in case (claim_u64 rec ''shard_id'', claim_u64 rec ''shard_seq'') of
                         (Some sid, Some sseq) \<Rightarrow>
                           if unat sid < AUDIT_SHARDS then a1\<lparr>ad_heads := (ad_heads a1)[unat sid := Some (h, sseq + 1)]\<rparr>
                           else a1\<lparr>ad_final_v1_hash := Some h\<rparr>
                       | _ \<Rightarrow> a1\<lparr>ad_final_v1_hash := Some h\<rparr>)))"

definition adopt_start :: adopted where
  "adopt_start = \<lparr>ad_record_count = 0, ad_final_v1_hash = None, ad_heads = replicate AUDIT_SHARDS None, ad_max_anchor_epoch = 0\<rparr>"

definition adopt_shard :: "audit_env \<Rightarrow> adopted \<Rightarrow> nat \<Rightarrow> string \<times> u64" where
  "adopt_shard E a i =
     (case ad_heads a ! i of Some hs \<Rightarrow> hs | None \<Rightarrow> (migration_seed_hash E i (ad_final_v1_hash a), 0))"

definition adopt_log :: "audit_env \<Rightarrow> adopted \<Rightarrow> ImmutableAuditLog \<Rightarrow> ImmutableAuditLog" where
  "adopt_log E a L =
     L\<lparr>global_seq := ad_record_count a, anchor_epoch := ad_max_anchor_epoch a,
       shards := map (\<lambda>i. case adopt_shard E a i of (h, s) \<Rightarrow> \<lparr>last_hash = h, shard_seq = s, entries = []\<rparr>) [0..<AUDIT_SHARDS],
       shard_heads := map (\<lambda>i. fst (adopt_shard E a i)) [0..<AUDIT_SHARDS]\<rparr>"

text \<open>The file is read twice, once to verify it and once to adopt it.\<close>

definition initialize_chain ::
  "audit_env \<Rightarrow> bytes \<Rightarrow> string list option \<Rightarrow> string list option \<Rightarrow> string option \<Rightarrow> ImmutableAuditLog \<Rightarrow>
   bool \<times> ImmutableAuditLog" where
  "initialize_chain E issuer_secret content content2 sentinel L =
     (if \<not> verify_chain_disk E issuer_secret content sentinel L then (False, reset_chain_state_to_genesis E L)
      else case content2 of
             None \<Rightarrow> (True, L)
           | Some ls \<Rightarrow> (True, adopt_log E (fold (adopt_line E) (filter (\<lambda>l. l \<noteq> []) ls) adopt_start) L))"

text \<open>\<open>recover_audit_chain\<close> of \<open>src/daemon.rs\<close>: whether the daemon may start.\<close>

definition recover_audit_chain ::
  "audit_env \<Rightarrow> bytes option \<Rightarrow> string list option \<Rightarrow> string list option \<Rightarrow> string option \<Rightarrow> ImmutableAuditLog \<Rightarrow>
   bool \<times> ImmutableAuditLog" where
  "recover_audit_chain E issuer_secret content content2 sentinel L =
     (case issuer_secret of None \<Rightarrow> (True, L) | Some secret \<Rightarrow> initialize_chain E secret content content2 sentinel L)"

end
