(* ===== verification/Audit_Tamper.thy ===== *)
theory Audit_Tamper
  imports Audit_Disk
begin

text \<open>
  What \<open>verify_chain_disk\<close> proves about a file that anyone may have edited. A file it accepts consists of chains:
  one of unsharded records, then one per shard. If no message authentication code in the file was forged
  and no two hashes collide, each chain is a prefix of what the log really appended.
\<close>

section \<open>Chains in a file\<close>

definition v1_of :: "audit_env \<Rightarrow> string list \<Rightarrow> (CanonicalAuditRecord \<times> string) list" where
  "v1_of E ls = List.map_filter (\<lambda>l. case parse_line E l of
     Some (RecordLine c h) \<Rightarrow> if ca_shard_id c = None then Some (c, h) else None | _ \<Rightarrow> None) ls"

definition v2_of :: "audit_env \<Rightarrow> nat \<Rightarrow> string list \<Rightarrow> (CanonicalAuditRecord \<times> string) list" where
  "v2_of E i ls = List.map_filter (\<lambda>l. case parse_line E l of
     Some (RecordLine c h) \<Rightarrow> if map_option unat (ca_shard_id c) = Some i then Some (c, h) else None | _ \<Rightarrow> None) ls"

definition mac_ok :: "audit_env \<Rightarrow> bytes \<Rightarrow> CanonicalAuditRecord \<Rightarrow> string \<Rightarrow> bool" where
  "mac_ok E secret c h \<longleftrightarrow> hex_decode h = Some (ae_hmac E secret (str_bytes (ae_to_string E (canonical_value c))))"

fun file_chain :: "audit_env \<Rightarrow> bytes \<Rightarrow> string \<Rightarrow> (CanonicalAuditRecord \<times> string) list \<Rightarrow> bool" where
  "file_chain E secret p [] = True"
| "file_chain E secret p ((c, h) # xs) = (ca_prev_hash c = p \<and> mac_ok E secret c h \<and> file_chain E secret h xs)"

definition final_of :: "audit_env \<Rightarrow> string option \<Rightarrow> string list \<Rightarrow> string option" where
  "final_of E f ls = (if v1_of E ls = [] then f else Some (snd (last (v1_of E ls))))"

fun true_chain :: "audit_env \<Rightarrow> bytes \<Rightarrow> string \<Rightarrow> CanonicalAuditRecord list \<Rightarrow> bool" where
  "true_chain E secret p [] = True"
| "true_chain E secret p (c # cs) = (ca_prev_hash c = p \<and> true_chain E secret (chain_hash E secret c) cs)"

definition true_end :: "audit_env \<Rightarrow> bytes \<Rightarrow> string \<Rightarrow> CanonicalAuditRecord list \<Rightarrow> string" where
  "true_end E secret p cs = (if cs = [] then p else chain_hash E secret (last cs))"

lemma of_simps [simp]:
  "v1_of E [] = []" "v2_of E i [] = []"
  "parse_line E l = None \<Longrightarrow> v1_of E (l # ls) = v1_of E ls" "parse_line E l = None \<Longrightarrow> v2_of E i (l # ls) = v2_of E i ls"
  "parse_line E l = Some (AnchorLine v) \<Longrightarrow> v1_of E (l # ls) = v1_of E ls"
  "parse_line E l = Some (AnchorLine v) \<Longrightarrow> v2_of E i (l # ls) = v2_of E i ls"
  "parse_line E l = Some (RecordLine c h) \<Longrightarrow> v1_of E (l # ls) = (if ca_shard_id c = None then [(c, h)] else []) @ v1_of E ls"
  "parse_line E l = Some (RecordLine c h) \<Longrightarrow>
     v2_of E i (l # ls) = (if map_option unat (ca_shard_id c) = Some i then [(c, h)] else []) @ v2_of E i ls"
  by (simp_all add: v1_of_def v2_of_def List.map_filter_simps)

lemma shard_fields_shard:
  "shard_fields rec c = Some c' \<Longrightarrow> ca_shard_id c = None \<Longrightarrow> ca_shard_id c' = Some sid \<Longrightarrow> unat sid < AUDIT_SHARDS"
  by (auto simp: shard_fields_def AUDIT_SHARDS_def unsigned_ucast_eq take_bit_eq_mod not_le split: option.splits if_splits)

lemma record_fields_unsharded: "record_fields rec = Some c \<Longrightarrow> ca_shard_id c = None"
  by (auto simp: record_fields_def split: option.splits)

lemma parse_line_shard: "parse_line E l = Some (RecordLine c h) \<Longrightarrow> ca_shard_id c = Some sid \<Longrightarrow> unat sid < AUDIT_SHARDS"
  by (auto simp: parse_line_def split: option.splits dest!: record_fields_unsharded dest: shard_fields_shard)

lemma check_line_cases:
  assumes "check_line E secret l w = Some w1"
  obtains (anchor) v x where "parse_line E l = Some (AnchorLine v)" "w1 = w\<lparr>expected_prev_root := x\<rparr>"
  | (sharded) c h sid where "parse_line E l = Some (RecordLine c h)" "ca_shard_id c = Some sid" "unat sid < AUDIT_SHARDS"
      "ca_prev_hash c = shard_head E w (unat sid)" "mac_ok E secret c h"
      "w1 = w\<lparr>expected_v2 := (expected_v2 w)[unat sid := Some h]\<rparr>"
  | (unsharded) c h where "parse_line E l = Some (RecordLine c h)" "ca_shard_id c = None"
      "\<not> list_ex (\<lambda>e. e \<noteq> None) (expected_v2 w)" "ca_prev_hash c = expected_v1_hash w" "mac_ok E secret c h"
      "w1 = w\<lparr>expected_v1_hash := h, final_v1_hash := Some h\<rparr>"
proof (cases "parse_line E l")
  case None
  with assms show ?thesis by (simp add: check_line_def)
next
  case (Some d)
  show ?thesis
  proof (cases d)
    case (AnchorLine v)
    with Some assms anchor [of v] show ?thesis
      by (auto simp: check_line_def check_anchor_def split: option.splits if_splits)
  next
    case (RecordLine c h)
    show ?thesis
    proof (cases "ca_shard_id c")
      case None
      with RecordLine Some assms unsharded [of c h] show ?thesis
        by (auto simp: check_line_def check_v1_def mac_ok_def chain_hash_compare split: if_splits)
    next
      case (Some sid)
      with RecordLine \<open>parse_line E l = Some d\<close> assms sharded [of c h sid] parse_line_shard [of E l c h sid] show ?thesis
        by (auto simp: check_line_def check_v2_def mac_ok_def chain_hash_compare split: if_splits)
    qed
  qed
qed

definition chain_start :: "audit_env \<Rightarrow> string option list \<Rightarrow> string option \<Rightarrow> nat \<Rightarrow> string" where
  "chain_start E es f i = (case es ! i of Some p \<Rightarrow> p | None \<Rightarrow> migration_seed_hash E i f)"

lemma chain_start_update:
  "length es = AUDIT_SHARDS \<Longrightarrow> j < AUDIT_SHARDS \<Longrightarrow> chain_start E (es[j := Some h]) f i = (if i = j then h else chain_start E es f i)"
  by (simp add: chain_start_def)

lemma list_ex_update: "i < length xs \<Longrightarrow> list_ex (\<lambda>e. e \<noteq> None) (xs[i := Some h])"
  by (auto simp: list_ex_length intro!: exI [of _ i])

lemma check_lines_chains:
  assumes "check_lines E secret ls w = Some w'" "length (expected_v2 w) = AUDIT_SHARDS"
  shows "file_chain E secret (expected_v1_hash w) (v1_of E ls) \<and>
    (\<forall>i < AUDIT_SHARDS. file_chain E secret
      (chain_start E (expected_v2 w) (final_of E (final_v1_hash w) ls) i) (v2_of E i ls)) \<and>
    (list_ex (\<lambda>e. e \<noteq> None) (expected_v2 w) \<longrightarrow> v1_of E ls = [])"
  using assms
proof (induction ls arbitrary: w)
  case Nil
  then show ?case by simp
next
  case (Cons l ls)
  from Cons.prems(1) obtain w1 where w1: "check_line E secret l w = Some w1" "check_lines E secret ls w1 = Some w'"
    by (auto split: option.splits)
  from w1(1) show ?case
  proof (cases rule: check_line_cases)
    case (anchor v x)
    then have "final_of E f (l # ls) = final_of E f ls" for f by (simp add: final_of_def)
    with Cons.IH [OF w1(2)] Cons.prems(2) anchor show ?thesis by simp
  next
    case (sharded c h sid)
    then have ex: "list_ex (\<lambda>e. e \<noteq> None) (expected_v2 w1)"
      using Cons.prems(2) by (simp add: list_ex_update del: not_None_eq)
    with Cons.IH [OF w1(2)] sharded(6) Cons.prems(2) have v1: "v1_of E ls = []" by simp
    with sharded have fin: "final_of E f ls = f" "final_of E f (l # ls) = f" for f by (simp_all add: final_of_def)
    have "ca_prev_hash c = chain_start E (expected_v2 w) (final_v1_hash w) (unat sid)"
      using sharded(4) by (simp add: shard_head_def chain_start_def)
    with Cons.IH [OF w1(2)] sharded Cons.prems(2) v1 show ?thesis
      by (auto simp: fin chain_start_update split: if_splits)
  next
    case (unsharded c h)
    then have "final_of E f (l # ls) = final_of E (Some h) ls" for f by (simp add: final_of_def)
    with Cons.IH [OF w1(2)] Cons.prems(2) unsharded show ?thesis by simp
  qed
qed

text \<open>The chains of a file that is accepted.\<close>

lemma verify_chain_disk_chains:
  assumes "verify_chain_disk E secret (Some ls0) sentinel L"
  defines "ls \<equiv> filter (\<lambda>l. l \<noteq> []) ls0"
  shows "file_chain E secret GENESIS_HASH (v1_of E ls)"
    and "i < AUDIT_SHARDS \<Longrightarrow> file_chain E secret (migration_seed_hash E i (final_of E None ls)) (v2_of E i ls)"
proof -
  have "file_chain E secret GENESIS_HASH (v1_of E ls) \<and>
    (\<forall>i < AUDIT_SHARDS. file_chain E secret (migration_seed_hash E i (final_of E None ls)) (v2_of E i ls))"
  proof (cases "ls = []")
    case False
    with assms obtain w' where "check_lines E secret ls walk_start = Some w'"
      by (auto simp: verify_chain_disk_def Let_def split: if_splits)
    from check_lines_chains [OF this] show ?thesis by (simp add: walk_start_def chain_start_def)
  qed simp
  then show "file_chain E secret GENESIS_HASH (v1_of E ls)"
    and "i < AUDIT_SHARDS \<Longrightarrow> file_chain E secret (migration_seed_hash E i (final_of E None ls)) (v2_of E i ls)"
    by auto
qed

section \<open>Against the true history\<close>

lemma true_chain_nth:
  "true_chain E secret p cs \<Longrightarrow> k < length cs \<Longrightarrow>
     ca_prev_hash (cs ! k) = (if k = 0 then p else chain_hash E secret (cs ! (k - 1)))"
proof (induction cs arbitrary: p k)
  case (Cons c cs)
  then show ?case by (cases k) (auto split: if_splits)
qed simp

lemma true_chain_distinct:
  assumes "true_chain E secret p cs" "inj_on (chain_hash E secret) (set cs)" "p \<notin> chain_hash E secret ` set cs"
  shows "distinct cs"
proof -
  have "j < k \<Longrightarrow> k < length cs \<Longrightarrow> cs ! j \<noteq> cs ! k" for j k
  proof (induction j arbitrary: k)
    case 0
    show ?case
    proof
      assume "cs ! 0 = cs ! k"
      moreover have "0 < length cs" using 0 by (rule order.strict_trans)
      ultimately have "p = chain_hash E secret (cs ! (k - 1))"
        using 0 true_chain_nth [OF assms(1), of 0] true_chain_nth [OF assms(1), of k] by auto
      with assms(3) 0 show False by auto
    qed
  next
    case (Suc j)
    show ?case
    proof
      assume "cs ! Suc j = cs ! k"
      with Suc.prems true_chain_nth [OF assms(1), of "Suc j"] true_chain_nth [OF assms(1), of k]
      have "chain_hash E secret (cs ! j) = chain_hash E secret (cs ! (k - 1))" by auto
      with assms(2) Suc.prems have "cs ! j = cs ! (k - 1)" by (auto dest!: inj_onD)
      moreover have "j < k - 1" "k - 1 < length cs" using Suc.prems by linarith+
      ultimately show False using Suc.IH [of "k - 1"] by blast
    qed
  qed
  then show ?thesis by (metis distinct_conv_nth nat_neq_iff)
qed

text \<open>A chain of the file whose records are all genuine runs along the true chain that starts where it
  does, as long as the previous hash of a genuine record determines it.\<close>

lemma file_chain_prefix:
  assumes "file_chain E secret p xs" "true_chain E secret p cs"
    and "fst ` set xs \<subseteq> S" "set cs \<subseteq> S" "inj_on ca_prev_hash S"
    and "true_end E secret p cs \<notin> ca_prev_hash ` S"
    and "\<And>c. c \<in> S \<Longrightarrow> ca_prev_hash c \<in> range hex_encode"
  shows "map fst xs = take (length xs) cs"
  using assms(1-4,6)
proof (induction xs arbitrary: p cs)
  case (Cons x xs)
  obtain c h where x: "x = (c, h)" by (cases x)
  show ?case
  proof (cases cs)
    case Nil
    with Cons.prems x show ?thesis by (auto simp: true_end_def)
  next
    case (Cons d ds)
    with x Cons.prems have "ca_prev_hash c = ca_prev_hash d" "c \<in> S" "d \<in> S" by auto
    with assms(5) have cd: "c = d" by (auto dest: inj_onD)
    show ?thesis
    proof (cases xs)
      case Nil
      with x cd \<open>cs = d # ds\<close> show ?thesis by simp
    next
      case (Cons y ys)
      with Cons.prems(1,3) x obtain c' where "c' \<in> S" "ca_prev_hash c' = h" by (cases y) auto
      with assms(7) obtain bs where "h = hex_encode bs" by fastforce
      with Cons.prems(1) x have "h = chain_hash E secret c" by (simp add: mac_ok_def chain_hash_def)
      with Cons.IH [of h ds] Cons.prems x cd \<open>cs = d # ds\<close> show ?thesis
        by (auto simp: true_end_def split: if_splits)
    qed
  qed
qed simp

text \<open>A family of disjoint chains with different starts: the previous hash of a record determines it,
  and nothing follows the end of a chain.\<close>

lemma chain_family:
  assumes chains: "\<And>x. x \<in> I \<Longrightarrow> true_chain E secret (st x) (ch x)"
    and S: "S = (\<Union>x \<in> I. set (ch x))"
    and st: "inj_on st I" "\<And>x. x \<in> I \<Longrightarrow> st x \<notin> chain_hash E secret ` S"
    and hash: "inj_on (chain_hash E secret) S"
    and disj: "\<And>x y c. x \<in> I \<Longrightarrow> y \<in> I \<Longrightarrow> c \<in> set (ch x) \<Longrightarrow> c \<in> set (ch y) \<Longrightarrow> x = y"
  shows "inj_on ca_prev_hash S" "\<And>x. x \<in> I \<Longrightarrow> true_end E secret (st x) (ch x) \<notin> ca_prev_hash ` S"
proof -
  have dist: "distinct (ch x)" if "x \<in> I" for x
    using that chains [OF that] st(2) [OF that] S inj_on_subset [OF hash] by (intro true_chain_distinct) auto
  have mem: "c \<in> S \<Longrightarrow> \<exists>x k. x \<in> I \<and> k < length (ch x) \<and> c = ch x ! k" for c
    by (auto simp: S in_set_conv_nth)
  have prev: "ca_prev_hash (ch x ! k) = (if k = 0 then st x else chain_hash E secret (ch x ! (k - 1)))"
    if "x \<in> I" "k < length (ch x)" for x k using true_chain_nth [OF chains [OF that(1)] that(2)] .
  have inS: "ch x ! k \<in> S" if "x \<in> I" "k < length (ch x)" for x k using that(1) nth_mem [OF that(2)] by (auto simp: S)
  have same: "x = y \<and> k = m" if "x \<in> I" "k < length (ch x)" "y \<in> I" "m < length (ch y)"
    "chain_hash E secret (ch x ! k) = chain_hash E secret (ch y ! m)" for x y k m
  proof -
    have "ch x ! k = ch y ! m" using that inS hash by (auto dest: inj_onD)
    moreover from this have "x = y"
      using that disj [OF that(1,3) nth_mem [OF that(2)]] nth_mem [OF that(4)] by simp
    ultimately show ?thesis using that dist by (auto simp: nth_eq_iff_index_eq)
  qed
  have not_st: "st x \<noteq> chain_hash E secret (ch y ! k)" if "x \<in> I" "y \<in> I" "k < length (ch y)" for x y k
    using st(2) [OF that(1)] inS [OF that(2,3)] by auto
  show "inj_on ca_prev_hash S"
  proof (rule inj_onI)
    fix c d assume "c \<in> S" "d \<in> S" and eq: "ca_prev_hash c = ca_prev_hash d"
    then obtain x k y m where *: "x \<in> I" "k < length (ch x)" "c = ch x ! k" "y \<in> I" "m < length (ch y)" "d = ch y ! m"
      using mem by metis
    have "k - 1 < length (ch x)" "m - 1 < length (ch y)" using * by linarith+
    note * = this *
    have "x = y \<and> k = m"
    proof (cases "k = 0 \<or> m = 0")
      case True
      with * eq prev not_st [of x y "m - 1"] not_st [of y x "k - 1"] have "st x = st y" "k = 0" "m = 0"
        by (auto split: if_splits)
      with * st(1) show ?thesis by (auto dest: inj_onD)
    next
      case False
      with * eq prev same [of x "k - 1" y "m - 1"] show ?thesis by auto
    qed
    with * show "c = d" by simp
  qed
  fix x assume x: "x \<in> I"
  show "true_end E secret (st x) (ch x) \<notin> ca_prev_hash ` S"
  proof
    assume "true_end E secret (st x) (ch x) \<in> ca_prev_hash ` S"
    then obtain y m where y: "y \<in> I" "m < length (ch y)" "true_end E secret (st x) (ch x) = ca_prev_hash (ch y ! m)"
      using mem by blast
    have "m - 1 < length (ch y)" using y by linarith
    note y = y this
    show False
    proof (cases "ch x = []")
      case True
      with y prev not_st [OF x, of y "m - 1"] have "st x = st y" by (auto simp: true_end_def split: if_splits)
      with x y(1) st(1) have "x = y" by (auto dest: inj_onD)
      with True y(2) show False by simp
    next
      case False
      with y(3) have "chain_hash E secret (ch x ! (length (ch x) - 1)) = ca_prev_hash (ch y ! m)"
        by (simp add: true_end_def last_conv_nth)
      with False x y(1,2,4) prev not_st [OF y(1) x, of "length (ch x) - 1"] same [of x "length (ch x) - 1" y "m - 1"]
      show False by (auto split: if_splits)
    qed
  qed
qed

section \<open>Tamper evidence\<close>

definition canon :: "AuditLogEntry list list \<Rightarrow> nat \<Rightarrow> CanonicalAuditRecord list" where
  "canon hs i = map (\<lambda>e. from_record (le_record e)) (hs ! i)"

definition appended :: "CanonicalAuditRecord list \<Rightarrow> AuditLogEntry list list \<Rightarrow> CanonicalAuditRecord set" where
  "appended old hs = set old \<union> (\<Union>i < AUDIT_SHARDS. set (canon hs i))"

definition v1_end :: "audit_env \<Rightarrow> bytes \<Rightarrow> CanonicalAuditRecord list \<Rightarrow> string option" where
  "v1_end E secret old = (if old = [] then None else Some (chain_hash E secret (last old)))"

text \<open>The hashes at work are different: chain hashes of what was appended, seeds and the fixed genesis value.\<close>

definition no_collisions :: "audit_env \<Rightarrow> bytes \<Rightarrow> CanonicalAuditRecord set \<Rightarrow> string option set \<Rightarrow> bool" where
  "no_collisions E secret S F \<longleftrightarrow>
     inj_on (chain_hash E secret) S \<and> GENESIS_HASH \<notin> chain_hash E secret ` S \<and>
     inj_on (\<lambda>(i, f). migration_seed_hash E i f) ({..<AUDIT_SHARDS} \<times> F) \<and>
     (\<forall>i < AUDIT_SHARDS. \<forall>f \<in> F. migration_seed_hash E i f \<noteq> GENESIS_HASH \<and> migration_seed_hash E i f \<notin> chain_hash E secret ` S)"

text \<open>Every record of the file whose code verifies was authenticated by the log.\<close>

definition no_forgery :: "audit_env \<Rightarrow> bytes \<Rightarrow> CanonicalAuditRecord set \<Rightarrow> string list \<Rightarrow> bool" where
  "no_forgery E secret S ls \<longleftrightarrow>
     (\<forall>l \<in> set ls. \<forall>c h. parse_line E l = Some (RecordLine c h) \<and> mac_ok E secret c h \<longrightarrow> c \<in> S)"

text \<open>What was really appended: unsharded records of an earlier version, then the shards.\<close>

definition true_history :: "audit_env \<Rightarrow> bytes \<Rightarrow> CanonicalAuditRecord list \<Rightarrow> AuditLogEntry list list \<Rightarrow> bool" where
  "true_history E secret old hs \<longleftrightarrow>
     true_chain E secret GENESIS_HASH old \<and> (\<forall>c \<in> set old. ca_shard_id c = None) \<and>
     (\<forall>i < AUDIT_SHARDS. hist_ok E secret i (migration_seed_hash E i (v1_end E secret old)) (hs ! i))"

lemma v2_fields_complete:
  "ar_shard_id r = Some i \<Longrightarrow> ar_shard_seq r \<noteq> None \<Longrightarrow> ar_anchor_epoch r \<noteq> None \<Longrightarrow> ca_shard_id (from_record r) = Some i"
  by (auto simp: from_record_def v2_fields_def)

lemma hist_ok_chain:
  assumes "hist_ok E secret i p es"
  shows "true_chain E secret p (map (\<lambda>e. from_record (le_record e)) es)"
    and "\<forall>e \<in> set es. ca_shard_id (from_record (le_record e)) = Some (word_of_nat i)"
  using assms by (induction es arbitrary: p) (auto simp: v2_fields_complete, auto simp: from_record_def split: prod.splits)

lemma unat_shard: "i < AUDIT_SHARDS \<Longrightarrow> unat (word_of_nat i :: u16) = i"
  by (simp add: AUDIT_SHARDS_def unat_of_nat)

lemma genesis_hex: "GENESIS_HASH \<in> range hex_encode"
proof -
  have "GENESIS_HASH = hex_encode (str_bytes ''GENESIS_BLOCK'')" by code_simp
  then show ?thesis by blast
qed

lemma hash_hex: "chain_hash E secret c \<in> range hex_encode" "migration_seed_hash E i f \<in> range hex_encode"
  by (auto simp: chain_hash_def migration_seed_hash_def shard_genesis_hash_def split: option.splits)

lemma v1_of_members: "x \<in> set (v1_of E ls) \<Longrightarrow> \<exists>l \<in> set ls. parse_line E l = Some (RecordLine (fst x) (snd x))"
proof (induction ls)
  case (Cons l ls)
  show ?case
  proof (cases "parse_line E l")
    case (Some d)
    with Cons show ?thesis by (cases d) (auto split: if_splits)
  qed (use Cons in simp)
qed simp

lemma v2_of_members: "x \<in> set (v2_of E i ls) \<Longrightarrow>
  (\<exists>l \<in> set ls. parse_line E l = Some (RecordLine (fst x) (snd x))) \<and> map_option unat (ca_shard_id (fst x)) = Some i"
proof (induction ls)
  case (Cons l ls)
  show ?case
  proof (cases "parse_line E l")
    case (Some d)
    with Cons show ?thesis by (cases d) (auto split: if_splits)
  qed (use Cons in simp)
qed simp

lemma file_chain_macs: "file_chain E secret p xs \<Longrightarrow> (c, h) \<in> set xs \<Longrightarrow> mac_ok E secret c h"
  by (induction E secret p xs rule: file_chain.induct) auto

lemma true_history_shard:
  assumes "true_history E secret old hs" "i < AUDIT_SHARDS"
  shows "true_chain E secret (migration_seed_hash E i (v1_end E secret old)) (canon hs i)"
    and "c \<in> set (canon hs i) \<Longrightarrow> ca_shard_id c = Some (word_of_nat i)"
  using assms hist_ok_chain [of E secret i "migration_seed_hash E i (v1_end E secret old)" "hs ! i"]
  by (auto simp: true_history_def canon_def)

lemma genuine_chains:
  assumes hist: "true_history E secret old hs"
    and coll: "no_collisions E secret (appended old hs) F" and F: "v1_end E secret old \<in> F"
  shows "inj_on ca_prev_hash (appended old hs)"
    and "true_end E secret GENESIS_HASH old \<notin> ca_prev_hash ` appended old hs"
    and "i < AUDIT_SHARDS \<Longrightarrow>
      true_end E secret (migration_seed_hash E i (v1_end E secret old)) (canon hs i) \<notin> ca_prev_hash ` appended old hs"
proof -
  let ?S = "appended old hs" and ?t = "v1_end E secret old"
  define I where "I = insert None (Some ` {..<AUDIT_SHARDS})"
  define st where "st = case_option GENESIS_HASH (\<lambda>i. migration_seed_hash E i ?t)"
  define ch where "ch = case_option old (canon hs)"
  have 1: "true_chain E secret (st x) (ch x)" if "x \<in> I" for x
    using that hist true_history_shard(1) [OF hist] by (auto simp: I_def st_def ch_def true_history_def)
  have 2: "?S = (\<Union>x \<in> I. set (ch x))" by (auto simp: appended_def I_def ch_def)
  have g: "migration_seed_hash E i ?t \<noteq> GENESIS_HASH" if "i < AUDIT_SHARDS" for i
    using that coll F by (auto simp: no_collisions_def)
  have j: "i = k" if "migration_seed_hash E i ?t = migration_seed_hash E k ?t" "i < AUDIT_SHARDS" "k < AUDIT_SHARDS" for i k
    using that coll F by (auto simp: no_collisions_def inj_on_def)
  have 3: "inj_on st I" by (auto simp: I_def st_def inj_on_def intro: j dest: g g [symmetric])
  have "migration_seed_hash E i ?t \<notin> chain_hash E secret ` ?S" if "i < AUDIT_SHARDS" for i
    using that coll F by (simp add: no_collisions_def)
  note seeds = this
  have 4: "st x \<notin> chain_hash E secret ` ?S" if "x \<in> I" for x
  proof (cases x)
    case (Some i)
    with that have "i < AUDIT_SHARDS" by (auto simp: I_def)
    with Some seeds show ?thesis by (simp add: st_def)
  qed (use coll in \<open>simp add: st_def no_collisions_def\<close>)
  have 5: "x = y" if "x \<in> I" "y \<in> I" "c \<in> set (ch x)" "c \<in> set (ch y)" for x y c
  proof -
    have "x = map_option unat (ca_shard_id c)" if "x \<in> I" "c \<in> set (ch x)" for x
      using that hist true_history_shard(2) [OF hist]
      by (auto simp: I_def ch_def true_history_def unat_shard)
    with that show ?thesis by metis
  qed
  have 6: "inj_on (chain_hash E secret) ?S" using coll by (simp add: no_collisions_def)
  note fam = chain_family [OF 1 2 3 4 6 5]
  from fam(1) show "inj_on ca_prev_hash ?S" .
  from fam(2) [where x = None] show "true_end E secret GENESIS_HASH old \<notin> ca_prev_hash ` ?S"
    by (simp add: I_def st_def ch_def)
  from fam(2) [where x = "Some i"] show "true_end E secret (migration_seed_hash E i ?t) (canon hs i) \<notin> ca_prev_hash ` ?S"
    if "i < AUDIT_SHARDS" using that by (simp add: I_def st_def ch_def)
qed

lemma genuine_prev_hex:
  assumes "true_history E secret old hs" "c \<in> appended old hs"
  shows "ca_prev_hash c \<in> range hex_encode"
proof -
  have "ca_prev_hash c \<in> range hex_encode" if "true_chain E secret p cs" "c \<in> set cs" "p \<in> range hex_encode" for p cs
    using that by (induction cs arbitrary: p) (auto simp: hash_hex)
  note chain = this
  from assms(2) consider "c \<in> set old" | i where "i < AUDIT_SHARDS" "c \<in> set (canon hs i)"
    by (auto simp: appended_def)
  then show ?thesis
  proof cases
    case 1
    with assms(1) genesis_hex show ?thesis by (intro chain) (auto simp: true_history_def)
  next
    case 2
    then show ?thesis using true_history_shard(1) [OF assms(1)] by (intro chain [OF _ 2(2) hash_hex(2)])
  qed
qed

lemma file_records_genuine:
  assumes "no_forgery E secret S ls" "file_chain E secret p xs"
    and "\<And>x. x \<in> set xs \<Longrightarrow> \<exists>l \<in> set ls. parse_line E l = Some (RecordLine (fst x) (snd x))"
  shows "fst ` set xs \<subseteq> S"
  using assms file_chain_macs [OF assms(2)] by (fastforce simp: no_forgery_def)

lemma mac_ok_hash: "mac_ok E secret c (chain_hash E secret d) \<longleftrightarrow> chain_hash E secret c = chain_hash E secret d"
  by (auto simp: mac_ok_def chain_hash_def)

lemma take_last_distinct:
  assumes "distinct xs" "take n xs \<noteq> []" "last (take n xs) = last xs"
  shows "take n xs = xs"
proof (rule ccontr)
  assume "take n xs \<noteq> xs"
  then have n: "n < length xs" "0 < n" using assms(2) by (auto simp: not_less)
  then have "last (take n xs) = xs ! (n - 1)" "last xs = xs ! (length xs - 1)"
    using assms(2) last_conv_nth [of xs] last_conv_nth [of "take n xs"] by auto
  with assms(1,3) n have "n - 1 = length xs - 1" by (auto simp: nth_eq_iff_index_eq)
  with n show False by simp
qed

lemma accepted_file_prefix:
  assumes accept: "verify_chain_disk E secret (Some ls0) sentinel L"
  defines "ls \<equiv> filter (\<lambda>l. l \<noteq> []) ls0"
  assumes hist: "true_history E secret old hs"
    and coll: "no_collisions E secret (appended old hs) {final_of E None ls, v1_end E secret old}"
    and forge: "no_forgery E secret (appended old hs) ls"
  shows "map fst (v1_of E ls) = take (length (v1_of E ls)) old"
    and "i < AUDIT_SHARDS \<Longrightarrow> v2_of E i ls \<noteq> [] \<Longrightarrow> map fst (v1_of E ls) = old \<and>
      map fst (v2_of E i ls) = take (length (v2_of E i ls)) (canon hs i)"
proof -
  let ?S = "appended old hs" and ?f = "final_of E None ls" and ?t = "v1_end E secret old"
  note chains = verify_chain_disk_chains [OF accept, folded ls_def]
  note fam = genuine_chains [OF hist coll]
  have old: "true_chain E secret GENESIS_HASH old" "set old \<subseteq> ?S"
    using hist by (auto simp: true_history_def appended_def)
  have shard: "set (canon hs i) \<subseteq> ?S" if "i < AUDIT_SHARDS" for i
    using that by (auto simp: appended_def)
  have g1: "fst ` set (v1_of E ls) \<subseteq> ?S"
    using file_records_genuine [OF forge chains(1)] v1_of_members by blast
  show v1: "map fst (v1_of E ls) = take (length (v1_of E ls)) old"
    using file_chain_prefix [OF chains(1) old(1) g1 old(2) fam(1) fam(2)] genuine_prev_hex [OF hist]
    by simp
  assume i: "i < AUDIT_SHARDS" and ne: "v2_of E i ls \<noteq> []"
  note chain = chains(2) [OF i]
  have g2: "fst ` set (v2_of E i ls) \<subseteq> ?S"
    using file_records_genuine [OF forge chain] v2_of_members by blast
  from ne obtain c h xs where x: "v2_of E i ls = (c, h) # xs" by (cases "v2_of E i ls") auto
  with g2 have c: "c \<in> ?S" "ca_prev_hash c = migration_seed_hash E i ?f" using chain by auto
  have "map_option unat (ca_shard_id c) = Some i" using v2_of_members [of "(c, h)" E i ls] x by simp
  with c(1) hist i true_history_shard(2) [OF hist] have "c \<in> set (canon hs i)"
    by (auto simp: appended_def true_history_def unat_shard)
  then obtain k where k: "k < length (canon hs i)" "c = canon hs i ! k" by (auto simp: in_set_conv_nth)
  have "ca_prev_hash c = migration_seed_hash E i ?t"
  proof (cases "k = 0")
    case True
    with k true_chain_nth [OF true_history_shard(1) [OF hist i], of 0] show ?thesis by auto
  next
    case False
    with k true_chain_nth [OF true_history_shard(1) [OF hist i] k(1)]
    have "migration_seed_hash E i ?f = chain_hash E secret (canon hs i ! (k - 1))" using c(2) by simp
    moreover have "canon hs i ! (k - 1) \<in> ?S" using shard [OF i] k(1) by (auto intro!: subsetD [OF _ nth_mem])
    ultimately show ?thesis using coll i by (auto simp: no_collisions_def)
  qed
  with c(2) coll i have ft: "?f = ?t" by (auto simp: no_collisions_def inj_on_def)
  have "map fst (v1_of E ls) = old"
  proof (cases "old = []")
    case True
    with v1 show ?thesis by simp
  next
    case False
    with ft have ne1: "v1_of E ls \<noteq> []" and h: "snd (last (v1_of E ls)) = chain_hash E secret (last old)"
      by (auto simp: final_of_def v1_end_def split: if_splits)
    let ?d = "fst (last (v1_of E ls))"
    have "(?d, chain_hash E secret (last old)) \<in> set (v1_of E ls)" using ne1 h last_in_set [OF ne1] by (metis prod.collapse)
    with file_chain_macs [OF chains(1)] g1 have "chain_hash E secret ?d = chain_hash E secret (last old)" "?d \<in> ?S"
      using mac_ok_hash by fastforce+
    with coll False have d: "?d = last old" by (auto simp: no_collisions_def appended_def dest: inj_onD)
    have dist: "distinct old"
      using true_chain_distinct [OF old(1)] coll by (auto simp: no_collisions_def appended_def intro: inj_on_subset)
    have "last (map fst (v1_of E ls)) = last old" using ne1 d by (simp add: last_map)
    with v1 ne1 show ?thesis using take_last_distinct [OF dist] by (metis map_is_Nil_conv)
  qed
  moreover have "map fst (v2_of E i ls) = take (length (v2_of E i ls)) (canon hs i)"
    using file_chain_prefix [OF chain [unfolded ft] true_history_shard(1) [OF hist i] g2 shard [OF i] fam(1) fam(3) [OF _ i]]
      genuine_prev_hex [OF hist] by simp
  ultimately show "map fst (v1_of E ls) = old \<and> map fst (v2_of E i ls) = take (length (v2_of E i ls)) (canon hs i)" by simp
qed

end
