(* ===== verification/Audit_Restart.thy ===== *)
theory Audit_Restart
  imports Audit_Tamper "HOL-Library.Countable"
begin

text \<open>
  What the log writes and what it reads back. As long as the writer handles every record before the next one is
  appended, its file verifies at every moment and \<open>initialize_chain\<close> restores the state of the log from
  it. A record appended while an earlier one still waits in the queue, a restart or a rotation can leave a file
  that the log itself refuses, although nobody touched it.
\<close>

section \<open>JSON\<close>

text \<open>What is relied on of the parser: it reads back what the printer printed, keys sorted.\<close>

definition json_laws :: "audit_env \<Rightarrow> bool" where
  "json_laws E \<longleftrightarrow>
     (\<forall>c h. ae_from_str E (entry_line (ae_to_string E (canonical_value c)) (hex_encode h)) =
        Some (JObj [(''chain_hash'', JStr (hex_encode h)), (''record'', canonical_value c)])) \<and>
     (\<forall>a. ae_from_str E (ae_to_string E (JObj [(ANCHOR_LINE_KEY, anchor_value a)])) = Some (JObj [(ANCHOR_LINE_KEY, anchor_value a)])) \<and>
     (\<forall>a. ae_anchor_from_value E (anchor_value a) = Some a) \<and> ae_from_str E [] = None"

definition sharded :: "AuditRecord \<Rightarrow> nat \<Rightarrow> bool" where
  "sharded r i \<longleftrightarrow> i < AUDIT_SHARDS \<and> ar_shard_id r = Some (word_of_nat i) \<and> ar_shard_seq r \<noteq> None \<and> ar_anchor_epoch r \<noteq> None"

lemma from_record_sharded:
  "sharded r i \<Longrightarrow> from_record r =
     \<lparr>ca_anchor_epoch = ar_anchor_epoch r, ca_intent = ar_intent r, ca_prev_hash = ar_prev_hash r, ca_seq = ar_seq r,
      ca_shard_id = Some (word_of_nat i), ca_shard_seq = ar_shard_seq r, ca_source = ar_source r, ca_target = ar_target r,
      ca_timestamp = ar_timestamp r, ca_token_signature = ar_token_signature r,
      ca_traceparent = ar_traceparent r, ca_v = Some AUDIT_RECORD_VERSION_V2\<rparr>"
  by (auto simp: sharded_def from_record_def v2_fields_def)

lemma json_get_simps [simp]:
  "json_get (JObj kvs) k = map_of kvs k" "json_index (JObj kvs) k = (case map_of kvs k of Some x \<Rightarrow> x | None \<Rightarrow> JNull)"
  "claim_u64 (JObj kvs) k = Option.bind (map_of kvs k) as_u64"
  by (simp_all add: json_get_def json_index_def claim_u64_def)

lemma shard_word: "i < AUDIT_SHARDS \<Longrightarrow> unat (ucast (word_of_nat i :: u16) :: u64) = i"
  by (simp add: unat_ucast_u64 unat_shard)

lemma shard_word_back: "(ucast (ucast (s :: u16) :: u64) :: u16) = s"
  by (rule ucast_up_ucast_id) (simp add: is_up)

lemma record_line_json:
  assumes "json_laws E"
  shows "ae_from_str E (record_line E secret r) =
    Some (JObj [(''chain_hash'', JStr (chain_hash E secret (from_record r))), (''record'', canonical_value (from_record r))])"
  using assms by (simp add: json_laws_def record_line_def chain_hash_def)

lemma canonical_fields:
  assumes "sharded r i"
  shows "record_fields (canonical_value (from_record r)) =
      Some ((from_record r)\<lparr>ca_anchor_epoch := None, ca_shard_id := None, ca_shard_seq := None, ca_v := None\<rparr>)"
    and "shard_fields (canonical_value (from_record r))
      ((from_record r)\<lparr>ca_anchor_epoch := None, ca_shard_id := None, ca_shard_seq := None, ca_v := None\<rparr>) = Some (from_record r)"
proof -
  have i: "i < AUDIT_SHARDS" using assms by (simp add: sharded_def)
  obtain ep sq where eq: "ar_anchor_epoch r = Some ep" "ar_shard_seq r = Some sq"
    using assms by (auto simp: sharded_def)
  show "record_fields (canonical_value (from_record r)) =
      Some ((from_record r)\<lparr>ca_anchor_epoch := None, ca_shard_id := None, ca_shard_seq := None, ca_v := None\<rparr>)"
    by (simp add: from_record_sharded [OF assms] eq canonical_value_def record_fields_def)
  show "shard_fields (canonical_value (from_record r))
      ((from_record r)\<lparr>ca_anchor_epoch := None, ca_shard_id := None, ca_shard_seq := None, ca_v := None\<rparr>) = Some (from_record r)"
    using i by (simp add: from_record_sharded [OF assms] eq canonical_value_def shard_fields_def shard_word shard_word_back
        not_le [symmetric])
qed

lemma parse_record_line:
  assumes "json_laws E" "sharded r i"
  shows "parse_line E (record_line E secret r) = Some (RecordLine (from_record r) (chain_hash E secret (from_record r)))"
  using canonical_fields [OF assms(2)]
  by (simp add: parse_line_def record_line_json [OF assms(1)] ANCHOR_LINE_KEY_def)

lemma parse_anchor_line:
  "json_laws E \<Longrightarrow> parse_line E (ae_to_string E (JObj [(ANCHOR_LINE_KEY, anchor_value a)])) = Some (AnchorLine (anchor_value a))"
  by (simp add: parse_line_def json_laws_def)

section \<open>Writing without rotation\<close>

definition written :: "wal_files \<Rightarrow> string list" where
  "written f = file_lines f @ wf_buffer f"

definition io_ok :: "io \<Rightarrow> bool" where
  "io_ok o1 \<longleftrightarrow> io_rotate_sync o1 \<and> io_rename o1 \<and> io_reopen o1 \<and> io_write o1 \<and> io_sync o1 \<and> io_sentinel o1"

definition record_count :: "audit_env \<Rightarrow> string list \<Rightarrow> nat" where
  "record_count E ls = length (filter (is_record_line E) ls)"

lemma record_count_mono: "record_count E xs \<le> record_count E (xs @ ys)"
  by (simp add: record_count_def)

definition sentinel_le :: "string option \<Rightarrow> nat \<Rightarrow> bool" where
  "sentinel_le s n \<longleftrightarrow> (case sentinel_count s of Some m \<Rightarrow> m \<le> n | None \<Rightarrow> True)"

text \<open>The file never holds fewer records than the sentinel says.\<close>

definition files_ok :: "audit_env \<Rightarrow> wal_files \<Rightarrow> bool" where
  "files_ok E f \<longleftrightarrow> wf_log f \<noteq> None \<and> sentinel_le (wf_sentinel f) (record_count E (file_lines f)) \<and> (\<forall>l \<in> set (written f). l \<noteq> [])"

lemma sentinel_le_string: "sentinel_le (Some (u64_string n)) n"
  by (simp add: sentinel_le_def sentinel_round_trip)

lemma write_entry_quiet:
  assumes "io_ok o1" "ww_open w" "ww_size w \<le> AUDIT_MAX_LOG_SIZE" "files_ok E f" "l \<noteq> []"
    and "n \<le> record_count E (written f @ [l])"
  obtains w' f' where "write_entry o1 l n w f = Some (w', f', True)" "ww_open w'"
    "ww_size w' = ww_size w + length l + 1" "ww_pending_event_count w' = n" "written f' = written f @ [l]" "files_ok E f'"
proof -
  let ?f = "f\<lparr>wf_buffer := wf_buffer f @ [l]\<rparr>"
  let ?w = "w\<lparr>ww_size := ww_size w + length l + 1, ww_entries_since_flush := Suc (ww_entries_since_flush w), ww_pending_event_count := n\<rparr>"
  have f: "written ?f = written f @ [l]" "files_ok E ?f" "file_lines (flush_buffer ?f) = written f @ [l]" "wf_buffer (flush_buffer ?f) = []"
    using assms(4,5) by (auto simp: written_def files_ok_def file_lines_def flush_buffer_def)
  have rot: "maybe_rotate o1 w f = (w, f, True)" using assms(3) by (simp add: maybe_rotate_def)
  show ?thesis
  proof (cases "ww_entries_since_flush ?w \<ge> AUDIT_WAL_FLUSH_EVERY_N_ENTRIES \<or> io_now o1 - ww_last_flush ?w \<ge> AUDIT_WAL_FLUSH_INTERVAL")
    case True
    let ?g = "(flush_buffer ?f)\<lparr>wf_sentinel := Some (u64_string n)\<rparr>"
    have w: "write_entry o1 l n w f = Some (?w\<lparr>ww_entries_since_flush := 0, ww_last_flush := io_now o1\<rparr>, ?g, True)"
      using True assms(1,2) rot by (simp add: write_entry_def io_ok_def Let_def flush_and_sync_def)
    have g: "file_lines ?g = written f @ [l]" "wf_buffer ?g = []" "wf_log ?g \<noteq> None"
      using f by (simp_all add: file_lines_def flush_buffer_def written_def)
    have "files_ok E ?g"
      using g assms(4-6) sentinel_le_string [of n]
      by (auto simp: files_ok_def written_def sentinel_le_def split: option.splits)
    then show ?thesis using assms(2) g by (intro that [OF w]) (auto simp: written_def)
  next
    case False
    then have w: "write_entry o1 l n w f = Some (?w, ?f, True)"
      using assms(1,2) rot by (simp add: write_entry_def io_ok_def Let_def)
    show ?thesis using f assms(2) by (intro that [OF w]) auto
  qed
qed

section \<open>The file follows the log\<close>

text \<open>Reading the lines, to verify or to adopt them, arrives at the state of the log and of its writer.\<close>

definition tracks :: "audit_env \<Rightarrow> bytes \<Rightarrow> string list \<Rightarrow> string \<Rightarrow> nat \<Rightarrow> ShardInner list \<Rightarrow> bool" where
  "tracks E secret ls rt n shs \<longleftrightarrow>
     (\<exists>w. check_lines E secret ls walk_start = Some w \<and> length (expected_v2 w) = AUDIT_SHARDS \<and> final_v1_hash w = None \<and>
        expected_prev_root w = rt \<and> (\<forall>i < AUDIT_SHARDS. shard_head E w i = last_hash (shs ! i))) \<and>
     (let a = fold (adopt_line E) ls adopt_start in ad_record_count a = n \<and> ad_final_v1_hash a = None \<and>
        length (ad_heads a) = AUDIT_SHARDS \<and>
        (\<forall>i < AUDIT_SHARDS. adopt_shard E a i = (last_hash (shs ! i), shard_seq (shs ! i))))"

lemma check_lines_append:
  "check_lines E secret (xs @ ys) w = (case check_lines E secret xs w of None \<Rightarrow> None | Some w1 \<Rightarrow> check_lines E secret ys w1)"
  by (induction xs arbitrary: w) (auto split: option.splits)

lemma tracks_start: "tracks E secret [] ANCHOR_GENESIS_ROOT 0 (map (genesis_shard E) [0..<AUDIT_SHARDS])"
  by (simp add: tracks_def walk_start_def shard_head_def migration_seed_hash_def genesis_shard_def adopt_start_def adopt_shard_def)

lemma adopt_record_line:
  assumes "json_laws E" "sharded r i" "ar_shard_seq r = Some sq"
  shows "adopt_line E (record_line E secret r) a =
    a\<lparr>ad_record_count := Suc (ad_record_count a), ad_heads := (ad_heads a)[i := Some (chain_hash E secret (from_record r), sq + 1)]\<rparr>"
proof -
  have i: "i < AUDIT_SHARDS" using assms by (simp add: sharded_def)
  obtain ep where ep: "ar_anchor_epoch r = Some ep" using assms by (auto simp: sharded_def)
  have "claim_u64 (canonical_value (from_record r)) ''shard_id'' = Some (ucast (word_of_nat i :: u16))"
    "claim_u64 (canonical_value (from_record r)) ''shard_seq'' = Some sq"
    using assms(3) ep by (simp_all add: from_record_sharded [OF assms(2)] canonical_value_def)
  with i show ?thesis
    by (simp add: adopt_line_def record_line_json [OF assms(1)] ANCHOR_LINE_KEY_def shard_word Let_def)
qed

lemma adopt_anchor_line:
  assumes "json_laws E"
  obtains e where "adopt_line E (ae_to_string E (JObj [(ANCHOR_LINE_KEY, anchor_value x)])) a = a\<lparr>ad_max_anchor_epoch := e\<rparr>"
  using assms by (auto simp: adopt_line_def json_laws_def)

lemma tracks_record:
  assumes laws: "json_laws E" and t: "tracks E secret ls rt n shs" and i: "i < AUDIT_SHARDS" "length shs = AUDIT_SHARDS"
    and r: "r = make_record i ts ep q ev (shs ! i)"
  shows "tracks E secret (ls @ [record_line E secret r]) rt (Suc n)
    (shs[i := shard_append r (chain_hash E secret (from_record r)) (shs ! i)])"
proof -
  have sh: "sharded r i" "ar_shard_seq r = Some (shard_seq (shs ! i))" "ar_prev_hash r = last_hash (shs ! i)"
    using i by (simp_all add: r sharded_def)
  let ?h = "chain_hash E secret (from_record r)"
  from t obtain w where w: "check_lines E secret ls walk_start = Some w" "length (expected_v2 w) = AUDIT_SHARDS"
    "final_v1_hash w = None" "expected_prev_root w = rt" "\<And>j. j < AUDIT_SHARDS \<Longrightarrow> shard_head E w j = last_hash (shs ! j)"
    by (auto simp: tracks_def)
  let ?w = "w\<lparr>expected_v2 := (expected_v2 w)[i := Some ?h]\<rparr>"
  have prev: "ca_prev_hash (from_record r) = shard_head E w i" "ca_shard_id (from_record r) = Some (word_of_nat i)"
    using sh w(5) i by (simp_all add: from_record_sharded)
  then have "check_lines E secret (ls @ [record_line E secret r]) walk_start = Some ?w"
    using w(1) i by (simp add: check_lines_append check_line_def parse_record_line [OF laws sh(1)] check_v2_def unat_shard)
  moreover have "shard_head E ?w j = last_hash (shs[i := shard_append r ?h (shs ! i)] ! j)" if "j < AUDIT_SHARDS" for j
    using that w(2) w(5) [OF that] i by (cases "j = i") (simp_all add: shard_head_def shard_append_def cong: option.case_cong)
  moreover have "adopt_shard E (a\<lparr>ad_record_count := m, ad_heads := (ad_heads a)[i := Some x]\<rparr>) j = (if j = i then x else adopt_shard E a j)"
    if "length (ad_heads a) = AUDIT_SHARDS" for a x m j using that i by (simp add: adopt_shard_def cong: option.case_cong)
  ultimately show ?thesis
    using t w(2-4) i by (auto simp: tracks_def adopt_record_line [OF laws sh(1,2)] Let_def nth_list_update shard_append_def)
qed

lemma tracks_anchor:
  assumes laws: "json_laws E" and t: "tracks E secret ls rt n shs" and len: "length shs = AUDIT_SHARDS"
    and rt: "heads_root E (map last_hash shs) = Some rt'"
    and x: "an_heads x = map last_hash shs" "an_root x = rt'" "an_prev_root x = rt"
  shows "tracks E secret (ls @ [ae_to_string E (JObj [(ANCHOR_LINE_KEY, anchor_value x)])]) rt' n shs"
proof -
  let ?l = "ae_to_string E (JObj [(ANCHOR_LINE_KEY, anchor_value x)])"
  from t obtain w where w: "check_lines E secret ls walk_start = Some w" "length (expected_v2 w) = AUDIT_SHARDS"
    "final_v1_hash w = None" "expected_prev_root w = rt" "\<And>j. j < AUDIT_SHARDS \<Longrightarrow> shard_head E w j = last_hash (shs ! j)"
    by (auto simp: tracks_def)
  have "\<not> list_ex (\<lambda>(i, h). shard_head E w i \<noteq> h) (enumerate 0 (map last_hash shs))"
    using w(5) len by (auto simp: list_ex_length nth_enumerate_eq)
  then have "check_line E secret ?l w = Some (w\<lparr>expected_prev_root := rt'\<rparr>)"
    using laws w(4) x rt len by (simp add: check_line_def parse_anchor_line check_anchor_def json_laws_def)
  with w(1) have "check_lines E secret (ls @ [?l]) walk_start = Some (w\<lparr>expected_prev_root := rt'\<rparr>)"
    by (simp add: check_lines_append)
  moreover obtain e where "fold (adopt_line E) (ls @ [?l]) adopt_start = (fold (adopt_line E) ls adopt_start)\<lparr>ad_max_anchor_epoch := e\<rparr>"
    using adopt_anchor_line [OF laws] by (metis fold_append fold_simps(1,2) o_apply)
  moreover have "shard_head E (w\<lparr>expected_prev_root := rt'\<rparr>) j = shard_head E w j" for j by (simp add: shard_head_def cong: option.case_cong)
  moreover have "adopt_shard E (a\<lparr>ad_max_anchor_epoch := e\<rparr>) j = adopt_shard E a j" for a j by (simp add: adopt_shard_def cong: option.case_cong)
  ultimately show ?thesis using t w(2,3,5) by (auto simp: tracks_def Let_def)
qed

section \<open>Quiet runs\<close>

definition next_record :: "nat \<Rightarrow> secs \<Rightarrow> audit_event \<Rightarrow> ImmutableAuditLog \<Rightarrow> AuditRecord" where
  "next_record slot ts ev L = make_record slot ts (anchor_epoch L) (word_of_nat (global_seq L)) ev (shards L ! slot)"

definition sync_append ::
  "audit_env \<Rightarrow> bytes \<Rightarrow> nat \<Rightarrow> secs \<Rightarrow> audit_event \<Rightarrow> io \<Rightarrow> io \<Rightarrow> ImmutableAuditLog \<times> wal_worker \<Rightarrow>
   (ImmutableAuditLog \<times> wal_worker) option" where
  "sync_append E secret slot ts ev o1 o2 s = worker_step E o1 o2 (append_event_inner E secret slot ts ev (fst s)) (snd s)"

text \<open>Appends that the writer handles one by one, without an I/O error and without a rotation.\<close>

inductive quiet_run :: "audit_env \<Rightarrow> bytes \<Rightarrow> ImmutableAuditLog \<times> wal_worker \<Rightarrow> ImmutableAuditLog \<times> wal_worker \<Rightarrow> bool"
  for E secret s0 where
  start: "quiet_run E secret s0 s0"
| append: "quiet_run E secret s0 s \<Longrightarrow> slot < AUDIT_SHARDS \<Longrightarrow> io_ok o1 \<Longrightarrow> io_ok o2 \<Longrightarrow>
    ww_size (wk_writer (snd s)) + length (record_line E secret (next_record slot ts ev (fst s))) + 1 \<le> AUDIT_MAX_LOG_SIZE \<Longrightarrow>
    sync_append E secret slot ts ev o1 o2 s = Some s' \<Longrightarrow> quiet_run E secret s0 s'"

definition quiet_ok :: "audit_env \<Rightarrow> bytes \<Rightarrow> ImmutableAuditLog \<times> wal_worker \<Rightarrow> bool" where
  "quiet_ok E secret s \<longleftrightarrow> (case s of (L, k) \<Rightarrow>
     length (shards L) = AUDIT_SHARDS \<and> shard_heads L = map last_hash (shards L) \<and> wal_queue L = [] \<and> wal_receiver L \<and>
     log_file L \<noteq> [] \<and> ww_open (wk_writer k) \<and> files_ok E (wk_files k) \<and>
     ww_pending_event_count (wk_writer k) \<le> global_seq L \<and> global_seq L \<le> record_count E (written (wk_files k)) \<and>
     tracks E secret (written (wk_files k)) (wk_prev_root k) (global_seq L) (shards L))"

lemma append_fields:
  fixes L :: ImmutableAuditLog and E secret slot ts ev
  assumes "wal_receiver L" "length (wal_queue L) < AUDIT_WAL_QUEUE_CAPACITY"
  defines "r \<equiv> next_record slot ts ev L"
  defines "L1 \<equiv> append_event_inner E secret slot ts ev L"
  shows "shards L1 = (shards L)[slot := shard_append r (chain_hash E secret (from_record r)) (shards L ! slot)]"
    and "shard_heads L1 = (shard_heads L)[slot := chain_hash E secret (from_record r)]"
    and "wal_queue L1 = wal_queue L @ [WalEntry (record_line E secret r) (Suc (global_seq L))]"
    and "global_seq L1 = Suc (global_seq L)" "wal_receiver L1" "log_file L1 = log_file L" "anchor_epoch L1 = anchor_epoch L"
  using assms(1,2) unfolding r_def L1_def append_event_inner_def lock_append_eq next_record_def phase_defs
  by (simp_all add: Let_def)

lemma record_line_is_record: "json_laws E \<Longrightarrow> is_record_line E (record_line E secret r)"
  by (simp add: is_record_line_def record_line_json ANCHOR_LINE_KEY_def)

lemma lines_nonempty:
  "record_line E secret r \<noteq> []"
  "json_laws E \<Longrightarrow> ae_to_string E (JObj [(ANCHOR_LINE_KEY, anchor_value a)]) \<noteq> []"
  by (auto simp: record_line_def entry_line_def json_laws_def dest: spec [of _ a])

lemma write_anchor_lines:
  assumes laws: "json_laws E" and io: "io_ok o2" and len: "length (shard_heads L) = AUDIT_SHARDS"
    and k: "ww_open (wk_writer k)" "ww_size (wk_writer k) \<le> AUDIT_MAX_LOG_SIZE" "files_ok E (wk_files k)"
      "n \<le> record_count E (written (wk_files k))"
  obtains k' x where "write_anchor E o2 n L k = Some (L\<lparr>anchor_epoch := anchor_epoch L + 1\<rparr>, k')" "ww_open (wk_writer k')"
    "files_ok E (wk_files k')" "ww_pending_event_count (wk_writer k') = n"
    "written (wk_files k') = written (wk_files k) @ [ae_to_string E (JObj [(ANCHOR_LINE_KEY, anchor_value x)])]"
    "an_heads x = shard_heads L" "an_prev_root x = wk_prev_root k" "an_root x = wk_prev_root k'"
    "heads_root E (shard_heads L) = Some (wk_prev_root k')"
proof -
  obtain rt where rt: "heads_root E (shard_heads L) = Some rt" using heads_root_total len by fastforce
  let ?a = "\<lparr>an_epoch = anchor_epoch L, an_heads = shard_heads L, an_root = rt, an_prev_root = wk_prev_root k,
    an_event_count = word_of_nat n, an_timestamp = io_wall o2\<rparr>"
  let ?l = "ae_to_string E (JObj [(ANCHOR_LINE_KEY, anchor_value ?a)])"
  have b: "build_anchor_line E (io_wall o2) (wk_prev_root k) n L = (Some (?l, rt), L\<lparr>anchor_epoch := anchor_epoch L + 1\<rparr>)"
    by (simp add: build_anchor_line_def rt)
  have "n \<le> record_count E (written (wk_files k) @ [?l])" using k(4) by (simp add: record_count_def)
  from write_entry_quiet [OF io k(1-3) lines_nonempty(2) [OF laws] this]
  obtain w' f' where w: "write_entry o2 ?l n (wk_writer k) (wk_files k) = Some (w', f', True)" "ww_open w'"
    "ww_pending_event_count w' = n" "written f' = written (wk_files k) @ [?l]" "files_ok E f'" by blast
  have "write_anchor E o2 n L k = Some (L\<lparr>anchor_epoch := anchor_epoch L + 1\<rparr>,
      k\<lparr>wk_events_since_anchor := 0, wk_last_anchor := io_now o2, wk_writer := w', wk_files := f', wk_prev_root := rt\<rparr>)"
    by (simp add: write_anchor_def b w(1))
  from that [OF this, of ?a] w rt show ?thesis by simp
qed

lemma sync_append_quiet:
  assumes laws: "json_laws E" and ok: "quiet_ok E secret (L, k)" and slot: "slot < AUDIT_SHARDS" and io: "io_ok o1" "io_ok o2"
    and room: "ww_size (wk_writer k) + length (record_line E secret (next_record slot ts ev L)) + 1 \<le> AUDIT_MAX_LOG_SIZE"
  shows "\<exists>s'. sync_append E secret slot ts ev o1 o2 (L, k) = Some s' \<and> quiet_ok E secret s'"
proof -
  define r where "r = next_record slot ts ev L"
  let ?l = "record_line E secret r" and ?n = "Suc (global_seq L)" and ?h = "chain_hash E secret (from_record r)"
  define L1 where "L1 = append_event_inner E secret slot ts ev L"
  define L2 where "L2 = L1\<lparr>wal_queue := [], queue_len := queue_len L1 - 1\<rparr>"
  have q: "wal_queue L = []" "wal_receiver L" "length (shards L) = AUDIT_SHARDS" "shard_heads L = map last_hash (shards L)"
    "log_file L \<noteq> []" "ww_open (wk_writer k)" "files_ok E (wk_files k)" "global_seq L \<le> record_count E (written (wk_files k))"
    "tracks E secret (written (wk_files k)) (wk_prev_root k) (global_seq L) (shards L)"
    using ok by (simp_all add: quiet_ok_def)
  note a = append_fields [of L E secret slot ts ev, folded L1_def r_def]
  have L1: "wal_queue L1 = [WalEntry ?l ?n]" "shards L1 = (shards L)[slot := shard_append r ?h (shards L ! slot)]"
    "shard_heads L1 = map last_hash (shards L1)" "global_seq L1 = ?n" "wal_receiver L1" "log_file L1 = log_file L"
    using a q(1-4) slot by (simp_all add: AUDIT_WAL_QUEUE_CAPACITY_def map_update shard_append_def)
  have t: "tracks E secret (written (wk_files k) @ [?l]) (wk_prev_root k) ?n (shards L1)"
    using tracks_record [OF laws q(9) slot q(3), of r] by (simp add: r_def next_record_def L1(2))
  have n: "?n \<le> record_count E (written (wk_files k) @ [?l])"
    using q(8) record_line_is_record [OF laws] by (simp add: record_count_def)
  have "ww_size (wk_writer k) \<le> AUDIT_MAX_LOG_SIZE" using room by simp
  from write_entry_quiet [OF io(1) q(6) this q(7) lines_nonempty(1) n]
  obtain w f where w: "write_entry o1 ?l ?n (wk_writer k) (wk_files k) = Some (w, f, True)" "ww_open w"
    "ww_size w = ww_size (wk_writer k) + length ?l + 1" "ww_pending_event_count w = ?n"
    "written f = written (wk_files k) @ [?l]" "files_ok E f" by blast
  let ?k = "k\<lparr>wk_writer := w, wk_files := f, wk_events_since_anchor := Suc (wk_events_since_anchor k)\<rparr>"
  have L2: "shards L2 = shards L1" "shard_heads L2 = shard_heads L1" "global_seq L2 = ?n" "wal_queue L2 = []" "wal_receiver L2"
    "log_file L2 = log_file L" using L1 by (simp_all add: L2_def)
  have len: "length (shards L1) = AUDIT_SHARDS" using L1(2) q(3) by simp
  have step: "sync_append E secret slot ts ev o1 o2 (L, k) =
      (if wk_events_since_anchor ?k \<ge> AUDIT_ANCHOR_EVERY_N_EVENTS \<or> io_now o2 - wk_last_anchor ?k \<ge> AUDIT_ANCHOR_INTERVAL
       then write_anchor E o2 ?n L2 ?k else Some (L2, ?k))"
    using L1(1,6) q(5) w(1) by (simp add: sync_append_def worker_step_def L1_def [symmetric] handle_entry_def L2_def)
  show ?thesis
  proof (cases "wk_events_since_anchor ?k \<ge> AUDIT_ANCHOR_EVERY_N_EVENTS \<or> io_now o2 - wk_last_anchor ?k \<ge> AUDIT_ANCHOR_INTERVAL")
    case False
    then show ?thesis
      using step w q(5) t n len L1(3) L2 by (simp add: quiet_ok_def)
  next
    case True
    obtain k' x where k': "write_anchor E o2 ?n L2 ?k = Some (L2\<lparr>anchor_epoch := anchor_epoch L2 + 1\<rparr>, k')" "ww_open (wk_writer k')"
      "files_ok E (wk_files k')" "ww_pending_event_count (wk_writer k') = ?n"
      "written (wk_files k') = written f @ [ae_to_string E (JObj [(ANCHOR_LINE_KEY, anchor_value x)])]"
      "an_heads x = shard_heads L2" "an_prev_root x = wk_prev_root k" "an_root x = wk_prev_root k'"
      "heads_root E (shard_heads L2) = Some (wk_prev_root k')"
      using write_anchor_lines [OF laws io(2), of L2 ?k ?n] w n len L1(3) L2 room by (auto simp: r_def)
    then have "tracks E secret (written (wk_files k')) (wk_prev_root k') ?n (shards L1)"
      using tracks_anchor [OF laws t len, of "wk_prev_root k'" x] w(5) L1(3) L2(2) by simp
    moreover have "?n \<le> record_count E (written (wk_files k'))" using n w(5) k'(5) record_count_mono [of E "written f"] by (metis order_trans)
    ultimately show ?thesis using True step q(5) len L1(3) L2 k' by (simp add: quiet_ok_def)
  qed
qed

lemma quiet_run_ok:
  assumes "quiet_run E secret s0 s" "json_laws E" "quiet_ok E secret s0"
  shows "quiet_ok E secret s"
  using assms(1)
proof induction
  case (append s slot o1 o2 ts ev s')
  with sync_append_quiet [OF assms(2), of secret "fst s" "snd s" slot o1 o2 ts ev] show ?case by auto
qed (rule assms(3))

text \<open>A log on a file that does not exist yet.\<close>

definition fresh_log :: "audit_env \<Rightarrow> string \<Rightarrow> string \<Rightarrow> secs \<Rightarrow> ImmutableAuditLog \<times> wal_worker" where
  "fresh_log E lf cf now =
     (with_paths E lf cf,
      \<lparr>wk_writer = \<lparr>ww_open = True, ww_size = 0, ww_entries_since_flush = 0, ww_last_flush = now, ww_pending_event_count = 0\<rparr>,
       wk_files = \<lparr>wf_log = Some [], wf_buffer = [], wf_sentinel = None, wf_rotated = []\<rparr>,
       wk_events_since_anchor = 0, wk_last_anchor = now, wk_prev_root = ANCHOR_GENESIS_ROOT\<rparr>)"

lemma fresh_log_starts:
  "io_reopen o1 \<Longrightarrow> start_worker o1 \<lparr>wf_log = None, wf_buffer = [], wf_sentinel = None, wf_rotated = []\<rparr> (with_paths E lf cf) =
     (fst (fresh_log E lf cf (io_now o1)), Some (snd (fresh_log E lf cf (io_now o1))))"
  by (simp add: start_worker_def open_writer_def file_lines_def fresh_log_def)

lemma fresh_log_quiet: "lf \<noteq> [] \<Longrightarrow> quiet_ok E secret (fresh_log E lf cf now)"
  using tracks_start [of E secret]
  by (simp add: quiet_ok_def fresh_log_def with_paths_def files_ok_def written_def file_lines_def sentinel_le_def
      sentinel_count_def genesis_shard_def comp_def)

lemma verify_tracked_prefix:
  assumes "files_ok E f" "tracks E secret (written f) rt n shs"
  shows "verify_chain_disk E secret (wf_log f) (wf_sentinel f) L"
proof -
  obtain ls where ls: "wf_log f = Some ls" "file_lines f = ls" using assms(1) by (auto simp: files_ok_def file_lines_def)
  have "check_lines E secret ls walk_start \<noteq> None"
    using assms(2) ls(2) by (auto simp: tracks_def written_def check_lines_append split: option.splits)
  moreover have "filter (\<lambda>l. l \<noteq> []) ls = ls"
    using assms(1) ls(2) by (intro filter_True) (simp add: files_ok_def written_def)
  moreover have "\<not> (case sentinel_count (wf_sentinel f) of Some n \<Rightarrow> record_count E ls < n | None \<Rightarrow> False)"
    using assms(1) ls(2) by (auto simp: files_ok_def sentinel_le_def split: option.splits)
  ultimately show ?thesis by (simp add: verify_chain_disk_def ls(1) Let_def record_count_def split: option.splits)
qed

lemma adopt_tracked:
  fixes L0 :: ImmutableAuditLog
  assumes "tracks E secret ls rt n shs" "length shs = AUDIT_SHARDS"
  defines "L \<equiv> adopt_log E (fold (adopt_line E) ls adopt_start) L0"
  shows "global_seq L = n" "map last_hash (shards L) = map last_hash shs" "map shard_seq (shards L) = map shard_seq shs"
    "shard_heads L = map last_hash shs"
  using assms by (auto simp: tracks_def adopt_log_def Let_def intro!: nth_equalityI)

lemma flush_tracked:
  assumes "quiet_ok E secret (L, k)" "io_ok o1" "handle_flush o1 L k = (L1, k1)"
  shows "wf_log (wk_files k1) = Some (written (wk_files k))" "files_ok E (wk_files k1)" "written (wk_files k1) = written (wk_files k)"
proof -
  let ?g = "(flush_buffer (wk_files k))\<lparr>wf_sentinel := Some (u64_string (ww_pending_event_count (wk_writer k)))\<rparr>"
  have k1: "wk_files k1 = ?g"
    using assms by (auto simp: handle_flush_def flush_and_sync_def quiet_ok_def io_ok_def Let_def)
  have g: "file_lines ?g = written (wk_files k)" "wf_buffer ?g = []" "wf_log ?g = Some (written (wk_files k))"
    by (simp_all add: file_lines_def flush_buffer_def written_def)
  moreover have "ww_pending_event_count (wk_writer k) \<le> record_count E (written (wk_files k))"
    using assms(1) by (auto simp: quiet_ok_def)
  ultimately have "files_ok E ?g"
    using assms(1) sentinel_le_string [of "ww_pending_event_count (wk_writer k)"]
    by (auto simp: files_ok_def written_def quiet_ok_def sentinel_le_def split: option.splits)
  with k1 g show "wf_log (wk_files k1) = Some (written (wk_files k))" "files_ok E (wk_files k1)"
    "written (wk_files k1) = written (wk_files k)" by (simp_all add: written_def)
qed

section \<open>Files that are refused\<close>

lemma check_lines_refused: "check_lines E secret ls w = None \<Longrightarrow> check_lines E secret (ls @ rest) w = None"
  by (simp add: check_lines_append)

lemma verify_refused:
  assumes "check_lines E secret ls walk_start = None" "\<forall>l \<in> set ls. l \<noteq> []"
  shows "\<not> verify_chain_disk E secret (Some (ls @ rest)) sentinel L"
proof -
  have "filter (\<lambda>l. l \<noteq> []) (ls @ rest) = ls @ filter (\<lambda>l. l \<noteq> []) rest" using assms(2) by simp
  moreover have "ls \<noteq> []" using assms(1) by auto
  ultimately show ?thesis
    using check_lines_refused [OF assms(1)] by (simp add: verify_chain_disk_def Let_def split: option.splits)
qed

lemma anchor_refused:
  assumes "json_laws E" "check_lines E secret ls walk_start = Some w"
    and "an_prev_root x \<noteq> expected_prev_root w \<or>
      (\<exists>i < AUDIT_SHARDS. length (an_heads x) = AUDIT_SHARDS \<and> shard_head E w i \<noteq> an_heads x ! i)"
  shows "check_lines E secret (ls @ [ae_to_string E (JObj [(ANCHOR_LINE_KEY, anchor_value x)])]) walk_start = None"
proof -
  have "check_anchor E (anchor_value x) w = None"
    using assms(1,3) by (auto simp: check_anchor_def json_laws_def list_ex_length nth_enumerate_eq)
  with assms(1,2) show ?thesis by (simp add: check_lines_append check_line_def parse_anchor_line)
qed

text \<open>Dropping the anchors and all records of one shard.\<close>

definition in_shard :: "audit_env \<Rightarrow> nat \<Rightarrow> string \<Rightarrow> bool" where
  "in_shard E i l \<longleftrightarrow> (case parse_line E l of Some (RecordLine c h) \<Rightarrow> map_option unat (ca_shard_id c) = Some i | _ \<Rightarrow> False)"

definition is_anchor :: "audit_env \<Rightarrow> string \<Rightarrow> bool" where
  "is_anchor E l \<longleftrightarrow> (case parse_line E l of Some (AnchorLine v) \<Rightarrow> True | _ \<Rightarrow> False)"

lemma check_lines_without_shard:
  assumes "check_lines E secret ls w = Some w'"
    and "length (expected_v2 w) = AUDIT_SHARDS" "expected_v2 u = (expected_v2 w)[i := None]"
    and "expected_v1_hash u = expected_v1_hash w" "final_v1_hash u = final_v1_hash w"
  shows "check_lines E secret (filter (\<lambda>l. \<not> in_shard E i l \<and> \<not> is_anchor E l) ls) u \<noteq> None"
  using assms
proof (induction ls arbitrary: w u)
  case (Cons l ls)
  from Cons.prems(1) obtain w1 where w1: "check_line E secret l w = Some w1" "check_lines E secret ls w1 = Some w'"
    by (auto split: option.splits)
  from w1(1) show ?case
  proof (cases rule: check_line_cases)
    case (anchor v x)
    with Cons.IH [OF w1(2), of u] Cons.prems show ?thesis by (simp add: is_anchor_def)
  next
    case (sharded c h sid)
    show ?thesis
    proof (cases "unat sid = i")
      case True
      with sharded Cons.IH [OF w1(2), of u] Cons.prems show ?thesis by (simp add: in_shard_def)
    next
      case False
      then have "check_line E secret l u = Some (u\<lparr>expected_v2 := (expected_v2 u)[unat sid := Some h]\<rparr>)"
        using sharded Cons.prems by (simp add: check_line_def check_v2_def shard_head_def mac_ok_def chain_hash_compare cong: option.case_cong)
      moreover have "((expected_v2 w)[i := None])[unat sid := Some h] = ((expected_v2 w)[unat sid := Some h])[i := None]"
        using False by (simp add: list_update_swap)
      ultimately show ?thesis
        using False sharded Cons.IH [OF w1(2), of "u\<lparr>expected_v2 := (expected_v2 u)[unat sid := Some h]\<rparr>"] Cons.prems
        by (simp add: in_shard_def is_anchor_def)
    qed
  next
    case (unsharded c h)
    have "\<not> list_ex (\<lambda>e. e \<noteq> None) (expected_v2 u)"
      using unsharded(3) Cons.prems(3) by (cases "i < length (expected_v2 w)") (auto simp: list_ex_length nth_list_update list_update_beyond)
    with unsharded Cons.prems have "check_line E secret l u = Some (u\<lparr>expected_v1_hash := h, final_v1_hash := Some h\<rparr>)"
      by (simp add: check_line_def check_v1_def mac_ok_def chain_hash_compare)
    with unsharded Cons.IH [OF w1(2), of "u\<lparr>expected_v1_hash := h, final_v1_hash := Some h\<rparr>"] Cons.prems show ?thesis
      by (simp add: in_shard_def is_anchor_def)
  qed
qed simp

lemma replicate_update: "(replicate n x)[i := x] = replicate n x"
  by (induction n arbitrary: i) (auto split: nat.splits)

lemma verify_without_shard:
  assumes "verify_chain_disk E secret (Some ls) sentinel L"
  shows "verify_chain_disk E secret (Some (filter (\<lambda>l. \<not> in_shard E i l \<and> \<not> is_anchor E l) ls)) None L'"
proof -
  let ?P = "\<lambda>l. \<not> in_shard E i l \<and> \<not> is_anchor E l" and ?ls = "filter (\<lambda>l. l \<noteq> []) ls"
  have eq: "filter (\<lambda>l. l \<noteq> []) (filter ?P ls) = filter ?P ?ls" by (simp add: conj_commute)
  have "check_lines E secret (filter ?P ?ls) walk_start \<noteq> None" if "?ls \<noteq> []"
  proof -
    obtain w' where "check_lines E secret ?ls walk_start = Some w'"
      using assms that by (auto simp: verify_chain_disk_def Let_def split: if_splits option.splits)
    then show ?thesis
      by (rule check_lines_without_shard) (simp_all add: walk_start_def replicate_update)
  qed
  moreover have "verify_chain_disk E secret (Some (filter ?P ls)) None L' \<longleftrightarrow>
      filter ?P ?ls = [] \<or> check_lines E secret (filter ?P ?ls) walk_start \<noteq> None"
    unfolding eq [symmetric] by (simp add: verify_chain_disk_def Let_def sentinel_count_def del: filter_filter)
  ultimately show ?thesis by (cases "?ls = []") (simp_all del: filter_filter)
qed

lemma anchor_race:
  assumes laws: "json_laws E" and ok: "quiet_ok E secret (L, k)" and slot: "slot < AUDIT_SHARDS" and io: "io_ok o1" "io_ok o2"
    and room: "ww_size (wk_writer k) + length (record_line E secret (next_record slot ts ev L)) + 1 \<le> AUDIT_MAX_LOG_SIZE"
    and due: "io_now o2 - wk_last_anchor k \<ge> AUDIT_ANCHOR_INTERVAL"
    and L1: "L1 = append_event_inner E secret slot ts ev L" and L2: "L2 = append_event_inner E secret slot ts' ev' L1"
    and diff: "last_hash (shards L2 ! slot) \<noteq> last_hash (shards L1 ! slot)"
  shows "\<exists>L3 k3. worker_step E o1 o2 L2 k = Some (L3, k3) \<and> check_lines E secret (written (wk_files k3)) walk_start = None \<and>
    files_ok E (wk_files k3)"
proof -
  define r where "r = next_record slot ts ev L"
  let ?l = "record_line E secret r" and ?n = "Suc (global_seq L)" and ?h = "chain_hash E secret (from_record r)"
  have q: "wal_queue L = []" "wal_receiver L" "length (shards L) = AUDIT_SHARDS" "length (shard_heads L) = AUDIT_SHARDS"
    "log_file L \<noteq> []" "ww_open (wk_writer k)" "files_ok E (wk_files k)" "global_seq L \<le> record_count E (written (wk_files k))"
    "tracks E secret (written (wk_files k)) (wk_prev_root k) (global_seq L) (shards L)"
    using ok by (simp_all add: quiet_ok_def)
  note a = append_fields [of L E secret slot ts ev, folded L1 r_def] append_fields [of L1 E secret slot ts' ev', folded L2]
  have cap: "0 < AUDIT_WAL_QUEUE_CAPACITY" "1 < AUDIT_WAL_QUEUE_CAPACITY" by (simp_all add: AUDIT_WAL_QUEUE_CAPACITY_def)
  have f1: "wal_queue L1 = [WalEntry ?l ?n]" "shards L1 = (shards L)[slot := shard_append r ?h (shards L ! slot)]" "wal_receiver L1"
    "log_file L1 = log_file L" "shard_heads L1 = (shard_heads L)[slot := ?h]"
    using a(1-7) q(1,2) cap by simp_all
  obtain l2 n2 where f2: "wal_queue L2 = [WalEntry ?l ?n, WalEntry l2 n2]" "log_file L2 = log_file L"
    "shard_heads L2 ! slot = last_hash (shards L2 ! slot)" "length (shard_heads L2) = AUDIT_SHARDS"
    using a(8-14) f1 q(3,4) slot cap by (simp add: shard_append_def)
  have t: "tracks E secret (written (wk_files k) @ [?l]) (wk_prev_root k) ?n (shards L1)"
    using tracks_record [OF laws q(9) slot q(3), of r] by (simp add: r_def next_record_def f1(2))
  have n: "?n \<le> record_count E (written (wk_files k) @ [?l])"
    using q(8) record_line_is_record [OF laws] by (simp add: record_count_def)
  have "ww_size (wk_writer k) \<le> AUDIT_MAX_LOG_SIZE" using room by simp
  from write_entry_quiet [OF io(1) q(6) this q(7) lines_nonempty(1) n]
  obtain w f where w: "write_entry o1 ?l ?n (wk_writer k) (wk_files k) = Some (w, f, True)" "ww_open w"
    "ww_size w = ww_size (wk_writer k) + length ?l + 1" "written f = written (wk_files k) @ [?l]" "files_ok E f" by blast
  let ?k = "k\<lparr>wk_writer := w, wk_files := f, wk_events_since_anchor := Suc (wk_events_since_anchor k)\<rparr>"
  let ?L = "L2\<lparr>wal_queue := [WalEntry l2 n2], queue_len := queue_len L2 - 1\<rparr>"
  have pre: "length (shard_heads ?L) = AUDIT_SHARDS" "ww_open (wk_writer ?k)" "ww_size (wk_writer ?k) \<le> AUDIT_MAX_LOG_SIZE"
    "files_ok E (wk_files ?k)" "?n \<le> record_count E (written (wk_files ?k))"
    using w n f2(4) room by (simp_all add: r_def)
  obtain k3 x where "write_anchor E o2 ?n ?L ?k = Some (?L\<lparr>anchor_epoch := anchor_epoch ?L + 1\<rparr>, k3)" "files_ok E (wk_files k3)"
    "written (wk_files k3) = written (wk_files ?k) @ [ae_to_string E (JObj [(ANCHOR_LINE_KEY, anchor_value x)])]"
    "an_heads x = shard_heads ?L" by (rule write_anchor_lines [OF laws io(2) pre]) (rule that; assumption)
  then have k3: "write_anchor E o2 ?n ?L ?k = Some (?L\<lparr>anchor_epoch := anchor_epoch ?L + 1\<rparr>, k3)" "files_ok E (wk_files k3)"
    "written (wk_files k3) = written f @ [ae_to_string E (JObj [(ANCHOR_LINE_KEY, anchor_value x)])]" "an_heads x = shard_heads L2"
    by simp_all
  have "worker_step E o1 o2 L2 k = Some (?L\<lparr>anchor_epoch := anchor_epoch ?L + 1\<rparr>, k3)"
    using f2(1,2) q(5) w(1) due k3(1) by (simp add: worker_step_def handle_entry_def)
  moreover from t obtain wk where wk: "check_lines E secret (written f) walk_start = Some wk"
    "\<And>i. i < AUDIT_SHARDS \<Longrightarrow> shard_head E wk i = last_hash (shards L1 ! i)" using w(4) by (auto simp: tracks_def)
  moreover have "check_lines E secret (written (wk_files k3)) walk_start = None"
    unfolding k3(3) using wk(2) slot diff f2(3,4) k3(4) by (intro anchor_refused [OF laws wk(1)]) auto
  ultimately show ?thesis using k3(2) by blast
qed

text \<open>After a rotation.\<close>

lemma write_entry_written:
  assumes "io_ok o1" "maybe_rotate o1 w f = (w1, f1, True)" "ww_open w1"
  shows "\<exists>w' f'. write_entry o1 l n w f = Some (w', f', True) \<and> written f' = written f1 @ [l] \<and> ww_open w' \<and>
    ww_size w' = ww_size w1 + length l + 1"
proof -
  let ?f = "f1\<lparr>wf_buffer := wf_buffer f1 @ [l]\<rparr>"
  let ?w = "w1\<lparr>ww_size := ww_size w1 + length l + 1, ww_entries_since_flush := Suc (ww_entries_since_flush w1), ww_pending_event_count := n\<rparr>"
  have "write_entry o1 l n w f =
      Some (if AUDIT_WAL_FLUSH_EVERY_N_ENTRIES \<le> ww_entries_since_flush ?w \<or> AUDIT_WAL_FLUSH_INTERVAL \<le> io_now o1 - ww_last_flush ?w
            then (?w\<lparr>ww_entries_since_flush := 0, ww_last_flush := io_now o1\<rparr>,
                  (flush_buffer ?f)\<lparr>wf_sentinel := Some (u64_string n)\<rparr>, True) else (?w, ?f, True))"
    using assms by (simp add: write_entry_def io_ok_def Let_def flush_and_sync_def)
  moreover have "written ((flush_buffer ?f)\<lparr>wf_sentinel := x\<rparr>) = written f1 @ [l]" "written ?f = written f1 @ [l]" for x
    by (simp_all add: written_def flush_buffer_def file_lines_def)
  ultimately show ?thesis using assms(3) by simp
qed

lemma write_entry_rotated:
  assumes "io_ok o1" "ww_open w" "AUDIT_MAX_LOG_SIZE < ww_size w"
  shows "\<exists>w' f'. write_entry o1 l n w f = Some (w', f', True) \<and> written f' = [l] \<and> ww_open w' \<and> ww_size w' = length l + 1"
proof -
  define f1 where "f1 = flush_buffer f"
  define f2 where "f2 = f1\<lparr>wf_rotated := AList.update (nat \<lfloor>io_wall o1\<rfloor>) (file_lines f1) (wf_rotated f1), wf_log := Some []\<rparr>"
  have "maybe_rotate o1 w f = (w\<lparr>ww_open := True, ww_size := 0\<rparr>, f2, True)" "written f2 = []"
    using assms by (simp_all add: maybe_rotate_def io_ok_def Let_def f1_def f2_def flush_buffer_def file_lines_def written_def)
  with write_entry_written [OF assms(1) this(1)] show ?thesis by simp
qed

lemma rotated_refused:
  assumes laws: "json_laws E" and io: "io_ok o1" "io_ok o2" and slot: "slot < AUDIT_SHARDS"
    and L: "wal_queue L = []" "wal_receiver L" "log_file L \<noteq> []"
    and k: "ww_open (wk_writer k)" "AUDIT_MAX_LOG_SIZE < ww_size (wk_writer k)"
    and room: "length (record_line E secret (next_record slot ts ev L)) < AUDIT_MAX_LOG_SIZE"
    and old: "last_hash (shards L ! slot) \<noteq> shard_genesis_hash E slot"
  shows "\<exists>L1 k1 ls. sync_append E secret slot ts ev o1 o2 (L, k) = Some (L1, k1) \<and>
    written (wk_files k1) = record_line E secret (next_record slot ts ev L) # ls \<and>
    check_lines E secret (written (wk_files k1)) walk_start = None \<and> (\<forall>l \<in> set ls. l \<noteq> [])"
proof -
  define r where "r = next_record slot ts ev L"
  let ?l = "record_line E secret r" and ?n = "Suc (global_seq L)"
  define L1 where "L1 = append_event_inner E secret slot ts ev L"
  note a = append_fields [of L E secret slot ts ev, folded L1_def r_def]
  have q: "wal_queue L1 = [WalEntry ?l ?n]" "log_file L1 \<noteq> []" using a L by (simp_all add: AUDIT_WAL_QUEUE_CAPACITY_def)
  have r: "sharded r slot" "ar_prev_hash r = last_hash (shards L ! slot)"
    using slot by (simp_all add: r_def next_record_def sharded_def)
  obtain w f where w: "write_entry o1 ?l ?n (wk_writer k) (wk_files k) = Some (w, f, True)" "written f = [?l]" "ww_open w"
    "ww_size w = length ?l + 1" using write_entry_rotated [OF io(1) k] by blast
  let ?k = "k\<lparr>wk_writer := w, wk_files := f, wk_events_since_anchor := Suc (wk_events_since_anchor k)\<rparr>"
  let ?L = "L1\<lparr>wal_queue := [], queue_len := queue_len L1 - 1\<rparr>"
  have step: "sync_append E secret slot ts ev o1 o2 (L, k) =
      (if wk_events_since_anchor ?k \<ge> AUDIT_ANCHOR_EVERY_N_EVENTS \<or> io_now o2 - wk_last_anchor ?k \<ge> AUDIT_ANCHOR_INTERVAL
       then write_anchor E o2 ?n ?L ?k else Some (?L, ?k))"
    using q w(1) by (simp add: sync_append_def worker_step_def L1_def [symmetric] handle_entry_def)
  have "\<exists>L2 k2 ls. write_anchor E o2 ?n ?L ?k = Some (L2, k2) \<and> written (wk_files k2) = ?l # ls \<and> (\<forall>l \<in> set ls. l \<noteq> [])"
  proof (cases "heads_root E (shard_heads L1)")
    case None
    then show ?thesis using w(2) by (simp add: write_anchor_def build_anchor_line_def)
  next
    case (Some rt)
    let ?a = "\<lparr>an_epoch = anchor_epoch L1, an_heads = shard_heads L1, an_root = rt, an_prev_root = wk_prev_root k,
      an_event_count = word_of_nat ?n, an_timestamp = io_wall o2\<rparr>"
    have "ww_size w \<le> AUDIT_MAX_LOG_SIZE" using room w(4) by (simp add: r_def)
    then obtain w' f' where "write_entry o2 (ae_to_string E (JObj [(ANCHOR_LINE_KEY, anchor_value ?a)])) ?n w f = Some (w', f', True)"
      "written f' = written f @ [ae_to_string E (JObj [(ANCHOR_LINE_KEY, anchor_value ?a)])]"
      using write_entry_written [OF io(2) _ w(3), of w f f] by (fastforce simp: maybe_rotate_def)
    with Some w(2) show ?thesis by (simp add: write_anchor_def build_anchor_line_def lines_nonempty(2) [OF laws])
  qed
  then have "\<exists>L2 k2 ls. sync_append E secret slot ts ev o1 o2 (L, k) = Some (L2, k2) \<and> written (wk_files k2) = ?l # ls \<and>
      (\<forall>l \<in> set ls. l \<noteq> [])"
    using step w(2) by simp
  moreover have "check_lines E secret (?l # ls) walk_start = None" for ls
    using old r slot by (simp add: check_line_def parse_record_line [OF laws r(1)] from_record_sharded check_v2_def unat_shard
        shard_head_def walk_start_def migration_seed_hash_def)
  ultimately show ?thesis unfolding r_def by metis
qed

section \<open>A concrete environment\<close>

text \<open>Text that encodes numbers of values, with one value \<open>v\<close> encoded briefly, and digests that keep
  their input.\<close>

instance jnum :: countable by countable_datatype
instance json :: countable by countable_datatype

definition demo_code :: "json \<Rightarrow> json \<Rightarrow> nat" where
  "demo_code v x = (if x = v then 1 else Suc (Suc (to_nat x)))"

definition demo_decode :: "json \<Rightarrow> nat \<Rightarrow> json" where
  "demo_decode v n = (if n = 1 then v else from_nat (n - 2))"

definition demo_from_str :: "json \<Rightarrow> string \<Rightarrow> json option" where
  "demo_from_str v s =
     (if s = [] then None
      else if hd s = CHR ''x'' then Some (demo_decode v (length s))
      else let body = drop 10 s; n = length (takeWhile (\<lambda>c. c = CHR ''x'') body)
           in Some (JObj [(''chain_hash'', JStr (butlast (butlast (drop (n + 15) body)))), (''record'', demo_decode v n)]))"

definition demo_anchor :: "json \<Rightarrow> MerkleAnchor option" where
  "demo_anchor v = (case v of
     JObj [(a, JNum (PosInt e)), (b, JNum (PosInt n)), (c, JArr hs), (d, JStr p), (f, JStr r), (g, JNum (Float t))] \<Rightarrow>
       Some \<lparr>an_epoch = e, an_heads = map (\<lambda>h. the (as_str h)) hs, an_root = r, an_prev_root = p, an_event_count = n, an_timestamp = t\<rparr>
   | _ \<Rightarrow> None)"

definition demo_audit :: "json \<Rightarrow> audit_env" where
  "demo_audit v = \<lparr>ae_sha256 = (\<lambda>b. b), ae_hmac = (\<lambda>k m. m), ae_to_string = (\<lambda>x. replicate (demo_code v x) CHR ''x''),
     ae_from_str = demo_from_str v, ae_anchor_from_value = demo_anchor, ae_hkdf = (\<lambda>s k i. k),
     ae_seal = (\<lambda>k n p. p), ae_open = (\<lambda>k n c. Some c), ae_utf8 = (\<lambda>b. True)\<rparr>"

lemma demo_decode_code [simp]: "demo_decode v (demo_code v x) = x"
  by (simp add: demo_decode_def demo_code_def)

lemma demo_code_pos: "0 < demo_code v x"
  by (simp add: demo_code_def)

lemma demo_entry:
  "demo_from_str v (entry_line (replicate (demo_code v x) CHR ''x'') h) = Some (JObj [(''chain_hash'', JStr h), (''record'', x)])"
proof -
  let ?n = "demo_code v x" and ?r = "replicate (demo_code v x) CHR ''x''"
  have \<open>drop 10 (entry_line ?r h) = ?r @ '',"chain_hash":"'' @ h @ ''"}''\<close> by (simp add: entry_line_def)
  moreover have \<open>takeWhile (\<lambda>c. c = CHR ''x'') (?r @ '',"chain_hash":"'' @ h @ ''"}'') = ?r\<close>
    by (subst takeWhile_append2) auto
  moreover have "hd (entry_line ?r h) = CHR ''{''" "entry_line ?r h \<noteq> []" by (simp_all add: entry_line_def)
  ultimately show ?thesis by (simp add: demo_from_str_def Let_def butlast_append)
qed

lemma demo_laws: "json_laws (demo_audit v)"
proof -
  have "demo_from_str v (replicate (demo_code v x) CHR ''x'') = Some x" for x
    using demo_code_pos [of v x] by (simp add: demo_from_str_def hd_replicate)
  then show ?thesis
    by (simp add: json_laws_def demo_audit_def demo_entry demo_anchor_def anchor_value_def comp_def) (simp add: demo_from_str_def)
qed

definition demo_event :: audit_event where
  "demo_event = \<lparr>ev_source = ''a'', ev_target = ''b'', ev_token_signature = ''t'', ev_intent = ''i'', ev_traceparent = ''p''\<rparr>"

definition demo_genesis :: ShardInner where
  "demo_genesis = \<lparr>last_hash = hex_encode (AUDIT_SHARD_GENESIS_TAG @ to_be_bytes 2 (0 :: u16)), shard_seq = 0, entries = []\<rparr>"

definition demo_record :: AuditRecord where
  "demo_record = make_record 0 0 0 0 demo_event demo_genesis"

definition demo_env :: audit_env where
  "demo_env = demo_audit (canonical_value (from_record demo_record))"

definition demo_io :: "secs \<Rightarrow> io" where
  "demo_io t = \<lparr>io_now = t, io_wall = t, io_rotate_sync = True, io_rename = True, io_reopen = True, io_write = True,
     io_sync = True, io_sentinel = True\<rparr>"

abbreviation demo_log :: "ImmutableAuditLog \<times> wal_worker" where
  "demo_log \<equiv> fresh_log demo_env ''f'' ''c'' 0"

lemma demo_genesis_shard: "genesis_shard demo_env 0 = demo_genesis"
  by (simp add: genesis_shard_def demo_genesis_def shard_genesis_hash_def demo_env_def demo_audit_def)

lemma demo_next_record: "next_record 0 0 demo_event (with_paths demo_env lf cf) = demo_record"
  by (simp add: next_record_def with_paths_def AUDIT_SHARDS_def demo_genesis_shard demo_record_def del: upt_Suc)

lemma demo_line_short: "length (record_line (demo_audit (canonical_value (from_record r))) secret r) = 30"
  by (simp add: record_line_def entry_line_def chain_hash_def demo_audit_def demo_code_def hex_encode_def str_bytes_def)

lemma demo_room: "ww_size (wk_writer (snd demo_log)) + length (record_line demo_env [] (next_record 0 0 demo_event (fst demo_log))) + 1
    \<le> AUDIT_MAX_LOG_SIZE"
  using demo_line_short [of demo_record "[]"] by (simp add: fresh_log_def demo_next_record AUDIT_MAX_LOG_SIZE_def demo_env_def [symmetric])

lemma demo_hash_inject: "chain_hash demo_env secret c = chain_hash demo_env secret d \<longleftrightarrow> c = d"
proof
  assume "chain_hash demo_env secret c = chain_hash demo_env secret d"
  then have "demo_code (canonical_value (from_record demo_record)) (canonical_value c) =
      demo_code (canonical_value (from_record demo_record)) (canonical_value d)"
    by (simp add: chain_hash_def demo_env_def demo_audit_def)
  then show "c = d" by (metis demo_decode_code canonical_value_inject)
qed simp

lemma demo_io_ok: "io_ok (demo_io t)"
  by (simp add: io_ok_def demo_io_def)

lemma quiet_demo:
  obtains L k where "quiet_run demo_env [] demo_log (L, k)"
    "sync_append demo_env [] 0 0 demo_event (demo_io 0) (demo_io 0) demo_log = Some (L, k)"
proof -
  have "quiet_ok demo_env [] demo_log" by (rule fresh_log_quiet) simp
  with sync_append_quiet [of demo_env "[]" "fst demo_log" "snd demo_log" 0 "demo_io 0" "demo_io 0" 0 demo_event]
    demo_laws demo_io_ok demo_room
  obtain s where s: "sync_append demo_env [] 0 0 demo_event (demo_io 0) (demo_io 0) demo_log = Some s"
    by (auto simp: demo_env_def AUDIT_SHARDS_def)
  have "quiet_run demo_env [] demo_log s"
    by (rule quiet_run.append [OF quiet_run.start _ demo_io_ok demo_io_ok demo_room s]) (simp add: AUDIT_SHARDS_def)
  with s that show ?thesis by (cases s) simp
qed

definition demo_shard :: ShardInner where
  "demo_shard = \<lparr>last_hash = ''00'', shard_seq = 1, entries = []\<rparr>"

definition full_record :: AuditRecord where
  "full_record = make_record 0 0 0 0 demo_event demo_shard"

definition full_env :: audit_env where
  "full_env = demo_audit (canonical_value (from_record full_record))"

definition full_log :: "ImmutableAuditLog \<times> wal_worker" where
  "full_log = (case fresh_log full_env ''f'' ''c'' 0 of (L, k) \<Rightarrow>
     (L\<lparr>shards := replicate AUDIT_SHARDS demo_shard\<rparr>, k\<lparr>wk_writer := (wk_writer k)\<lparr>ww_size := 50000001\<rparr>\<rparr>))"

section \<open>Properties\<close>



text \<open>A log that nobody touched can become unverifiable: if two records are appended to a shard before the writer handles the
  first, and an anchor is due then, the anchor commits to the head of the second record although only the first precedes
  it in the file. From then on the file is refused, whatever is appended to it and whatever the sentinel says.\<close>

lemma anchor_race_breaks_log:
  assumes "json_laws E" "lf \<noteq> []" "quiet_run E secret (fresh_log E lf cf now) (L, k)" "slot < AUDIT_SHARDS" "io_ok o1" "io_ok o2"
    and "ww_size (wk_writer k) + length (record_line E secret (next_record slot ts ev L)) + 1 \<le> AUDIT_MAX_LOG_SIZE"
    and "io_now o2 - wk_last_anchor k \<ge> AUDIT_ANCHOR_INTERVAL"
    and "L1 = append_event_inner E secret slot ts ev L" "L2 = append_event_inner E secret slot ts' ev' L1"
    and "last_hash (shards L2 ! slot) \<noteq> last_hash (shards L1 ! slot)"
  shows "\<exists>L3 k3. worker_step E o1 o2 L2 k = Some (L3, k3) \<and>
    (\<forall>rest sentinel L'. \<not> verify_chain_disk E secret (Some (written (wk_files k3) @ rest)) sentinel L')"
proof -
  have ok: "quiet_ok E secret (L, k)" using quiet_run_ok [OF assms(3,1) fresh_log_quiet [OF assms(2)]] .
  from anchor_race [OF assms(1) ok assms(4-11)] obtain L3 k3 where *: "worker_step E o1 o2 L2 k = Some (L3, k3)"
    "check_lines E secret (written (wk_files k3)) walk_start = None" "files_ok E (wk_files k3)" by blast
  then have "\<not> verify_chain_disk E secret (Some (written (wk_files k3) @ rest)) sentinel L'" for rest sentinel L'
    by (intro verify_refused) (simp_all add: files_ok_def)
  with * show ?thesis by blast
qed

text \<open>A rotation ends verification: once the file has passed 50 MB, the next record starts a new file, and unless it is the
  first record of its shard ever, that file is refused from then on, whatever is appended to it. A daemon that recovers its
  audit chain at start-up does not start on it.\<close>

lemma rotated_log_refused:
  assumes "json_laws E" "io_ok o1" "io_ok o2" "slot < AUDIT_SHARDS" "wal_queue L = []" "wal_receiver L" "log_file L \<noteq> []"
    and "ww_open (wk_writer k)" "AUDIT_MAX_LOG_SIZE < ww_size (wk_writer k)"
    and "length (record_line E secret (next_record slot ts ev L)) < AUDIT_MAX_LOG_SIZE"
    and "last_hash (shards L ! slot) \<noteq> shard_genesis_hash E slot"
  shows "\<exists>L1 k1. sync_append E secret slot ts ev o1 o2 (L, k) = Some (L1, k1) \<and>
    (\<forall>rest content2 sentinel L'. \<not> fst (recover_audit_chain E (Some secret) (Some (written (wk_files k1) @ rest)) content2 sentinel L'))"
proof -
  obtain L1 k1 ls where *: "sync_append E secret slot ts ev o1 o2 (L, k) = Some (L1, k1)"
    "written (wk_files k1) = record_line E secret (next_record slot ts ev L) # ls"
    "check_lines E secret (written (wk_files k1)) walk_start = None" "\<forall>l \<in> set ls. l \<noteq> []"
    using rotated_refused [OF assms] by blast
  then have "\<not> verify_chain_disk E secret (Some (written (wk_files k1) @ rest)) sentinel L'" for rest sentinel L'
    by (intro verify_refused) (simp_all add: lines_nonempty(1))
  with *(1) show ?thesis by (auto simp: recover_audit_chain_def initialize_chain_def)
qed

text \<open>Anyone who can write the file can remove the whole history of a shard: if a file verifies, so does the
  file without the records of any one shard and without the anchors, once the sentinel is gone. Anchors and sentinel carry no
  key, so they do not bind the shards together.\<close>

lemma shard_removal_undetected:
  assumes "verify_chain_disk E secret (Some ls) sentinel L"
  shows "verify_chain_disk E secret (Some (filter (\<lambda>l. \<not> in_shard E i l \<and> \<not> is_anchor E l) ls)) None L'"
  using assms by (rule verify_without_shard)

end
