(* ===== verification/Audit_Threads.thy ===== *)
theory Audit_Threads
  imports Audit_Restart
begin

text \<open>
  The audit log under concurrent appends (\<open>src/security.rs\<close>). Every thread has a fixed shard slot; an append goes
  through its phases while other threads and the writer act in between: it reserves a number, chains its record
  under the lock of its shard, publishes the head, queues the line, and updates the health. The writer handles any queued message with any I/O
  outcome. An operator, or the automatic acknowledgement, may lower the health floor. \<open>as_hist\<close> and \<open>as_sent\<close> record history only:
  every entry ever chained, by shard, and the lines offered to the queue, in order.
\<close>

section \<open>Steps\<close>

datatype (plugins only: code size) append_phase =
    Idle
  | Reserved audit_event secs u64 u64
  | Chained AuditRecord string string
  | Published AuditRecord string
  | Sent AuditRecord string

record asys =
  as_log :: ImmutableAuditLog
  as_worker :: wal_worker
  as_threads :: "(nat \<times> append_phase) list"
  as_hist :: "AuditLogEntry list list"
  as_sent :: "(nat \<times> string) list"

abbreviation set_phase :: "nat \<Rightarrow> append_phase \<Rightarrow> asys \<Rightarrow> asys" where
  "set_phase t p s \<equiv> s\<lparr>as_threads := (as_threads s)[t := (fst (as_threads s ! t), p)]\<rparr>"

abbreviation at_phase :: "asys \<Rightarrow> nat \<Rightarrow> nat \<Rightarrow> append_phase \<Rightarrow> bool" where
  "at_phase s t slot p \<equiv> t < length (as_threads s) \<and> as_threads s ! t = (slot, p)"

inductive audit_step :: "audit_env \<Rightarrow> bytes \<Rightarrow> asys \<Rightarrow> asys \<Rightarrow> bool" for E secret where
  reserve: "at_phase s t slot Idle \<Longrightarrow> reserve_seq (as_log s) = (q, L) \<Longrightarrow>
    audit_step E secret s (set_phase t (Reserved ev ts (anchor_epoch (as_log s)) q) (s\<lparr>as_log := L\<rparr>))"
| chain: "at_phase s t slot (Reserved ev ts ep q) \<Longrightarrow>
    lock_append E secret slot ts ep q ev (as_log s) = ((r, line, h), L) \<Longrightarrow>
    audit_step E secret s (set_phase t (Chained r line h)
      (s\<lparr>as_log := L, as_hist := (as_hist s)[slot := as_hist s ! slot @ [record_entry E secret r]]\<rparr>))"
| publish: "at_phase s t slot (Chained r line h) \<Longrightarrow>
    audit_step E secret s (set_phase t (Published r line) (s\<lparr>as_log := publish_head slot h (as_log s)\<rparr>))"
| enqueue: "at_phase s t slot (Published r line) \<Longrightarrow> enqueue_wal_line line (as_log s) = (sent, L) \<Longrightarrow>
    audit_step E secret s (set_phase t (Sent r line) (s\<lparr>as_log := L, as_sent := as_sent s @ [(slot, line)]\<rparr>))"
| finish: "at_phase s t slot (Sent r line) \<Longrightarrow>
    audit_step E secret s (set_phase t Idle (s\<lparr>as_log := (recompute_health (as_log s))
      \<lparr>sink_calls := sink_calls (as_log s) @ [line], subscriber_calls := subscriber_calls (as_log s) @ [r]\<rparr>\<rparr>))"
| writer: "wal_receiver (as_log s) \<Longrightarrow> WalReset \<notin> set (wal_queue (as_log s)) \<Longrightarrow>
    worker_step E o1 o2 (as_log s) (as_worker s) = Some (L, k) \<Longrightarrow> audit_step E secret s (s\<lparr>as_log := L, as_worker := k\<rparr>)"
| flush: "audit_flush acked (as_log s) = (b, L) \<Longrightarrow> audit_step E secret s (s\<lparr>as_log := L\<rparr>)"

inductive operator_step :: "asys \<Rightarrow> asys \<Rightarrow> bool" where
  acknowledge: "acknowledge_dropped_audits (as_log s) = (n, L) \<Longrightarrow> operator_step s (s\<lparr>as_log := L\<rparr>)"
| autoack: "autoack_tick last_seen (as_log s) = (n, L) \<Longrightarrow> operator_step s (s\<lparr>as_log := L\<rparr>)"

inductive audit_run :: "audit_env \<Rightarrow> bytes \<Rightarrow> asys \<Rightarrow> asys \<Rightarrow> bool" for E secret s0 where
  start: "audit_run E secret s0 s0"
| step: "audit_run E secret s0 s \<Longrightarrow> audit_step E secret s s' \<Longrightarrow> audit_run E secret s0 s'"
| operator: "audit_run E secret s0 s \<Longrightarrow> operator_step s s' \<Longrightarrow> audit_run E secret s0 s'"

text \<open>At the start the writer has opened its file or failed to.\<close>

definition audit_start :: "audit_env \<Rightarrow> string \<Rightarrow> string \<Rightarrow> secs \<Rightarrow> bool \<Rightarrow> nat list \<Rightarrow> asys" where
  "audit_start E lf cf now opened slots =
     \<lparr>as_log = (if opened then fst (fresh_log E lf cf now)
                else (fst (fresh_log E lf cf now))\<lparr>health_level := as_u8 Fatal, wal_receiver := False, wal_queue := []\<rparr>),
      as_worker = snd (fresh_log E lf cf now), as_threads = map (\<lambda>i. (i, Idle)) slots,
      as_hist = replicate AUDIT_SHARDS [], as_sent = []\<rparr>"

section \<open>Invariant\<close>

definition event_counts_ok :: "ImmutableAuditLog \<Rightarrow> wal_worker \<Rightarrow> bool" where
  "event_counts_ok L k \<longleftrightarrow>
     (\<forall>l n. WalEntry l n \<in> set (wal_queue L) \<longrightarrow> n \<le> global_seq L) \<and>
     ww_pending_event_count (wk_writer k) \<le> global_seq L \<and> sentinel_le (wf_sentinel (wk_files k)) (global_seq L)"

definition asys_ok :: "audit_env \<Rightarrow> bytes \<Rightarrow> asys \<Rightarrow> bool" where
  "asys_ok E secret s \<longleftrightarrow>
     log_ok E secret (shard_genesis_hash E) (as_hist s) (as_log s) \<and> event_counts_ok (as_log s) (as_worker s) \<and>
     (\<forall>i \<in> set (map fst (as_threads s)). i < AUDIT_SHARDS)"

lemma sentinel_le_mono: "sentinel_le x m \<Longrightarrow> m \<le> n \<Longrightarrow> sentinel_le x n"
  by (auto simp: sentinel_le_def split: option.splits)

lemma maybe_rotate_counts:
  "maybe_rotate o1 w f = (w', f', ok) \<Longrightarrow> ww_pending_event_count w' = ww_pending_event_count w \<and> wf_sentinel f' = wf_sentinel f"
  by (auto simp: maybe_rotate_def Let_def flush_buffer_def split: if_splits)

lemma flush_and_sync_counts:
  assumes "flush_and_sync o1 w f = (w', f', ok)" "ww_pending_event_count w \<le> g" "sentinel_le (wf_sentinel f) g"
  shows "ww_pending_event_count w' \<le> g" "sentinel_le (wf_sentinel f') g"
  using assms sentinel_le_mono [OF sentinel_le_string [of "ww_pending_event_count w"]]
  by (auto simp: flush_and_sync_def Let_def flush_buffer_def split: if_splits)

lemma write_entry_counts:
  assumes "write_entry o1 l n w f = Some (w', f', ok)" "n \<le> g" "ww_pending_event_count w \<le> g" "sentinel_le (wf_sentinel f) g"
  shows "ww_pending_event_count w' \<le> g \<and> sentinel_le (wf_sentinel f') g"
proof -
  obtain w1 f1 b where rot: "maybe_rotate o1 w f = (w1, f1, b)" by (cases "maybe_rotate o1 w f")
  note c = maybe_rotate_counts [OF rot]
  show ?thesis
  proof (cases "b \<and> ww_open w1 \<and> io_write o1")
    case False
    with assms rot c show ?thesis by (auto simp: write_entry_def split: if_splits)
  next
    case True
    let ?w = "w1\<lparr>ww_size := ww_size w1 + length l + 1, ww_entries_since_flush := Suc (ww_entries_since_flush w1), ww_pending_event_count := n\<rparr>"
    let ?f = "f1\<lparr>wf_buffer := wf_buffer f1 @ [l]\<rparr>"
    have "Some (w', f', ok) = Some (flush_and_sync o1 ?w ?f) \<or> Some (w', f', ok) = Some (?w, ?f, True)"
      using assms(1) rot True by (auto simp: write_entry_def Let_def split: if_splits)
    then show ?thesis
      using flush_and_sync_counts [of o1 ?w ?f w' f' ok g] assms(2-4) c by auto
  qed
qed

lemma write_anchor_counts:
  assumes "write_anchor E o2 n L k = Some (L', k')" "n \<le> global_seq L" "event_counts_ok L k"
  shows "event_counts_ok L' k' \<and> shards L' = shards L \<and> health_floor L' = health_floor L \<and> global_seq L' = global_seq L \<and> dropped_audits L' = dropped_audits L"
proof (cases "heads_root E (shard_heads L)")
  case None
  with assms show ?thesis by (auto simp: write_anchor_def build_anchor_line_def event_counts_ok_def)
next
  case (Some rt)
  with assms show ?thesis
    by (auto simp: write_anchor_def build_anchor_line_def event_counts_ok_def Let_def split: option.splits bool.splits
        dest!: write_entry_counts [where g = "global_seq L"])
qed

lemma handle_entry_counts:
  assumes "handle_entry E o1 o2 l n L k = Some (L', k')" "n \<le> global_seq L" "event_counts_ok L k"
  shows "event_counts_ok L' k' \<and> shards L' = shards L \<and> health_floor L' = health_floor L \<and> global_seq L' = global_seq L \<and> dropped_audits L' = dropped_audits L"
proof -
  obtain w f ok where w: "write_entry o1 l n (wk_writer k) (wk_files k) = Some (w, f, ok)"
    using assms(1) by (auto simp: handle_entry_def split: option.splits)
  let ?L = "if ok then L else write_failed L"
  let ?k = "k\<lparr>wk_writer := w, wk_files := f, wk_events_since_anchor := Suc (wk_events_since_anchor k)\<rparr>"
  have L: "shards ?L = shards L" "health_floor ?L = health_floor L" "global_seq ?L = global_seq L" "wal_queue ?L = wal_queue L"
    "dropped_audits ?L = dropped_audits L"
    by (simp_all add: write_failed_def)
  have c: "event_counts_ok ?L ?k"
    using write_entry_counts [OF w assms(2)] assms(3) L by (simp add: event_counts_ok_def)
  have "Some (L', k') = Some (?L, ?k) \<or> Some (L', k') = write_anchor E o2 n ?L ?k"
    using assms(1) w by (auto simp: handle_entry_def Let_def split: if_splits)
  then show ?thesis
  proof
    assume "Some (L', k') = Some (?L, ?k)"
    with c L show ?thesis by simp
  next
    assume "Some (L', k') = write_anchor E o2 n ?L ?k"
    from write_anchor_counts [OF this [symmetric] _ c] assms(2) L show ?thesis by simp
  qed
qed

lemma worker_step_counts:
  assumes "worker_step E o1 o2 L k = Some (L', k')" "event_counts_ok L k" "WalReset \<notin> set (wal_queue L)"
  shows "event_counts_ok L' k' \<and> shards L' = shards L \<and> health_floor L' = health_floor L \<and> global_seq L' = global_seq L \<and> dropped_audits L' = dropped_audits L"
proof (cases "wal_queue L")
  case Nil
  with assms show ?thesis by (simp add: worker_step_def)
next
  case (Cons msg rest)
  let ?L = "L\<lparr>wal_queue := rest, queue_len := queue_len L - 1\<rparr>"
  have c: "event_counts_ok ?L k" using assms(2) Cons by (auto simp: event_counts_ok_def)
  show ?thesis
  proof (cases "log_file L = []")
    case True
    with assms(1) Cons c show ?thesis by (auto simp: worker_step_def)
  next
    case False
    show ?thesis
    proof (cases msg)
      case (WalEntry l n)
      then have "n \<le> global_seq ?L" using assms(2) Cons by (simp add: event_counts_ok_def)
      with handle_entry_counts [OF _ this c] assms(1) Cons False WalEntry show ?thesis by (simp add: worker_step_def)
    next
      case WalFlush
      obtain w f ok where fl: "flush_and_sync o1 (wk_writer k) (wk_files k) = (w, f, ok)"
        by (cases "flush_and_sync o1 (wk_writer k) (wk_files k)")
      from flush_and_sync_counts [OF fl] c assms(1) Cons False WalFlush fl show ?thesis
        by (cases ok) (auto simp: worker_step_def handle_flush_def event_counts_ok_def write_failed_def)
    next
      case WalReset
      with assms(3) Cons show ?thesis by simp
    qed
  qed
qed

lemma lock_append_frame:
  assumes "lock_append E secret slot ts ep q ev L = (x, L')"
  shows "global_seq L' = global_seq L" "wal_queue L' = wal_queue L" "health_floor L' = health_floor L"
    "dropped_audits L' = dropped_audits L"
  using assms by (auto simp: lock_append_eq Let_def)

lemma counts_ok_mono:
  assumes "event_counts_ok L k" "global_seq L \<le> global_seq L'" "set (wal_queue L') \<subseteq> set (wal_queue L) \<union> {WalFlush, WalEntry l (global_seq L')}"
  shows "event_counts_ok L' k"
  using assms by (fastforce simp: event_counts_ok_def intro: sentinel_le_mono)

lemma set_phase_slots:
  "t < length ths \<Longrightarrow> ths ! t = (slot, p) \<Longrightarrow> map fst (ths[t := (slot, p')]) = map fst ths"
  by (simp add: map_update list_update_same_conv)

lemma audit_step_slots: "audit_step E secret s s' \<Longrightarrow> map fst (as_threads s') = map fst (as_threads s)"
  by (induction rule: audit_step.induct) (simp_all add: set_phase_slots)

lemma at_phase_slot: "at_phase s t slot p \<Longrightarrow> slot \<in> set (map fst (as_threads s))"
  by (force simp: in_set_conv_nth)

lemma audit_step_ok:
  assumes "audit_step E secret s s'" "asys_ok E secret s"
  shows "asys_ok E secret s'"
proof -
  note ok = assms(2) [unfolded asys_ok_def]
  have "log_ok E secret (shard_genesis_hash E) (as_hist s') (as_log s') \<and> event_counts_ok (as_log s') (as_worker s')"
    using assms(1)
  proof cases
    case (reserve t slot q L ev ts)
    with ok show ?thesis by (auto simp: reserve_seq_def log_ok_def intro: counts_ok_mono)
  next
    case (chain t slot ev ts ep q r line h L)
    then have slot: "slot < AUDIT_SHARDS" using ok at_phase_slot by blast
    from chain ok lock_append_ok [OF _ slot chain(3)] lock_append_frame [OF chain(3)] show ?thesis
      by (auto intro: counts_ok_mono)
  next
    case (publish t slot r line h)
    with ok show ?thesis by (auto simp: publish_head_def log_ok_def intro: counts_ok_mono)
  next
    case (enqueue t slot r line sent L)
    with ok show ?thesis by (auto simp: enqueue_wal_line_def log_ok_def split: if_splits intro: counts_ok_mono)
  next
    case (finish t slot r line)
    with ok show ?thesis by (auto simp: recompute_health_def log_ok_def Let_def intro: counts_ok_mono)
  next
    case (writer o1 o2 L k)
    with ok worker_step_counts [OF writer(4)] show ?thesis by (simp add: log_ok_def)
  next
    case (flush acked b L)
    with ok show ?thesis by (auto simp: audit_flush_def send_wal_def log_ok_def split: option.splits if_splits intro: counts_ok_mono)
  qed
  with ok audit_step_slots [OF assms(1)] show ?thesis by (simp add: asys_ok_def)
qed

lemma operator_step_ok: "operator_step s s' \<Longrightarrow> asys_ok E secret s \<Longrightarrow> asys_ok E secret s'"
  by (auto simp: asys_ok_def log_ok_def event_counts_ok_def acknowledge_dropped_audits_def autoack_tick_def Let_def
      elim!: operator_step.cases split: if_splits)

lemma audit_start_ok: "\<forall>i \<in> set slots. i < AUDIT_SHARDS \<Longrightarrow> asys_ok E secret (audit_start E lf cf now opened slots)"
  using log_ok_start [of E secret lf cf] log_ok_cong [of _ "with_paths E lf cf"]
  by (auto simp: asys_ok_def audit_start_def fresh_log_def log_ok_def event_counts_ok_def with_paths_def sentinel_le_def sentinel_count_def)

lemma audit_run_ok: "audit_run E secret s0 s \<Longrightarrow> asys_ok E secret s0 \<Longrightarrow> asys_ok E secret s"
  by (induction rule: audit_run.induct) (auto intro: audit_step_ok operator_step_ok)

section \<open>Drops\<close>

lemma audit_step_floor:
  assumes "audit_step E secret s s'" "asys_ok E secret s"
  shows "health_floor (as_log s) \<le> health_floor (as_log s')"
    and "dropped_audits (as_log s') \<noteq> dropped_audits (as_log s) \<Longrightarrow> as_u8 Saturated \<le> health_floor (as_log s')"
proof -
  have "health_floor (as_log s) \<le> health_floor (as_log s') \<and>
    (dropped_audits (as_log s') \<noteq> dropped_audits (as_log s) \<longrightarrow> as_u8 Saturated \<le> health_floor (as_log s'))"
    using assms(1)
  proof cases
    case (chain t slot ev ts ep q r line h L)
    with lock_append_frame [OF chain(3)] show ?thesis by simp
  next
    case (writer o1 o2 L k)
    with assms(2) worker_step_counts [OF writer(4)] show ?thesis by (simp add: asys_ok_def)
  next
    case (enqueue t slot r line sent L)
    then show ?thesis by (auto simp: enqueue_wal_line_def split: if_splits)
  qed (auto simp: reserve_seq_def publish_head_def recompute_health_def Let_def audit_flush_def send_wal_def split: option.splits if_splits)
  then show "health_floor (as_log s) \<le> health_floor (as_log s')"
    and "dropped_audits (as_log s') \<noteq> dropped_audits (as_log s) \<Longrightarrow> as_u8 Saturated \<le> health_floor (as_log s')" by auto
qed

lemma audit_steps_floor:
  assumes "(audit_step E secret)\<^sup>*\<^sup>* s s'" "asys_ok E secret s"
  shows "health_floor (as_log s) \<le> health_floor (as_log s') \<and> asys_ok E secret s'"
  using assms by induction (auto dest: audit_step_floor(1) audit_step_ok)

lemma floor_closes_gate:
  assumes "as_u8 Saturated \<le> health_floor L" "2 \<le> c"
  shows "gate_2_5_kinetic_firewall c m L \<noteq> Ok ()"
proof -
  have "as_u8 Saturated \<le> max (health_level L) (health_floor L)" using assms(1) by (simp add: max.coboundedI2)
  then have "2 \<le> unat (max (health_level L) (health_floor L))" by (simp add: word_le_nat_alt)
  then have "Saturated \<le> health L"
    by (auto simp: health_def from_u8_def less_eq_AuditHealth_def word_le_nat_alt)
  with assms(2) show ?thesis by (simp add: gate_2_5_kinetic_firewall_def)
qed

section \<open>Order of lines\<close>

definition hist_lines :: "audit_env \<Rightarrow> bytes \<Rightarrow> AuditLogEntry list \<Rightarrow> string list" where
  "hist_lines E secret es = map (\<lambda>e. record_line E secret (le_record e)) es"

fun waiting :: "append_phase \<Rightarrow> string list" where
  "waiting (Chained r line h) = [line]"
| "waiting (Published r line) = [line]"
| "waiting _ = []"

definition waiting_of :: "(nat \<times> append_phase) list \<Rightarrow> nat \<Rightarrow> string list" where
  "waiting_of ths i = concat (map (\<lambda>(slot, p). if slot = i then waiting p else []) ths)"

definition sent_lines :: "asys \<Rightarrow> nat \<Rightarrow> string list" where
  "sent_lines s i = map snd (filter (\<lambda>x. fst x = i) (as_sent s))"

text \<open>With one thread per shard, what was chained is what was offered to the queue and at most one line more.\<close>

definition in_order :: "audit_env \<Rightarrow> bytes \<Rightarrow> asys \<Rightarrow> bool" where
  "in_order E secret s \<longleftrightarrow> (\<forall>i < AUDIT_SHARDS. hist_lines E secret (as_hist s ! i) = sent_lines s i @ waiting_of (as_threads s) i)"

lemma waiting_of_other: "i \<notin> set (map fst ths) \<Longrightarrow> waiting_of ths i = []"
  by (induction ths) (auto simp: waiting_of_def)

lemma waiting_of_split: "waiting_of (xs @ (slot, p) # ys) i = waiting_of xs i @ (if slot = i then waiting p else []) @ waiting_of ys i"
  by (simp add: waiting_of_def)

lemma waiting_of_update:
  assumes "distinct (map fst ths)" "t < length ths" "ths ! t = (slot, p)"
  shows "waiting_of (ths[t := (slot, p')]) i = (if i = slot then waiting p' else waiting_of ths i)"
    and "waiting_of ths slot = waiting p"
proof -
  let ?xs = "take t ths" and ?ys = "drop (Suc t) ths"
  have ths: "ths = ?xs @ (slot, p) # ?ys" using id_take_nth_drop [OF assms(2)] assms(3) by simp
  have "distinct (map fst (?xs @ (slot, p) # ?ys))" using assms(1) ths by metis
  then have "slot \<notin> set (map fst ?xs)" "slot \<notin> set (map fst ?ys)" by auto
  note none = this [THEN waiting_of_other]
  have upd: "ths[t := (slot, p')] = ?xs @ (slot, p') # ?ys" using assms(2) by (rule upd_conv_take_nth_drop)
  have split: "waiting_of ths i = waiting_of ?xs i @ (if slot = i then waiting p else []) @ waiting_of ?ys i" for i
    using waiting_of_split [of ?xs slot p ?ys i] ths by metis
  show "waiting_of ths slot = waiting p" using split [of slot] none by simp
  show "waiting_of (ths[t := (slot, p')]) i = (if i = slot then waiting p' else waiting_of ths i)"
    unfolding upd waiting_of_split using split [of i] none by auto
qed

lemma audit_step_in_order:
  assumes "audit_step E secret s s'" "asys_ok E secret s" "distinct (map fst (as_threads s))" "in_order E secret s"
  shows "in_order E secret s'"
  using assms(1)
proof cases
  case (reserve t slot q L ev ts)
  with assms(3,4) waiting_of_update [OF assms(3), of t slot Idle] show ?thesis by (auto simp: in_order_def sent_lines_def)
next
  case (chain t slot ev ts ep q r line h L)
  have len: "length (as_hist s) = AUDIT_SHARDS" using assms(2) by (simp add: asys_ok_def log_ok_def)
  have line: "line = record_line E secret r" using chain(3) by (auto simp: lock_append_eq Let_def)
  from chain assms(4) waiting_of_update [OF assms(3) chain(2) [THEN conjunct1] chain(2) [THEN conjunct2]] len line show ?thesis
    by (auto simp: in_order_def sent_lines_def nth_list_update hist_lines_def record_entry_def)
next
  case (publish t slot r line h)
  with assms(3,4) waiting_of_update [OF assms(3), of t slot "Chained r line h"] show ?thesis
    by (auto simp: in_order_def sent_lines_def)
next
  case (enqueue t slot r line sent L)
  with assms(3,4) waiting_of_update [OF assms(3), of t slot "Published r line"] show ?thesis
    by (auto simp: in_order_def sent_lines_def)
next
  case (finish t slot r line)
  with assms(3,4) waiting_of_update [OF assms(3), of t slot "Sent r line"] show ?thesis
    by (auto simp: in_order_def sent_lines_def)
qed (use assms(4) in \<open>simp_all add: in_order_def sent_lines_def\<close>)

lemma audit_run_in_order:
  assumes "audit_run E secret s0 s" "asys_ok E secret s0" "distinct (map fst (as_threads s0))" "in_order E secret s0"
  shows "in_order E secret s \<and> distinct (map fst (as_threads s))"
  using assms
proof induction
  case (step s s')
  then show ?case using audit_run_ok [OF step.hyps(1)] audit_step_slots [OF step.hyps(2)] audit_step_in_order by metis
next
  case (operator s s')
  then have "as_threads s' = as_threads s" "as_hist s' = as_hist s" "as_sent s' = as_sent s"
    by (auto elim: operator_step.cases)
  with operator show ?case by (simp add: in_order_def sent_lines_def)
qed auto

text \<open>Two threads on one shard.\<close>

lemma run_reserve:
  assumes "audit_run E secret s0 s" "at_phase s t slot Idle"
  shows "\<exists>s' q ep. audit_run E secret s0 s' \<and> as_threads s' = (as_threads s)[t := (slot, Reserved ev ts ep q)] \<and>
    as_hist s' = as_hist s \<and> as_sent s' = as_sent s \<and> shards (as_log s') = shards (as_log s) \<and>
    wal_receiver (as_log s') = wal_receiver (as_log s)"
  using audit_run.step [OF assms(1) audit_step.reserve [OF assms(2) prod.collapse [symmetric], of E secret ev ts]] assms(2)
  by (auto simp: reserve_seq_def intro!: exI)

lemma run_chain:
  assumes "audit_run E secret s0 s" "at_phase s t slot (Reserved ev ts ep q)"
  shows "\<exists>s'. let r = make_record slot ts ep q ev (shards (as_log s) ! slot) in audit_run E secret s0 s' \<and>
    as_threads s' = (as_threads s)[t := (slot, Chained r (record_line E secret r) (chain_hash E secret (from_record r)))] \<and>
    as_hist s' = (as_hist s)[slot := as_hist s ! slot @ [record_entry E secret r]] \<and> as_sent s' = as_sent s \<and>
    shards (as_log s') = (shards (as_log s))[slot := shard_append r (chain_hash E secret (from_record r)) (shards (as_log s) ! slot)] \<and>
    wal_receiver (as_log s') = wal_receiver (as_log s)"
  using audit_run.step [OF assms(1) audit_step.chain [OF assms(2)]] assms(2)
  by (auto simp: lock_append_eq Let_def intro!: exI)

lemma run_publish_enqueue:
  assumes "audit_run E secret s0 s" "at_phase s t slot (Chained r line h)"
  shows "\<exists>s'. audit_run E secret s0 s' \<and> as_threads s' = (as_threads s)[t := (slot, Sent r line)] \<and>
    as_hist s' = as_hist s \<and> as_sent s' = as_sent s @ [(slot, line)]"
proof -
  let ?s = "set_phase t (Published r line) (s\<lparr>as_log := publish_head slot h (as_log s)\<rparr>)"
  have run: "audit_run E secret s0 ?s" by (rule audit_run.step [OF assms(1) audit_step.publish [OF assms(2)]])
  have at: "at_phase ?s t slot (Published r line)" using assms(2) by simp
  obtain b L where "enqueue_wal_line line (as_log ?s) = (b, L)" by (cases "enqueue_wal_line line (as_log ?s)")
  from audit_run.step [OF run audit_step.enqueue [OF at this]] assms(2) show ?thesis by (auto intro!: exI)
qed

lemma shared_shard_run:
  "\<exists>s e1 e2. audit_run E secret (audit_start E lf cf now opened [0, 0]) s \<and> as_hist s ! 0 = [e1, e2] \<and>
     sent_lines s 0 = [record_line E secret (le_record e2), record_line E secret (le_record e1)] \<and>
     sharded (le_record e2) 0 \<and> ar_prev_hash (le_record e2) = chain_hash E secret (from_record (le_record e1))"
proof -
  fix ev ts
  let ?s0 = "audit_start E lf cf now opened [0, 0]"
  have s0: "as_threads ?s0 = [(0, Idle), (0, Idle)]" "as_hist ?s0 = replicate AUDIT_SHARDS []" "as_sent ?s0 = []"
    "length (shards (as_log ?s0)) = AUDIT_SHARDS" by (simp_all add: audit_start_def fresh_log_def with_paths_def)
  obtain s1 q1 p1 where s1: "audit_run E secret ?s0 s1" "as_threads s1 = [(0, Reserved ev ts p1 q1), (0, Idle)]"
    "as_hist s1 = as_hist ?s0" "as_sent s1 = []" "shards (as_log s1) = shards (as_log ?s0)"
    using run_reserve [OF audit_run.start [of E secret ?s0], of 0 0 ev ts] s0 by auto
  obtain s2 q2 p2 where s2: "audit_run E secret ?s0 s2" "as_threads s2 = [(0, Reserved ev ts p1 q1), (0, Reserved ev ts p2 q2)]"
    "as_hist s2 = as_hist ?s0" "as_sent s2 = []" "shards (as_log s2) = shards (as_log ?s0)"
    using run_reserve [OF s1(1), of 1 0 ev ts] s1 by auto
  have len2: "length (shards (as_log s2)) = AUDIT_SHARDS" using s2(5) s0(4) by simp
  define r1 where "r1 = make_record 0 ts p1 q1 ev (shards (as_log s2) ! 0)"
  let ?l1 = "record_line E secret r1" and ?h1 = "chain_hash E secret (from_record r1)"
  obtain s3 where s3: "audit_run E secret ?s0 s3" "as_threads s3 = [(0, Chained r1 ?l1 ?h1), (0, Reserved ev ts p2 q2)]"
    "as_hist s3 ! 0 = [record_entry E secret r1]" "length (as_hist s3) = AUDIT_SHARDS" "as_sent s3 = []"
    "last_hash (shards (as_log s3) ! 0) = ?h1"
    using run_chain [OF s2(1), of 0 0 ev ts p1 q1, folded r1_def] s2(2-4) s0(2) len2
    by (auto simp: Let_def AUDIT_SHARDS_def shard_append_def)
  define r2 where "r2 = make_record 0 ts p2 q2 ev (shards (as_log s3) ! 0)"
  let ?l2 = "record_line E secret r2" and ?h2 = "chain_hash E secret (from_record r2)"
  obtain s4 where s4: "audit_run E secret ?s0 s4" "as_threads s4 = [(0, Chained r1 ?l1 ?h1), (0, Chained r2 ?l2 ?h2)]"
    "as_hist s4 ! 0 = [record_entry E secret r1, record_entry E secret r2]" "as_sent s4 = []"
    using run_chain [OF s3(1), of 1 0 ev ts p2 q2, folded r2_def] s3(2-5) by (auto simp: Let_def AUDIT_SHARDS_def)
  obtain s5 where s5: "audit_run E secret ?s0 s5" "as_threads s5 = [(0, Chained r1 ?l1 ?h1), (0, Sent r2 ?l2)]"
    "as_hist s5 = as_hist s4" "as_sent s5 = [(0, ?l2)]"
    using run_publish_enqueue [OF s4(1), of 1 0 r2 ?l2 ?h2] s4 by auto
  obtain s6 where "audit_run E secret ?s0 s6" "as_hist s6 = as_hist s4" "as_sent s6 = [(0, ?l2), (0, ?l1)]"
    using run_publish_enqueue [OF s5(1), of 0 0 r1 ?l1 ?h1] s5 by auto
  with s4(3) s3(6) show ?thesis
    by (intro exI [of _ s6] exI [of _ "record_entry E secret r1"] exI [of _ "record_entry E secret r2"])
      (simp add: sent_lines_def record_entry_def sharded_def r2_def AUDIT_SHARDS_def)
qed

section \<open>A concrete run\<close>

lemma demo_hash_bytes: "\<exists>n. chain_hash demo_env secret c = hex_encode (replicate (Suc n) 120)"
proof -
  have "of_char (CHR ''x'') = (120 :: u8)" by simp
  then show ?thesis using demo_code_pos [of "canonical_value (from_record demo_record)" "canonical_value c"]
    by (auto simp: chain_hash_def demo_env_def demo_audit_def str_bytes_def gr0_conv_Suc)
qed

lemma demo_seed: "shard_genesis_hash demo_env i = hex_encode (83 # 65 # tl (tl AUDIT_SHARD_GENESIS_TAG) @ to_be_bytes 2 (word_of_nat i :: u16))"
  by (simp add: shard_genesis_hash_def demo_env_def demo_audit_def AUDIT_SHARD_GENESIS_TAG_def str_bytes_def)

lemma demo_genesis_bytes: "GENESIS_HASH = hex_encode (71 # tl (str_bytes ''GENESIS_BLOCK''))"
  by code_simp

lemma demo_hash_seed: "chain_hash demo_env secret c \<noteq> shard_genesis_hash demo_env i"
  using demo_hash_bytes [of secret c] by (auto simp: demo_seed)

lemma demo_no_collisions: "no_collisions demo_env secret S {None}"
proof -
  have 1: "chain_hash demo_env secret c \<noteq> GENESIS_HASH" for c
    using demo_hash_bytes [of secret c] by (auto simp: demo_genesis_bytes)
  have 2: "shard_genesis_hash demo_env i \<noteq> GENESIS_HASH" for i by (simp add: demo_seed demo_genesis_bytes)
  have 3: "i = j" if "shard_genesis_hash demo_env i = shard_genesis_hash demo_env j" "i < AUDIT_SHARDS" "j < AUDIT_SHARDS" for i j
  proof -
    have "(word_of_nat i :: u16) = word_of_nat j" using that(1) by (simp add: demo_seed to_be_bytes_inject)
    with that(2,3) show ?thesis by (metis unat_shard)
  qed
  show ?thesis
    using 1 2 not_sym [OF demo_hash_seed] 3
    by (auto simp: no_collisions_def inj_on_def demo_hash_inject migration_seed_hash_def image_iff not_sym [OF 1])
qed

abbreviation demo_audit_start :: "bool \<Rightarrow> asys" where
  "demo_audit_start opened \<equiv> audit_start demo_env ''f'' ''c'' 0 opened [0]"

lemma demo_chained:
  obtains s r ep q where "audit_run demo_env [] (demo_audit_start opened) s" "r = make_record 0 0 ep q demo_event (genesis_shard demo_env 0)"
    "as_threads s = [(0, Chained r (record_line demo_env [] r) (chain_hash demo_env [] (from_record r)))]"
    "as_hist s = (replicate AUDIT_SHARDS [])[0 := [record_entry demo_env [] r]]" "as_sent s = []" "wal_receiver (as_log s) = opened"
proof -
  let ?s0 = "demo_audit_start opened"
  have s0: "as_threads ?s0 = [(0, Idle)]" "as_sent ?s0 = []" "wal_receiver (as_log ?s0) = opened" "as_hist ?s0 = replicate AUDIT_SHARDS []" "shards (as_log ?s0) ! 0 = genesis_shard demo_env 0"
    by (simp_all add: audit_start_def fresh_log_def with_paths_def AUDIT_SHARDS_def del: upt_Suc)
  obtain s1 q p where s1: "audit_run demo_env [] ?s0 s1" "as_threads s1 = [(0, Reserved demo_event 0 p q)]"
    "as_hist s1 = as_hist ?s0" "shards (as_log s1) = shards (as_log ?s0)" "as_sent s1 = []" "wal_receiver (as_log s1) = opened"
    using run_reserve [OF audit_run.start [of demo_env "[]" ?s0], of 0 0 demo_event 0] s0 by auto
  define r where "r = make_record 0 0 p q demo_event (shards (as_log s1) ! 0)"
  obtain s2 where "audit_run demo_env [] ?s0 s2"
    "as_threads s2 = [(0, Chained r (record_line demo_env [] r) (chain_hash demo_env [] (from_record r)))]"
    "as_hist s2 = (as_hist s1)[0 := as_hist s1 ! 0 @ [record_entry demo_env [] r]]" "as_sent s2 = []" "wal_receiver (as_log s2) = opened"
    using run_chain [OF s1(1), of 0 0 demo_event 0 p q, folded r_def] s1(2,5,6) by (auto simp: Let_def)
  with s1(3,4) s0 that [of s2 r p q] show ?thesis by (simp add: r_def AUDIT_SHARDS_def)
qed

lemma demo_laws': "json_laws demo_env"
  by (simp add: demo_env_def demo_laws)

lemma demo_file:
  assumes "r = make_record 0 0 ep q demo_event (genesis_shard demo_env 0)"
  shows "verify_chain_disk demo_env [] (Some [record_line demo_env [] r]) None L"
    and "parse_line demo_env (record_line demo_env [] r) = Some (RecordLine (from_record r) (chain_hash demo_env [] (from_record r)))"
    and "ca_shard_id (from_record r) = Some 0"
proof -
  have sh: "sharded r 0" using assms by (simp add: sharded_def AUDIT_SHARDS_def)
  have "tracks demo_env [] ([] @ [record_line demo_env [] r]) ANCHOR_GENESIS_ROOT (Suc 0)
      ((map (genesis_shard demo_env) [0..<AUDIT_SHARDS])[0 := shard_append r (chain_hash demo_env [] (from_record r)) (map (genesis_shard demo_env) [0..<AUDIT_SHARDS] ! 0)])"
    by (rule tracks_record [OF demo_laws' tracks_start]) (simp_all add: assms AUDIT_SHARDS_def del: upt_Suc)
  then have "check_lines demo_env [] [record_line demo_env [] r] walk_start \<noteq> None" by (auto simp: tracks_def)
  then show "verify_chain_disk demo_env [] (Some [record_line demo_env [] r]) None L"
    by (simp add: verify_chain_disk_def lines_nonempty(1) sentinel_count_def)
  show "parse_line demo_env (record_line demo_env [] r) = Some (RecordLine (from_record r) (chain_hash demo_env [] (from_record r)))"
    by (rule parse_record_line [OF demo_laws' sh])
  show "ca_shard_id (from_record r) = Some 0" using sh by (simp add: from_record_sharded)
qed

section \<open>Properties\<close>

lemma true_history_run:
  assumes "asys_ok E secret s"
  shows "true_history E secret [] (as_hist s)"
  using assms by (auto simp: asys_ok_def log_ok_def shard_ok_def true_history_def v1_end_def migration_seed_hash_def)

text \<open>C2. The log file is tamper-evident: whatever threads, writer and operators did and whatever was done to the file since, if
  \<open>verify_chain_disk\<close> accepts it, then it holds no unsharded record and the records of each shard in it are, in order, an initial part of
  what the log really appended to that shard. Only cutting off the end of a shard goes unnoticed. This
  holds unless a message authentication code in the file was forged or two of the hashes collide.\<close>

theorem audit_tamper_evident:
  assumes "audit_run E secret (audit_start E lf cf now opened slots) s" "\<forall>i \<in> set slots. i < AUDIT_SHARDS"
    and "verify_chain_disk E secret (Some file) sentinel L" "\<forall>l \<in> set file. l \<noteq> []"
    and "no_forgery E secret (appended [] (as_hist s)) file"
    and "no_collisions E secret (appended [] (as_hist s)) {final_of E None file, None}"
  shows "v1_of E file = [] \<and>
    (\<forall>i < AUDIT_SHARDS. map fst (v2_of E i file) = take (length (v2_of E i file)) (canon (as_hist s) i))"
proof -
  have "asys_ok E secret s" using audit_run_ok [OF assms(1) audit_start_ok [OF assms(2)]] .
  note hist = true_history_run [OF this]
  have ne: "filter (\<lambda>l. l \<noteq> []) file = file" using assms(4) by (intro filter_True)
  have fin: "v1_end E secret [] = None" by (simp add: v1_end_def)
  note pre = accepted_file_prefix [OF assms(3) hist, unfolded ne fin, OF assms(6,5)]
  have "map fst (v2_of E i file) = take (length (v2_of E i file)) (canon (as_hist s) i)" if "i < AUDIT_SHARDS" for i
    using pre(2) [OF that] by (cases "v2_of E i file = []") auto
  with pre(1) show ?thesis by simp
qed

theorem audit_tamper_evident_witness:
  "\<exists>s r. audit_run demo_env [] (demo_audit_start True) s \<and> as_hist s ! 0 = [record_entry demo_env [] r] \<and>
     map fst (v2_of demo_env 0 [record_line demo_env [] r]) = take 1 (canon (as_hist s) 0)"
proof -
  obtain s r ep q where s: "audit_run demo_env [] (demo_audit_start True) s" "r = make_record 0 0 ep q demo_event (genesis_shard demo_env 0)"
    "as_hist s = (replicate AUDIT_SHARDS [])[0 := [record_entry demo_env [] r]]" by (rule demo_chained)
  let ?l = "record_line demo_env [] r"
  note f = demo_file [OF s(2)]
  have v: "v1_of demo_env [?l] = []" "v2_of demo_env 0 [?l] = [(from_record r, chain_hash demo_env [] (from_record r))]"
    using f(2,3) by simp_all
  have h: "as_hist s ! 0 = [record_entry demo_env [] r]" "canon (as_hist s) 0 = [from_record r]"
    using s(3) by (simp_all add: AUDIT_SHARDS_def canon_def record_entry_def)
  then have "from_record r \<in> appended [] (as_hist s)" by (auto simp: appended_def AUDIT_SHARDS_def intro!: bexI [of _ 0])
  then have "no_forgery demo_env [] (appended [] (as_hist s)) [?l]" using f(2) by (simp add: no_forgery_def)
  with audit_tamper_evident [OF s(1) _ f(1)] v(1) demo_no_collisions
  have "\<forall>i < AUDIT_SHARDS. map fst (v2_of demo_env i [?l]) = take (length (v2_of demo_env i [?l])) (canon (as_hist s) i)"
    by (simp add: final_of_def lines_nonempty(1) AUDIT_SHARDS_def)
  then have "map fst (v2_of demo_env 0 [?l]) = take (length (v2_of demo_env 0 [?l])) (canon (as_hist s) 0)"
    by (simp add: AUDIT_SHARDS_def)
  then have "map fst (v2_of demo_env 0 [?l]) = take 1 (canon (as_hist s) 0)" by (simp add: v(2))
  with s(1) h show ?thesis by blast
qed



text \<open>C17. A lost audit record stops irreversible actions: after a step that drops an event, gate 2.5 refuses every action of class two or
  higher, through all further appends, flushes and writes, until someone acknowledges the loss.\<close>

theorem dropped_event_closes_gate:
  assumes "audit_run E secret (audit_start E lf cf now opened slots) s" "\<forall>i \<in> set slots. i < AUDIT_SHARDS"
    and "audit_step E secret s s1" "dropped_audits (as_log s1) \<noteq> dropped_audits (as_log s)"
    and "(audit_step E secret)\<^sup>*\<^sup>* s1 s2" "2 \<le> c"
  shows "gate_2_5_kinetic_firewall c m (as_log s2) \<noteq> Ok ()"
proof -
  have ok: "asys_ok E secret s" using audit_run_ok [OF assms(1) audit_start_ok [OF assms(2)]] .
  have "as_u8 Saturated \<le> health_floor (as_log s1)" using audit_step_floor(2) [OF assms(3) ok assms(4)] .
  also have "\<dots> \<le> health_floor (as_log s2)" using audit_steps_floor [OF assms(5) audit_step_ok [OF assms(3) ok]] by simp
  finally show ?thesis using assms(6) by (rule floor_closes_gate)
qed

theorem dropped_event_closes_gate_witness:
  "\<exists>s s1. audit_run demo_env [] (demo_audit_start False) s \<and> audit_step demo_env [] s s1 \<and>
     gate_2_5_kinetic_firewall 2 3 (as_log s1) \<noteq> Ok ()"
proof -
  obtain s r ep q where s: "audit_run demo_env [] (demo_audit_start False) s"
    "as_threads s = [(0, Chained r (record_line demo_env [] r) (chain_hash demo_env [] (from_record r)))]"
    "wal_receiver (as_log s) = False" by (rule demo_chained)
  let ?s = "set_phase 0 (Published r (record_line demo_env [] r))
    (s\<lparr>as_log := publish_head 0 (chain_hash demo_env [] (from_record r)) (as_log s)\<rparr>)"
  have run: "audit_run demo_env [] (demo_audit_start False) ?s"
    by (rule audit_run.step [OF s(1) audit_step.publish]) (simp add: s(2))
  obtain b L where L: "enqueue_wal_line (record_line demo_env [] r) (as_log ?s) = (b, L)"
    by (cases "enqueue_wal_line (record_line demo_env [] r) (as_log ?s)")
  have step: "audit_step demo_env [] ?s (set_phase 0 (Sent r (record_line demo_env [] r))
      (?s\<lparr>as_log := L, as_sent := as_sent ?s @ [(0, record_line demo_env [] r)]\<rparr>))" (is "audit_step _ _ _ ?s1")
    by (rule audit_step.enqueue [OF _ L]) (simp add: s(2))
  have "dropped_audits (as_log ?s1) \<noteq> dropped_audits (as_log ?s)"
    using L s(3) by (auto simp: enqueue_wal_line_def publish_head_def)
  from dropped_event_closes_gate [OF run _ step this rtranclp.rtrancl_refl, of 2 3]
  have "gate_2_5_kinetic_firewall 2 3 (as_log ?s1) \<noteq> Ok ()" by (simp add: AUDIT_SHARDS_def)
  with run step show ?thesis by blast
qed

text \<open>C30. Gate 6.0 lets an irreversible action pass exactly if the audit log is not failed and its queue has room, and then the
  record of the action, chained to its shard, is in the queue; if it refuses, gate 2.5 refuses the next one.\<close>

theorem irreversible_needs_record:
  assumes "gate_6_0_audit_checkpoint E secret slot ts ev c L = (res, L')" "2 \<le> c"
  shows "(res = Ok () \<longleftrightarrow> health L \<noteq> Fatal \<and> wal_receiver L \<and> length (wal_queue L) < AUDIT_WAL_QUEUE_CAPACITY) \<and>
    (res = Ok () \<longrightarrow> wal_queue L' = wal_queue L @ [WalEntry (record_line E secret (next_record slot ts ev L)) (Suc (global_seq L))] \<and>
       shards L' = (shards L)[slot := shard_append (next_record slot ts ev L)
         (chain_hash E secret (from_record (next_record slot ts ev L))) (shards L ! slot)]) \<and>
    (res \<noteq> Ok () \<longrightarrow> gate_2_5_kinetic_firewall c m L' \<noteq> Ok ())"
proof (cases "health L = Fatal")
  case True
  with assms have "res = Err AuditSubsystemDegraded" "L' = L" by (auto simp: gate_6_0_audit_checkpoint_def)
  with True assms(2) show ?thesis by (simp add: gate_2_5_kinetic_firewall_def less_eq_AuditHealth_def word_le_nat_alt)
next
  case False
  show ?thesis
  proof (cases "wal_receiver L \<and> length (wal_queue L) < AUDIT_WAL_QUEUE_CAPACITY")
    case True
    with False assms show ?thesis
      by (auto simp: gate_6_0_audit_checkpoint_def try_append_event_def lock_append_eq phase_defs next_record_def Let_def)
  next
    case full: False
    have "gate_2_5_kinetic_firewall c m L' \<noteq> Ok ()"
      by (rule floor_closes_gate [OF _ assms(2)])
        (use full False assms in \<open>auto simp: gate_6_0_audit_checkpoint_def try_append_event_def lock_append_eq phase_defs Let_def\<close>)
    with full False assms show ?thesis
      by (auto simp: gate_6_0_audit_checkpoint_def try_append_event_def lock_append_eq phase_defs Let_def)
  qed
qed

theorem irreversible_needs_record_witness:
  "\<exists>L'. gate_6_0_audit_checkpoint demo_env [] 0 0 demo_event 2 (with_paths demo_env ''f'' ''c'') = (Ok (), L') \<and>
     length (wal_queue L') = 1"
proof -
  let ?L = "with_paths demo_env ''f'' ''c''"
  obtain res L' where g: "gate_6_0_audit_checkpoint demo_env [] 0 0 demo_event 2 ?L = (res, L')"
    by (cases "gate_6_0_audit_checkpoint demo_env [] 0 0 demo_event 2 ?L")
  have "health ?L \<noteq> Fatal" "wal_receiver ?L" "length (wal_queue ?L) < AUDIT_WAL_QUEUE_CAPACITY" "wal_queue ?L = []"
    by (simp_all add: health_def with_paths_def from_u8_def AUDIT_WAL_QUEUE_CAPACITY_def)
  with irreversible_needs_record [OF g] g show ?thesis by simp
qed

text \<open>If no two threads share a shard, the lines of each shard are offered to the writer in the order of its chain.\<close>

lemma own_shard_in_order:
  assumes "audit_run E secret (audit_start E lf cf now opened slots) s" "\<forall>i \<in> set slots. i < AUDIT_SHARDS" "distinct slots" "i < AUDIT_SHARDS"
  shows "sent_lines s i = take (length (sent_lines s i)) (hist_lines E secret (as_hist s ! i))"
proof -
  have 1: "distinct (map fst (as_threads (audit_start E lf cf now opened slots)))" using assms(3) by (simp add: audit_start_def comp_def)
  have "waiting_of (map (\<lambda>i. (i, Idle)) slots) j = []" for j by (auto simp: waiting_of_def)
  then have 2: "in_order E secret (audit_start E lf cf now opened slots)"
    by (simp add: in_order_def audit_start_def hist_lines_def sent_lines_def)
  have "in_order E secret s" using audit_run_in_order [OF assms(1) audit_start_ok [OF assms(2)] 1 2] by (rule conjunct1)
  with assms(4) have "hist_lines E secret (as_hist s ! i) = sent_lines s i @ waiting_of (as_threads s) i"
    by (simp only: in_order_def)
  then show ?thesis by simp
qed

text \<open>Threads that share a shard, as all do from the seventeenth thread on, can queue their lines against the order of the chain; then the file
  is refused for good although nothing was dropped or changed.\<close>

lemma shared_shard_breaks_log:
  assumes "json_laws E" "\<forall>c. chain_hash E secret c \<noteq> shard_genesis_hash E 0"
  shows "\<exists>s. audit_run E secret (audit_start E lf cf now opened [0, 0]) s \<and>
    sent_lines s 0 = rev (hist_lines E secret (as_hist s ! 0)) \<and>
    (\<forall>rest sentinel L. \<not> verify_chain_disk E secret (Some (sent_lines s 0 @ rest)) sentinel L)"
proof -
  obtain s e1 e2 where s: "audit_run E secret (audit_start E lf cf now opened [0, 0]) s" "as_hist s ! 0 = [e1, e2]"
    "sent_lines s 0 = [record_line E secret (le_record e2), record_line E secret (le_record e1)]"
    "sharded (le_record e2) 0" "ar_prev_hash (le_record e2) = chain_hash E secret (from_record (le_record e1))"
    using shared_shard_run by blast
  have "check_lines E secret (sent_lines s 0) walk_start = None"
    using assms(2) s(5) by (simp add: s(3) check_line_def parse_record_line [OF assms(1) s(4)] from_record_sharded [OF s(4)]
        check_v2_def shard_head_def walk_start_def AUDIT_SHARDS_def migration_seed_hash_def)
  then have "\<not> verify_chain_disk E secret (Some (sent_lines s 0 @ rest)) sentinel L" for rest sentinel L
    by (intro verify_refused) (simp_all add: s(3) lines_nonempty(1))
  with s show ?thesis by (auto simp: hist_lines_def)
qed

end
