(* ===== verification/Eviction.thy ===== *)
theory Eviction
  imports SAACP_Prelude "HOL-Library.Multiset"
begin

text \<open>
  The eviction idiom of the program's bounded maps: collect the keys with an age, sort them by age and remove the
  oldest. The lemmas give the size of what is left and that nothing older than a removed entry stays.
\<close>

text \<open>The \<open>n\<close> keys with the smallest ages: collect, sort stably, take.\<close>

definition oldest_keys :: "nat \<Rightarrow> ('v \<Rightarrow> 'a::linorder) \<Rightarrow> ('k, 'v) hmap \<Rightarrow> 'k list" where
  "oldest_keys n age m = take n (map fst (sort_key snd (map (\<lambda>(k, v). (k, age v)) m)))"

lemma mset_map_fst_sort: "mset (map fst (sort_key snd (map (\<lambda>(k, v). (k, age v)) m))) = mset (map fst m)"
proof -
  have "map fst (map (\<lambda>(k, v). (k, age v)) m) = map fst m" by (simp add: comp_def split_beta)
  then have "image_mset fst (mset (map (\<lambda>(k, v). (k, age v)) m)) = mset (map fst m)" by (simp only: mset_map [symmetric])
  then show ?thesis by (simp only: mset_map mset_sort)
qed

lemma oldest_keys_props:
  assumes "hm_wf m"
  shows "distinct (oldest_keys n age m)" "set (oldest_keys n age m) \<subseteq> keys m"
    "length (oldest_keys n age m) = min n (length m)"
proof -
  let ?ks = "map fst (sort_key snd (map (\<lambda>(k, v). (k, age v)) m))"
  have "distinct ?ks" using assms mset_eq_imp_distinct_iff [OF mset_map_fst_sort [of age m]] by (simp only: hm_wf_def)
  then show "distinct (oldest_keys n age m)" by (simp add: oldest_keys_def)
  have "set ?ks = set (map fst m)" by (rule mset_eq_setD [OF mset_map_fst_sort])
  then have "set ?ks = keys m" by (simp only: keys_def set_map)
  then show "set (oldest_keys n age m) \<subseteq> keys m" using set_take_subset [of n ?ks] by (simp only: oldest_keys_def)
  show "length (oldest_keys n age m) = min n (length m)" by (simp add: oldest_keys_def)
qed

lemma length_remove_oldest: "hm_wf m \<Longrightarrow> length (remove_keys (oldest_keys n age m) m) = length m - n"
  using oldest_keys_props [of m n age] by (simp add: length_remove_keys)

lemma oldest_keys_oldest:
  assumes wf: "hm_wf m" and k: "k \<in> set (oldest_keys n age m)" "map_of m k = Some v"
    and j: "j \<notin> set (oldest_keys n age m)" "map_of m j = Some w"
  shows "age v \<le> age w"
proof -
  define xs where "xs = sort_key snd (map (\<lambda>(k, v). (k, age v)) m)"
  have sorted: "sorted (map snd xs)" by (simp add: xs_def)
  have mem: "set xs = (\<lambda>(k, v). (k, age v)) ` set m" by (simp add: xs_def)
  obtain i where i: "i < length xs" "i < n" "fst (xs ! i) = k"
    using k(1) by (auto simp: oldest_keys_def xs_def [symmetric] in_set_conv_nth)
  have "(j, w) \<in> set m" using j(2) by (rule map_of_SomeD)
  then have "(j, age w) \<in> set xs" unfolding mem by (auto intro: rev_image_eqI)
  then obtain l where l: "l < length xs" "xs ! l = (j, age w)" by (auto simp: in_set_conv_nth)
  have "\<not> l < n" using j(1) l by (auto simp: oldest_keys_def xs_def [symmetric] in_set_conv_nth)
  then have "snd (xs ! i) \<le> age w" using sorted i l sorted_nth_mono [of "map snd xs" i l] by simp
  moreover have "xs ! i \<in> set xs" using i(1) by simp
  then obtain q where "q \<in> set m" "xs ! i = (fst q, age (snd q))" unfolding mem by auto
  moreover from this have "map_of m (fst q) = Some (snd q)" using wf by (simp add: hm_wf_def)
  ultimately show ?thesis using i(3) k(2) by simp
qed

end
