(* ===== verification/Aegf_Meta.thy ===== *)
theory Aegf_Meta
  imports Json Eviction
begin

text \<open>
  \<open>src/aegf.rs\<close>, first part: the request metadata of the execution governance framework with its 120-byte
  encoding, the governance decisions, and the per-request state registry \<open>ExecutionStateMachine\<close>.

  \<open>ttl\<close> is an \<open>f64\<close> that comes from the wire, so it is kept as its IEEE-754 bit pattern and read with
  \<open>f64_value\<close>: it may be infinite or not a number. A string stands for its UTF-8 bytes; an index that falls
  inside a character is a panic (\<open>None\<close>).
\<close>

section \<open>Definitions\<close>

subsection \<open>Floating-point fields and UTF-8\<close>

datatype f64v = Finite rat | PosInfinity | NegInfinity | NotANumber

definition f64_value :: "u64 \<Rightarrow> f64v" where
  "f64_value b =
     (let neg = bit b 63; e = unat (drop_bit 52 b AND 0x7FF); f = unat (b AND 0xFFFFFFFFFFFFF);
          sg = (if neg then - 1 else 1)
      in if e = 2047 then (if f = 0 then (if neg then NegInfinity else PosInfinity) else NotANumber)
         else if e = 0 then Finite (sg * of_nat f / 2 ^ 1074)
         else Finite (sg * of_nat ((2 ^ 52 + f) * 2 ^ e) / 2 ^ 1075))"

text \<open>\<open>x < now\<close> for a field \<open>x\<close> and a clock read \<open>now\<close>.\<close>

definition f64_before :: "u64 \<Rightarrow> secs \<Rightarrow> bool" where
  "f64_before x now = (case f64_value x of Finite r \<Rightarrow> r < now | NegInfinity \<Rightarrow> True | _ \<Rightarrow> False)"

definition is_cont :: "u8 \<Rightarrow> bool" where
  "is_cont b \<longleftrightarrow> 0x80 \<le> b \<and> b \<le> 0xBF"

text \<open>The continuation bytes that a lead byte wants, and the range of the first of them.\<close>

definition utf8_lead :: "u8 \<Rightarrow> (nat \<times> u8 \<times> u8) option" where
  "utf8_lead b =
     (if b < 0x80 then Some (0, 0x80, 0xBF)
      else if b < 0xC2 then None
      else if b < 0xE0 then Some (1, 0x80, 0xBF)
      else if b = 0xE0 then Some (2, 0xA0, 0xBF)
      else if b = 0xED then Some (2, 0x80, 0x9F)
      else if b < 0xF0 then Some (2, 0x80, 0xBF)
      else if b = 0xF0 then Some (3, 0x90, 0xBF)
      else if b < 0xF4 then Some (3, 0x80, 0xBF)
      else if b = 0xF4 then Some (3, 0x80, 0x8F)
      else None)"

definition utf8_conts :: "nat \<times> u8 \<times> u8 \<Rightarrow> bytes \<Rightarrow> nat" where
  "utf8_conts = (\<lambda>(n, lo, hi) bs. case bs of
       [] \<Rightarrow> 0
     | c # cs \<Rightarrow> if n = 0 \<or> \<not> (lo \<le> c \<and> c \<le> hi) then 0 else Suc (length (takeWhile is_cont (take (n - 1) cs))))"

text \<open>\<open>String::from_utf8_lossy\<close>: each maximal part of an ill-formed sequence becomes U+FFFD.\<close>

function utf8_lossy :: "bytes \<Rightarrow> bytes" where
  "utf8_lossy [] = []"
| "utf8_lossy (b # bs) =
     (case utf8_lead b of
        None \<Rightarrow> [0xEF, 0xBF, 0xBD] @ utf8_lossy bs
      | Some w \<Rightarrow> (let k = utf8_conts w bs in
          (if k = fst w then b # take k bs else [0xEF, 0xBF, 0xBD]) @ utf8_lossy (drop k bs)))"
  by pat_completeness auto

termination
  by (relation "measure length") (simp_all add: less_Suc_eq_le)

function utf8_valid :: "bytes \<Rightarrow> bool" where
  "utf8_valid [] = True"
| "utf8_valid (b # bs) =
     (case utf8_lead b of
        None \<Rightarrow> False
      | Some w \<Rightarrow> utf8_conts w bs = fst w \<and> utf8_valid (drop (fst w) bs))"
  by pat_completeness auto

termination
  by (relation "measure length") (simp_all add: less_Suc_eq_le)

subsection \<open>Metadata\<close>

definition RID_ROOT :: string where
  "RID_ROOT = ''00000000000000000000000000000000''"

definition CID_NONE :: string where
  "CID_NONE = ''00000000000000000000000000000000''"

definition AEGF_META_SIZE :: nat where "AEGF_META_SIZE = 120"
definition MAX_HC :: u16 where "MAX_HC = 0xFFFF"
definition MAX_ED :: u16 where "MAX_ED = 0xFFFF"
definition REPEATED_PATH_THRESHOLD :: nat where "REPEATED_PATH_THRESHOLD = 2"

datatype GovernanceDecision = Allow | Pause | Review | Terminate

record AEGFMetadata =
  md_cid :: string
  md_rid :: string
  md_prid :: string
  md_sid :: string
  md_oaid :: string
  md_hc :: u16
  md_ed :: u16
  md_ttl :: u64

definition str_to_16 :: "string \<Rightarrow> bytes option" where
  "str_to_16 s =
     (let clean = filter (\<lambda>c. c \<noteq> CHR ''-'') s; n = min (length clean) 32 in
      if n < length clean \<and> is_cont (of_char (clean ! n)) then None
      else let cut = take n clean;
               chars = length (filter (\<lambda>c. \<not> is_cont (of_char c)) cut);
               padded = cut @ replicate (32 - chars) (CHR ''0'')
           in Some (case hex_decode padded of Some bs \<Rightarrow> take 16 bs | None \<Rightarrow> replicate 16 0))"

definition bytes16_to_hex :: "bytes \<Rightarrow> string" where
  "bytes16_to_hex b = hex_encode b"

definition oaid_to_32 :: "string \<Rightarrow> bytes" where
  "oaid_to_32 oaid = (let raw = str_bytes oaid; n = min (length raw) 32 in take n raw @ replicate (32 - n) 0)"

definition bytes32_to_oaid :: "bytes \<Rightarrow> string" where
  "bytes32_to_oaid b = bytes_str (utf8_lossy (rev (dropWhile (\<lambda>x. x = 0) (rev b))))"

text \<open>\<open>AEGFMetadata::new\<close>; the two fresh identifiers and the sum of the clock and the lifetime are arguments.\<close>

definition new_metadata ::
  "string \<Rightarrow> string \<Rightarrow> string option \<Rightarrow> string option \<Rightarrow> u64 \<Rightarrow> u16 \<Rightarrow> u16 \<Rightarrow> string \<Rightarrow> string \<Rightarrow> AEGFMetadata" where
  "new_metadata oaid sid cid prid ttl hc ed uuid1 uuid2 =
     \<lparr>md_cid = (case cid of Some s \<Rightarrow> s | None \<Rightarrow> uuid1), md_rid = uuid2,
      md_prid = (case prid of None \<Rightarrow> RID_ROOT | Some s \<Rightarrow> s), md_sid = sid, md_oaid = oaid,
      md_hc = hc, md_ed = ed, md_ttl = ttl\<rparr>"

definition derive_metadata :: "AEGFMetadata \<Rightarrow> string option \<Rightarrow> string \<Rightarrow> AEGFMetadata result" where
  "derive_metadata parent new_oaid uuid =
     (if md_hc parent = MAX_HC then Err AegfHopLimitExceeded
      else if md_ed parent = MAX_ED then Err AegfDepthLimitExceeded
      else Ok (parent\<lparr>md_rid := uuid, md_prid := md_rid parent,
                 md_oaid := (case new_oaid of Some a \<Rightarrow> a | None \<Rightarrow> md_oaid parent),
                 md_hc := md_hc parent + 1, md_ed := md_ed parent + 1\<rparr>))"

definition pack_metadata :: "AEGFMetadata \<Rightarrow> bytes option" where
  "pack_metadata m =
     (case (str_to_16 (md_cid m), str_to_16 (md_rid m), str_to_16 (md_prid m), str_to_16 (md_sid m)) of
        (Some cid_b, Some rid_b, Some prid_b, Some sid_b) \<Rightarrow>
          Some (cid_b @ rid_b @ prid_b @ sid_b @ oaid_to_32 (md_oaid m) @
                to_be_bytes 2 (md_hc m) @ to_be_bytes 2 (md_ed m) @ to_be_bytes 8 (md_ttl m) @ replicate 12 0)
      | _ \<Rightarrow> None)"

definition unpack_metadata :: "bytes \<Rightarrow> AEGFMetadata result" where
  "unpack_metadata d =
     (if length d < AEGF_META_SIZE then Err MalformedHeader
      else Ok \<lparr>md_cid = bytes16_to_hex (slice 0 16 d), md_rid = bytes16_to_hex (slice 16 32 d),
               md_prid = bytes16_to_hex (slice 32 48 d), md_sid = bytes16_to_hex (slice 48 64 d),
               md_oaid = bytes32_to_oaid (slice 64 96 d),
               md_hc = from_be_bytes (slice 96 98 d), md_ed = from_be_bytes (slice 98 100 d),
               md_ttl = from_be_bytes (slice 100 108 d)\<rparr>)"

definition metadata_expired :: "AEGFMetadata \<Rightarrow> secs \<Rightarrow> bool" where
  "metadata_expired m now = f64_before (md_ttl m) now"

definition metadata_is_root :: "AEGFMetadata \<Rightarrow> bool" where
  "metadata_is_root m \<longleftrightarrow> md_prid m = RID_ROOT \<or> md_prid m = CID_NONE"

subsection \<open>Execution states\<close>

datatype ExecutionState =
    Created | Processing | WaitingAgentResponse | WaitingExternalResource | WaitingHumanReview | Paused
  | Completed | Failed | Terminated | Expired

fun is_terminal :: "ExecutionState \<Rightarrow> bool" where
  "is_terminal Completed = True"
| "is_terminal Failed = True"
| "is_terminal Terminated = True"
| "is_terminal Expired = True"
| "is_terminal _ = False"

fun allowed_transitions :: "ExecutionState \<Rightarrow> ExecutionState list" where
  "allowed_transitions Created = [Processing, WaitingHumanReview, Paused, Completed, Failed, Terminated, Expired]"
| "allowed_transitions Processing =
     [WaitingAgentResponse, WaitingExternalResource, WaitingHumanReview, Paused, Completed, Failed, Terminated, Expired]"
| "allowed_transitions WaitingAgentResponse =
     [Processing, WaitingHumanReview, Paused, Completed, Failed, Terminated, Expired]"
| "allowed_transitions WaitingExternalResource =
     [Processing, WaitingHumanReview, Paused, Completed, Failed, Terminated, Expired]"
| "allowed_transitions WaitingHumanReview = [Processing, Paused, Completed, Failed, Terminated, Expired]"
| "allowed_transitions Paused = [Processing, WaitingHumanReview, Completed, Failed, Terminated, Expired]"
| "allowed_transitions Completed = []"
| "allowed_transitions Failed = []"
| "allowed_transitions Terminated = []"
| "allowed_transitions Expired = []"

record StateRecord =
  sr_state :: ExecutionState
  sr_reason :: string
  sr_updated_at :: secs
  sr_created_at :: secs

type_synonym esm = "(string, StateRecord) hmap"

definition ESM_MAX_ENTRIES :: nat where "ESM_MAX_ENTRIES = 100000"

definition evict_if_needed :: "esm \<Rightarrow> esm" where
  "evict_if_needed states =
     (if length states < ESM_MAX_ENTRIES then states
      else let terminal = take 10000 (map fst (filter (\<lambda>(_, rec). is_terminal (sr_state rec)) states));
               states1 = remove_keys terminal states
           in if length states1 \<ge> ESM_MAX_ENTRIES
              then remove_keys (oldest_keys 1000 sr_updated_at states1) states1
              else states1)"

text \<open>\<open>create\<close> refuses a registered identifier with a message (\<open>None\<close>).\<close>

definition esm_create :: "esm \<Rightarrow> string \<Rightarrow> string \<Rightarrow> secs \<Rightarrow> esm \<times> ExecutionState option" where
  "esm_create states rid reason now =
     (if contains_key states rid then (states, None)
      else (AList.update rid \<lparr>sr_state = Created, sr_reason = reason, sr_updated_at = now, sr_created_at = now\<rparr>
              (evict_if_needed states), Some Created))"

definition esm_transition ::
  "esm \<Rightarrow> string \<Rightarrow> ExecutionState \<Rightarrow> string \<Rightarrow> secs \<Rightarrow> esm \<times> ExecutionState result" where
  "esm_transition states rid new_state reason now =
     (case map_of states rid of
        None \<Rightarrow> (states, Err AegfInvalidTransition)
      | Some rec \<Rightarrow>
          if new_state \<notin> set (allowed_transitions (sr_state rec)) then (states, Err AegfInvalidTransition)
          else (AList.update rid (rec\<lparr>sr_state := new_state, sr_reason := reason, sr_updated_at := now\<rparr>) states,
                Ok new_state))"

definition esm_get_state :: "esm \<Rightarrow> string \<Rightarrow> ExecutionState option" where
  "esm_get_state states rid = map_option sr_state (map_of states rid)"

definition esm_get_record :: "esm \<Rightarrow> string \<Rightarrow> StateRecord option" where
  "esm_get_record states rid = map_of states rid"

definition esm_remove :: "esm \<Rightarrow> string \<Rightarrow> esm \<times> bool" where
  "esm_remove states rid = (AList.delete rid states, contains_key states rid)"

definition expire_old :: "esm \<Rightarrow> secs \<Rightarrow> secs \<Rightarrow> esm \<times> nat" where
  "expire_old states max_age now =
     (let cutoff = now - max_age;
          to_remove = map fst (filter (\<lambda>(_, rec). is_terminal (sr_state rec) \<and> sr_updated_at rec < cutoff) states)
      in (remove_keys to_remove states, length to_remove))"

definition esm_count :: "esm \<Rightarrow> nat" where
  "esm_count states = length states"

section \<open>Encoding\<close>

lemma utf8_lossy_valid: "utf8_valid bs \<Longrightarrow> utf8_lossy bs = bs"
proof (induction bs rule: utf8_valid.induct)
  case (2 b bs)
  then obtain w where "utf8_lead b = Some w" "utf8_conts w bs = fst w" "utf8_valid (drop (fst w) bs)"
    by (auto split: option.splits)
  with 2(1) [of w] show ?case by simp
qed simp

lemma length_hex_decode: "hex_decode s = Some bs \<Longrightarrow> 2 * length bs = length s"
  by (induction s arbitrary: bs rule: hex_decode.induct) (auto split: option.splits)

lemma length_hex_encode: "length (hex_encode bs) = 2 * length bs"
  by (induction bs) (simp_all add: hex_encode_def)

lemma hex_encode_chars:
  assumes "c \<in> set (hex_encode bs)"
  shows "c \<noteq> CHR ''-''" "\<not> is_cont (of_char c)"
proof -
  have digit: "\<forall>n \<in> set [0..<16]. hex_digit n \<noteq> CHR ''-'' \<and> \<not> is_cont (of_char (hex_digit n))" by code_simp
  have "unat b div 16 < 16" "unat b mod 16 < 16" for b :: u8
    using unsigned_less [of b, where ?'a = nat] by (simp_all add: less_mult_imp_div_less)
  with assms digit show "c \<noteq> CHR ''-''" "\<not> is_cont (of_char c)" by (auto simp: hex_encode_def)
qed

lemma str_to_16_hex_encode: "length b = 16 \<Longrightarrow> str_to_16 (hex_encode b) = Some b"
proof -
  assume b: "length b = 16"
  have "filter (\<lambda>c. c \<noteq> CHR ''-'') (hex_encode b) = hex_encode b" "filter (\<lambda>c. \<not> is_cont (of_char c)) (hex_encode b) = hex_encode b"
    using hex_encode_chars by (auto simp: filter_id_conv)
  with b show ?thesis by (simp add: str_to_16_def length_hex_encode Let_def)
qed

lemma length_str_to_16: "str_to_16 s = Some b \<Longrightarrow> length b = 16"
proof -
  assume s: "str_to_16 s = Some b"
  define cut where "cut = take (min (length (filter (\<lambda>c. c \<noteq> CHR ''-'') s)) 32) (filter (\<lambda>c. c \<noteq> CHR ''-'') s)"
  define padded where "padded = cut @ replicate (32 - length (filter (\<lambda>c. \<not> is_cont (of_char c)) cut)) (CHR ''0'')"
  have "length (filter (\<lambda>c. \<not> is_cont (of_char c)) cut) \<le> length cut" by (rule length_filter_le)
  then have "32 \<le> length padded" by (simp add: padded_def del: length_filter_le)
  moreover have "b = (case hex_decode padded of Some bs \<Rightarrow> take 16 bs | None \<Rightarrow> replicate 16 0)"
    using s unfolding str_to_16_def Let_def cut_def [symmetric] padded_def [symmetric] by (simp split: if_split_asm)
  ultimately show "length b = 16" using length_hex_decode [of padded] by (cases "hex_decode padded") simp_all
qed

lemma length_oaid_to_32 [simp]: "length (oaid_to_32 s) = 32"
  by (simp add: oaid_to_32_def Let_def min_def)

lemma length_pack_metadata: "pack_metadata m = Some b \<Longrightarrow> length b = AEGF_META_SIZE"
  by (auto simp: pack_metadata_def AEGF_META_SIZE_def length_str_to_16 split: option.splits)

lemma bytes32_to_oaid_inverse:
  assumes "length s \<le> 32" "utf8_valid (str_bytes s)" "s = [] \<or> last (str_bytes s) \<noteq> 0"
  shows "bytes32_to_oaid (oaid_to_32 s) = s"
proof -
  have l: "length (str_bytes s) = length s" by (simp add: str_bytes_def)
  then have eq: "oaid_to_32 s = str_bytes s @ replicate (32 - length s) 0"
    using assms(1) by (simp add: oaid_to_32_def Let_def)
  have zeros: "dropWhile (\<lambda>x. x = 0) (replicate n 0 @ xs) = dropWhile (\<lambda>x. x = 0) xs" for n and xs :: bytes
    by (induction n) simp_all
  have "dropWhile (\<lambda>x. x = 0) (rev (str_bytes s)) = rev (str_bytes s)"
    using assms(3) l by (cases "str_bytes s" rule: rev_cases) auto
  then show ?thesis using assms(2) by (simp add: bytes32_to_oaid_def eq zeros utf8_lossy_valid)
qed

text \<open>A record whose identifiers are the lower-case hex of 16 bytes and whose agent name fits the field.\<close>

definition canonical_metadata :: "AEGFMetadata \<Rightarrow> bool" where
  "canonical_metadata m \<longleftrightarrow>
     (\<forall>s \<in> {md_cid m, md_rid m, md_prid m, md_sid m}. \<exists>b. length b = 16 \<and> s = hex_encode b) \<and>
     length (md_oaid m) \<le> 32 \<and> utf8_valid (str_bytes (md_oaid m)) \<and>
     (md_oaid m = [] \<or> last (str_bytes (md_oaid m)) \<noteq> 0)"

lemma metadata_roundtrip:
  assumes "canonical_metadata m"
  shows "\<exists>b. pack_metadata m = Some b \<and> length b = AEGF_META_SIZE \<and> unpack_metadata (b @ rest) = Ok m"
proof -
  obtain c r p s where ids: "md_cid m = hex_encode c" "md_rid m = hex_encode r" "md_prid m = hex_encode p" "md_sid m = hex_encode s"
    and l: "length c = 16" "length r = 16" "length p = 16" "length s = 16"
    using assms by (auto simp: canonical_metadata_def)
  have o': "bytes32_to_oaid (oaid_to_32 (md_oaid m)) = md_oaid m"
    using assms by (intro bytes32_to_oaid_inverse) (auto simp: canonical_metadata_def)
  let ?b = "c @ r @ p @ s @ oaid_to_32 (md_oaid m) @ to_be_bytes 2 (md_hc m) @ to_be_bytes 2 (md_ed m) @
            to_be_bytes 8 (md_ttl m) @ replicate 12 0"
  have p: "pack_metadata m = Some ?b" using l by (simp add: pack_metadata_def ids str_to_16_hex_encode)
  moreover have "unpack_metadata (?b @ rest) = Ok m"
    using l o' by (simp add: unpack_metadata_def AEGF_META_SIZE_def bytes16_to_hex_def wire ids [symmetric])
  ultimately show ?thesis using length_pack_metadata [OF p] by blast
qed

section \<open>The state registry\<close>

lemma esm_wf_simps [simp]:
  "hm_wf states \<Longrightarrow> hm_wf (evict_if_needed states)"
  "hm_wf states \<Longrightarrow> hm_wf (fst (esm_create states rid reason now))"
  "hm_wf states \<Longrightarrow> hm_wf (fst (esm_transition states rid st reason now))"
  "hm_wf states \<Longrightarrow> hm_wf (fst (esm_remove states rid))"
  "hm_wf states \<Longrightarrow> hm_wf (fst (expire_old states age now))"
  by (simp_all add: evict_if_needed_def esm_create_def esm_transition_def esm_remove_def expire_old_def Let_def
    split: option.split)

lemma keys_evict_if_needed: "keys (evict_if_needed states) \<subseteq> keys states"
  by (auto simp: evict_if_needed_def Let_def)

lemma map_of_evict_if_needed:
  "map_of (evict_if_needed states) rid = None \<or> map_of (evict_if_needed states) rid = map_of states rid"
  by (simp add: evict_if_needed_def Let_def)

lemma length_evict_if_needed:
  assumes wf: "hm_wf states" and le: "length states \<le> ESM_MAX_ENTRIES"
  shows "length (evict_if_needed states) < ESM_MAX_ENTRIES"
proof -
  define s1 where "s1 = remove_keys (take 10000 (map fst (filter (\<lambda>(_, rec). is_terminal (sr_state rec)) states))) states"
  have wf1: "hm_wf s1" using wf by (simp add: s1_def)
  have "length s1 \<le> ESM_MAX_ENTRIES" using length_remove_keys_le [OF wf] le unfolding s1_def by (rule order_trans)
  moreover have "length (remove_keys (oldest_keys 1000 sr_updated_at s1) s1) = length s1 - 1000"
    by (rule length_remove_oldest [OF wf1])
  ultimately show ?thesis
    unfolding evict_if_needed_def Let_def s1_def [symmetric] by (auto simp: ESM_MAX_ENTRIES_def)
qed

lemma esm_create_bounded:
  assumes "hm_wf states" "length states \<le> ESM_MAX_ENTRIES"
  shows "length (fst (esm_create states rid reason now)) \<le> ESM_MAX_ENTRIES"
  using assms length_evict_if_needed [OF assms]
  by (auto simp: esm_create_def length_update Suc_le_eq)

lemma esm_transition_keeps [simp]:
  "keys (fst (esm_transition states rid st reason now)) = keys states"
  by (auto simp: esm_transition_def keys_dom split: option.split)

lemma esm_transition_length [simp]:
  "hm_wf states \<Longrightarrow> length (fst (esm_transition states rid st reason now)) = length states"
  by (simp add: length_eq_card_keys)

lemma terminal_no_transition: "is_terminal s \<Longrightarrow> allowed_transitions s = []"
  by (cases s) simp_all

lemma esm_transition_state:
  "esm_get_state (fst (esm_transition states rid st reason now)) r =
     (if r = rid \<and> (\<exists>s. esm_get_state states rid = Some s \<and> st \<in> set (allowed_transitions s)) then Some st
      else esm_get_state states r)"
  by (auto simp: esm_transition_def esm_get_state_def split: option.split)

lemma esm_create_state:
  "esm_get_state (fst (esm_create states rid reason now)) rid =
     (case esm_get_state states rid of None \<Rightarrow> Some Created | Some s \<Rightarrow> Some s)"
  by (auto simp: esm_create_def esm_get_state_def split: option.split)

lemma esm_create_other:
  "r \<noteq> rid \<Longrightarrow> esm_get_state (fst (esm_create states rid reason now)) r \<in> {None, esm_get_state states r}"
  using map_of_evict_if_needed [of states r] by (auto simp: esm_create_def esm_get_state_def)

lemma esm_create_result: "snd (esm_create states rid reason now) = None \<longleftrightarrow> esm_get_state states rid \<noteq> None"
  by (auto simp: esm_create_def esm_get_state_def)

end
