(* ===== verification/Aegf_Graph.thy ===== *)
theory Aegf_Graph
  imports Aegf_Meta
begin

text \<open>
  \<open>src/aegf.rs\<close>, second part: the \<open>DistributedExecutionGraph\<close>. Nodes point to their parent request
  (\<open>dn_prid\<close>); the loops that follow these pointers carry the set of visited nodes, which bounds them.

  \<open>deg_poisoned\<close> says that a thread panicked while it held the lock; such a flag is never cleared. The first
  \<open>try_lock\<close> of \<open>validate_and_add\<close> may fail because another thread holds the lock, which is the argument
  \<open>contended\<close>.
\<close>

section \<open>Definitions\<close>

record DEGNode =
  dn_rid :: string
  dn_prid :: string
  dn_meta :: AEGFMetadata
  dn_children :: "string set"

type_synonym deg_map = "(string, DEGNode) hmap"

record DegState =
  deg_nodes :: deg_map
  path_counts :: "(string \<times> string, nat) hmap"
  deg_poisoned :: bool

record AEGFPolicy =
  max_hop_count :: u16
  max_execution_depth :: u16
  max_conversation_lifetime :: secs
  max_delegation_depth :: u32
  max_capability_lifetime :: secs
  max_unresolved_deps :: nat
  esm_gc_age_seconds :: secs
  max_graph_nodes :: u32

definition default_aegf_policy :: AEGFPolicy where
  "default_aegf_policy =
     \<lparr>max_hop_count = 16, max_execution_depth = 8, max_conversation_lifetime = 3600, max_delegation_depth = 5,
      max_capability_lifetime = 300, max_unresolved_deps = 50, esm_gc_age_seconds = 7200, max_graph_nodes = 10000\<rparr>"

definition new_deg :: DegState where
  "new_deg = \<lparr>deg_nodes = [], path_counts = [], deg_poisoned = False\<rparr>"

definition new_node :: "AEGFMetadata \<Rightarrow> DEGNode" where
  "new_node meta = \<lparr>dn_rid = md_rid meta, dn_prid = md_prid meta, dn_meta = meta, dn_children = {}\<rparr>"

text \<open>The updates of the parent: its children, and the counter of the pair of agents.\<close>

definition add_child :: "string \<Rightarrow> string \<Rightarrow> deg_map \<Rightarrow> deg_map" where
  "add_child prid rid nodes =
     (if prid = RID_ROOT then nodes
      else case map_of nodes prid of
             None \<Rightarrow> nodes
           | Some parent \<Rightarrow> AList.update prid (parent\<lparr>dn_children := insert rid (dn_children parent)\<rparr>) nodes)"

definition remove_child :: "string \<Rightarrow> string \<Rightarrow> deg_map \<Rightarrow> deg_map" where
  "remove_child prid rid nodes =
     (if prid = RID_ROOT then nodes
      else case map_of nodes prid of
             None \<Rightarrow> nodes
           | Some parent \<Rightarrow> AList.update prid (parent\<lparr>dn_children := dn_children parent - {rid}\<rparr>) nodes)"

definition path_count :: "(string \<times> string, nat) hmap \<Rightarrow> string \<times> string \<Rightarrow> nat" where
  "path_count pc k = (case map_of pc k of None \<Rightarrow> 0 | Some n \<Rightarrow> n)"

definition parent_oaid :: "deg_map \<Rightarrow> string \<Rightarrow> string option" where
  "parent_oaid nodes prid =
     (if prid = RID_ROOT then None else map_option (\<lambda>p. md_oaid (dn_meta p)) (map_of nodes prid))"

definition bump_path :: "deg_map \<Rightarrow> AEGFMetadata \<Rightarrow> (string \<times> string, nat) hmap \<Rightarrow> (string \<times> string, nat) hmap" where
  "bump_path nodes meta pc =
     (case parent_oaid nodes (md_prid meta) of
        None \<Rightarrow> pc
      | Some a \<Rightarrow> AList.update (a, md_oaid meta) (path_count pc (a, md_oaid meta) + 1) pc)"

definition deg_add_node :: "DegState \<Rightarrow> AEGFMetadata \<Rightarrow> DegState" where
  "deg_add_node g meta =
     (let nodes = add_child (md_prid meta) (md_rid meta) (deg_nodes g)
      in g\<lparr>deg_nodes := AList.update (md_rid meta) (new_node meta) nodes,
           path_counts := bump_path nodes meta (path_counts g)\<rparr>)"

definition drop_path :: "deg_map \<Rightarrow> DEGNode \<Rightarrow> (string \<times> string, nat) hmap \<Rightarrow> (string \<times> string, nat) hmap" where
  "drop_path nodes node pc =
     (case parent_oaid nodes (dn_prid node) of
        None \<Rightarrow> pc
      | Some a \<Rightarrow> (case map_of pc (a, md_oaid (dn_meta node)) of
                    None \<Rightarrow> pc
                  | Some n \<Rightarrow> AList.update (a, md_oaid (dn_meta node)) (n - 1) pc))"

definition remove_request :: "DegState \<Rightarrow> string \<Rightarrow> DegState" where
  "remove_request g rid =
     (case map_of (deg_nodes g) rid of
        None \<Rightarrow> g
      | Some node \<Rightarrow>
          let nodes = remove_child (dn_prid node) rid (AList.delete rid (deg_nodes g))
          in g\<lparr>deg_nodes := nodes, path_counts := drop_path nodes node (path_counts g)\<rparr>)"

function ancestors_loop :: "deg_map \<Rightarrow> string set \<Rightarrow> string \<Rightarrow> string list" where
  "ancestors_loop nodes visited current =
     (case map_of nodes current of
        None \<Rightarrow> []
      | Some node \<Rightarrow>
          if dn_prid node = RID_ROOT \<or> dn_prid node \<in> visited then []
          else dn_prid node # ancestors_loop nodes (insert current visited) (dn_prid node))"
  by pat_completeness auto

termination
proof (relation "measure (\<lambda>(nodes, visited, current). 2 * card (keys nodes - visited) + (if current \<in> visited then 1 else 0))")
  fix nodes :: deg_map and visited current node
  assume c: "map_of nodes current = Some node" "\<not> (dn_prid node = RID_ROOT \<or> dn_prid node \<in> visited)"
  then have k: "current \<in> keys nodes" by (auto simp: keys_dom)
  have "card (keys nodes - insert current visited) < card (keys nodes - visited)" if "current \<notin> visited"
    using k that by (intro psubset_card_mono) auto
  moreover have "keys nodes - insert current visited = keys nodes - visited" if "current \<in> visited" using that by auto
  ultimately show "((nodes, insert current visited, dn_prid node), nodes, visited, current) \<in>
      measure (\<lambda>(nodes, visited, current). 2 * card (keys nodes - visited) + (if current \<in> visited then 1 else 0))"
    using c(2) by auto
qed simp

definition get_ancestors :: "DegState \<Rightarrow> string \<Rightarrow> string list" where
  "get_ancestors g rid = ancestors_loop (deg_nodes g) {} rid"

definition node_count :: "DegState \<Rightarrow> nat" where
  "node_count g = length (deg_nodes g)"

function has_cycle_loop :: "deg_map \<Rightarrow> string \<Rightarrow> string set \<Rightarrow> string \<Rightarrow> bool" where
  "has_cycle_loop nodes start path current =
     (if current = RID_ROOT then False
      else if current = start then True
      else if current \<in> path then True
      else case map_of nodes current of
             None \<Rightarrow> False
           | Some parent_node \<Rightarrow> has_cycle_loop nodes start (insert current path) (dn_prid parent_node))"
  by pat_completeness auto

termination
proof (relation "measure (\<lambda>(nodes, start, path, current). card (keys nodes - path))")
  fix nodes :: deg_map and start path current n
  assume "current \<notin> path" "map_of nodes current = Some n"
  then have "keys nodes - insert current path \<subset> keys nodes - path" by (auto simp: keys_dom)
  then show "((nodes, start, insert current path, dn_prid n), nodes, start, path, current)
      \<in> measure (\<lambda>(nodes, start, path, current). card (keys nodes - path))"
    by (simp add: psubset_card_mono)
qed simp

declare ancestors_loop.simps [simp del] has_cycle_loop.simps [simp del]

definition has_cycle_inner :: "deg_map \<Rightarrow> string \<Rightarrow> bool" where
  "has_cycle_inner nodes start =
     (case map_of nodes start of
        None \<Rightarrow> False
      | Some node \<Rightarrow> has_cycle_loop nodes start {} (dn_prid node))"

definition detect_cycle :: "DegState \<Rightarrow> string \<Rightarrow> bool" where
  "detect_cycle g rid = has_cycle_inner (deg_nodes g) rid"

definition detect_excessive_hops :: "AEGFMetadata \<Rightarrow> u16 \<Rightarrow> bool" where
  "detect_excessive_hops meta max_hc \<longleftrightarrow> md_hc meta > max_hc"

definition detect_excessive_depth :: "AEGFMetadata \<Rightarrow> u16 \<Rightarrow> bool" where
  "detect_excessive_depth meta max_ed \<longleftrightarrow> md_ed meta > max_ed"

definition detect_repeated_path :: "DegState \<Rightarrow> AEGFMetadata \<Rightarrow> bool" where
  "detect_repeated_path g meta =
     (case parent_oaid (deg_nodes g) (md_prid meta) of
        None \<Rightarrow> False
      | Some a \<Rightarrow> path_count (path_counts g) (a, md_oaid meta) \<ge> REPEATED_PATH_THRESHOLD)"

text \<open>The insertion under the lock: the node is taken back when it closes a cycle.\<close>

definition commit_node :: "DegState \<Rightarrow> AEGFMetadata \<Rightarrow> DegState \<times> GovernanceDecision" where
  "commit_node g meta =
     (let rid = md_rid meta; prid = md_prid meta;
          nodes = add_child prid rid (AList.update rid (new_node meta) (deg_nodes g))
      in if has_cycle_inner nodes rid
         then (g\<lparr>deg_nodes := remove_child prid rid (AList.delete rid nodes)\<rparr>, Review)
         else (g\<lparr>deg_nodes := nodes, path_counts := bump_path nodes meta (path_counts g)\<rparr>, Allow))"

definition validate_and_add ::
  "DegState \<Rightarrow> AEGFMetadata \<Rightarrow> AEGFPolicy \<Rightarrow> secs \<Rightarrow> bool \<Rightarrow> DegState \<times> GovernanceDecision" where
  "validate_and_add g meta policy now contended =
     (if \<not> contended \<and> \<not> deg_poisoned g \<and> length (deg_nodes g) \<ge> unat (max_graph_nodes policy) then (g, Pause)
      else if metadata_expired meta now then (g, Terminate)
      else if detect_excessive_hops meta (max_hop_count policy) then (g, Pause)
      else if detect_excessive_depth meta (max_execution_depth policy) then (g, Pause)
      else if deg_poisoned g then (g, Pause)
      else if length (deg_nodes g) \<ge> unat (max_graph_nodes policy) then (g, Pause)
      else if detect_repeated_path g meta then (g, Review)
      else commit_node g meta)"

definition validate_transient_root :: "DegState \<Rightarrow> AEGFMetadata \<Rightarrow> AEGFPolicy \<Rightarrow> secs \<Rightarrow> GovernanceDecision" where
  "validate_transient_root g meta policy now =
     (if metadata_expired meta now then Terminate
      else if detect_excessive_hops meta (max_hop_count policy) then Pause
      else if detect_excessive_depth meta (max_execution_depth policy) then Pause
      else if length (deg_nodes g) \<ge> unat (max_graph_nodes policy) then Pause
      else Allow)"

definition evict_node :: "string \<Rightarrow> deg_map \<Rightarrow> deg_map" where
  "evict_node rid nodes =
     (case map_of nodes rid of
        None \<Rightarrow> nodes
      | Some node \<Rightarrow> remove_child (dn_prid node) rid (AList.delete rid nodes))"

definition evict_expired :: "DegState \<Rightarrow> secs \<Rightarrow> DegState \<times> nat" where
  "evict_expired g now =
     (let expired = map fst (filter (\<lambda>(_, node). f64_before (md_ttl (dn_meta node)) now) (deg_nodes g))
      in (g\<lparr>deg_nodes := fold evict_node expired (deg_nodes g),
            path_counts := retain (\<lambda>_ v. v > 0) (path_counts g)\<rparr>, length expired))"

section \<open>The parent relation\<close>

text \<open>The pairs of a request and its parent request; a root request has no parent.\<close>

definition deg_edges :: "deg_map \<Rightarrow> (string \<times> string) set" where
  "deg_edges nodes = {(r, p). p \<noteq> RID_ROOT \<and> map_option dn_prid (map_of nodes r) = Some p}"

lemma deg_edges_iff: "(r, p) \<in> deg_edges nodes \<longleftrightarrow> p \<noteq> RID_ROOT \<and> (\<exists>n. map_of nodes r = Some n \<and> dn_prid n = p)"
  by (auto simp: deg_edges_def)

lemma deg_edges_unique: "(r, p) \<in> deg_edges nodes \<Longrightarrow> (r, q) \<in> deg_edges nodes \<Longrightarrow> p = q"
  by (auto simp: deg_edges_iff)

lemma child_prids [simp]:
  "map_option dn_prid (map_of (add_child prid rid nodes) r) = map_option dn_prid (map_of nodes r)"
  "map_option dn_prid (map_of (remove_child prid rid nodes) r) = map_option dn_prid (map_of nodes r)"
  by (auto simp: add_child_def remove_child_def split: option.split)

lemma child_edges [simp]:
  "deg_edges (add_child prid rid nodes) = deg_edges nodes"
  "deg_edges (remove_child prid rid nodes) = deg_edges nodes"
  by (simp_all only: deg_edges_def child_prids)

lemma child_keys [simp]:
  "keys (add_child prid rid nodes) = keys nodes" "keys (remove_child prid rid nodes) = keys nodes"
  "hm_wf nodes \<Longrightarrow> hm_wf (add_child prid rid nodes)" "hm_wf nodes \<Longrightarrow> hm_wf (remove_child prid rid nodes)"
  by (auto simp: add_child_def remove_child_def keys_dom split: option.split)

lemma child_length [simp]:
  "hm_wf nodes \<Longrightarrow> length (add_child prid rid nodes) = length nodes"
  "hm_wf nodes \<Longrightarrow> length (remove_child prid rid nodes) = length nodes"
  by (simp_all add: length_eq_card_keys)

lemma child_meta [simp]:
  "map_option dn_meta (map_of (add_child prid rid nodes) r) = map_option dn_meta (map_of nodes r)"
  "map_option dn_meta (map_of (remove_child prid rid nodes) r) = map_option dn_meta (map_of nodes r)"
  by (auto simp: add_child_def remove_child_def split: option.split)

lemma parent_oaid_child [simp]:
  "parent_oaid (add_child prid rid nodes) q = parent_oaid nodes q"
  "parent_oaid (remove_child prid rid nodes) q = parent_oaid nodes q"
  by (auto simp: parent_oaid_def add_child_def remove_child_def split: option.split)

lemma edges_delete: "deg_edges (AList.delete rid nodes) = {(r, p) \<in> deg_edges nodes. r \<noteq> rid}"
  by (auto simp: deg_edges_def split: if_splits)

lemma edges_update:
  "deg_edges (AList.update rid node nodes) =
     {(r, p) \<in> deg_edges nodes. r \<noteq> rid} \<union> (if dn_prid node = RID_ROOT then {} else {(rid, dn_prid node)})"
  by (auto simp: deg_edges_def split: if_splits)

section \<open>Cycle detection\<close>

text \<open>A request from which following the parents never ends.\<close>

definition on_cyclic_chain :: "deg_map \<Rightarrow> string \<Rightarrow> bool" where
  "on_cyclic_chain nodes r \<longleftrightarrow> (\<exists>t. (r, t) \<in> (deg_edges nodes)\<^sup>* \<and> (t, t) \<in> (deg_edges nodes)\<^sup>+)"

lemma cyclic_chain_step:
  assumes "on_cyclic_chain nodes r" "map_of nodes r = Some n"
  shows "dn_prid n \<noteq> RID_ROOT \<and> on_cyclic_chain nodes (dn_prid n)"
proof -
  let ?E = "deg_edges nodes"
  obtain t where t: "(r, t) \<in> ?E\<^sup>*" "(t, t) \<in> ?E\<^sup>+" using assms(1) by (auto simp: on_cyclic_chain_def)
  then have "(r, t) \<in> ?E\<^sup>+" by (rule rtrancl_trancl_trancl)
  then obtain p where p: "(r, p) \<in> ?E" "(p, t) \<in> ?E\<^sup>*" by (meson tranclD)
  with assms(2) have "p = dn_prid n" "p \<noteq> RID_ROOT" by (auto simp: deg_edges_iff)
  with p(2) t(2) show ?thesis by (auto simp: on_cyclic_chain_def)
qed

lemma cyclic_chain_node: "on_cyclic_chain nodes r \<Longrightarrow> map_of nodes r \<noteq> None"
proof -
  assume "on_cyclic_chain nodes r"
  then obtain t where "(r, t) \<in> (deg_edges nodes)\<^sup>+" by (auto simp: on_cyclic_chain_def dest: rtrancl_trancl_trancl)
  then show "map_of nodes r \<noteq> None" by (auto simp: deg_edges_iff dest!: tranclD)
qed

lemma has_cycle_loop_complete:
  "current \<noteq> RID_ROOT \<Longrightarrow> on_cyclic_chain nodes current \<Longrightarrow> has_cycle_loop nodes start path current"
proof (induction nodes start path current rule: has_cycle_loop.induct)
  case (1 nodes start path current)
  obtain n where n: "map_of nodes current = Some n" using cyclic_chain_node [OF 1(3)] by blast
  show ?case using 1(1) [OF 1(2) _ _ n] cyclic_chain_step [OF 1(3) n] 1(2) n
    by (simp add: has_cycle_loop.simps [of nodes start path current])
qed

lemma has_cycle_loop_sound:
  assumes "has_cycle_loop nodes start path current" "current \<noteq> RID_ROOT \<Longrightarrow> (start, current) \<in> (deg_edges nodes)\<^sup>+"
    "\<And>x. current \<noteq> RID_ROOT \<Longrightarrow> x \<in> path \<Longrightarrow> (x, current) \<in> (deg_edges nodes)\<^sup>+"
  shows "on_cyclic_chain nodes start"
  using assms
proof (induction nodes start path current rule: has_cycle_loop.induct)
  case (1 nodes start path current)
  let ?E = "deg_edges nodes"
  have cur: "current \<noteq> RID_ROOT" using 1(2) by (auto simp: has_cycle_loop.simps [of nodes start path current])
  note sc = 1(3) [OF cur] and pc = 1(4) [OF cur]
  consider "current = start" | "current \<in> path" | "current \<noteq> start" "current \<notin> path" by blast
  then show ?case
  proof cases
    case 1
    with sc show ?thesis by (auto simp: on_cyclic_chain_def)
  next
    case 2
    with sc pc show ?thesis by (auto simp: on_cyclic_chain_def intro: trancl_into_rtrancl)
  next
    case 3
    with 1(2) cur obtain n where n: "map_of nodes current = Some n"
      and loop: "has_cycle_loop nodes start (insert current path) (dn_prid n)"
      by (auto simp: has_cycle_loop.simps [of nodes start path current] split: option.splits)
    have e: "dn_prid n \<noteq> RID_ROOT \<Longrightarrow> (current, dn_prid n) \<in> ?E" using n by (simp add: deg_edges_iff)
    show ?thesis
    proof (rule 1(1) [OF cur 3 n loop])
      show "dn_prid n \<noteq> RID_ROOT \<Longrightarrow> (start, dn_prid n) \<in> ?E\<^sup>+" using sc e by (blast intro: trancl_into_trancl)
      show "\<And>x. dn_prid n \<noteq> RID_ROOT \<Longrightarrow> x \<in> insert current path \<Longrightarrow> (x, dn_prid n) \<in> ?E\<^sup>+"
        using pc e by (blast intro: trancl_into_trancl)
    qed
  qed
qed

lemma has_cycle_inner_exact: "has_cycle_inner nodes rid \<longleftrightarrow> on_cyclic_chain nodes rid"
proof (cases "map_of nodes rid")
  case None
  then show ?thesis using cyclic_chain_node [of nodes rid] by (auto simp: has_cycle_inner_def)
next
  case (Some n)
  have "has_cycle_loop nodes rid {} (dn_prid n)" if "on_cyclic_chain nodes rid"
    using cyclic_chain_step [OF that Some] by (blast intro: has_cycle_loop_complete)
  moreover have "on_cyclic_chain nodes rid" if "has_cycle_loop nodes rid {} (dn_prid n)"
    using that Some by (rule_tac has_cycle_loop_sound) (auto simp: deg_edges_iff)
  ultimately show ?thesis using Some by (auto simp: has_cycle_inner_def)
qed

lemma trancl_through:
  assumes "(a, b) \<in> E'\<^sup>+" and out: "\<And>r p. (r, p) \<in> E' \<Longrightarrow> r \<noteq> x \<Longrightarrow> (r, p) \<in> E"
  shows "(a, b) \<in> E\<^sup>+ \<or> (a, x) \<in> E'\<^sup>* \<and> (x, b) \<in> E'\<^sup>+"
  using assms(1)
proof (induction b rule: trancl_induct)
  case (base b)
  then show ?case using out by (cases "a = x") auto
next
  case (step b c)
  have "(a, x) \<in> E'\<^sup>* \<and> (x, c) \<in> E'\<^sup>+" if "b = x" using step.hyps that by (auto simp: trancl_into_rtrancl)
  moreover have "(b, c) \<in> E" if "b \<noteq> x" using out step.hyps(2) that by blast
  ultimately show ?case using step by (meson trancl_into_trancl)
qed

lemma acyclic_insert_node:
  assumes "acyclic E" "\<And>r p. (r, p) \<in> E' \<Longrightarrow> r \<noteq> x \<Longrightarrow> (r, p) \<in> E" "(x, x) \<notin> E'\<^sup>+"
  shows "acyclic E'"
proof (rule acyclicI, intro allI notI)
  fix a assume "(a, a) \<in> E'\<^sup>+"
  then have "(a, x) \<in> E'\<^sup>* \<and> (x, a) \<in> E'\<^sup>+"
    using trancl_through [OF _ assms(2), of a a] assms(1) by (auto simp: acyclic_def)
  then have "(x, x) \<in> E'\<^sup>+" by (meson trancl_rtrancl_trancl)
  with assms(3) show False by blast
qed

section \<open>Operations\<close>

lemma keys_evict_fold: "keys (fold evict_node rs nodes) \<subseteq> keys nodes" "hm_wf nodes \<Longrightarrow> hm_wf (fold evict_node rs nodes)"
proof -
  have k: "keys (evict_node r nodes) \<subseteq> keys nodes" "hm_wf nodes \<Longrightarrow> hm_wf (evict_node r nodes)" for r nodes
    by (auto simp: evict_node_def split: option.split)
  show "keys (fold evict_node rs nodes) \<subseteq> keys nodes" "hm_wf nodes \<Longrightarrow> hm_wf (fold evict_node rs nodes)"
    by (induction rs arbitrary: nodes) (use k in \<open>auto, blast\<close>)
qed

lemma edges_evict_fold: "deg_edges (fold evict_node rs nodes) \<subseteq> deg_edges nodes"
proof (induction rs arbitrary: nodes)
  case (Cons r rs)
  have "deg_edges (evict_node r nodes) \<subseteq> deg_edges nodes" by (auto simp: evict_node_def edges_delete split: option.split)
  with Cons [of "evict_node r nodes"] show ?case by auto
qed simp

lemma evict_removed: "map_of (evict_node r nodes) r = None"
  by (auto simp: evict_node_def remove_child_def split: option.split)

lemma evict_meta: "q \<noteq> r \<Longrightarrow> map_option dn_meta (map_of (evict_node r nodes) q) = map_option dn_meta (map_of nodes q)"
  by (auto simp: evict_node_def split: option.split)

lemma evict_fold_meta:
  "map_option dn_meta (map_of (fold evict_node rs nodes) q) =
     (if q \<in> set rs then None else map_option dn_meta (map_of nodes q))"
proof (induction rs arbitrary: nodes)
  case (Cons r rs)
  have "map_option dn_meta (map_of (evict_node r nodes) q) = (if q = r then None else map_option dn_meta (map_of nodes q))"
    by (simp add: evict_removed evict_meta)
  with Cons [of "evict_node r nodes"] show ?case by auto
qed simp

lemma bump_path_count:
  "path_count (bump_path nodes meta pc) k =
     (if \<exists>a. parent_oaid nodes (md_prid meta) = Some a \<and> k = (a, md_oaid meta) then path_count pc k + 1 else path_count pc k)"
  by (auto simp: bump_path_def path_count_def split: option.split)

text \<open>What the graph keeps: distinct keys, no cycle, and every counter at most the threshold.\<close>

definition deg_ok :: "DegState \<Rightarrow> bool" where
  "deg_ok g \<longleftrightarrow> hm_wf (deg_nodes g) \<and> hm_wf (path_counts g) \<and> acyclic (deg_edges (deg_nodes g)) \<and>
     (\<forall>k. path_count (path_counts g) k \<le> REPEATED_PATH_THRESHOLD)"

lemma new_deg_ok: "deg_ok new_deg"
proof -
  have "deg_edges [] = {}" by (auto simp: deg_edges_def)
  then show ?thesis by (simp add: deg_ok_def new_deg_def path_count_def acyclic_def)
qed

lemma deg_ok_shrink:
  assumes "deg_ok g" "hm_wf (deg_nodes g')" "hm_wf (path_counts g')" "deg_edges (deg_nodes g') \<subseteq> deg_edges (deg_nodes g)"
    "\<And>k. path_count (path_counts g') k \<le> path_count (path_counts g) k"
  shows "deg_ok g'"
proof -
  have "path_count (path_counts g') k \<le> REPEATED_PATH_THRESHOLD" for k
    using assms(1) by (intro order_trans [OF assms(5) [of k]]) (cases k, simp add: deg_ok_def)
  then show ?thesis using assms(1-3) acyclic_subset [OF _ assms(4)] by (simp add: deg_ok_def)
qed

lemma drop_path_le: "path_count (drop_path nodes node pc) k \<le> path_count pc k" "hm_wf pc \<Longrightarrow> hm_wf (drop_path nodes node pc)"
  by (auto simp: drop_path_def path_count_def split: option.split)

lemma path_count_retain: "hm_wf pc \<Longrightarrow> path_count (retain (\<lambda>_ v. v > 0) pc) k = path_count pc k"
  by (auto simp: path_count_def map_of_retain split: option.split)

lemma remove_request_ok: "deg_ok g \<Longrightarrow> deg_ok (remove_request g rid)"
proof (cases "map_of (deg_nodes g) rid")
  case None
  then show "deg_ok g \<Longrightarrow> deg_ok (remove_request g rid)" by (simp add: remove_request_def)
next
  case (Some node)
  assume ok: "deg_ok g"
  show ?thesis
    by (rule deg_ok_shrink [OF ok]) (use ok Some drop_path_le in \<open>auto simp: remove_request_def deg_ok_def Let_def edges_delete\<close>)
qed

lemma evict_expired_ok: "deg_ok g \<Longrightarrow> deg_ok (fst (evict_expired g now))"
proof (rule deg_ok_shrink)
  show "deg_edges (deg_nodes (fst (evict_expired g now))) \<subseteq> deg_edges (deg_nodes g)"
    using edges_evict_fold by (simp add: evict_expired_def Let_def)
qed (simp_all add: evict_expired_def deg_ok_def Let_def path_count_retain keys_evict_fold)

lemma validate_and_add_cases:
  obtains (kept) d where "validate_and_add g meta policy now contended = (g, d)" "d \<noteq> Allow"
  | (cycle) nodes where
      "nodes = add_child (md_prid meta) (md_rid meta) (AList.update (md_rid meta) (new_node meta) (deg_nodes g))"
      "on_cyclic_chain nodes (md_rid meta)"
      "validate_and_add g meta policy now contended =
         (g\<lparr>deg_nodes := remove_child (md_prid meta) (md_rid meta) (AList.delete (md_rid meta) nodes)\<rparr>, Review)"
  | (added) nodes where
      "nodes = add_child (md_prid meta) (md_rid meta) (AList.update (md_rid meta) (new_node meta) (deg_nodes g))"
      "\<not> on_cyclic_chain nodes (md_rid meta)" "\<not> detect_repeated_path g meta"
      "length (deg_nodes g) < unat (max_graph_nodes policy)" "\<not> metadata_expired meta now" "\<not> deg_poisoned g"
      "md_hc meta \<le> max_hop_count policy" "md_ed meta \<le> max_execution_depth policy"
      "validate_and_add g meta policy now contended =
         (g\<lparr>deg_nodes := nodes, path_counts := bump_path nodes meta (path_counts g)\<rparr>, Allow)"
proof -
  define stop where "stop \<longleftrightarrow> metadata_expired meta now \<or> max_hop_count policy < md_hc meta \<or>
    max_execution_depth policy < md_ed meta \<or> deg_poisoned g \<or> unat (max_graph_nodes policy) \<le> length (deg_nodes g) \<or>
    detect_repeated_path g meta"
  define nodes where
    "nodes = add_child (md_prid meta) (md_rid meta) (AList.update (md_rid meta) (new_node meta) (deg_nodes g))"
  have "\<exists>d. validate_and_add g meta policy now contended = (g, d) \<and> d \<noteq> Allow" if stop
    using that by (auto simp: validate_and_add_def stop_def detect_excessive_hops_def detect_excessive_depth_def)
  moreover have "validate_and_add g meta policy now contended =
      (if on_cyclic_chain nodes (md_rid meta)
       then (g\<lparr>deg_nodes := remove_child (md_prid meta) (md_rid meta) (AList.delete (md_rid meta) nodes)\<rparr>, Review)
       else (g\<lparr>deg_nodes := nodes, path_counts := bump_path nodes meta (path_counts g)\<rparr>, Allow))" if "\<not> stop"
    using that by (simp add: validate_and_add_def stop_def detect_excessive_hops_def detect_excessive_depth_def Let_def
      commit_node_def has_cycle_inner_exact nodes_def)
  ultimately show thesis
    by (cases stop; cases "on_cyclic_chain nodes (md_rid meta)")
      (use kept cycle [OF nodes_def] added [OF nodes_def] in \<open>auto simp: stop_def not_less not_le\<close>)
qed

lemma parent_oaid_update: "prid \<noteq> rid \<Longrightarrow> parent_oaid (AList.update rid node nodes) prid = parent_oaid nodes prid"
  by (simp add: parent_oaid_def)

lemma validate_and_add_ok:
  assumes ok: "deg_ok g"
  shows "deg_ok (fst (validate_and_add g meta policy now contended))"
proof (cases rule: validate_and_add_cases [of g meta policy now contended])
  case (kept d)
  with ok show ?thesis by simp
next
  case (cycle nodes)
  have "deg_edges (AList.delete (md_rid meta) nodes) \<subseteq> deg_edges (deg_nodes g)"
    unfolding cycle(1) edges_delete child_edges edges_update by auto
  then show ?thesis
    by (intro deg_ok_shrink [OF ok]) (use ok in \<open>simp_all add: cycle(3) deg_ok_def\<close>, simp add: cycle(1))
next
  case (added nodes)
  let ?E = "deg_edges nodes"
  have E: "?E = {(r, p) \<in> deg_edges (deg_nodes g). r \<noteq> md_rid meta} \<union>
      (if md_prid meta = RID_ROOT then {} else {(md_rid meta, md_prid meta)})"
    by (simp add: added(1) edges_update new_node_def)
  have self: "(md_rid meta, md_rid meta) \<notin> ?E\<^sup>+" using added(2) by (auto simp: on_cyclic_chain_def)
  have "acyclic (deg_edges (deg_nodes g))" using ok by (simp add: deg_ok_def)
  then have "acyclic ?E" by (rule acyclic_insert_node) (use self in \<open>auto simp: E split: if_splits\<close>)
  moreover have "parent_oaid nodes (md_prid meta) = parent_oaid (deg_nodes g) (md_prid meta)"
  proof (cases "md_prid meta = RID_ROOT")
    case False
    then have "(md_rid meta, md_prid meta) \<in> ?E" by (simp add: E)
    with self have "md_prid meta \<noteq> md_rid meta" by (metis r_into_trancl')
    then show ?thesis by (simp add: added(1) parent_oaid_update)
  qed (simp add: parent_oaid_def)
  then have "path_count (bump_path nodes meta (path_counts g)) k \<le> REPEATED_PATH_THRESHOLD" for k
    using ok added(3) by (cases k) (auto simp: bump_path_count deg_ok_def detect_repeated_path_def)
  moreover have "hm_wf nodes" "hm_wf (bump_path nodes meta (path_counts g))"
    using ok by (simp_all add: deg_ok_def added(1) bump_path_def split: option.split)
  ultimately show ?thesis by (simp add: added(9) deg_ok_def)
qed

lemma validate_and_add_length:
  assumes "hm_wf (deg_nodes g)" "length (deg_nodes g) \<le> B" "unat (max_graph_nodes policy) \<le> B"
  shows "length (deg_nodes (fst (validate_and_add g meta policy now contended))) \<le> B"
proof (cases rule: validate_and_add_cases [of g meta policy now contended])
  case (kept d)
  with assms show ?thesis by simp
next
  case (cycle nodes)
  have "length (AList.delete (md_rid meta) (AList.update (md_rid meta) (new_node meta) (deg_nodes g))) \<le> length (deg_nodes g)"
    using assms(1) by (simp add: length_eq_card_keys card_mono)
  moreover have "length (AList.delete (md_rid meta) nodes) =
      length (AList.delete (md_rid meta) (AList.update (md_rid meta) (new_node meta) (deg_nodes g)))"
    using assms(1) by (simp add: length_eq_card_keys cycle(1))
  ultimately show ?thesis using assms cycle by simp
next
  case (added nodes)
  then show ?thesis using assms by (simp add: length_update)
qed

lemma length_remove_request: "hm_wf (deg_nodes g) \<Longrightarrow> length (deg_nodes (remove_request g rid)) \<le> length (deg_nodes g)"
  by (auto simp: remove_request_def Let_def length_delete split: option.split)

lemma length_evict_expired: "hm_wf (deg_nodes g) \<Longrightarrow> length (deg_nodes (fst (evict_expired g now))) \<le> length (deg_nodes g)"
  by (simp add: evict_expired_def Let_def length_eq_card_keys keys_evict_fold card_mono)

lemma poisoned_kept [simp]:
  "deg_poisoned (remove_request g rid) = deg_poisoned g" "deg_poisoned (fst (evict_expired g now)) = deg_poisoned g"
  "deg_poisoned (deg_add_node g meta) = deg_poisoned g"
  by (simp_all add: remove_request_def evict_expired_def deg_add_node_def Let_def split: option.split)

end
