(* ===== verification/Aegf_Governor.thy ===== *)
theory Aegf_Governor
  imports Aegf_Graph
begin

text \<open>
  \<open>src/aegf.rs\<close>, third part: \<open>AEGFGovernor\<close>, which combines the execution graph, the state registry and the
  policy, with the fused operation \<open>submit_and_complete\<close> that the packet pipeline uses. The clock reads of one
  call are a record \<open>readings\<close>, in the order in which the code makes them.
\<close>

section \<open>Definitions\<close>

record AEGFGovernor =
  gov_policy :: AEGFPolicy
  gov_deg :: DegState
  gov_esm :: esm

record readings =
  at_submit :: secs
  at_validate :: secs
  at_create :: secs
  at_transition :: secs
  at_complete :: secs

definition new_governor :: "AEGFPolicy option \<Rightarrow> AEGFGovernor" where
  "new_governor policy =
     \<lparr>gov_policy = (case policy of Some p \<Rightarrow> p | None \<Rightarrow> default_aegf_policy), gov_deg = new_deg, gov_esm = []\<rparr>"

definition set_policy :: "AEGFGovernor \<Rightarrow> AEGFPolicy \<Rightarrow> AEGFGovernor" where
  "set_policy gov policy = gov\<lparr>gov_policy := policy\<rparr>"

text \<open>A transition whose result is discarded (\<open>let _ = self.esm.transition(..)\<close>).\<close>

definition try_transition :: "AEGFGovernor \<Rightarrow> string \<Rightarrow> ExecutionState \<Rightarrow> string \<Rightarrow> secs \<Rightarrow> AEGFGovernor" where
  "try_transition gov rid st reason now = gov\<lparr>gov_esm := fst (esm_transition (gov_esm gov) rid st reason now)\<rparr>"

text \<open>The early return for metadata that has expired on arrival.\<close>

definition expire_on_arrival :: "AEGFGovernor \<Rightarrow> string \<Rightarrow> readings \<Rightarrow> AEGFGovernor" where
  "expire_on_arrival gov rid t =
     try_transition (gov\<lparr>gov_esm := fst (esm_create (gov_esm gov) rid ''expired_on_arrival'' (at_create t))\<rparr>)
       rid Expired ''TTL expired'' (at_transition t)"

fun decision_state :: "GovernanceDecision \<Rightarrow> ExecutionState \<times> string" where
  "decision_state Allow = (Processing, ''governance_allow'')"
| "decision_state Pause = (Paused, ''governance_pause'')"
| "decision_state Review = (WaitingHumanReview, ''governance_review'')"
| "decision_state Terminate = (Terminated, ''governance_terminate'')"

text \<open>Step 4: register the request and move it to the state of the decision; a request that is already
  registered keeps its state and is answered by it.\<close>

definition register_request :: "AEGFGovernor \<Rightarrow> string \<Rightarrow> GovernanceDecision \<Rightarrow> readings \<Rightarrow> AEGFGovernor \<times> GovernanceDecision" where
  "register_request gov rid decision t =
     (case esm_create (gov_esm gov) rid ''submitted'' (at_create t) of
        (esm, None) \<Rightarrow>
          (gov\<lparr>gov_esm := esm\<rparr>,
           case esm_get_state esm rid of
             Some current \<Rightarrow> if is_terminal current then Terminate else Allow
           | None \<Rightarrow> Allow)
      | (esm, Some _) \<Rightarrow>
          (try_transition (gov\<lparr>gov_esm := esm\<rparr>) rid (fst (decision_state decision)) (snd (decision_state decision)) (at_transition t),
           decision))"

definition submit_request :: "AEGFGovernor \<Rightarrow> AEGFMetadata \<Rightarrow> readings \<Rightarrow> bool \<Rightarrow> AEGFGovernor \<times> GovernanceDecision" where
  "submit_request gov meta t contended =
     (if metadata_expired meta (at_submit t) then (expire_on_arrival gov (md_rid meta) t, Terminate)
      else case validate_and_add (gov_deg gov) meta (gov_policy gov) (at_validate t) contended of
             (deg, decision) \<Rightarrow> register_request (gov\<lparr>gov_deg := deg\<rparr>) (md_rid meta) decision t)"

definition complete_request :: "AEGFGovernor \<Rightarrow> string \<Rightarrow> ExecutionState option \<Rightarrow> secs \<Rightarrow> AEGFGovernor" where
  "complete_request gov rid outcome now =
     (let st = (case outcome of Some s \<Rightarrow> if is_terminal s then s else Completed | None \<Rightarrow> Completed);
          gov1 = try_transition gov rid st ''completed'' now
      in gov1\<lparr>gov_deg := remove_request (gov_deg gov1) rid\<rparr>)"

definition submit_and_complete :: "AEGFGovernor \<Rightarrow> AEGFMetadata \<Rightarrow> readings \<Rightarrow> bool \<Rightarrow> AEGFGovernor \<times> GovernanceDecision" where
  "submit_and_complete gov meta t contended =
     (if metadata_expired meta (at_submit t) then (expire_on_arrival gov (md_rid meta) t, Terminate)
      else
        let is_root = (md_prid meta = RID_ROOT);
            (deg, decision) =
              (if is_root then (gov_deg gov, validate_transient_root (gov_deg gov) meta (gov_policy gov) (at_validate t))
               else validate_and_add (gov_deg gov) meta (gov_policy gov) (at_validate t) contended);
            (gov1, final_decision) = register_request (gov\<lparr>gov_deg := deg\<rparr>) (md_rid meta) decision t;
            gov2 = try_transition gov1 (md_rid meta) Completed ''completed'' (at_complete t)
        in (if is_root then gov2 else gov2\<lparr>gov_deg := remove_request (gov_deg gov2) (md_rid meta)\<rparr>, final_decision))"

definition pause_request :: "AEGFGovernor \<Rightarrow> string \<Rightarrow> string \<Rightarrow> secs \<Rightarrow> AEGFGovernor" where
  "pause_request gov rid reason now = try_transition gov rid Paused reason now"

definition escalate_to_review :: "AEGFGovernor \<Rightarrow> string \<Rightarrow> string \<Rightarrow> secs \<Rightarrow> AEGFGovernor" where
  "escalate_to_review gov rid reason now = try_transition gov rid WaitingHumanReview reason now"

definition get_request_state :: "AEGFGovernor \<Rightarrow> string \<Rightarrow> ExecutionState option" where
  "get_request_state gov rid = esm_get_state (gov_esm gov) rid"

definition expire_stale_requests :: "AEGFGovernor \<Rightarrow> secs \<Rightarrow> secs \<Rightarrow> AEGFGovernor \<times> nat" where
  "expire_stale_requests gov t1 t2 =
     (let (esm, esm_evicted) = expire_old (gov_esm gov) (esm_gc_age_seconds (gov_policy gov)) t1;
          (deg, deg_evicted) = evict_expired (gov_deg gov) t2
      in (gov\<lparr>gov_esm := esm, gov_deg := deg\<rparr>, esm_evicted + deg_evicted))"

section \<open>Runs\<close>

text \<open>The calls a governor receives; \<open>Panic\<close> is a thread that panics while it holds the lock of the graph.\<close>

datatype gov_call =
    Submit AEGFMetadata readings bool
  | Fused AEGFMetadata readings bool
  | Complete string "ExecutionState option" secs
  | PauseReq string string secs
  | Escalate string string secs
  | ExpireStale secs secs
  | SetPolicy AEGFPolicy
  | Panic

fun gov_step :: "gov_call \<Rightarrow> AEGFGovernor \<Rightarrow> AEGFGovernor" where
  "gov_step (Submit meta t c) gov = fst (submit_request gov meta t c)"
| "gov_step (Fused meta t c) gov = fst (submit_and_complete gov meta t c)"
| "gov_step (Complete rid outcome now) gov = complete_request gov rid outcome now"
| "gov_step (PauseReq rid reason now) gov = pause_request gov rid reason now"
| "gov_step (Escalate rid reason now) gov = escalate_to_review gov rid reason now"
| "gov_step (ExpireStale t1 t2) gov = fst (expire_stale_requests gov t1 t2)"
| "gov_step (SetPolicy p) gov = set_policy gov p"
| "gov_step Panic gov = gov\<lparr>gov_deg := (gov_deg gov)\<lparr>deg_poisoned := True\<rparr>\<rparr>"

fun call_policy :: "gov_call \<Rightarrow> AEGFPolicy list" where
  "call_policy (SetPolicy p) = [p]"
| "call_policy _ = []"

definition gov_ok :: "nat \<Rightarrow> AEGFGovernor \<Rightarrow> bool" where
  "gov_ok B gov \<longleftrightarrow> deg_ok (gov_deg gov) \<and> length (deg_nodes (gov_deg gov)) \<le> B \<and>
     hm_wf (gov_esm gov) \<and> length (gov_esm gov) \<le> ESM_MAX_ENTRIES \<and> unat (max_graph_nodes (gov_policy gov)) \<le> B"

definition demo_request :: "string \<Rightarrow> string \<Rightarrow> string \<Rightarrow> u16 \<Rightarrow> u64 \<Rightarrow> AEGFMetadata" where
  "demo_request rid prid oaid hc ttl = \<lparr>md_cid = ''c'', md_rid = rid, md_prid = prid, md_sid = ''s'', md_oaid = oaid,
     md_hc = hc, md_ed = 0, md_ttl = ttl\<rparr>"

definition demo_readings :: "secs \<Rightarrow> readings" where
  "demo_readings t = \<lparr>at_submit = t, at_validate = t, at_create = t, at_transition = t, at_complete = t\<rparr>"

text \<open>Deadlines of one and four seconds.\<close>

definition demo_ttl1 :: u64 where "demo_ttl1 = 0x3FF0000000000000"
definition demo_ttl4 :: u64 where "demo_ttl4 = 0x4010000000000000"

definition demo_pair :: DegState where
  "demo_pair = fold (\<lambda>m g. fst (validate_and_add g m default_aegf_policy 0 False))
     [demo_request ''p1'' RID_ROOT ''a'' 0 demo_ttl1, demo_request ''c1'' ''p1'' ''b'' 0 demo_ttl1,
      demo_request ''c2'' ''p1'' ''b'' 0 demo_ttl1] new_deg"

lemma demo_deadlines:
  "f64_before demo_ttl1 0 = False" "f64_before demo_ttl1 2 = True" "f64_before demo_ttl4 1 = False"
  "f64_before demo_ttl4 2 = False" "f64_before demo_ttl4 3 = False"
  by (simp_all add: demo_ttl1_def demo_ttl4_def f64_before_def f64_value_def Let_def)

lemma evict_if_needed_small: "length states < 100000 \<Longrightarrow> evict_if_needed states = states"
  by (simp add: evict_if_needed_def ESM_MAX_ENTRIES_def)

lemmas demo_defs = demo_request_def demo_readings_def new_governor_def new_deg_def default_aegf_policy_def demo_deadlines
  metadata_expired_def evict_if_needed_small

lemma deg_ok_wf: "deg_ok g \<Longrightarrow> hm_wf (deg_nodes g)"
  by (simp add: deg_ok_def)

lemma deg_ok_poisoned [simp]: "deg_ok (g\<lparr>deg_poisoned := b\<rparr>) = deg_ok g"
  by (simp add: deg_ok_def)

lemma gov_ok_esm:
  assumes "gov_ok B gov" "hm_wf esm" "length esm \<le> ESM_MAX_ENTRIES"
  shows "gov_ok B (gov\<lparr>gov_esm := esm\<rparr>)"
  using assms by (simp add: gov_ok_def)

lemma try_transition_ok [simp]: "gov_ok B gov \<Longrightarrow> gov_ok B (try_transition gov rid st reason now)"
  unfolding try_transition_def by (rule gov_ok_esm) (simp_all add: gov_ok_def)

lemma create_ok: "gov_ok B gov \<Longrightarrow> gov_ok B (gov\<lparr>gov_esm := fst (esm_create (gov_esm gov) rid reason now)\<rparr>)"
  by (rule gov_ok_esm) (simp_all add: gov_ok_def esm_create_bounded)

lemma expire_on_arrival_ok: "gov_ok B gov \<Longrightarrow> gov_ok B (expire_on_arrival gov rid t)"
  by (simp add: expire_on_arrival_def create_ok)

lemma register_request_ok: "gov_ok B gov \<Longrightarrow> gov_ok B (fst (register_request gov rid d t))"
  using create_ok [of B gov rid "''submitted''" "at_create t"]
  by (auto simp: register_request_def split: prod.split option.split)

lemma remove_ok: "gov_ok B gov \<Longrightarrow> gov_ok B (gov\<lparr>gov_deg := remove_request (gov_deg gov) rid\<rparr>)"
  using length_remove_request [of "gov_deg gov" rid] by (simp add: gov_ok_def remove_request_ok deg_ok_wf)

lemma validate_ok:
  "gov_ok B gov \<Longrightarrow> gov_ok B (gov\<lparr>gov_deg := fst (validate_and_add (gov_deg gov) meta (gov_policy gov) now c)\<rparr>)"
  by (simp add: gov_ok_def validate_and_add_ok validate_and_add_length deg_ok_wf)

lemma gov_self_deg [simp]: "gov\<lparr>gov_deg := gov_deg gov\<rparr> = gov"
  by simp

lemma submit_request_ok: "gov_ok B gov \<Longrightarrow> gov_ok B (fst (submit_request gov meta t c))"
  using validate_ok [of B gov meta "at_validate t" c]
  by (simp add: submit_request_def expire_on_arrival_ok register_request_ok split_beta)

lemma submit_and_complete_ok: "gov_ok B gov \<Longrightarrow> gov_ok B (fst (submit_and_complete gov meta t c))"
proof (cases "metadata_expired meta (at_submit t) \<or> md_prid meta = RID_ROOT")
  case True
  assume "gov_ok B gov"
  with True show ?thesis
    using register_request_ok [of B gov "md_rid meta" "validate_transient_root (gov_deg gov) meta (gov_policy gov) (at_validate t)" t]
    by (auto simp: submit_and_complete_def expire_on_arrival_ok Let_def split: prod.split)
next
  case False
  assume ok: "gov_ok B gov"
  obtain deg d where v: "validate_and_add (gov_deg gov) meta (gov_policy gov) (at_validate t) c = (deg, d)" by fastforce
  have "gov_ok B (gov\<lparr>gov_deg := deg\<rparr>)" using validate_ok [OF ok, of meta "at_validate t" c] v by simp
  then have "gov_ok B (fst (register_request (gov\<lparr>gov_deg := deg\<rparr>) (md_rid meta) d t))" by (rule register_request_ok)
  then show ?thesis using False v by (simp add: submit_and_complete_def Let_def split_beta remove_ok)
qed

lemma expire_stale_ok: "gov_ok B gov \<Longrightarrow> gov_ok B (fst (expire_stale_requests gov t1 t2))"
proof -
  assume ok: "gov_ok B gov"
  have "length (fst (expire_old (gov_esm gov) a t1)) \<le> length (gov_esm gov)" for a
    using ok by (simp add: expire_old_def Let_def gov_ok_def length_remove_keys_le)
  moreover have "length (deg_nodes (fst (evict_expired (gov_deg gov) t2))) \<le> length (deg_nodes (gov_deg gov))"
    using ok by (simp add: gov_ok_def length_evict_expired deg_ok_wf)
  ultimately show ?thesis
    using ok by (auto simp: expire_stale_requests_def gov_ok_def evict_expired_ok split_beta intro: order_trans)
qed

lemma gov_step_ok:
  assumes "gov_ok B gov" "\<forall>p \<in> set (call_policy call). unat (max_graph_nodes p) \<le> B"
  shows "gov_ok B (gov_step call gov)"
  using assms
  by (cases call)
    (simp_all add: submit_request_ok submit_and_complete_ok expire_stale_ok complete_request_def pause_request_def
      escalate_to_review_def remove_ok Let_def, simp_all add: gov_ok_def set_policy_def)

text \<open>C9. In every state of a governor the parent relation has no cycle, no pair of agents is counted more than
  twice, the graph has at most as many nodes as the largest configured limit and the state registry at most
  100,000 entries. The pairs are those of a parent agent and a child agent.\<close>

theorem gov_invariant:
  assumes "unat (max_graph_nodes (gov_policy (new_governor policy))) \<le> B"
    "\<forall>call \<in> set calls. \<forall>p \<in> set (call_policy call). unat (max_graph_nodes p) \<le> B"
    "gov = fold gov_step calls (new_governor policy)"
  shows "acyclic (deg_edges (deg_nodes (gov_deg gov))) \<and>
    (\<forall>k. path_count (path_counts (gov_deg gov)) k \<le> REPEATED_PATH_THRESHOLD) \<and>
    node_count (gov_deg gov) \<le> B \<and> esm_count (gov_esm gov) \<le> ESM_MAX_ENTRIES"
proof -
  have "gov_ok B (fold gov_step calls g)" if "gov_ok B g"
    "\<forall>call \<in> set calls. \<forall>p \<in> set (call_policy call). unat (max_graph_nodes p) \<le> B" for g
    using that by (induction calls arbitrary: g) (simp_all add: gov_step_ok)
  moreover have "gov_ok B (new_governor policy)"
    using assms(1) new_deg_ok by (simp add: gov_ok_def new_governor_def) (simp add: new_deg_def)
  ultimately have "gov_ok B gov" using assms(2,3) by blast
  then show ?thesis by (simp add: gov_ok_def deg_ok_def node_count_def esm_count_def)
qed

theorem gov_invariant_witness:
  "acyclic (deg_edges (deg_nodes (gov_deg (fold gov_step [Submit (demo_request ''r'' RID_ROOT ''a'' 0 demo_ttl4) (demo_readings 1) False,
      SetPolicy default_aegf_policy] (new_governor None)))))"
  using gov_invariant [of None 10000 "[Submit (demo_request ''r'' RID_ROOT ''a'' 0 demo_ttl4) (demo_readings 1) False,
      SetPolicy default_aegf_policy]", OF _ _ refl]
  by (simp add: new_governor_def default_aegf_policy_def)

section \<open>States of a request\<close>

lemma expire_old_state: "esm_get_state (fst (expire_old states a t)) r \<in> {None, esm_get_state states r}"
  by (simp add: expire_old_def Let_def esm_get_state_def)

lemma try_transition_final:
  "is_terminal s \<Longrightarrow> esm_get_state (gov_esm gov) r \<in> {None, Some s} \<Longrightarrow>
     esm_get_state (gov_esm (try_transition gov rid st reason now)) r \<in> {None, Some s}"
  by (cases "esm_get_state (gov_esm gov) rid") (auto simp: try_transition_def esm_transition_state terminal_no_transition)

lemma create_final:
  "esm_get_state (gov_esm gov) r = Some s \<Longrightarrow>
     esm_get_state (fst (esm_create (gov_esm gov) rid reason now)) r \<in> {None, Some s}"
  using esm_create_state [of "gov_esm gov" rid reason now] esm_create_other [of r rid "gov_esm gov" reason now]
  by (cases "r = rid") auto

lemma expire_on_arrival_final:
  "is_terminal s \<Longrightarrow> esm_get_state (gov_esm gov) r = Some s \<Longrightarrow>
     esm_get_state (gov_esm (expire_on_arrival gov rid t)) r \<in> {None, Some s}"
  unfolding expire_on_arrival_def by (rule try_transition_final) (simp_all add: create_final del: insert_iff)

lemma register_request_final:
  "is_terminal s \<Longrightarrow> esm_get_state (gov_esm gov) r = Some s \<Longrightarrow>
     esm_get_state (gov_esm (fst (register_request gov rid d t))) r \<in> {None, Some s}"
proof -
  assume s: "is_terminal s" "esm_get_state (gov_esm gov) r = Some s"
  obtain esm res where c: "esm_create (gov_esm gov) rid ''submitted'' (at_create t) = (esm, res)" by fastforce
  have st: "esm_get_state esm r \<in> {None, Some s}"
    using create_final [OF s(2), of rid "''submitted''" "at_create t"] by (simp only: c fst_conv)
  show ?thesis
  proof (cases res)
    case None
    with c st show ?thesis by (simp add: register_request_def del: insert_iff)
  next
    case (Some a)
    have "esm_get_state (gov_esm (gov\<lparr>gov_esm := esm\<rparr>)) r \<in> {None, Some s}" using st by (simp del: insert_iff)
    from try_transition_final [OF s(1) this] c Some show ?thesis by (simp add: register_request_def del: insert_iff)
  qed
qed

lemma final_simps:
  "gov_esm (gov\<lparr>gov_deg := deg\<rparr>) = gov_esm gov" "gov_esm (set_policy gov p) = gov_esm gov"
  by (simp_all add: set_policy_def)

lemma gov_step_final:
  assumes "is_terminal s" "get_request_state gov r = Some s"
  shows "get_request_state (gov_step call gov) r \<in> {None, Some s}"
proof -
  note st = assms(2) [unfolded get_request_state_def]
  note rules = try_transition_final [OF assms(1)] expire_on_arrival_final [OF assms(1)] register_request_final [OF assms(1)]
  show ?thesis
  proof (cases call)
    case (Submit meta t c)
    then show ?thesis using rules(2,3) st
      by (simp add: get_request_state_def submit_request_def split_beta del: insert_iff)
  next
    case (Fused meta t c)
    then show ?thesis using rules st
      by (simp add: get_request_state_def submit_and_complete_def split_beta Let_def del: insert_iff)
  next
    case (ExpireStale t1 t2)
    then show ?thesis using expire_old_state [of "gov_esm gov" _ t1 r] st
      by (simp add: get_request_state_def expire_stale_requests_def split_beta Let_def)
  qed (use st rules(1) in \<open>simp_all add: get_request_state_def complete_request_def pause_request_def escalate_to_review_def
      set_policy_def Let_def del: insert_iff\<close>, simp_all)
qed

lemma registered_answer:
  assumes "get_request_state gov (md_rid meta) = Some s" "\<not> metadata_expired meta (at_submit t)"
  shows "snd (submit_request gov meta t c) = (if is_terminal s then Terminate else Allow)"
    "get_request_state (fst (submit_request gov meta t c)) (md_rid meta) = Some s"
proof -
  have "esm_create (gov_esm gov) (md_rid meta) reason now = (gov_esm gov, None)" for reason now
    using assms(1) by (auto simp: esm_create_def get_request_state_def esm_get_state_def)
  then show "snd (submit_request gov meta t c) = (if is_terminal s then Terminate else Allow)"
    "get_request_state (fst (submit_request gov meta t c)) (md_rid meta) = Some s"
    using assms by (simp_all add: submit_request_def register_request_def get_request_state_def split_beta)
qed

text \<open>C34. A request that has reached a terminal state is never revived: whatever calls follow, as long as the
  registry keeps the request its state stays, and each further submission is answered with \<open>Terminate\<close>.\<close>

theorem terminal_state_final:
  assumes "is_terminal s" "get_request_state gov (md_rid meta) = Some s"
    "\<forall>n \<le> length calls. get_request_state (fold gov_step (take n calls) gov) (md_rid meta) \<noteq> None"
  shows "get_request_state (fold gov_step calls gov) (md_rid meta) = Some s \<and>
    snd (submit_request (fold gov_step calls gov) meta t c) = Terminate"
proof -
  have "get_request_state (fold gov_step calls gov) (md_rid meta) = Some s"
    using assms(3)
  proof (induction calls rule: rev_induct)
    case Nil
    then show ?case using assms(2) by simp
  next
    case (snoc call calls)
    have "get_request_state (fold gov_step calls gov) (md_rid meta) = Some s"
    proof (rule snoc.IH, intro allI impI)
      fix n assume "n \<le> length calls"
      then show "get_request_state (fold gov_step (take n calls) gov) (md_rid meta) \<noteq> None"
        using snoc.prems [rule_format, of n] by simp
    qed
    from gov_step_final [OF assms(1) this, of call] snoc.prems [rule_format, of "Suc (length calls)"]
    show ?case by auto
  qed
  moreover have "snd (submit_request g meta t c) = Terminate" if "get_request_state g (md_rid meta) = Some s" for g
    using registered_answer(1) [OF that] assms(1)
    by (cases "metadata_expired meta (at_submit t)") (simp_all add: submit_request_def)
  ultimately show ?thesis by blast
qed

theorem terminal_state_final_witness:
  "snd (submit_request
     (fold gov_step [PauseReq ''r'' ''x'' 2]
        (fst (submit_and_complete (new_governor None) (demo_request ''r'' RID_ROOT ''a'' 0 demo_ttl4) (demo_readings 1) False)))
     (demo_request ''r'' RID_ROOT ''a'' 0 demo_ttl4) (demo_readings 3) False) = Terminate"
proof -
  let ?m = "demo_request ''r'' RID_ROOT ''a'' 0 demo_ttl4"
  let ?g = "fst (submit_and_complete (new_governor None) ?m (demo_readings 1) False)"
  have "get_request_state ?g (md_rid ?m) = Some Completed"
    "get_request_state (fold gov_step (take 0 [PauseReq ''r'' ''x'' 2]) ?g) (md_rid ?m) \<noteq> None"
    "get_request_state (fold gov_step (take 1 [PauseReq ''r'' ''x'' 2]) ?g) (md_rid ?m) \<noteq> None"
    by (simp_all add: demo_defs submit_and_complete_def validate_transient_root_def register_request_def esm_create_def
      try_transition_def esm_transition_def get_request_state_def esm_get_state_def pause_request_def
      detect_excessive_hops_def detect_excessive_depth_def)
  then show ?thesis
    using terminal_state_final [of Completed ?g ?m "[PauseReq ''r'' ''x'' 2]" "demo_readings 3" False]
    by (simp add: le_Suc_eq all_conj_distrib)
qed

text \<open>A request that was paused or sent to human review is allowed when it is submitted once more: the second
  call answers \<open>Allow\<close> although the request is still in the state of the first decision and nothing was
  resolved.\<close>

lemma resubmission_allowed:
  assumes "submit_request gov meta t c = (gov1, d)" "d = Pause \<or> d = Review" "\<not> metadata_expired meta (at_submit t')"
  shows "snd (submit_request gov1 meta t' c') = Allow \<and>
    get_request_state (fst (submit_request gov1 meta t' c')) (md_rid meta) = Some (fst (decision_state d))"
proof -
  have ne: "\<not> metadata_expired meta (at_submit t)" using assms(1,2) by (auto simp: submit_request_def)
  obtain deg e where v: "validate_and_add (gov_deg gov) meta (gov_policy gov) (at_validate t) c = (deg, e)" by fastforce
  have r: "register_request (gov\<lparr>gov_deg := deg\<rparr>) (md_rid meta) e t = (gov1, d)"
    using assms(1) ne v by (simp add: submit_request_def)
  have fresh: "get_request_state gov (md_rid meta) = None"
  proof (rule ccontr)
    assume "get_request_state gov (md_rid meta) \<noteq> None"
    then obtain s where "get_request_state gov (md_rid meta) = Some s" by blast
    from registered_answer(1) [OF this ne, of c] assms(1,2) show False by (auto split: if_splits)
  qed
  then have none: "map_of (gov_esm gov) (md_rid meta) = None" by (simp add: get_request_state_def esm_get_state_def)
  have "d = e \<and> get_request_state gov1 (md_rid meta) = Some (fst (decision_state e))"
    using r none by (cases e) (auto simp: register_request_def esm_create_def try_transition_def get_request_state_def
      esm_transition_def esm_get_state_def)
  then have st: "get_request_state gov1 (md_rid meta) = Some (fst (decision_state d))" by simp
  show ?thesis using registered_answer [OF st assms(3), of c'] assms(2) by auto
qed

section \<open>The fused operation\<close>

lemma delete_update_fresh: "map_of m k = None \<Longrightarrow> AList.delete k (AList.update k v m) = m"
proof (induction m)
  case Nil
  then show ?case by (simp add: AList.delete_eq)
next
  case (Cons a m)
  then show ?case by (cases a) (auto simp: AList.delete_eq split: if_splits)
qed

lemma root_no_cycle: "md_prid meta = RID_ROOT \<Longrightarrow> \<not> has_cycle_inner (AList.update (md_rid meta) (new_node meta) nodes) (md_rid meta)"
  by (simp add: has_cycle_inner_def new_node_def has_cycle_loop.simps)

text \<open>For a root request whose identifier is not in the graph, validating, adding and removing again is the
  validation of the fast path.\<close>

lemma transient_root_validates:
  assumes "md_prid meta = RID_ROOT" "map_of (deg_nodes g) (md_rid meta) = None" "\<not> deg_poisoned g"
    "\<not> metadata_expired meta now"
  shows "remove_request (fst (validate_and_add g meta policy now c)) (md_rid meta) = g \<and>
    snd (validate_and_add g meta policy now c) = validate_transient_root g meta policy now"
proof -
  have commit: "commit_node g meta = (g\<lparr>deg_nodes := AList.update (md_rid meta) (new_node meta) (deg_nodes g)\<rparr>, Allow)"
    using assms(1) root_no_cycle [OF assms(1), of "deg_nodes g"]
    by (simp add: commit_node_def Let_def add_child_def bump_path_def parent_oaid_def)
  have "remove_request (fst (commit_node g meta)) (md_rid meta) = g"
    using assms(1,2) unfolding commit
    by (simp add: remove_request_def new_node_def remove_child_def drop_path_def parent_oaid_def Let_def delete_update_fresh)
  moreover have "remove_request g (md_rid meta) = g" using assms(2) by (simp add: remove_request_def)
  moreover have "\<not> detect_repeated_path g meta" using assms(1) by (simp add: detect_repeated_path_def parent_oaid_def)
  ultimately show ?thesis
    using assms(3,4) by (simp add: validate_and_add_def validate_transient_root_def commit)
qed

lemma expired_complete_noop:
  "complete_request (expire_on_arrival gov rid t) rid None now =
     (expire_on_arrival gov rid t)\<lparr>gov_deg := remove_request (gov_deg (expire_on_arrival gov rid t)) rid\<rparr>"
proof -
  define e1 where "e1 = fst (esm_create (gov_esm gov) rid ''expired_on_arrival'' (at_create t))"
  obtain s where s: "esm_get_state e1 rid = Some s"
    by (cases "esm_get_state (gov_esm gov) rid") (auto simp: e1_def esm_create_state)
  have "esm_get_state (fst (esm_transition e1 rid Expired ''TTL expired'' (at_transition t))) rid =
      (if is_terminal s then Some s else Some Expired)"
    using s by (cases s) (simp_all add: esm_transition_state)
  then obtain rec where "map_of (fst (esm_transition e1 rid Expired ''TTL expired'' (at_transition t))) rid = Some rec"
    "is_terminal (sr_state rec)"
    by (auto simp: esm_get_state_def split: if_splits)
  then have "esm_transition (fst (esm_transition e1 rid Expired ''TTL expired'' (at_transition t))) rid Completed ''completed'' now =
      (fst (esm_transition e1 rid Expired ''TTL expired'' (at_transition t)), Err AegfInvalidTransition)"
    by (simp add: esm_transition_def [of _ rid Completed] terminal_no_transition)
  then show ?thesis
    by (simp add: complete_request_def expire_on_arrival_def try_transition_def e1_def Let_def)
qed

lemma register_request_deg: "gov_deg (fst (register_request gov rid d t)) = gov_deg gov"
  by (simp add: register_request_def try_transition_def split_beta split: option.split)

lemma register_request_frame:
  "fst (register_request (gov\<lparr>gov_deg := deg\<rparr>) rid d t) = (fst (register_request gov rid d t))\<lparr>gov_deg := deg\<rparr>"
  "snd (register_request (gov\<lparr>gov_deg := deg\<rparr>) rid d t) = snd (register_request gov rid d t)"
  by (simp_all add: register_request_def try_transition_def split_beta split: option.split)



text \<open>The fused operation does not fail closed: once a panic has poisoned the lock of the graph,
  \<open>submit_request\<close> pauses every new request, while \<open>submit_and_complete\<close> still allows a new root request within
  the limits.\<close>

lemma fast_path_ignores_poison:
  assumes "deg_poisoned (gov_deg gov)" "get_request_state gov (md_rid meta) = None" "md_prid meta = RID_ROOT"
    "\<not> metadata_expired meta (at_submit t)" "\<not> metadata_expired meta (at_validate t)"
    "md_hc meta \<le> max_hop_count (gov_policy gov)" "md_ed meta \<le> max_execution_depth (gov_policy gov)"
    "node_count (gov_deg gov) < unat (max_graph_nodes (gov_policy gov))"
  shows "snd (submit_request gov meta t c) = Pause \<and> snd (submit_and_complete gov meta t c) = Allow"
proof -
  have new: "snd (register_request g (md_rid meta) d t) = d" if "gov_esm g = gov_esm gov" for g d
    using assms(2) that by (simp add: register_request_def esm_create_def get_request_state_def esm_get_state_def)
  have "validate_and_add (gov_deg gov) meta (gov_policy gov) (at_validate t) c = (gov_deg gov, Pause)"
    using assms by (simp add: validate_and_add_def)
  moreover have "validate_transient_root (gov_deg gov) meta (gov_policy gov) (at_validate t) = Allow"
    using assms(5-8) by (simp add: validate_transient_root_def detect_excessive_hops_def detect_excessive_depth_def
      node_count_def not_less not_le)
  ultimately show ?thesis
    using assms(3,4) new by (simp add: submit_request_def submit_and_complete_def split_beta Let_def)
qed

section \<open>Counters of evicted requests\<close>

lemma evict_path_counts:
  "hm_wf (path_counts g) \<Longrightarrow> hm_wf (path_counts (fst (evict_expired g now))) \<and>
     path_count (path_counts (fst (evict_expired g now))) k = path_count (path_counts g) k"
  by (simp add: evict_expired_def Let_def path_count_retain)

text \<open>Evicting expired requests does not release the counters of their agents. If the pair of agents \<open>a\<close> and
  \<open>b\<close> has reached the threshold, then however often expired requests are evicted, a new request of \<open>b\<close> under a
  new root request of \<open>a\<close> is never allowed, even when the graph has become empty.\<close>

lemma evicted_pair_blocked:
  assumes "hm_wf (path_counts g)" "path_count (path_counts g) (md_oaid parent, md_oaid child) = REPEATED_PATH_THRESHOLD"
    "md_prid parent = RID_ROOT" "md_prid child = md_rid parent" "md_rid parent \<noteq> RID_ROOT"
    "g1 = fold (\<lambda>now g. fst (evict_expired g now)) sweeps g"
    "validate_and_add g1 parent policy now1 c1 = (g2, Allow)"
  shows "snd (validate_and_add g2 child policy now2 c2) \<noteq> Allow"
proof -
  have "hm_wf (path_counts (fold (\<lambda>now g. fst (evict_expired g now)) sweeps g)) \<and>
      path_count (path_counts (fold (\<lambda>now g. fst (evict_expired g now)) sweeps g)) k = path_count (path_counts g) k" for k
    using assms(1) by (induction sweeps arbitrary: g) (simp_all add: evict_path_counts)
  with assms(2,6) have n1: "path_count (path_counts g1) (md_oaid parent, md_oaid child) = REPEATED_PATH_THRESHOLD" by simp
  have "path_counts g2 = path_counts g1 \<and> parent_oaid (deg_nodes g2) (md_rid parent) = Some (md_oaid parent)"
  proof (cases rule: validate_and_add_cases [of g1 parent policy now1 c1])
    case (added nodes)
    with assms(3,5,7) show ?thesis by (auto simp: bump_path_def parent_oaid_def new_node_def add_child_def)
  qed (use assms(7) in simp_all)
  then have rep: "detect_repeated_path g2 child" using n1 assms(4) by (simp add: detect_repeated_path_def)
  show ?thesis
  proof (cases rule: validate_and_add_cases [of g2 child policy now2 c2])
    case (added nodes)
    with rep show ?thesis by simp
  qed simp_all
qed

end
