(* ===== verification/Cscs.thy ===== *)
theory Cscs
  imports Aegf_Governor Rate_Limiter
begin

text \<open>
  \<open>src/cscs.rs\<close>: detection of oscillating requests. Each session has a window of the fingerprints of its last
  packets; a fingerprint that occurs three times in the window is refused. The sessions are spread over sixteen
  shards, each of which drops its least recently seen session when it is full. SHA-256 is a parameter. The channel
  to the mirror thread is a bounded queue of events that the thread takes off one by one.
\<close>

section \<open>Definitions\<close>

definition CSCS_MAX_OSCILLATION_COUNT :: nat where "CSCS_MAX_OSCILLATION_COUNT = 3"
definition CSCS_WINDOW_SIZE :: nat where "CSCS_WINDOW_SIZE = 128"
definition CSCS_MAX_TRACKED_SESSIONS :: nat where "CSCS_MAX_TRACKED_SESSIONS = 50000"
definition CSCS_SHARDS :: nat where "CSCS_SHARDS = 16"
definition CSCS_PER_SHARD_MAX_SESSIONS :: nat where
  "CSCS_PER_SHARD_MAX_SESSIONS = CSCS_MAX_TRACKED_SESSIONS div CSCS_SHARDS"
definition CSCS_MIRROR_QUEUE_CAPACITY :: nat where "CSCS_MIRROR_QUEUE_CAPACITY = 256"
definition CSCS_MIRROR_TTL_SECONDS :: secs where "CSCS_MIRROR_TTL_SECONDS = 3600"

record SessionHistory =
  sh_window :: "string list"
  sh_last_seen :: secs

type_synonym cscs_shard = "(string, SessionHistory) hmap"

definition cscs_shard_index :: "string \<Rightarrow> nat" where
  "cscs_shard_index session_id = fnv1a_shard session_id CSCS_SHARDS"

definition new_fingerprinter :: "cscs_shard list" where
  "new_fingerprinter = replicate CSCS_SHARDS []"

definition compute_fingerprint :: "(bytes \<Rightarrow> bytes) \<Rightarrow> AEGFMetadata \<Rightarrow> u8 \<Rightarrow> string" where
  "compute_fingerprint sha256 meta action_class =
     hex_encode (sha256 (str_bytes (md_oaid meta) @ str_bytes (md_cid meta) @ [action_class]))"

text \<open>The part of \<open>record_and_count\<close> under the lock of the shard.\<close>

definition shard_record :: "cscs_shard \<Rightarrow> string \<Rightarrow> string \<Rightarrow> secs \<Rightarrow> cscs_shard \<times> nat" where
  "shard_record hist session_id fingerprint now =
     (let hist1 =
            (if length hist \<ge> CSCS_PER_SHARD_MAX_SESSIONS \<and> \<not> contains_key hist session_id
             then remove_keys (oldest_keys (length hist + 1 - CSCS_PER_SHARD_MAX_SESSIONS) sh_last_seen hist) hist
             else hist);
          window = (case map_of hist1 session_id of Some e \<Rightarrow> sh_window e | None \<Rightarrow> []);
          window1 = (if length window \<ge> CSCS_WINDOW_SIZE then tl window else window) @ [fingerprint]
      in (AList.update session_id \<lparr>sh_window = window1, sh_last_seen = now\<rparr> hist1,
          length (filter (\<lambda>h. h = fingerprint) window1)))"

definition record_and_count :: "cscs_shard list \<Rightarrow> string \<Rightarrow> string \<Rightarrow> secs \<Rightarrow> cscs_shard list \<times> nat" where
  "record_and_count history session_id fingerprint now =
     (let i = cscs_shard_index session_id; (hist, n) = shard_record (history ! i) session_id fingerprint now
      in (history[i := hist], n))"

definition cscs_clear :: "cscs_shard list \<Rightarrow> string \<Rightarrow> cscs_shard list" where
  "cscs_clear history session_id =
     (let i = cscs_shard_index session_id in history[i := AList.delete session_id (history ! i)])"

definition tracked_sessions :: "cscs_shard list \<Rightarrow> nat" where
  "tracked_sessions history = sum_list (map length history)"

record CscsTripEvent =
  te_session_id :: string
  te_fingerprint :: string
  te_count :: nat
  te_ts :: secs

record CSCSLoopDetector =
  fingerprinter :: "cscs_shard list"
  daeg :: DegState
  mirror_tx :: "CscsTripEvent list option"

definition new_detector :: "DegState \<Rightarrow> CSCSLoopDetector" where
  "new_detector g = \<lparr>fingerprinter = new_fingerprinter, daeg = g, mirror_tx = None\<rparr>"

definition detector_with_backend :: "DegState \<Rightarrow> CSCSLoopDetector" where
  "detector_with_backend g = \<lparr>fingerprinter = new_fingerprinter, daeg = g, mirror_tx = Some []\<rparr>"

definition try_mirror :: "CscsTripEvent \<Rightarrow> CscsTripEvent list option \<Rightarrow> CscsTripEvent list option" where
  "try_mirror ev tx =
     map_option (\<lambda>q. if length q < CSCS_MIRROR_QUEUE_CAPACITY then q @ [ev] else q) tx"

text \<open>One turn of the mirror thread; \<open>to_string\<close> prints a JSON value.\<close>

definition mirror_turn ::
  "(json \<Rightarrow> string) \<Rightarrow> 'b StateBackend \<Rightarrow> secs \<Rightarrow> CscsTripEvent list \<Rightarrow> 'b \<Rightarrow> CscsTripEvent list \<times> 'b" where
  "mirror_turn to_string B now q b =
     (case q of
        [] \<Rightarrow> ([], b)
      | ev # rest \<Rightarrow>
          (let payload = to_string (JObj [(''fingerprint'', JStr (te_fingerprint ev)),
                                          (''count'', JNum (PosInt (word_of_nat (te_count ev)))),
                                          (''ts'', JNum (Float (te_ts ev)))])
           in (rest, fst (sb_set B now (''cscs:trip:'' @ te_session_id ev) (str_bytes payload) (Some CSCS_MIRROR_TTL_SECONDS) b))))"

definition cs_detect_loop ::
  "(bytes \<Rightarrow> bytes) \<Rightarrow> CSCSLoopDetector \<Rightarrow> string \<Rightarrow> AEGFMetadata \<Rightarrow> u8 \<Rightarrow> secs \<Rightarrow> secs \<Rightarrow> CSCSLoopDetector \<times> unit result" where
  "cs_detect_loop sha256 det session_id meta action_class now ts =
     (let fp = compute_fingerprint sha256 meta action_class;
          (hist, count) = record_and_count (fingerprinter det) session_id fp now;
          det1 = det\<lparr>fingerprinter := hist\<rparr>
      in if count \<ge> CSCS_MAX_OSCILLATION_COUNT
         then (det1\<lparr>mirror_tx := try_mirror \<lparr>te_session_id = session_id, te_fingerprint = fp, te_count = count, te_ts = ts\<rparr> (mirror_tx det1)\<rparr>,
               Err CircuitBreakerOpen)
         else if detect_cycle (daeg det1) (md_rid meta) then (det1, Err CircuitBreakerOpen)
         else (det1, Ok ()))"

section \<open>Windows\<close>

text \<open>The last \<open>n\<close> elements of a list.\<close>

definition last_n :: "nat \<Rightarrow> 'a list \<Rightarrow> 'a list" where
  "last_n n xs = drop (length xs - n) xs"

lemma length_last_n [simp]: "length (last_n n xs) = min n (length xs)"
  by (simp add: last_n_def)

lemma last_n_snoc: "0 < n \<Longrightarrow> (if length (last_n n xs) \<ge> n then tl (last_n n xs) else last_n n xs) @ [x] = last_n n (xs @ [x])"
  by (auto simp: last_n_def tl_drop drop_Suc [symmetric] Suc_diff_le)

lemma cscs_shard_index_less: "cscs_shard_index s < CSCS_SHARDS"
  by (simp add: cscs_shard_index_def fnv1a_shard_less CSCS_SHARDS_def)

definition window_of :: "cscs_shard list \<Rightarrow> string \<Rightarrow> string list" where
  "window_of history s =
     (case map_of (history ! cscs_shard_index s) s of Some e \<Rightarrow> sh_window e | None \<Rightarrow> [])"

text \<open>Shards have distinct sessions, and sizes and windows are within their limits.\<close>

definition shard_ok :: "cscs_shard \<Rightarrow> bool" where
  "shard_ok hist \<longleftrightarrow> hm_wf hist \<and> length hist \<le> CSCS_PER_SHARD_MAX_SESSIONS \<and>
     (\<forall>e \<in> ran (map_of hist). length (sh_window e) \<le> CSCS_WINDOW_SIZE)"

definition history_ok :: "cscs_shard list \<Rightarrow> bool" where
  "history_ok history \<longleftrightarrow> length history = CSCS_SHARDS \<and> (\<forall>hist \<in> set history. shard_ok hist)"

lemma new_fingerprinter_ok: "history_ok new_fingerprinter"
  by (simp add: history_ok_def new_fingerprinter_def shard_ok_def)

lemma nth_new_fingerprinter: "i < CSCS_SHARDS \<Longrightarrow> new_fingerprinter ! i = []"
  by (simp add: new_fingerprinter_def)

lemma shard_record_ok: "shard_ok hist \<Longrightarrow> shard_ok (fst (shard_record hist s fp now))"
proof -
  assume ok: "shard_ok hist"
  define hist1 where "hist1 = (if length hist \<ge> CSCS_PER_SHARD_MAX_SESSIONS \<and> \<not> contains_key hist s
    then remove_keys (oldest_keys (length hist + 1 - CSCS_PER_SHARD_MAX_SESSIONS) sh_last_seen hist) hist else hist)"
  define w where "w = (case map_of hist1 s of Some e \<Rightarrow> sh_window e | None \<Rightarrow> [])"
  have wf: "hm_wf hist1" using ok by (simp add: hist1_def shard_ok_def)
  have sub: "ran (map_of hist1) \<subseteq> ran (map_of hist)" by (auto simp: hist1_def ran_def)
  have "length w \<le> CSCS_WINDOW_SIZE"
  proof (cases "map_of hist1 s")
    case (Some e)
    then have "e \<in> ran (map_of hist)" using sub by (auto intro: ranI)
    with Some ok show ?thesis by (simp add: w_def shard_ok_def)
  qed (simp add: w_def)
  then have w1: "length ((if length w \<ge> CSCS_WINDOW_SIZE then tl w else w) @ [fp]) \<le> CSCS_WINDOW_SIZE"
    by (simp add: CSCS_WINDOW_SIZE_def)
  have "length hist1 < CSCS_PER_SHARD_MAX_SESSIONS \<or> s \<in> keys hist1 \<and> length hist1 \<le> CSCS_PER_SHARD_MAX_SESSIONS"
    using ok length_remove_oldest [of hist "length hist + 1 - CSCS_PER_SHARD_MAX_SESSIONS" sh_last_seen]
    by (auto simp: hist1_def shard_ok_def keys_dom CSCS_PER_SHARD_MAX_SESSIONS_def CSCS_MAX_TRACKED_SESSIONS_def CSCS_SHARDS_def)
  then have "length (AList.update s e hist1) \<le> CSCS_PER_SHARD_MAX_SESSIONS" for e
    using wf by (auto simp: length_update)
  moreover have "\<forall>e \<in> ran (map_of (AList.update s \<lparr>sh_window = (if length w \<ge> CSCS_WINDOW_SIZE then tl w else w) @ [fp], sh_last_seen = now\<rparr> hist1)).
      length (sh_window e) \<le> CSCS_WINDOW_SIZE"
    using ok sub w1 by (auto simp: shard_ok_def ran_def split: if_splits)
  ultimately show ?thesis
    using wf unfolding shard_record_def Let_def hist1_def [symmetric] w_def [symmetric] by (simp add: shard_ok_def)
qed

lemma record_and_count_ok: "history_ok history \<Longrightarrow> history_ok (fst (record_and_count history s fp now))"
  using shard_record_ok [of "history ! cscs_shard_index s" s fp now] cscs_shard_index_less [of s]
  by (auto simp: record_and_count_def history_ok_def split_beta Let_def dest!: set_update_subset_insert [THEN subsetD])

lemma cs_detect_loop_ok:
  "history_ok (fingerprinter det) \<Longrightarrow> history_ok (fingerprinter (fst (cs_detect_loop sha256 det s meta ac now ts)))"
  using record_and_count_ok [of "fingerprinter det" s "compute_fingerprint sha256 meta ac" now]
  by (simp add: cs_detect_loop_def split_beta Let_def)

lemma cscs_clear_ok: "history_ok history \<Longrightarrow> history_ok (cscs_clear history s)"
proof -
  assume ok: "history_ok history"
  then have "shard_ok (history ! cscs_shard_index s)" using cscs_shard_index_less [of s] by (simp add: history_ok_def)
  then have "shard_ok (AList.delete s (history ! cscs_shard_index s))"
    using length_delete [of "history ! cscs_shard_index s" s] by (auto simp: shard_ok_def ran_def split: if_splits)
  with ok show ?thesis
    by (auto simp: cscs_clear_def history_ok_def Let_def dest!: set_update_subset_insert [THEN subsetD])
qed

definition slide :: "string list \<Rightarrow> string \<Rightarrow> string list" where
  "slide w fp = (if length w \<ge> CSCS_WINDOW_SIZE then tl w else w) @ [fp]"

lemma slide_last_n: "slide (last_n CSCS_WINDOW_SIZE xs) x = last_n CSCS_WINDOW_SIZE (xs @ [x])"
  unfolding slide_def by (rule last_n_snoc) (simp add: CSCS_WINDOW_SIZE_def)

lemma shard_record_kept:
  assumes "contains_key hist s \<or> length hist < CSCS_PER_SHARD_MAX_SESSIONS"
  shows "shard_record hist s fp now =
    (let w = slide (case map_of hist s of Some e \<Rightarrow> sh_window e | None \<Rightarrow> []) fp
     in (AList.update s \<lparr>sh_window = w, sh_last_seen = now\<rparr> hist, length (filter (\<lambda>h. h = fp) w)))"
  using assms by (auto simp: shard_record_def slide_def Let_def)

lemma record_window:
  fixes history s fp now
  defines "R \<equiv> record_and_count history s fp now"
  assumes ok: "history_ok history"
    and room: "contains_key (history ! cscs_shard_index s) s \<or> length (history ! cscs_shard_index s) < CSCS_PER_SHARD_MAX_SESSIONS"
  shows "window_of (fst R) s = slide (window_of history s) fp"
    "snd R = length (filter (\<lambda>h. h = fp) (slide (window_of history s) fp))"
    "r \<noteq> s \<Longrightarrow> window_of (fst R) r = window_of history r"
    "contains_key (fst R ! cscs_shard_index s) s"
proof -
  have i: "cscs_shard_index s < length history" using ok cscs_shard_index_less [of s] by (simp add: history_ok_def)
  have R: "R = (history[cscs_shard_index s := AList.update s \<lparr>sh_window = slide (window_of history s) fp, sh_last_seen = now\<rparr>
        (history ! cscs_shard_index s)], length (filter (\<lambda>h. h = fp) (slide (window_of history s) fp)))"
    by (simp add: R_def record_and_count_def shard_record_kept [OF room] window_of_def Let_def)
  show "window_of (fst R) s = slide (window_of history s) fp" "contains_key (fst R ! cscs_shard_index s) s"
    "snd R = length (filter (\<lambda>h. h = fp) (slide (window_of history s) fp))"
    using i by (simp_all add: R window_of_def)
  show "window_of (fst R) r = window_of history r" if "r \<noteq> s"
    using i that by (simp add: R window_of_def nth_list_update)
qed

lemma record_present: "history_ok history \<Longrightarrow> contains_key (fst (record_and_count history s fp now) ! cscs_shard_index s) s"
  using cscs_shard_index_less [of s]
  by (simp add: record_and_count_def shard_record_def history_ok_def split_beta Let_def)

section \<open>Repetition\<close>

lemma third_packet_refused:
  assumes "history_ok (fingerprinter det)" "md_oaid m1 = a" "md_oaid m2 = a" "md_oaid m3 = a"
    "md_cid m1 = cid" "md_cid m2 = cid" "md_cid m3 = cid"
    "det1 = fst (cs_detect_loop sha256 det s m1 ac t1 u1)" "det2 = fst (cs_detect_loop sha256 det1 s m2 ac t2 u2)"
  shows "snd (cs_detect_loop sha256 det2 s m3 ac t3 u3) = Err CircuitBreakerOpen"
proof -
  define fp where "fp = compute_fingerprint sha256 m1 ac"
  have fps: "compute_fingerprint sha256 m2 ac = fp" "compute_fingerprint sha256 m3 ac = fp"
    using assms by (simp_all add: fp_def compute_fingerprint_def)
  let ?h = "fingerprinter det"
  define h1 where "h1 = fst (record_and_count ?h s fp t1)"
  define h2 where "h2 = fst (record_and_count h1 s fp t2)"
  have det: "fingerprinter det1 = h1" "fingerprinter det2 = h2"
    using assms(8,9) fps by (simp_all add: cs_detect_loop_def split_beta Let_def h1_def h2_def fp_def)
  have ok1: "history_ok h1" using assms(1) by (simp add: h1_def record_and_count_ok)
  have ok2: "history_ok h2" using ok1 by (simp add: h2_def record_and_count_ok)
  have p1: "contains_key (h1 ! cscs_shard_index s) s" using assms(1) by (simp add: h1_def record_present)
  have p2: "contains_key (h2 ! cscs_shard_index s) s" using ok1 by (simp add: h2_def record_present)
  obtain w where "window_of h1 s = w @ [fp]"
    using cscs_shard_index_less [of s] assms(1)
    by (simp add: h1_def window_of_def record_and_count_def shard_record_def history_ok_def split_beta Let_def)
  then have "window_of h2 s = slide (w @ [fp]) fp" using record_window(1) [OF ok1] p1 by (simp add: h2_def)
  moreover have "snd (record_and_count h2 s fp t3) = length (filter (\<lambda>h. h = fp) (slide (window_of h2 s) fp))"
    using record_window(2) [OF ok2] p2 by simp
  moreover have "3 \<le> length (filter (\<lambda>h. h = fp) (slide (slide (w @ [fp]) fp) fp))"
    by (cases w; cases "tl w") (auto simp: slide_def CSCS_WINDOW_SIZE_def)
  ultimately have "CSCS_MAX_OSCILLATION_COUNT \<le> snd (record_and_count h2 s fp t3)" by (simp add: CSCS_MAX_OSCILLATION_COUNT_def)
  then show ?thesis by (simp add: cs_detect_loop_def split_beta Let_def det fps)
qed

section \<open>Refinement of the record of fingerprints\<close>

text \<open>The specification remembers every fingerprint of every session and counts in the last 128 of a session.\<close>

record cscs_packet =
  cp_session :: string
  cp_meta :: AEGFMetadata
  cp_action :: u8
  cp_now :: secs
  cp_ts :: secs

definition cscs_entry :: "(bytes \<Rightarrow> bytes) \<Rightarrow> cscs_packet \<Rightarrow> string \<times> string" where
  "cscs_entry sha256 p = (cp_session p, compute_fingerprint sha256 (cp_meta p) (cp_action p))"

definition session_fps :: "(string \<times> string) list \<Rightarrow> string \<Rightarrow> string list" where
  "session_fps seen s = map snd (filter (\<lambda>e. fst e = s) seen)"

definition oscillates :: "(string \<times> string) list \<Rightarrow> string \<times> string \<Rightarrow> bool" where
  "oscillates seen e \<longleftrightarrow>
     3 \<le> length (filter (\<lambda>h. h = snd e) (last_n 128 (session_fps seen (fst e) @ [snd e])))"

definition cscs_step :: "(bytes \<Rightarrow> bytes) \<Rightarrow> cscs_packet \<Rightarrow> CSCSLoopDetector \<Rightarrow> CSCSLoopDetector" where
  "cscs_step sha256 p det = fst (cs_detect_loop sha256 det (cp_session p) (cp_meta p) (cp_action p) (cp_now p) (cp_ts p))"

definition cscs_refines :: "(string \<times> string) list \<Rightarrow> CSCSLoopDetector \<Rightarrow> bool" where
  "cscs_refines seen det \<longleftrightarrow> history_ok (fingerprinter det) \<and>
     (\<forall>s. window_of (fingerprinter det) s = last_n CSCS_WINDOW_SIZE (session_fps seen s)) \<and>
     (\<forall>i < CSCS_SHARDS. keys (fingerprinter det ! i) \<subseteq> fst ` set seen) \<and>
     (\<forall>s \<in> fst ` set seen. s \<in> keys (fingerprinter det ! cscs_shard_index s))"

lemma cscs_room:
  assumes "cscs_refines seen det" "card (insert s (fst ` set seen)) \<le> CSCS_PER_SHARD_MAX_SESSIONS"
  shows "contains_key (fingerprinter det ! cscs_shard_index s) s \<or>
    length (fingerprinter det ! cscs_shard_index s) < CSCS_PER_SHARD_MAX_SESSIONS"
proof (cases "s \<in> fst ` set seen")
  case True
  with assms(1) show ?thesis by (auto simp: cscs_refines_def keys_dom)
next
  case False
  let ?m = "fingerprinter det ! cscs_shard_index s"
  have "hm_wf ?m" using assms(1) cscs_shard_index_less [of s] by (simp add: cscs_refines_def history_ok_def shard_ok_def)
  moreover have "keys ?m \<subseteq> fst ` set seen" using assms(1) cscs_shard_index_less [of s] by (simp add: cscs_refines_def)
  then have "card (keys ?m) \<le> card (fst ` set seen)" by (simp add: card_mono)
  ultimately show ?thesis using assms(2) False by (simp add: length_eq_card_keys)
qed

lemma record_keys:
  assumes "history_ok history" "contains_key (history ! cscs_shard_index s) s \<or> length (history ! cscs_shard_index s) < CSCS_PER_SHARD_MAX_SESSIONS"
    "i < CSCS_SHARDS"
  shows "keys (fst (record_and_count history s fp now) ! i) = (if i = cscs_shard_index s then insert s (keys (history ! i)) else keys (history ! i))"
  using assms by (simp add: record_and_count_def shard_record_kept [OF assms(2)] Let_def history_ok_def nth_list_update)

lemma session_fps_snoc: "session_fps (seen @ [(s, fp)]) r = (if r = s then session_fps seen r @ [fp] else session_fps seen r)"
  by (simp add: session_fps_def)

lemma cscs_refines_step:
  assumes r: "cscs_refines seen det" and room: "card (insert (cp_session p) (fst ` set seen)) \<le> CSCS_PER_SHARD_MAX_SESSIONS"
  shows "cscs_refines (seen @ [cscs_entry sha256 p]) (cscs_step sha256 p det)"
    "snd (cs_detect_loop sha256 det (cp_session p) (cp_meta p) (cp_action p) (cp_now p) (cp_ts p)) =
       (if oscillates seen (cscs_entry sha256 p) \<or> detect_cycle (daeg det) (md_rid (cp_meta p)) then Err CircuitBreakerOpen else Ok ())"
    "daeg (cscs_step sha256 p det) = daeg det"
proof -
  let ?s = "cp_session p" and ?h = "fingerprinter det"
  define fp where "fp = compute_fingerprint sha256 (cp_meta p) (cp_action p)"
  let ?R = "record_and_count ?h ?s fp (cp_now p)"
  have ok: "history_ok ?h" using r by (simp add: cscs_refines_def)
  note rm = cscs_room [OF r room]
  note w = record_window [OF ok rm, where fp = fp and now = "cp_now p"] and k = record_keys [OF ok rm]
  have fin: "fingerprinter (cscs_step sha256 p det) = fst ?R" "daeg (cscs_step sha256 p det) = daeg det"
    by (simp_all add: cscs_step_def cs_detect_loop_def split_beta Let_def fp_def)
  have win: "window_of (fst ?R) q = last_n CSCS_WINDOW_SIZE (session_fps (seen @ [(?s, fp)]) q)" for q
    using w(1) w(3) [of q] r by (auto simp: session_fps_snoc cscs_refines_def slide_last_n)
  have "q \<in> keys (fst ?R ! cscs_shard_index q)" if "q \<in> insert ?s (fst ` set seen)" for q
    using that r unfolding k [OF cscs_shard_index_less] by (auto simp: cscs_refines_def)
  moreover have "keys (fst ?R ! i) \<subseteq> insert ?s (fst ` set seen)" if "i < CSCS_SHARDS" for i
    using k [OF that, where fp = fp and now = "cp_now p"] r that by (auto simp: cscs_refines_def)
  ultimately show "cscs_refines (seen @ [cscs_entry sha256 p]) (cscs_step sha256 p det)"
    using record_and_count_ok [OF ok, of ?s fp "cp_now p"] win
    by (simp add: cscs_refines_def fin cscs_entry_def fp_def [symmetric])
  show "daeg (cscs_step sha256 p det) = daeg det" by (rule fin)
  have "snd ?R = length (filter (\<lambda>h. h = fp) (last_n CSCS_WINDOW_SIZE (session_fps seen ?s @ [fp])))"
    using w(2) r by (simp add: cscs_refines_def slide_last_n)
  then have "oscillates seen (cscs_entry sha256 p) \<longleftrightarrow> CSCS_MAX_OSCILLATION_COUNT \<le> snd ?R"
    by (simp add: oscillates_def cscs_entry_def fp_def [symmetric] CSCS_MAX_OSCILLATION_COUNT_def CSCS_WINDOW_SIZE_def)
  then show "snd (cs_detect_loop sha256 det ?s (cp_meta p) (cp_action p) (cp_now p) (cp_ts p)) =
       (if oscillates seen (cscs_entry sha256 p) \<or> detect_cycle (daeg det) (md_rid (cp_meta p)) then Err CircuitBreakerOpen else Ok ())"
    by (simp add: cs_detect_loop_def split_beta Let_def fp_def [symmetric])
qed

lemma cscs_refines_run:
  assumes "card (fst ` cscs_entry sha256 ` set ps) \<le> CSCS_PER_SHARD_MAX_SESSIONS"
  shows "cscs_refines (map (cscs_entry sha256) ps) (fold (cscs_step sha256) ps (new_detector g)) \<and>
    daeg (fold (cscs_step sha256) ps (new_detector g)) = g"
  using assms
proof (induction ps rule: rev_induct)
  case Nil
  then show ?case
    by (auto simp: cscs_refines_def new_detector_def new_fingerprinter_ok session_fps_def last_n_def window_of_def
      nth_new_fingerprinter cscs_shard_index_less)
next
  case (snoc p ps)
  have sub: "fst ` cscs_entry sha256 ` set ps \<subseteq> fst ` cscs_entry sha256 ` set (ps @ [p])" by auto
  have "card (fst ` cscs_entry sha256 ` set ps) \<le> CSCS_PER_SHARD_MAX_SESSIONS"
    using snoc.prems card_mono [OF _ sub] by simp
  from snoc.IH [OF this] have IH: "cscs_refines (map (cscs_entry sha256) ps) (fold (cscs_step sha256) ps (new_detector g))"
    "daeg (fold (cscs_step sha256) ps (new_detector g)) = g" by simp_all
  have "card (insert (cp_session p) (fst ` set (map (cscs_entry sha256) ps))) \<le> CSCS_PER_SHARD_MAX_SESSIONS"
    using snoc.prems by (simp add: cscs_entry_def)
  from cscs_refines_step(1,3) [OF IH(1) this] IH(2) show ?case by simp
qed



text \<open>However many sessions and packets there are, the detector tracks at most 50,000 sessions and at most 128
  fingerprints of each.\<close>

lemma cscs_memory_bounded:
  "tracked_sessions (fingerprinter (fold (cscs_step sha256) ps (new_detector g))) \<le> CSCS_MAX_TRACKED_SESSIONS \<and>
    length (window_of (fingerprinter (fold (cscs_step sha256) ps (new_detector g))) s) \<le> CSCS_WINDOW_SIZE"
proof -
  let ?h = "fingerprinter (fold (cscs_step sha256) ps (new_detector g))"
  have "history_ok (fingerprinter (fold (cscs_step sha256) ps det))" if "history_ok (fingerprinter det)" for det
    using that by (induction ps arbitrary: det) (simp_all add: cscs_step_def cs_detect_loop_ok)
  then have ok: "history_ok ?h" by (simp add: new_detector_def new_fingerprinter_ok)
  then have "sum_list (map length ?h) \<le> length ?h * CSCS_PER_SHARD_MAX_SESSIONS"
    using sum_list_mono [of ?h length "\<lambda>_. CSCS_PER_SHARD_MAX_SESSIONS"]
    by (simp add: history_ok_def shard_ok_def sum_list_triv)
  moreover have "shard_ok (?h ! cscs_shard_index s)" using ok cscs_shard_index_less [of s] by (simp add: history_ok_def)
  then have "length (window_of ?h s) \<le> CSCS_WINDOW_SIZE"
    by (auto simp: window_of_def shard_ok_def intro: ranI split: option.split)
  ultimately show ?thesis
    using ok by (simp add: tracked_sessions_def history_ok_def CSCS_PER_SHARD_MAX_SESSIONS_def CSCS_MAX_TRACKED_SESSIONS_def CSCS_SHARDS_def)
qed

end
