(* ===== verification/Loop_Gates.thy ===== *)
theory Loop_Gates
  imports Cscs Saacp_Frame
begin

text \<open>
  The gates 11.0 and 12.0 of the packet pipeline in \<open>src/handler.rs\<close>: each packet that carries a complete message
  is submitted to the execution governor as a root request and to the loop detector. The deadline
  \<open>pipeline_now_secs + 3600.0\<close> is an argument, as its \<open>f64\<close> bit pattern.
\<close>

section \<open>Definitions\<close>

datatype GateTier = Lightweight | Standard | Full

record ParsedPacket =
  pp_schema_id :: u16
  pp_flags :: u8
  pp_action_class :: u8
  pp_status_code :: u8
  pp_session_uuid :: string
  pp_sequence_id :: u64
  pp_context_state_id :: string
  pp_context_version :: u64
  pp_traceparent :: bytes
  pp_payload :: bytes
  pp_payload_dict :: "(string, json) hmap"
  pp_gate_tier :: GateTier
  pp_is_cover_traffic :: bool
  pp_source_agent :: string
  pp_is_binary_stream :: bool
  pp_max_action_class :: u8
  pp_token_sig_hash :: string

definition aegf_rid :: "(bytes \<Rightarrow> bytes) \<Rightarrow> ParsedPacket \<Rightarrow> string" where
  "aegf_rid sha256 p = hex_encode (sha256 (str_bytes (pp_session_uuid p) @ to_be_bytes 8 (pp_sequence_id p)))"

definition aegf_meta :: "(bytes \<Rightarrow> bytes) \<Rightarrow> ParsedPacket \<Rightarrow> string \<Rightarrow> u64 \<Rightarrow> AEGFMetadata" where
  "aegf_meta sha256 p source_agent ttl =
     \<lparr>md_cid = pp_session_uuid p, md_rid = aegf_rid sha256 p, md_prid = RID_ROOT, md_sid = pp_session_uuid p,
      md_oaid = source_agent, md_hc = 0, md_ed = 0, md_ttl = ttl\<rparr>"

fun decision_result :: "GovernanceDecision \<Rightarrow> unit result" where
  "decision_result GovernanceDecision.Allow = Ok ()"
| "decision_result Pause = Err AegfHopLimitExceeded"
| "decision_result Review = Err AegfLoopDetected"
| "decision_result Terminate = Err AegfTtlExpired"

definition gate_11_0 ::
  "(bytes \<Rightarrow> bytes) \<Rightarrow> ParsedPacket \<Rightarrow> string \<Rightarrow> u64 \<Rightarrow> readings \<Rightarrow> bool \<Rightarrow> AEGFGovernor \<Rightarrow> AEGFGovernor \<times> unit result" where
  "gate_11_0 sha256 p source_agent ttl t contended gov =
     (if is_schema_exempt (pp_status_code p) then (gov, Ok ())
      else let (gov1, d) = submit_and_complete gov (aegf_meta sha256 p source_agent ttl) t contended
           in (gov1, decision_result d))"

definition cscs_meta :: "(bytes \<Rightarrow> bytes) \<Rightarrow> ParsedPacket \<Rightarrow> string \<Rightarrow> u64 \<Rightarrow> AEGFMetadata" where
  "cscs_meta sha256 p source_agent ttl =
     \<lparr>md_cid = pp_session_uuid p,
      md_rid = hex_encode (sha256 (str_bytes (pp_session_uuid p) @ [pp_action_class p] @ to_be_bytes 8 (pp_sequence_id p))),
      md_prid = RID_ROOT, md_sid = pp_session_uuid p, md_oaid = source_agent,
      md_hc = ucast (pp_sequence_id p AND 0xFFFF), md_ed = 0, md_ttl = ttl\<rparr>"

definition gate_12_0 ::
  "(bytes \<Rightarrow> bytes) \<Rightarrow> ParsedPacket \<Rightarrow> string \<Rightarrow> u64 \<Rightarrow> secs \<Rightarrow> secs \<Rightarrow> CSCSLoopDetector \<Rightarrow> CSCSLoopDetector \<times> unit result" where
  "gate_12_0 sha256 p source_agent ttl now ts det =
     (if is_schema_exempt (pp_status_code p) then (det, Ok ())
      else cs_detect_loop sha256 det (pp_session_uuid p) (cscs_meta sha256 p source_agent ttl) (pp_action_class p) now ts)"

section \<open>Each sequence number passes once\<close>

text \<open>A packet with its agent, its ttl and the clock reads of the gate.\<close>

record gate_arrival =
  ga_packet :: ParsedPacket
  ga_agent :: string
  ga_deadline :: u64
  ga_reads :: readings
  ga_contended :: bool

definition gate_11_step :: "(bytes \<Rightarrow> bytes) \<Rightarrow> AEGFGovernor \<Rightarrow> gate_arrival \<Rightarrow> AEGFGovernor \<times> bool" where
  "gate_11_step sha256 gov a =
     (let (gov1, r) = gate_11_0 sha256 (ga_packet a) (ga_agent a) (ga_deadline a) (ga_reads a) (ga_contended a) gov
      in (gov1, r = Ok ()))"

definition timely :: "gate_arrival \<Rightarrow> bool" where
  "timely a \<longleftrightarrow> \<not> is_schema_exempt (pp_status_code (ga_packet a)) \<and>
     \<not> f64_before (ga_deadline a) (at_submit (ga_reads a)) \<and> \<not> f64_before (ga_deadline a) (at_validate (ga_reads a))"

text \<open>Between packets every registered request is in a terminal state.\<close>

definition esm_settled :: "AEGFGovernor \<Rightarrow> bool" where
  "esm_settled gov \<longleftrightarrow> hm_wf (gov_esm gov) \<and> (\<forall>rid s. get_request_state gov rid = Some s \<longrightarrow> is_terminal s)"

lemma gate_11_known:
  assumes "esm_settled gov" "timely a" "aegf_rid sha256 (ga_packet a) \<in> keys (gov_esm gov)"
  shows "gate_11_step sha256 gov a = (gov, False)"
proof -
  let ?rid = "aegf_rid sha256 (ga_packet a)"
  obtain rec where rec: "map_of (gov_esm gov) ?rid = Some rec" using assms(3) by (auto simp: keys_dom)
  then have t: "is_terminal (sr_state rec)" using assms(1) by (auto simp: esm_settled_def get_request_state_def esm_get_state_def)
  have "esm_create (gov_esm gov) ?rid reason now = (gov_esm gov, None)" for reason now using rec by (simp add: esm_create_def)
  moreover have "esm_transition (gov_esm gov) ?rid st reason now = (gov_esm gov, Err AegfInvalidTransition)" for st reason now
    using rec t by (simp add: esm_transition_def terminal_no_transition)
  ultimately show ?thesis
    using assms(2) rec t
    by (simp add: gate_11_step_def gate_11_0_def timely_def aegf_meta_def submit_and_complete_def metadata_expired_def
      register_request_def try_transition_def esm_get_state_def Let_def)
qed

lemma gate_11_fresh:
  assumes "esm_settled gov" "timely a" "aegf_rid sha256 (ga_packet a) \<notin> keys (gov_esm gov)" "length (gov_esm gov) < ESM_MAX_ENTRIES"
    "gate_11_step sha256 gov a = (gov1, ok)"
  shows "esm_settled gov1" "keys (gov_esm gov1) = insert (aegf_rid sha256 (ga_packet a)) (keys (gov_esm gov))"
    "length (gov_esm gov1) = Suc (length (gov_esm gov))" "gov_deg gov1 = gov_deg gov" "gov_policy gov1 = gov_policy gov"
    "ok \<longleftrightarrow> node_count (gov_deg gov) < unat (max_graph_nodes (gov_policy gov))"
proof -
  let ?rid = "aegf_rid sha256 (ga_packet a)" and ?m = "aegf_meta sha256 (ga_packet a) (ga_agent a) (ga_deadline a)"
  define d where "d = validate_transient_root (gov_deg gov) ?m (gov_policy gov) (at_validate (ga_reads a))"
  have m: "md_prid ?m = RID_ROOT" "md_rid ?m = ?rid" "md_ttl ?m = ga_deadline a" by (simp_all add: aegf_meta_def)
  have d: "d = (if node_count (gov_deg gov) < unat (max_graph_nodes (gov_policy gov)) then GovernanceDecision.Allow else Pause)"
    using assms(2) by (simp add: d_def validate_transient_root_def aegf_meta_def timely_def metadata_expired_def
      detect_excessive_hops_def detect_excessive_depth_def node_count_def)
  have none: "map_of (gov_esm gov) ?rid = None" using assms(3) by (auto simp: keys_dom)
  have ev: "evict_if_needed (gov_esm gov) = gov_esm gov" using assms(4) by (simp add: evict_if_needed_def)
  define rec where "rec = \<lparr>sr_state = Completed, sr_reason = ''completed'', sr_updated_at = at_complete (ga_reads a),
    sr_created_at = at_create (ga_reads a)\<rparr>"
  have upd: "AList.update k v (AList.update k w xs) = AList.update k v xs" for k :: string and v w :: StateRecord and xs
    by (induction xs) auto
  have st: "gate_11_step sha256 gov a = (gov\<lparr>gov_esm := AList.update ?rid rec (gov_esm gov)\<rparr>, d = GovernanceDecision.Allow)"
    using assms(2) none ev d
    by (cases "node_count (gov_deg gov) < unat (max_graph_nodes (gov_policy gov))")
      (simp_all add: gate_11_step_def gate_11_0_def timely_def submit_and_complete_def m d_def [symmetric] metadata_expired_def
        register_request_def esm_create_def try_transition_def esm_transition_def rec_def upd Let_def)
  then have g: "gov1 = gov\<lparr>gov_esm := AList.update ?rid rec (gov_esm gov)\<rparr>" "ok = (d = GovernanceDecision.Allow)" using assms(5) by simp_all
  show "esm_settled gov1" "keys (gov_esm gov1) = insert ?rid (keys (gov_esm gov))"
    "length (gov_esm gov1) = Suc (length (gov_esm gov))" "gov_deg gov1 = gov_deg gov" "gov_policy gov1 = gov_policy gov"
    "ok \<longleftrightarrow> node_count (gov_deg gov) < unat (max_graph_nodes (gov_policy gov))"
    using assms(1,3) g d
    by (simp_all add: esm_settled_def length_update) (auto simp: get_request_state_def esm_get_state_def rec_def split: if_splits)
qed

lemma gate_11_run:
  assumes "esm_settled gov" "list_all timely as" "length (gov_esm gov) + length as \<le> ESM_MAX_ENTRIES"
    "node_count (gov_deg gov) < unat (max_graph_nodes (gov_policy gov))"
  shows "map (\<lambda>a. aegf_rid sha256 (ga_packet a)) (snd (run_guard (gate_11_step sha256) gov as)) =
    filter (\<lambda>r. r \<notin> keys (gov_esm gov)) (rev (remdups (rev (map (\<lambda>a. aegf_rid sha256 (ga_packet a)) as))))"
  using assms
proof (induction as arbitrary: gov)
  case (Cons a as)
  let ?r = "aegf_rid sha256 (ga_packet a)"
  let ?rids = "map (\<lambda>a. aegf_rid sha256 (ga_packet a)) as"
  have dups: "rev (remdups (rev ?rids @ [?r])) = ?r # filter (\<lambda>r. r \<noteq> ?r) (rev (remdups (rev ?rids)))"
  proof -
    have "remdups (xs @ [x]) = filter (\<lambda>r. r \<noteq> x) (remdups xs) @ [x]" for xs and x :: string
      by (induction xs) auto
    then show ?thesis by (simp add: rev_filter)
  qed
  show ?case
  proof (cases "?r \<in> keys (gov_esm gov)")
    case True
    have "gate_11_step sha256 gov a = (gov, False)" using gate_11_known [OF Cons.prems(1) _ True] Cons.prems(2) by simp
    with Cons.IH [of gov] Cons.prems True show ?thesis
      by (auto simp: dups split_beta Let_def intro!: filter_cong)
  next
    case False
    obtain gov1 ok where st: "gate_11_step sha256 gov a = (gov1, ok)" by fastforce
    note f = gate_11_fresh [OF Cons.prems(1) _ False _ st]
    have pre: "timely a" "length (gov_esm gov) < ESM_MAX_ENTRIES" using Cons.prems(2,3) by simp_all
    have "map (\<lambda>a. aegf_rid sha256 (ga_packet a)) (snd (run_guard (gate_11_step sha256) gov1 as)) =
        filter (\<lambda>r. r \<notin> keys (gov_esm gov1)) (rev (remdups (rev ?rids)))"
      by (rule Cons.IH) (use f [OF pre] Cons.prems in simp_all)
    with st f [OF pre] Cons.prems(4) False show ?thesis
      by (auto simp: dups split_beta Let_def intro!: filter_cong)
  qed
qed simp


definition demo_packet :: "u64 \<Rightarrow> ParsedPacket" where
  "demo_packet n = \<lparr>pp_schema_id = 1, pp_flags = 0, pp_action_class = 1, pp_status_code = 0, pp_session_uuid = ''s'', pp_sequence_id = n,
     pp_context_state_id = [], pp_context_version = 0, pp_traceparent = [], pp_payload = [], pp_payload_dict = [],
     pp_gate_tier = Standard, pp_is_cover_traffic = False, pp_source_agent = ''a'', pp_is_binary_stream = False,
     pp_max_action_class = 2, pp_token_sig_hash = []\<rparr>"

definition demo_arrival :: "u64 \<Rightarrow> gate_arrival" where
  "demo_arrival n = \<lparr>ga_packet = demo_packet n, ga_agent = ''a'', ga_deadline = demo_ttl4, ga_reads = demo_readings 1, ga_contended = False\<rparr>"

lemma demo_arrival_timely: "timely (demo_arrival n)"
  by (simp add: timely_def demo_arrival_def demo_packet_def demo_readings_def demo_deadlines is_schema_exempt_def
    STATUS_STREAM_CONTINUATION_def STATUS_STREAM_END_def)


section \<open>Every third packet of one kind\<close>

text \<open>Gate 12.0 refuses the third of three successive packets that one agent sends in one session with the
  same action class, whatever their sequence numbers, payloads and schemas are, although the comment on the gate
  says that unique sequence numbers keep normal packet streams apart.\<close>

lemma gate_12_third_refused:
  assumes "history_ok (fingerprinter det)" "\<not> is_schema_exempt (pp_status_code p1)" "\<not> is_schema_exempt (pp_status_code p2)"
    "\<not> is_schema_exempt (pp_status_code p3)" "pp_session_uuid p2 = pp_session_uuid p1" "pp_session_uuid p3 = pp_session_uuid p1"
    "pp_action_class p2 = pp_action_class p1" "pp_action_class p3 = pp_action_class p1"
    "gate_12_0 sha256 p1 agent ttl1 t1 u1 det = (det1, r1)" "gate_12_0 sha256 p2 agent ttl2 t2 u2 det1 = (det2, r2)"
  shows "snd (gate_12_0 sha256 p3 agent ttl3 t3 u3 det2) = Err CircuitBreakerOpen"
proof -
  have d: "det1 = fst (cs_detect_loop sha256 det (pp_session_uuid p1) (cscs_meta sha256 p1 agent ttl1) (pp_action_class p1) t1 u1)"
    "det2 = fst (cs_detect_loop sha256 det1 (pp_session_uuid p1) (cscs_meta sha256 p2 agent ttl2) (pp_action_class p1) t2 u2)"
    using assms by (simp_all add: gate_12_0_def)
  have "snd (cs_detect_loop sha256 det2 (pp_session_uuid p1) (cscs_meta sha256 p3 agent ttl3) (pp_action_class p1) t3 u3) = Err CircuitBreakerOpen"
    by (rule third_packet_refused [OF assms(1) _ _ _ _ _ _ d, where a = agent and cid = "pp_session_uuid p1"])
      (use assms(5,6) in \<open>simp_all add: cscs_meta_def\<close>)
  with assms show ?thesis by (simp add: gate_12_0_def)
qed

end
