(* ===== verification/Trust_Decay.thy ===== *)
theory Trust_Decay
  imports Json Eviction Rate_Limiter
begin

text \<open>
  \<open>src/trust_decay.rs\<close>: the behavioural trust score of each agent (\<open>TrustDecayEngine\<close>) and the running total of
  intent divergence of each session (\<open>IntentDriftTracker\<close>). Recovery and decay are lazy: an entry is brought up
  to date when it is next touched. The signals a call sends to the observers are part of its result. Scores are
  exact rationals; the rounding of \<open>f64\<close> is not modelled.
\<close>

section \<open>Definitions\<close>

definition TRUST_SCORE_INITIAL :: rat where "TRUST_SCORE_INITIAL = 1"
definition TRUST_RECOVERY_PER_SECOND :: rat where "TRUST_RECOVERY_PER_SECOND = 5 / 10000"
definition TRUST_REPEAT_PENALTY_DECAY :: rat where "TRUST_REPEAT_PENALTY_DECAY = 1 / 2"
definition TRUST_DOWNGRADE_THRESHOLD :: rat where "TRUST_DOWNGRADE_THRESHOLD = 1 / 2"
definition TRUST_REAUTH_THRESHOLD :: rat where "TRUST_REAUTH_THRESHOLD = 1 / 4"
definition TRUST_REAUTH_MIN_COOLDOWN_SECONDS :: secs where "TRUST_REAUTH_MIN_COOLDOWN_SECONDS = 60"
definition TRUST_MAX_ENTRIES :: nat where "TRUST_MAX_ENTRIES = 10000"
definition TRUST_ENTRY_STALENESS_SECONDS :: secs where "TRUST_ENTRY_STALENESS_SECONDS = 86400"
definition TRUST_REWARD_CLEAN_PASSAGE :: rat where "TRUST_REWARD_CLEAN_PASSAGE = 1 / 1000"
definition TRUST_REWARD_VALID_RECEIPT :: rat where "TRUST_REWARD_VALID_RECEIPT = 5 / 1000"
definition TRUST_REWARD_CEILING :: rat where "TRUST_REWARD_CEILING = 95 / 100"
definition TRUST_REWARD_FLOOR :: rat where "TRUST_REWARD_FLOOR = 30 / 100"
definition TRUST_MAX_REWARDS_PER_MINUTE :: nat where "TRUST_MAX_REWARDS_PER_MINUTE = 10"
definition TRUST_REWARD_IRREVERSIBLE_MULTIPLIER :: rat where "TRUST_REWARD_IRREVERSIBLE_MULTIPLIER = 2"
definition TRUST_SHARDS :: nat where "TRUST_SHARDS = 16"
definition TRUST_PER_SHARD_MAX_ENTRIES :: nat where "TRUST_PER_SHARD_MAX_ENTRIES = TRUST_MAX_ENTRIES div TRUST_SHARDS"
definition TRUST_MAX_OBSERVERS :: nat where "TRUST_MAX_OBSERVERS = 64"

datatype PenaltyKind =
    ReplaySuspicion | IntentDriftCeiling | ScopeViolationPenalty | InjectionAttempt | EpistemicOverclaim
  | TargetViolation | ReceiptTimeout | CollusionSuspected | GenericHardDrop

datatype RewardKind = CleanPassage | ValidReceipt

fun penalty_weight :: "PenaltyKind \<Rightarrow> rat" where
  "penalty_weight ReplaySuspicion = 40 / 100"
| "penalty_weight IntentDriftCeiling = 35 / 100"
| "penalty_weight CollusionSuspected = 35 / 100"
| "penalty_weight InjectionAttempt = 30 / 100"
| "penalty_weight TargetViolation = 30 / 100"
| "penalty_weight ScopeViolationPenalty = 25 / 100"
| "penalty_weight EpistemicOverclaim = 20 / 100"
| "penalty_weight ReceiptTimeout = 15 / 100"
| "penalty_weight GenericHardDrop = 5 / 100"

fun reward_weight :: "RewardKind \<Rightarrow> rat" where
  "reward_weight CleanPassage = TRUST_REWARD_CLEAN_PASSAGE"
| "reward_weight ValidReceipt = TRUST_REWARD_VALID_RECEIPT"

datatype TrustEvent = Penalized PenaltyKind | Downgraded | ReauthRequired | Recovered | Rewarded RewardKind

record TrustSignal =
  ts_agent_id :: string
  ts_score :: rat
  ts_event :: TrustEvent

record AgentTrustSnapshot =
  as_agent_id :: string
  as_score :: rat
  as_requires_reauth :: bool

record TrustEntry =
  te_score :: rat
  te_last_update :: secs
  te_locked_at :: "secs option"
  te_reward_window_start :: "secs option"
  te_rewards_in_window :: nat
  te_penalty_count :: u32

text \<open>The key of an agent; the fingerprint is of the public key that the identity registry holds for the session.\<close>

definition trust_key_for :: "(bytes \<Rightarrow> bytes) \<Rightarrow> (string \<Rightarrow> string option) \<Rightarrow> string \<Rightarrow> string \<Rightarrow> string" where
  "trust_key_for sha256 get_by_session_id agent_id session_id_hex =
     (case Option.bind (get_by_session_id session_id_hex) (\<lambda>pk_hex. if pk_hex = [] then None else hex_decode pk_hex) of
        Some pk_bytes \<Rightarrow> ''pk:'' @ hex_encode (sha256 pk_bytes)
      | None \<Rightarrow> ''aid:'' @ agent_id)"

definition fresh_entry :: "secs \<Rightarrow> TrustEntry" where
  "fresh_entry now = \<lparr>te_score = TRUST_SCORE_INITIAL, te_last_update = now, te_locked_at = None,
     te_reward_window_start = None, te_rewards_in_window = 0, te_penalty_count = 0\<rparr>"

definition recovery_rate :: "u32 \<Rightarrow> rat" where
  "recovery_rate penalties =
     max (TRUST_RECOVERY_PER_SECOND / (1 + of_nat (unat penalties) * TRUST_REPEAT_PENALTY_DECAY)) (TRUST_RECOVERY_PER_SECOND * (1 / 10))"

definition recover_to :: "secs \<Rightarrow> TrustEntry \<Rightarrow> TrustEntry" where
  "recover_to now e =
     (let elapsed = max (now - te_last_update e) 0;
          sc = (if elapsed > 0 then min (te_score e + elapsed * recovery_rate (te_penalty_count e)) 1 else te_score e)
      in e\<lparr>te_score := sc, te_last_update := now,
           te_penalty_count := (if sc \<ge> TRUST_SCORE_INITIAL then 0 else te_penalty_count e)\<rparr>)"

definition try_consume_reward_slot :: "secs \<Rightarrow> TrustEntry \<Rightarrow> TrustEntry \<times> bool" where
  "try_consume_reward_slot now e =
     (if (case te_reward_window_start e of Some start \<Rightarrow> now - start < 60 | None \<Rightarrow> False)
      then if te_rewards_in_window e \<ge> TRUST_MAX_REWARDS_PER_MINUTE then (e, False)
           else (e\<lparr>te_rewards_in_window := te_rewards_in_window e + 1\<rparr>, True)
      else (e\<lparr>te_reward_window_start := Some now, te_rewards_in_window := 1\<rparr>, True))"

type_synonym trust_shard = "(string, TrustEntry) hmap"

definition trust_shard_index :: "string \<Rightarrow> nat" where
  "trust_shard_index key = fnv1a_shard key TRUST_SHARDS"

record TrustDecayEngine =
  te_shards :: "trust_shard list"
  te_observers :: "u64 list"
  te_next_observer_id :: u64

definition new_trust_engine :: TrustDecayEngine where
  "new_trust_engine = \<lparr>te_shards = replicate TRUST_SHARDS [], te_observers = [], te_next_observer_id = 0\<rparr>"

definition trust_subscribe :: "TrustDecayEngine \<Rightarrow> TrustDecayEngine \<times> u64 option" where
  "trust_subscribe eng =
     (if length (te_observers eng) \<ge> TRUST_MAX_OBSERVERS then (eng, None)
      else (eng\<lparr>te_observers := List.insert (te_next_observer_id eng) (te_observers eng),
                te_next_observer_id := te_next_observer_id eng + 1\<rparr>, Some (te_next_observer_id eng)))"

definition trust_unsubscribe :: "TrustDecayEngine \<Rightarrow> u64 \<Rightarrow> TrustDecayEngine \<times> bool" where
  "trust_unsubscribe eng h =
     (eng\<lparr>te_observers := remove1 h (te_observers eng)\<rparr>, h \<in> set (te_observers eng))"

text \<open>The callbacks that one signal causes: every observer receives it.\<close>

definition emit_trust :: "TrustDecayEngine \<Rightarrow> string \<Rightarrow> rat \<Rightarrow> TrustEvent \<Rightarrow> (u64 \<times> TrustSignal) list" where
  "emit_trust eng agent_id sc ev =
     map (\<lambda>id. (id, \<lparr>ts_agent_id = agent_id, ts_score = sc, ts_event = ev\<rparr>)) (te_observers eng)"

definition put_trust_shard :: "string \<Rightarrow> trust_shard \<Rightarrow> TrustDecayEngine \<Rightarrow> TrustDecayEngine" where
  "put_trust_shard k entries eng = eng\<lparr>te_shards := (te_shards eng)[trust_shard_index k := entries]\<rparr>"

definition trust_shard_of :: "TrustDecayEngine \<Rightarrow> string \<Rightarrow> trust_shard" where
  "trust_shard_of eng k = te_shards eng ! trust_shard_index k"

definition trust_score :: "TrustDecayEngine \<Rightarrow> string \<Rightarrow> secs \<Rightarrow> TrustDecayEngine \<times> rat" where
  "trust_score eng agent_id now =
     (case map_of (trust_shard_of eng agent_id) agent_id of
        Some e \<Rightarrow> (put_trust_shard agent_id (AList.update agent_id (recover_to now e) (trust_shard_of eng agent_id)) eng,
                    te_score (recover_to now e))
      | None \<Rightarrow> (eng, TRUST_SCORE_INITIAL))"

text \<open>The sweep of a full shard that \<open>penalize\<close> and \<open>reward\<close> begin with.\<close>

definition make_room :: "string \<Rightarrow> secs \<Rightarrow> trust_shard \<Rightarrow> trust_shard" where
  "make_room agent_id now entries =
     (if length entries \<ge> TRUST_PER_SHARD_MAX_ENTRIES \<and> \<not> contains_key entries agent_id
      then let entries1 = retain (\<lambda>_ e. te_score e < TRUST_SCORE_INITIAL \<or> te_locked_at e \<noteq> None)
                            (map (\<lambda>(k, e). (k, recover_to now e)) entries)
           in if length entries1 \<ge> TRUST_PER_SHARD_MAX_ENTRIES
              then remove_keys (oldest_keys (length entries1 + 1 - TRUST_PER_SHARD_MAX_ENTRIES) (\<lambda>e. - te_score e)
                     (retain (\<lambda>_ e. te_locked_at e = None) entries1)) entries1
              else entries1
      else entries)"

definition entry_or_fresh :: "string \<Rightarrow> secs \<Rightarrow> trust_shard \<Rightarrow> TrustEntry" where
  "entry_or_fresh agent_id now entries = (case map_of entries agent_id of Some e \<Rightarrow> e | None \<Rightarrow> fresh_entry now)"

definition penalize :: "TrustDecayEngine \<Rightarrow> string \<Rightarrow> PenaltyKind \<Rightarrow> secs \<Rightarrow> TrustDecayEngine \<times> rat \<times> (u64 \<times> TrustSignal) list" where
  "penalize eng agent_id kind now =
     (let entries = make_room agent_id now (trust_shard_of eng agent_id);
          e = recover_to now (entry_or_fresh agent_id now entries);
          was_downgraded = te_score e < TRUST_DOWNGRADE_THRESHOLD;
          sc = max (te_score e - penalty_weight kind) 0;
          now_downgraded = sc < TRUST_DOWNGRADE_THRESHOLD;
          just_locked = (sc < TRUST_REAUTH_THRESHOLD \<and> te_locked_at e = None);
          e1 = e\<lparr>te_score := sc, te_penalty_count := saturating_add (te_penalty_count e) 1,
                 te_locked_at := (if just_locked then Some now else te_locked_at e)\<rparr>
      in (put_trust_shard agent_id (AList.update agent_id e1 entries) eng, sc,
          emit_trust eng agent_id sc (Penalized kind) @
          (if now_downgraded \<and> \<not> was_downgraded then emit_trust eng agent_id sc Downgraded else []) @
          (if just_locked then emit_trust eng agent_id sc ReauthRequired else [])))"

definition reward_amount :: "RewardKind \<Rightarrow> bool \<Rightarrow> rat" where
  "reward_amount kind irreversible =
     (if irreversible then reward_weight kind * TRUST_REWARD_IRREVERSIBLE_MULTIPLIER else reward_weight kind)"

text \<open>The new score: at most the cap that applies to the old score, and never less than the old score.\<close>

definition rewarded_score :: "rat \<Rightarrow> rat \<Rightarrow> rat" where
  "rewarded_score sc amount =
     max (min (sc + amount) (if sc < TRUST_REWARD_FLOOR then TRUST_REWARD_FLOOR else TRUST_REWARD_CEILING)) sc"

definition reward :: "TrustDecayEngine \<Rightarrow> string \<Rightarrow> RewardKind \<Rightarrow> bool \<Rightarrow> secs \<Rightarrow> TrustDecayEngine \<times> rat \<times> (u64 \<times> TrustSignal) list" where
  "reward eng agent_id kind irreversible now =
     (let entries = make_room agent_id now (trust_shard_of eng agent_id);
          e = recover_to now (entry_or_fresh agent_id now entries);
          (e1, granted) = try_consume_reward_slot now e
      in if \<not> granted then (put_trust_shard agent_id (AList.update agent_id e1 entries) eng, te_score e1, [])
         else let was_downgraded = te_score e1 < TRUST_DOWNGRADE_THRESHOLD;
                  sc = rewarded_score (te_score e1) (reward_amount kind irreversible);
                  now_downgraded = sc < TRUST_DOWNGRADE_THRESHOLD
              in (put_trust_shard agent_id (AList.update agent_id (e1\<lparr>te_score := sc\<rparr>) entries) eng, sc,
                  emit_trust eng agent_id sc (Rewarded kind) @
                  (if was_downgraded \<and> \<not> now_downgraded then emit_trust eng agent_id sc Recovered else [])))"

definition scope_cap :: "TrustDecayEngine \<Rightarrow> string \<Rightarrow> secs \<Rightarrow> TrustDecayEngine \<times> u8 option" where
  "scope_cap eng agent_id now =
     (let (eng1, sc) = trust_score eng agent_id now in (eng1, if sc < TRUST_DOWNGRADE_THRESHOLD then Some 0 else None))"

definition requires_reauth_at :: "TrustDecayEngine \<Rightarrow> string \<Rightarrow> secs \<Rightarrow> TrustDecayEngine \<times> bool \<times> (u64 \<times> TrustSignal) list" where
  "requires_reauth_at eng agent_id now =
     (case map_of (trust_shard_of eng agent_id) agent_id of
        None \<Rightarrow> (eng, False, [])
      | Some e0 \<Rightarrow>
          let e = recover_to now e0;
              put = (\<lambda>e. put_trust_shard agent_id (AList.update agent_id e (trust_shard_of eng agent_id)) eng)
          in case te_locked_at e of
               None \<Rightarrow> (put e, False, [])
             | Some locked_at \<Rightarrow>
                 if now - locked_at \<ge> TRUST_REAUTH_MIN_COOLDOWN_SECONDS \<and> te_score e \<ge> TRUST_REAUTH_THRESHOLD
                 then (put (e\<lparr>te_locked_at := None\<rparr>), False,
                       if te_score e < TRUST_DOWNGRADE_THRESHOLD then [] else emit_trust eng agent_id (te_score e) Recovered)
                 else (put e, True, []))"

definition trust_reset :: "TrustDecayEngine \<Rightarrow> string option \<Rightarrow> TrustDecayEngine" where
  "trust_reset eng agent =
     (case agent of
        Some k \<Rightarrow> put_trust_shard k (AList.delete k (trust_shard_of eng k)) eng
      | None \<Rightarrow> eng\<lparr>te_shards := map (\<lambda>_. []) (te_shards eng)\<rparr>)"

definition trust_tracked_count :: "TrustDecayEngine \<Rightarrow> nat" where
  "trust_tracked_count eng = sum_list (map length (te_shards eng))"

definition sweep_stale :: "TrustDecayEngine \<Rightarrow> secs \<Rightarrow> TrustDecayEngine \<times> nat" where
  "sweep_stale eng now =
     (let keep = (\<lambda>_ e. te_locked_at e \<noteq> None \<or> now - te_last_update e < TRUST_ENTRY_STALENESS_SECONDS);
          swept = map (retain keep) (te_shards eng)
      in (eng\<lparr>te_shards := swept\<rparr>, sum_list (map length (te_shards eng)) - sum_list (map length swept)))"

definition snapshot_entry :: "secs \<Rightarrow> string \<Rightarrow> TrustEntry \<Rightarrow> AgentTrustSnapshot" where
  "snapshot_entry now k e =
     \<lparr>as_agent_id = k, as_score = te_score e,
      as_requires_reauth = (case te_locked_at e of
          Some locked_at \<Rightarrow> \<not> (now - locked_at \<ge> TRUST_REAUTH_MIN_COOLDOWN_SECONDS \<and> te_score e \<ge> TRUST_REAUTH_THRESHOLD)
        | None \<Rightarrow> False)\<rparr>"

definition trust_snapshot :: "TrustDecayEngine \<Rightarrow> nat \<Rightarrow> secs \<Rightarrow> TrustDecayEngine \<times> AgentTrustSnapshot list" where
  "trust_snapshot eng limit now =
     (let shards = map (map (\<lambda>(k, e). (k, recover_to now e))) (te_shards eng)
      in (eng\<lparr>te_shards := shards\<rparr>,
          take limit (sort_key as_score (concat (map (map (\<lambda>(k, e). snapshot_entry now k e)) shards)))))"

subsection \<open>Intent drift\<close>

definition DRIFT_MAX_TRACKED_SESSIONS :: nat where "DRIFT_MAX_TRACKED_SESSIONS = 50000"
definition CHAIN_DRIFT_CEILING :: rat where "CHAIN_DRIFT_CEILING = 2"
definition DRIFT_DECAY_PER_SECOND :: rat where "DRIFT_DECAY_PER_SECOND = CHAIN_DRIFT_CEILING / 600"

record DriftEntry =
  de_total :: rat
  de_last_update :: secs

definition decay_to :: "secs \<Rightarrow> DriftEntry \<Rightarrow> DriftEntry" where
  "decay_to now e =
     (let elapsed = max (now - de_last_update e) 0
      in e\<lparr>de_total := (if elapsed > 0 then max (de_total e - elapsed * DRIFT_DECAY_PER_SECOND) 0 else de_total e),
           de_last_update := now\<rparr>)"

type_synonym drift_map = "(string, DriftEntry) hmap"

definition accumulate :: "drift_map \<Rightarrow> string \<Rightarrow> rat \<Rightarrow> secs \<Rightarrow> drift_map \<times> rat" where
  "accumulate sessions session_uuid divergence now =
     (let sessions1 =
            (if length sessions \<ge> DRIFT_MAX_TRACKED_SESSIONS \<and> \<not> contains_key sessions session_uuid
             then remove_keys (oldest_keys (length sessions + 1 - DRIFT_MAX_TRACKED_SESSIONS) de_last_update sessions) sessions
             else sessions);
          e = decay_to now (case map_of sessions1 session_uuid of Some e \<Rightarrow> e | None \<Rightarrow> \<lparr>de_total = 0, de_last_update = now\<rparr>);
          e1 = e\<lparr>de_total := de_total e + divergence\<rparr>
      in (AList.update session_uuid e1 sessions1, de_total e1))"

definition drift_reset :: "drift_map \<Rightarrow> string option \<Rightarrow> drift_map" where
  "drift_reset sessions session = (case session of Some k \<Rightarrow> AList.delete k sessions | None \<Rightarrow> [])"

definition drift_tracked_count :: "drift_map \<Rightarrow> nat" where
  "drift_tracked_count sessions = length sessions"

section \<open>Entries\<close>

lemma recovery_rate_bounds:
  "TRUST_RECOVERY_PER_SECOND * (1 / 10) \<le> recovery_rate n" "recovery_rate n \<le> TRUST_RECOVERY_PER_SECOND" "0 < recovery_rate n"
proof -
  have "(0::rat) \<le> of_nat (unat n)" by (rule of_nat_0_le_iff)
  then have d: "(1::rat) \<le> 1 + of_nat (unat n) * TRUST_REPEAT_PENALTY_DECAY" by (simp add: TRUST_REPEAT_PENALTY_DECAY_def)
  have "TRUST_RECOVERY_PER_SECOND / (1 + of_nat (unat n) * TRUST_REPEAT_PENALTY_DECAY) \<le> TRUST_RECOVERY_PER_SECOND / 1"
    using d by (intro divide_left_mono) (auto simp: TRUST_RECOVERY_PER_SECOND_def)
  then show "recovery_rate n \<le> TRUST_RECOVERY_PER_SECOND" by (simp add: recovery_rate_def TRUST_RECOVERY_PER_SECOND_def)
  show "TRUST_RECOVERY_PER_SECOND * (1 / 10) \<le> recovery_rate n" by (simp add: recovery_rate_def)
  then show "0 < recovery_rate n" by (simp add: TRUST_RECOVERY_PER_SECOND_def)
qed

definition entry_ok :: "TrustEntry \<Rightarrow> bool" where
  "entry_ok e \<longleftrightarrow> 0 \<le> te_score e \<and> te_score e \<le> 1"

lemma recover_to_ok: "entry_ok e \<Longrightarrow> entry_ok (recover_to now e)"
  using mult_nonneg_nonneg [of "now - te_last_update e" "recovery_rate (te_penalty_count e)"] recovery_rate_bounds(3) [of "te_penalty_count e"]
  by (auto simp: entry_ok_def recover_to_def Let_def)

lemma recover_to_simps [simp]:
  "te_locked_at (recover_to now e) = te_locked_at e" "te_last_update (recover_to now e) = now"
  "te_reward_window_start (recover_to now e) = te_reward_window_start e"
  "te_rewards_in_window (recover_to now e) = te_rewards_in_window e"
  by (simp_all add: recover_to_def Let_def)

lemma recover_to_mono: "te_score e \<le> 1 \<Longrightarrow> te_score e \<le> te_score (recover_to now e)"
  using mult_nonneg_nonneg [of "now - te_last_update e" "recovery_rate (te_penalty_count e)"] recovery_rate_bounds(3) [of "te_penalty_count e"]
  by (auto simp: recover_to_def Let_def)

lemma recover_to_closed:
  assumes "te_score e \<le> 1" "te_last_update e \<le> now"
  shows "recover_to now e =
    (let sc = min (te_score e + (now - te_last_update e) * recovery_rate (te_penalty_count e)) 1
     in e\<lparr>te_score := sc, te_last_update := now, te_penalty_count := (if sc = 1 then 0 else te_penalty_count e)\<rparr>)"
proof -
  define sc where "sc = min (te_score e + (now - te_last_update e) * recovery_rate (te_penalty_count e)) 1"
  have el: "max (now - te_last_update e) 0 = now - te_last_update e" using assms(2) by simp
  have "te_score e = sc" if "\<not> 0 < now - te_last_update e"
  proof -
    have "now - te_last_update e = 0" using that assms(2) by simp
    then have "te_score e + (now - te_last_update e) * recovery_rate (te_penalty_count e) = te_score e" by (simp only: mult_zero_left add_0_right)
    with assms(1) show ?thesis by (simp only: sc_def min_absorb1)
  qed
  then have "(if 0 < now - te_last_update e then sc else te_score e) = sc" by simp
  moreover have "sc \<ge> 1 \<longleftrightarrow> sc = 1" by (auto simp: sc_def)
  ultimately show ?thesis
    unfolding recover_to_def Let_def TRUST_SCORE_INITIAL_def el sc_def [symmetric] by (simp only:)
qed

text \<open>Reading an entry in between does not change what it is later.\<close>

lemma recover_to_lazy:
  assumes "te_score e \<le> 1" "te_last_update e \<le> t1" "t1 \<le> t2"
  shows "recover_to t2 (recover_to t1 e) = recover_to t2 e"
proof -
  define r L s where "r = recovery_rate (te_penalty_count e)" and "L = te_last_update e" and "s = te_score e"
  have r: "0 < r" unfolding r_def by (rule recovery_rate_bounds)
  define s1 where "s1 = min (s + (t1 - L) * r) 1"
  have e1: "recover_to t1 e = e\<lparr>te_score := s1, te_last_update := t1, te_penalty_count := (if s1 = 1 then 0 else te_penalty_count e)\<rparr>"
    using recover_to_closed [OF assms(1,2)] by (simp add: Let_def s1_def s_def L_def r_def)
  have "te_last_update e \<le> t2" using assms(2,3) by simp
  note e2 = recover_to_closed [OF assms(1) this, unfolded Let_def, folded s_def L_def r_def]
  have le: "te_score (recover_to t1 e) \<le> 1" "te_last_update (recover_to t1 e) \<le> t2" using assms(3) by (simp_all add: e1 s1_def)
  note e12 = recover_to_closed [OF le, unfolded Let_def e1]
  have pos: "0 \<le> (t2 - t1) * r" using r assms(3) by simp
  have sum: "s + (t2 - L) * r = s + (t1 - L) * r + (t2 - t1) * r" by (simp add: algebra_simps)
  show ?thesis
  proof (cases "s1 = 1")
    case True
    then have "1 \<le> s + (t1 - L) * r" by (simp add: s1_def min_def split: if_splits)
    then have "min (s + (t2 - L) * r) 1 = 1" using pos sum by linarith
    moreover have "min (s1 + (t2 - t1) * recovery_rate 0) 1 = 1"
      using True assms(3) recovery_rate_bounds(3) [of 0] by (simp add: min_absorb2)
    ultimately show ?thesis unfolding e12 e1 e2 using True by simp
  next
    case False
    then have "s1 = s + (t1 - L) * r" by (simp add: s1_def min_def split: if_splits)
    then have "s1 + (t2 - t1) * r = s + (t2 - L) * r" using sum by simp
    then show ?thesis unfolding e12 e1 e2 using False by (simp add: r_def)
  qed
qed

lemma try_consume_simps [simp]:
  "te_locked_at (fst (try_consume_reward_slot now e)) = te_locked_at e"
  "te_score (fst (try_consume_reward_slot now e)) = te_score e"
  "te_last_update (fst (try_consume_reward_slot now e)) = te_last_update e"
  "te_penalty_count (fst (try_consume_reward_slot now e)) = te_penalty_count e"
  by (simp_all add: try_consume_reward_slot_def)

lemma rewarded_score_bounds: "sc \<le> 1 \<Longrightarrow> sc \<le> rewarded_score sc amount \<and> rewarded_score sc amount \<le> 1"
  by (auto simp: rewarded_score_def TRUST_REWARD_FLOOR_def TRUST_REWARD_CEILING_def)

section \<open>The engine\<close>

definition trust_entry :: "TrustDecayEngine \<Rightarrow> string \<Rightarrow> TrustEntry option" where
  "trust_entry eng a = map_of (trust_shard_of eng a) a"

definition lock_of :: "TrustDecayEngine \<Rightarrow> string \<Rightarrow> secs option" where
  "lock_of eng a = Option.bind (trust_entry eng a) te_locked_at"

definition trust_shard_ok :: "trust_shard \<Rightarrow> bool" where
  "trust_shard_ok m \<longleftrightarrow> hm_wf m \<and> (\<forall>k e. map_of m k = Some e \<longrightarrow> entry_ok e)"

definition trust_ok :: "TrustDecayEngine \<Rightarrow> bool" where
  "trust_ok eng \<longleftrightarrow> length (te_shards eng) = TRUST_SHARDS \<and> (\<forall>m \<in> set (te_shards eng). trust_shard_ok m)"

lemma trust_shard_index_less: "trust_shard_index k < TRUST_SHARDS"
  by (simp add: trust_shard_index_def fnv1a_shard_less TRUST_SHARDS_def)

lemma trust_shard_of_ok: "trust_ok eng \<Longrightarrow> trust_shard_ok (trust_shard_of eng k)"
  using trust_shard_index_less [of k] by (simp add: trust_ok_def trust_shard_of_def)

lemma put_trust_shard_ok: "trust_ok eng \<Longrightarrow> trust_shard_ok m \<Longrightarrow> trust_ok (put_trust_shard k m eng)"
  by (auto simp: trust_ok_def put_trust_shard_def dest!: set_update_subset_insert [THEN subsetD])

lemma trust_entry_put:
  "trust_ok eng \<Longrightarrow> trust_entry (put_trust_shard k m eng) a =
     (if trust_shard_index a = trust_shard_index k then map_of m a else trust_entry eng a)"
  using trust_shard_index_less [of k] by (simp add: trust_entry_def trust_shard_of_def put_trust_shard_def trust_ok_def nth_list_update)

lemma trust_entry_same_shard: "trust_shard_index a = trust_shard_index k \<Longrightarrow> map_of (trust_shard_of eng k) a = trust_entry eng a"
  by (simp add: trust_entry_def trust_shard_of_def)

lemma trust_entry_put_update:
  "trust_ok eng \<Longrightarrow> trust_entry (put_trust_shard k (AList.update k e (trust_shard_of eng k)) eng) a =
     (if a = k then Some e else trust_entry eng a)"
  "trust_ok eng \<Longrightarrow> trust_entry (put_trust_shard k (AList.delete k (trust_shard_of eng k)) eng) a =
     (if a = k then None else trust_entry eng a)"
  by (simp_all add: trust_entry_put trust_entry_same_shard)

lemma trust_entry_ok: "trust_ok eng \<Longrightarrow> trust_entry eng a = Some e \<Longrightarrow> entry_ok e"
  using trust_shard_of_ok [of eng a] by (simp add: trust_entry_def trust_shard_ok_def)

lemma map_of_recover: "map_of (map (\<lambda>(k, e). (k, recover_to now e)) m) a = map_option (recover_to now) (map_of m a)"
  by (induction m) auto

lemma hm_wf_recover: "hm_wf m \<Longrightarrow> hm_wf (map (\<lambda>(k, e). (k, recover_to now e)) m)"
  by (simp add: hm_wf_def comp_def split_beta)

lemma trust_shard_ok_recover: "trust_shard_ok m \<Longrightarrow> trust_shard_ok (map (\<lambda>(k, e). (k, recover_to now e)) m)"
  by (auto simp: trust_shard_ok_def hm_wf_recover map_of_recover recover_to_ok)

lemma trust_shard_ok_sub:
  "trust_shard_ok m \<Longrightarrow> hm_wf m' \<Longrightarrow> (\<And>k. map_of m' k = None \<or> map_of m' k = map_of m k) \<Longrightarrow> trust_shard_ok m'"
  unfolding trust_shard_ok_def by (metis option.distinct(1))

lemma trust_shard_ok_retain: "trust_shard_ok m \<Longrightarrow> trust_shard_ok (retain P m)"
  by (rule trust_shard_ok_sub) (auto simp: trust_shard_ok_def map_of_retain split: option.split)

lemma trust_shard_ok_remove: "trust_shard_ok m \<Longrightarrow> trust_shard_ok (remove_keys ks m)"
  by (rule trust_shard_ok_sub) (auto simp: trust_shard_ok_def)

lemma trust_shard_ok_update: "trust_shard_ok m \<Longrightarrow> entry_ok e \<Longrightarrow> trust_shard_ok (AList.update k e m)"
  by (auto simp: trust_shard_ok_def)

lemma make_room_ok: "trust_shard_ok m \<Longrightarrow> trust_shard_ok (make_room k now m)"
  by (simp add: make_room_def Let_def trust_shard_ok_remove trust_shard_ok_retain trust_shard_ok_recover)

lemma make_room_present [simp]: "map_of m k = Some e \<Longrightarrow> make_room k now m = m"
  by (simp add: make_room_def)

text \<open>A locked entry is never evicted.\<close>

lemma make_room_locked:
  assumes "hm_wf m" "map_of m a = Some e" "te_locked_at e = Some t"
  shows "\<exists>e'. map_of (make_room k now m) a = Some e' \<and> te_locked_at e' = Some t"
proof -
  let ?m1 = "retain (\<lambda>_ e. te_score e < TRUST_SCORE_INITIAL \<or> te_locked_at e \<noteq> None) (map (\<lambda>(k, e). (k, recover_to now e)) m)"
  let ?free = "retain (\<lambda>_ e. te_locked_at e = None) ?m1"
  have wf: "hm_wf ?m1" using assms(1) by (simp add: hm_wf_recover)
  have m1: "map_of ?m1 a = Some (recover_to now e)"
    using assms by (simp add: map_of_retain hm_wf_recover map_of_recover)
  then have "map_of ?free a = None" using wf assms(3) by (simp add: map_of_retain)
  then have "a \<notin> set (oldest_keys n age ?free)" for n and age :: "TrustEntry \<Rightarrow> rat"
    using oldest_keys_props(2) [of ?free n age] wf by (auto simp: keys_dom)
  with m1 assms show ?thesis by (auto simp: make_room_def Let_def)
qed

text \<open>The shape of \<open>penalize\<close> and \<open>reward\<close>: make room and store the new entry.\<close>

definition touch :: "string \<Rightarrow> secs \<Rightarrow> TrustEntry \<Rightarrow> TrustDecayEngine \<Rightarrow> TrustDecayEngine" where
  "touch k now e eng = put_trust_shard k (AList.update k e (make_room k now (trust_shard_of eng k))) eng"

lemma touch_ok: "trust_ok eng \<Longrightarrow> entry_ok e \<Longrightarrow> trust_ok (touch k now e eng)"
  by (simp add: touch_def put_trust_shard_ok trust_shard_ok_update make_room_ok trust_shard_of_ok)

lemma touch_lock:
  assumes "trust_ok eng" "lock_of eng a = Some t" "a = k \<Longrightarrow> te_locked_at e = Some t"
  shows "lock_of (touch k now e eng) a = Some t"
proof (cases "trust_shard_index a = trust_shard_index k \<and> a \<noteq> k")
  case True
  obtain ea where ea: "trust_entry eng a = Some ea" "te_locked_at ea = Some t"
    using assms(2) by (auto simp: lock_of_def bind_eq_Some_conv)
  then have m: "map_of (trust_shard_of eng k) a = Some ea" using True by (simp add: trust_entry_def trust_shard_of_def)
  have "hm_wf (trust_shard_of eng k)" using trust_shard_of_ok [OF assms(1), of k] by (simp add: trust_shard_ok_def)
  from make_room_locked [OF this m ea(2), of k now] True show ?thesis
    by (auto simp: lock_of_def touch_def trust_entry_put [OF assms(1)])
next
  case False
  with assms show ?thesis by (auto simp: lock_of_def touch_def trust_entry_put)
qed

text \<open>The entry of an agent, as it is at a time.\<close>

definition entry_at :: "TrustDecayEngine \<Rightarrow> string \<Rightarrow> secs \<Rightarrow> TrustEntry" where
  "entry_at eng k now = recover_to now (entry_or_fresh k now (make_room k now (trust_shard_of eng k)))"

lemma entry_at_present: "trust_entry eng k = Some e \<Longrightarrow> entry_at eng k now = recover_to now e"
  by (simp add: entry_at_def entry_or_fresh_def trust_entry_def)

lemma entry_at_ok: "trust_ok eng \<Longrightarrow> entry_ok (entry_at eng k now)"
proof -
  assume "trust_ok eng"
  then have "trust_shard_ok (make_room k now (trust_shard_of eng k))" by (simp add: make_room_ok trust_shard_of_ok)
  moreover have "entry_ok (fresh_entry now)" by (simp add: fresh_entry_def entry_ok_def TRUST_SCORE_INITIAL_def)
  ultimately have "entry_ok (entry_or_fresh k now (make_room k now (trust_shard_of eng k)))"
    by (simp add: entry_or_fresh_def trust_shard_ok_def split: option.split)
  then show ?thesis by (simp add: entry_at_def recover_to_ok)
qed

definition penalized_entry :: "PenaltyKind \<Rightarrow> secs \<Rightarrow> TrustEntry \<Rightarrow> TrustEntry" where
  "penalized_entry kind now e =
     (let sc = max (te_score e - penalty_weight kind) 0
      in e\<lparr>te_score := sc, te_penalty_count := saturating_add (te_penalty_count e) 1,
           te_locked_at := (if sc < TRUST_REAUTH_THRESHOLD \<and> te_locked_at e = None then Some now else te_locked_at e)\<rparr>)"

definition rewarded_entry :: "RewardKind \<Rightarrow> bool \<Rightarrow> secs \<Rightarrow> TrustEntry \<Rightarrow> TrustEntry" where
  "rewarded_entry kind irr now e =
     (let (e1, granted) = try_consume_reward_slot now e
      in if granted then e1\<lparr>te_score := rewarded_score (te_score e1) (reward_amount kind irr)\<rparr> else e1)"

lemma penalize_touch: "fst (penalize eng k kind now) = touch k now (penalized_entry kind now (entry_at eng k now)) eng"
  by (simp add: penalize_def touch_def entry_at_def penalized_entry_def Let_def)

lemma reward_touch: "fst (reward eng k kind irr now) = touch k now (rewarded_entry kind irr now (entry_at eng k now)) eng"
  by (simp add: reward_def touch_def entry_at_def rewarded_entry_def Let_def split_beta)

lemma penalty_weight_nonneg: "0 \<le> penalty_weight kind"
  by (cases kind) simp_all

lemma penalized_entry_ok: "entry_ok e \<Longrightarrow> entry_ok (penalized_entry kind now e)"
  using penalty_weight_nonneg [of kind] by (simp add: entry_ok_def penalized_entry_def Let_def)

lemma rewarded_entry_ok: "entry_ok e \<Longrightarrow> entry_ok (rewarded_entry kind irr now e)"
  using rewarded_score_bounds [of "te_score e" "reward_amount kind irr"]
  by (simp add: entry_ok_def rewarded_entry_def split_beta Let_def)

lemma rewarded_entry_lock [simp]: "te_locked_at (rewarded_entry kind irr now e) = te_locked_at e"
  by (simp add: rewarded_entry_def split_beta Let_def)

lemma penalized_entry_lock: "te_locked_at e = Some t \<Longrightarrow> te_locked_at (penalized_entry kind now e) = Some t"
  by (simp add: penalized_entry_def Let_def)

lemma penalize_ok: "trust_ok eng \<Longrightarrow> trust_ok (fst (penalize eng k kind now))"
  by (simp add: penalize_touch touch_ok penalized_entry_ok entry_at_ok)

lemma reward_ok: "trust_ok eng \<Longrightarrow> trust_ok (fst (reward eng k kind irr now))"
  by (simp add: reward_touch touch_ok rewarded_entry_ok entry_at_ok)

lemma trust_score_ok: "trust_ok eng \<Longrightarrow> trust_ok (fst (trust_score eng k now))"
  using trust_shard_of_ok [of eng k]
  by (auto simp: trust_score_def trust_shard_ok_def recover_to_ok split: option.split intro!: put_trust_shard_ok trust_shard_ok_update)

lemma requires_reauth_ok: "trust_ok eng \<Longrightarrow> trust_ok (fst (requires_reauth_at eng k now))"
proof (cases "map_of (trust_shard_of eng k) k")
  case (Some e)
  assume ok: "trust_ok eng"
  have "entry_ok (recover_to now e)" using trust_shard_of_ok [OF ok, of k] Some by (simp add: trust_shard_ok_def recover_to_ok)
  then have "entry_ok ((recover_to now e)\<lparr>te_locked_at := None\<rparr>)" by (simp add: entry_ok_def)
  with Some ok \<open>entry_ok (recover_to now e)\<close> show ?thesis
    by (auto simp: requires_reauth_at_def Let_def trust_shard_of_ok split: option.split intro!: put_trust_shard_ok trust_shard_ok_update)
qed (simp add: requires_reauth_at_def)

section \<open>Runs\<close>

datatype trust_call =
    TPenalize string PenaltyKind secs
  | TReward string RewardKind bool secs
  | TScore string secs
  | TScopeCap string secs
  | TReauth string secs
  | TReset "string option"
  | TSweep secs
  | TSnapshot nat secs

fun trust_step :: "trust_call \<Rightarrow> TrustDecayEngine \<Rightarrow> TrustDecayEngine" where
  "trust_step (TPenalize k kind now) eng = fst (penalize eng k kind now)"
| "trust_step (TReward k kind irr now) eng = fst (reward eng k kind irr now)"
| "trust_step (TScore k now) eng = fst (trust_score eng k now)"
| "trust_step (TScopeCap k now) eng = fst (scope_cap eng k now)"
| "trust_step (TReauth k now) eng = fst (requires_reauth_at eng k now)"
| "trust_step (TReset k) eng = trust_reset eng k"
| "trust_step (TSweep now) eng = fst (sweep_stale eng now)"
| "trust_step (TSnapshot limit now) eng = fst (trust_snapshot eng limit now)"

lemma trust_reset_ok: "trust_ok eng \<Longrightarrow> trust_ok (trust_reset eng k)"
proof (cases k)
  case None
  assume "trust_ok eng"
  moreover have "trust_shard_ok []" by (simp add: trust_shard_ok_def)
  ultimately show ?thesis using None by (simp add: trust_reset_def trust_ok_def)
next
  case (Some a)
  assume ok: "trust_ok eng"
  have "trust_shard_ok (AList.delete a (trust_shard_of eng a))"
    by (rule trust_shard_ok_sub [OF trust_shard_of_ok [OF ok, of a]])
      (use trust_shard_of_ok [OF ok, of a] in \<open>simp_all add: trust_shard_ok_def\<close>)
  with ok Some show ?thesis by (simp add: trust_reset_def put_trust_shard_ok)
qed

lemma trust_map_ok: "trust_ok eng \<Longrightarrow> (\<And>m. trust_shard_ok m \<Longrightarrow> trust_shard_ok (f m)) \<Longrightarrow> trust_ok (eng\<lparr>te_shards := map f (te_shards eng)\<rparr>)"
  by (simp add: trust_ok_def)

lemma trust_step_ok: "trust_ok eng \<Longrightarrow> trust_ok (trust_step call eng)"
proof (cases call)
  case (TSweep now)
  assume "trust_ok eng"
  from trust_map_ok [OF this trust_shard_ok_retain] TSweep show ?thesis by (simp only: sweep_stale_def Let_def fst_conv trust_step.simps)
next
  case (TSnapshot limit now)
  assume "trust_ok eng"
  from trust_map_ok [OF this trust_shard_ok_recover] TSnapshot show ?thesis by (simp only: trust_snapshot_def Let_def fst_conv trust_step.simps)
qed (simp_all add: penalize_ok reward_ok trust_score_ok scope_cap_def split_beta requires_reauth_ok trust_reset_ok)

lemma new_trust_ok: "trust_ok new_trust_engine"
  by (simp add: trust_ok_def new_trust_engine_def trust_shard_ok_def)

lemma trust_run_ok: "trust_ok eng \<Longrightarrow> trust_ok (fold trust_step calls eng)"
  by (induction calls arbitrary: eng) (simp_all add: trust_step_ok)

section \<open>Lockout\<close>

text \<open>A call that can end the lockout of an agent: resetting it, or asking for it after the cooldown.\<close>

fun may_unlock :: "string \<Rightarrow> secs \<Rightarrow> trust_call \<Rightarrow> bool" where
  "may_unlock a until (TReauth k now) \<longleftrightarrow> k = a \<and> until \<le> now"
| "may_unlock a until (TReset k) \<longleftrightarrow> k = None \<or> k = Some a"
| "may_unlock a until _ \<longleftrightarrow> False"

lemma lock_ofE:
  assumes "lock_of eng a = Some t"
  obtains e where "trust_entry eng a = Some e" "te_locked_at e = Some t"
  using assms by (auto simp: lock_of_def bind_eq_Some_conv)

lemma lock_of_put:
  "trust_ok eng \<Longrightarrow> lock_of (put_trust_shard k (AList.update k e (trust_shard_of eng k)) eng) a =
     (if a = k then te_locked_at e else lock_of eng a)"
  by (simp add: lock_of_def trust_entry_put_update)

lemma lock_of_map:
  assumes "trust_ok eng" "\<And>m e. hm_wf m \<Longrightarrow> map_of m a = Some e \<Longrightarrow> te_locked_at e = Some t \<Longrightarrow> \<exists>e'. map_of (f m) a = Some e' \<and> te_locked_at e' = Some t"
    "lock_of eng a = Some t"
  shows "lock_of (eng\<lparr>te_shards := map f (te_shards eng)\<rparr>) a = Some t"
proof -
  have i: "trust_shard_index a < length (te_shards eng)" using assms(1) trust_shard_index_less [of a] by (simp add: trust_ok_def)
  obtain e where e: "map_of (trust_shard_of eng a) a = Some e" "te_locked_at e = Some t"
    using assms(3) by (auto simp: lock_of_def trust_entry_def bind_eq_Some_conv)
  have "hm_wf (trust_shard_of eng a)" using trust_shard_of_ok [OF assms(1), of a] by (simp add: trust_shard_ok_def)
  from assms(2) [OF this e] obtain e' where "map_of (f (trust_shard_of eng a)) a = Some e'" "te_locked_at e' = Some t" by blast
  then show ?thesis using i by (simp add: lock_of_def trust_entry_def trust_shard_of_def)
qed

lemma trust_score_lock: "trust_ok eng \<Longrightarrow> lock_of (fst (trust_score eng k now)) a = lock_of eng a"
  by (auto simp: trust_score_def lock_of_put split: option.split) (simp add: lock_of_def trust_entry_def)

lemma requires_reauth_lock:
  assumes ok: "trust_ok eng" and "lock_of eng a = Some t" "k = a \<Longrightarrow> now < t + TRUST_REAUTH_MIN_COOLDOWN_SECONDS"
  shows "lock_of (fst (requires_reauth_at eng k now)) a = Some t"
proof (cases "map_of (trust_shard_of eng k) k")
  case None
  with assms(2) show ?thesis by (simp add: requires_reauth_at_def)
next
  case (Some e)
  show ?thesis
  proof (cases "k = a")
    case True
    have "te_locked_at e = Some t" using Some assms(2) True by (simp add: lock_of_def trust_entry_def)
    with Some True assms(3) show ?thesis by (simp add: requires_reauth_at_def Let_def lock_of_put [OF ok])
  next
    case False
    with Some assms(2) show ?thesis by (auto simp: requires_reauth_at_def Let_def lock_of_put [OF ok] split: option.split)
  qed
qed

lemma trust_step_lock:
  assumes ok: "trust_ok eng" and lock: "lock_of eng a = Some t"
    and call: "\<not> may_unlock a (t + TRUST_REAUTH_MIN_COOLDOWN_SECONDS) call"
  shows "lock_of (trust_step call eng) a = Some t"
proof (cases call)
  case (TPenalize k kind now)
  have "te_locked_at (penalized_entry kind now (entry_at eng k now)) = Some t" if "a = k"
    using lock that by (auto elim!: lock_ofE simp: entry_at_present intro!: penalized_entry_lock)
  then show ?thesis unfolding TPenalize trust_step.simps penalize_touch by (rule touch_lock [OF ok lock])
next
  case (TReward k kind irr now)
  have "te_locked_at (rewarded_entry kind irr now (entry_at eng k now)) = Some t" if "a = k"
    using lock that by (auto elim!: lock_ofE simp: entry_at_present)
  then show ?thesis unfolding TReward trust_step.simps reward_touch by (rule touch_lock [OF ok lock])
next
  case (TReauth k now)
  with call show ?thesis using requires_reauth_lock [OF ok lock, of k now] by auto
next
  case (TReset k)
  with call obtain b where "k = Some b" "b \<noteq> a" by (cases k) auto
  with TReset lock show ?thesis
    by (simp add: trust_reset_def lock_of_def trust_entry_put_update [OF ok])
next
  case (TSweep now)
  have "lock_of (eng\<lparr>te_shards := map (retain (\<lambda>_ e. te_locked_at e \<noteq> None \<or> now - te_last_update e < TRUST_ENTRY_STALENESS_SECONDS)) (te_shards eng)\<rparr>) a = Some t"
    by (rule lock_of_map [OF ok _ lock]) (simp add: map_of_retain)
  with TSweep show ?thesis by (simp add: sweep_stale_def Let_def)
next
  case (TSnapshot limit now)
  have "lock_of (eng\<lparr>te_shards := map (map (\<lambda>(k, e). (k, recover_to now e))) (te_shards eng)\<rparr>) a = Some t"
    by (rule lock_of_map [OF ok _ lock]) (simp add: map_of_recover)
  with TSnapshot show ?thesis by (simp add: trust_snapshot_def Let_def)
qed (simp_all add: trust_score_lock [OF ok] scope_cap_def split_beta lock)

lemma trust_run_lock:
  assumes "trust_ok eng" "lock_of eng a = Some t" "list_all (\<lambda>c. \<not> may_unlock a (t + TRUST_REAUTH_MIN_COOLDOWN_SECONDS) c) calls"
  shows "lock_of (fold trust_step calls eng) a = Some t"
  using assms by (induction calls arbitrary: eng) (simp_all add: trust_step_ok trust_step_lock)

text \<open>C18. Once an agent is locked out it stays locked out for at least sixty seconds: whatever penalties, rewards,
  reads, evictions and sweeps happen to any agents in between, every question before the cooldown has passed is
  answered that re-authentication is required, unless the agent is reset.\<close>

theorem lockout_holds:
  assumes "lock_of (fold trust_step calls1 new_trust_engine) a = Some t"
    "list_all (\<lambda>c. \<not> may_unlock a (t + TRUST_REAUTH_MIN_COOLDOWN_SECONDS) c) calls2" "now < t + 60"
  shows "fst (snd (requires_reauth_at (fold trust_step (calls1 @ calls2) new_trust_engine) a now))"
proof -
  let ?eng = "fold trust_step (calls1 @ calls2) new_trust_engine"
  have "lock_of ?eng a = Some t"
    using trust_run_lock [OF trust_run_ok [OF new_trust_ok] assms(1,2)] by simp
  then obtain e where "map_of (trust_shard_of ?eng a) a = Some e" "te_locked_at e = Some t"
    by (auto simp: trust_entry_def elim: lock_ofE)
  with assms(3) show ?thesis by (simp add: requires_reauth_at_def Let_def TRUST_REAUTH_MIN_COOLDOWN_SECONDS_def del: fold_append)
qed

text \<open>Two replays lock an agent out.\<close>

lemma two_replays_lock:
  assumes "trust_ok eng" "trust_entry eng a = None"
  shows "lock_of (fold trust_step [TPenalize a ReplaySuspicion t, TPenalize a ReplaySuspicion t] eng) a = Some t"
proof -
  have none: "map_of (make_room a t (trust_shard_of eng a)) a = None"
  proof (rule ccontr)
    assume "map_of (make_room a t (trust_shard_of eng a)) a \<noteq> None"
    moreover have "map_of (make_room a t m) a = None" if "map_of m a = None" "hm_wf m" for m
      using that by (simp add: make_room_def Let_def map_of_retain hm_wf_recover map_of_recover)
    ultimately show False
      using assms trust_shard_of_ok [OF assms(1), of a] by (auto simp: trust_entry_def trust_shard_ok_def)
  qed
  let ?e1 = "penalized_entry ReplaySuspicion t (recover_to t (fresh_entry t))"
  have at: "entry_at eng a t = recover_to t (fresh_entry t)" using none by (simp add: entry_at_def entry_or_fresh_def)
  have e1: "te_score ?e1 = 3 / 5" "te_locked_at ?e1 = None" "te_last_update ?e1 = t"
    by (simp_all add: penalized_entry_def recover_to_def fresh_entry_def Let_def TRUST_SCORE_INITIAL_def TRUST_REAUTH_THRESHOLD_def)
  let ?eng1 = "touch a t ?e1 eng"
  have ok1: "trust_ok ?eng1" using penalize_ok [OF assms(1), of a ReplaySuspicion t] by (simp add: penalize_touch at)
  have "trust_entry ?eng1 a = Some ?e1" using trust_entry_put [OF assms(1)] by (simp add: touch_def)
  then have at1: "entry_at ?eng1 a t = recover_to t ?e1" by (rule entry_at_present)
  have "te_score (recover_to t ?e1) = 3 / 5" using e1 by (simp add: recover_to_def [of t ?e1] Let_def)
  then have "te_locked_at (penalized_entry ReplaySuspicion t (entry_at ?eng1 a t)) = Some t"
    using e1(2) by (simp add: at1 penalized_entry_def [of _ _ "recover_to t ?e1"] Let_def TRUST_REAUTH_THRESHOLD_def)
  then show ?thesis
    using ok1 by (simp add: penalize_touch at) (simp add: lock_of_def touch_def [of a t _ ?eng1] trust_entry_put)
qed

theorem lockout_holds_witness:
  "fst (snd (requires_reauth_at (fold trust_step ([TPenalize ''a'' ReplaySuspicion 0, TPenalize ''a'' ReplaySuspicion 0] @
     [TReward ''a'' ValidReceipt True 1, TSweep 2, TReauth ''a'' 3]) new_trust_engine) ''a'' 59))"
proof (rule lockout_holds)
  have "trust_shard_of new_trust_engine ''a'' = []"
    using trust_shard_index_less [of "''a''"] by (simp add: trust_shard_of_def new_trust_engine_def)
  then show "lock_of (fold trust_step [TPenalize ''a'' ReplaySuspicion 0, TPenalize ''a'' ReplaySuspicion 0] new_trust_engine) ''a'' = Some 0"
    by (intro two_replays_lock) (simp_all add: new_trust_ok trust_entry_def)
qed (simp_all add: TRUST_REAUTH_MIN_COOLDOWN_SECONDS_def)

section \<open>Reads\<close>

fun read_call :: "trust_call \<Rightarrow> secs option" where
  "read_call (TScore k now) = Some now"
| "read_call (TScopeCap k now) = Some now"
| "read_call (TReauth k now) = Some now"
| "read_call (TSnapshot limit now) = Some now"
| "read_call _ = None"

text \<open>Reads only, at times that do not decrease from \<open>t0\<close> and do not pass \<open>t\<close>.\<close>

fun reads_between :: "secs \<Rightarrow> secs \<Rightarrow> trust_call list \<Rightarrow> bool" where
  "reads_between t0 t [] \<longleftrightarrow> t0 \<le> t"
| "reads_between t0 t (c # cs) \<longleftrightarrow> (case read_call c of Some now \<Rightarrow> t0 \<le> now \<and> reads_between now t cs | None \<Rightarrow> False)"

lemma reads_between_le: "reads_between t0 t cs \<Longrightarrow> t0 \<le> t"
  by (induction cs arbitrary: t0) (fastforce split: option.splits)+

text \<open>What a read leaves of an entry: it is brought up to date, and a lock may have been cleared.\<close>

definition read_result :: "secs \<Rightarrow> TrustEntry \<Rightarrow> TrustEntry \<Rightarrow> bool" where
  "read_result now e e' \<longleftrightarrow> e' = recover_to now e \<or> e' = (recover_to now e)\<lparr>te_locked_at := None\<rparr>"

lemma trust_entry_map:
  "trust_ok eng \<Longrightarrow> trust_entry (eng\<lparr>te_shards := map f (te_shards eng)\<rparr>) a = map_of (f (trust_shard_of eng a)) a"
  using trust_shard_index_less [of a] by (simp add: trust_entry_def trust_shard_of_def trust_ok_def)

lemma recover_to_unlock: "recover_to t (e\<lparr>te_locked_at := l\<rparr>) = (recover_to t e)\<lparr>te_locked_at := l\<rparr>"
  by (cases e) (simp add: recover_to_def Let_def TRUST_SCORE_INITIAL_def)

lemma read_result_lock: "read_result now e e' \<Longrightarrow> te_locked_at e' = te_locked_at e \<or> te_locked_at e' = None"
  by (auto simp: read_result_def)

lemma requires_reauth_entry:
  assumes ok: "trust_ok eng"
  shows "trust_entry (fst (requires_reauth_at eng k now)) a = trust_entry eng a \<or>
    (\<exists>e e'. trust_entry eng a = Some e \<and> trust_entry (fst (requires_reauth_at eng k now)) a = Some e' \<and> read_result now e e')"
proof (cases "trust_entry eng k")
  case None
  then show ?thesis by (simp add: requires_reauth_at_def trust_entry_def)
next
  case (Some e)
  have "\<exists>e'. fst (requires_reauth_at eng k now) = put_trust_shard k (AList.update k e' (trust_shard_of eng k)) eng \<and> read_result now e e'"
    using Some by (simp add: requires_reauth_at_def Let_def trust_entry_def read_result_def split: option.split) blast
  then obtain e' where e': "fst (requires_reauth_at eng k now) = put_trust_shard k (AList.update k e' (trust_shard_of eng k)) eng"
    "read_result now e e'" by blast
  have "trust_entry (fst (requires_reauth_at eng k now)) a = (if a = k then Some e' else trust_entry eng a)"
    by (simp add: e'(1) trust_entry_put_update [OF ok])
  with Some e'(2) show ?thesis by auto
qed

lemma trust_score_entry:
  assumes ok: "trust_ok eng"
  shows "trust_entry (fst (trust_score eng k now)) a = trust_entry eng a \<or>
    (\<exists>e e'. trust_entry eng a = Some e \<and> trust_entry (fst (trust_score eng k now)) a = Some e' \<and> read_result now e e')"
proof (cases "trust_entry eng k")
  case None
  then show ?thesis by (simp add: trust_score_def trust_entry_def)
next
  case (Some e)
  then have "trust_entry (fst (trust_score eng k now)) a = (if a = k then Some (recover_to now e) else trust_entry eng a)"
    by (simp add: trust_score_def trust_entry_def [of eng k] trust_entry_put_update [OF ok])
  with Some show ?thesis by (auto simp: read_result_def)
qed

lemma read_step_entry:
  assumes ok: "trust_ok eng" and read: "read_call c = Some now"
  shows "trust_entry (trust_step c eng) a = trust_entry eng a \<or>
    (\<exists>e e'. trust_entry eng a = Some e \<and> trust_entry (trust_step c eng) a = Some e' \<and> read_result now e e')"
proof (cases c)
  case (TReauth k t)
  with requires_reauth_entry [OF ok, of k now a] read show ?thesis by simp
next
  case (TSnapshot limit t)
  then have "trust_entry (trust_step c eng) a = map_option (recover_to now) (trust_entry eng a)"
    using read by (simp add: trust_snapshot_def Let_def trust_entry_map [OF ok] map_of_recover) (simp add: trust_entry_def)
  then show ?thesis by (cases "trust_entry eng a") (simp_all add: read_result_def)
qed (use read trust_score_entry [OF ok, of _ now a] in \<open>simp_all add: scope_cap_def split_beta\<close>)

lemma read_result_later:
  "te_score e \<le> 1 \<Longrightarrow> te_last_update e \<le> now \<Longrightarrow> now \<le> t \<Longrightarrow> read_result now e e1 \<Longrightarrow> read_result t e1 e2 \<Longrightarrow> read_result t e e2"
  using recover_to_lazy [of e now t] by (auto simp: read_result_def recover_to_unlock)

lemma reads_entry:
  assumes "trust_ok eng" "trust_entry eng a = Some e" "te_last_update e \<le> t0" "reads_between t0 t cs"
  shows "\<exists>e'. trust_entry (fold trust_step cs eng) a = Some e' \<and> read_result t e (recover_to t e')"
  using assms
proof (induction cs arbitrary: eng e t0)
  case Nil
  then show ?case by (simp add: read_result_def)
next
  case (Cons c cs)
  then obtain now where now: "read_call c = Some now" "t0 \<le> now" "reads_between now t cs" by (auto split: option.splits)
  have ok1: "trust_ok (trust_step c eng)" using Cons.prems(1) by (rule trust_step_ok)
  have eok: "te_score e \<le> 1" using trust_entry_ok [OF Cons.prems(1,2)] by (simp add: entry_ok_def)
  have le: "te_last_update e \<le> now" "now \<le> t" using Cons.prems(3) now(2) reads_between_le [OF now(3)] by simp_all
  from read_step_entry [OF Cons.prems(1) now(1), of a] consider
      (same) "trust_entry (trust_step c eng) a = Some e"
    | (touched) e1 where "trust_entry (trust_step c eng) a = Some e1" "read_result now e e1"
    using Cons.prems(2) by auto
  then show ?case
  proof cases
    case same
    from Cons.IH [OF ok1 same le(1) now(3)] show ?thesis by simp
  next
    case touched
    have "te_last_update e1 \<le> now" using touched(2) by (auto simp: read_result_def)
    from Cons.IH [OF ok1 touched(1) this now(3)] obtain e' where
      "trust_entry (fold trust_step cs (trust_step c eng)) a = Some e'" "read_result t e1 (recover_to t e')" by blast
    with read_result_later [OF eok le touched(2)] show ?thesis by auto
  qed
qed



lemma demo_trust_entry:
  "trust_entry (fold trust_step [TPenalize ''a'' GenericHardDrop 0] new_trust_engine) ''a'' =
     Some \<lparr>te_score = 95 / 100, te_last_update = 0, te_locked_at = None, te_reward_window_start = None,
           te_rewards_in_window = 0, te_penalty_count = 1\<rparr>"
proof -
  have "trust_shard_of new_trust_engine ''a'' = []"
    using trust_shard_index_less [of "''a''"] by (simp add: trust_shard_of_def new_trust_engine_def)
  then have "entry_at new_trust_engine ''a'' 0 = recover_to 0 (fresh_entry 0)"
    by (simp add: entry_at_def entry_or_fresh_def make_room_def TRUST_PER_SHARD_MAX_ENTRIES_def TRUST_MAX_ENTRIES_def TRUST_SHARDS_def)
  then show ?thesis
    by (simp add: penalize_touch touch_def trust_entry_put [OF new_trust_ok])
      (simp add: penalized_entry_def recover_to_def fresh_entry_def Let_def TRUST_SCORE_INITIAL_def TRUST_REAUTH_THRESHOLD_def saturating_add_def)
qed



section \<open>Rewards and memory\<close>

text \<open>The reward floor of 0.30 does not hold: an agent just below it passes it with its next two rewards at the
  same instant, without any recovery by time. The documentation says that rewards alone never lift a score from a
  deep penalty past 0.30.\<close>

lemma reward_passes_floor:
  assumes "te_score e < TRUST_REWARD_FLOOR" "TRUST_REWARD_FLOOR \<le> te_score e + reward_amount kind irr" "te_last_update e = now"
    "te_reward_window_start e = None"
  shows "te_score (rewarded_entry kind irr now (recover_to now (rewarded_entry kind irr now (recover_to now e)))) =
    TRUST_REWARD_FLOOR + reward_amount kind irr"
proof -
  have pos: "0 < reward_amount kind irr" "reward_amount kind irr \<le> 1 / 100"
    by (cases kind; simp add: reward_amount_def TRUST_REWARD_CLEAN_PASSAGE_def TRUST_REWARD_VALID_RECEIPT_def TRUST_REWARD_IRREVERSIBLE_MULTIPLIER_def)+
  let ?e1 = "rewarded_entry kind irr now (recover_to now e)"
  have r0: "te_score (recover_to now e) = te_score e" using assms(3) by (simp add: recover_to_def Let_def)
  have s1: "te_score ?e1 = TRUST_REWARD_FLOOR" "te_last_update ?e1 = now" "te_reward_window_start ?e1 = Some now" "te_rewards_in_window ?e1 = 1"
    using assms r0 by (simp_all add: rewarded_entry_def try_consume_reward_slot_def rewarded_score_def min_def max_def)
  have r1: "te_score (recover_to now ?e1) = TRUST_REWARD_FLOOR" using s1 by (simp add: recover_to_def [of now ?e1] Let_def)
  show ?thesis
    using s1 r1 pos by (simp add: rewarded_entry_def [of _ _ _ "recover_to now ?e1"] try_consume_reward_slot_def rewarded_score_def
      TRUST_MAX_REWARDS_PER_MINUTE_def TRUST_REWARD_FLOOR_def TRUST_REWARD_CEILING_def min_def max_def)
qed

lemma distinct_entries_count:
  assumes ok: "trust_ok eng" and "finite A" "\<And>a. a \<in> A \<Longrightarrow> trust_entry eng a \<noteq> None"
  shows "card A \<le> trust_tracked_count eng"
proof -
  have "A \<subseteq> set (map fst (concat (te_shards eng)))"
  proof
    fix a assume "a \<in> A"
    then obtain e where "map_of (trust_shard_of eng a) a = Some e" using assms(3) by (auto simp: trust_entry_def)
    then have "(a, e) \<in> set (trust_shard_of eng a)" by (rule map_of_SomeD)
    moreover have "trust_shard_of eng a \<in> set (te_shards eng)"
      using ok trust_shard_index_less [of a] by (simp add: trust_shard_of_def trust_ok_def)
    ultimately show "a \<in> set (map fst (concat (te_shards eng)))" by force
  qed
  then have "card A \<le> card (set (map fst (concat (te_shards eng))))" by (rule card_mono [rotated]) simp
  also have "\<dots> \<le> length (map fst (concat (te_shards eng)))" by (rule card_length)
  finally show ?thesis by (simp add: trust_tracked_count_def length_concat)
qed

text \<open>The agents of a flood, each penalised twice.\<close>

definition flood :: "nat \<Rightarrow> trust_call list" where
  "flood n = concat (map (\<lambda>i. replicate 2 (TPenalize (replicate i (CHR ''a'')) ReplaySuspicion 0)) [0..<n])"

lemma penalize_other_absent:
  "trust_ok eng \<Longrightarrow> trust_entry eng a = None \<Longrightarrow> a \<noteq> k \<Longrightarrow> trust_entry (fst (penalize eng k kind now)) a = None"
proof -
  assume ok: "trust_ok eng" and none: "trust_entry eng a = None" and ne: "a \<noteq> k"
  have wf: "hm_wf (trust_shard_of eng k)" using trust_shard_of_ok [OF ok, of k] by (simp add: trust_shard_ok_def)
  have "map_of (make_room k now m) a = None" if "map_of m a = None" "hm_wf m" for m
    using that by (simp add: make_room_def Let_def map_of_retain hm_wf_recover map_of_recover)
  with none ne wf show ?thesis
    by (auto simp: penalize_touch touch_def trust_entry_put [OF ok] trust_entry_same_shard)
qed

lemma flood_locks:
  "(\<forall>i < n. lock_of (fold trust_step (flood n) new_trust_engine) (replicate i (CHR ''a'')) = Some 0) \<and>
   (\<forall>i \<ge> n. trust_entry (fold trust_step (flood n) new_trust_engine) (replicate i (CHR ''a'')) = None)"
proof (induction n)
  case 0
  have "trust_shard_of new_trust_engine a = []" for a
    using trust_shard_index_less [of a] by (simp add: trust_shard_of_def new_trust_engine_def)
  then show ?case by (simp add: flood_def trust_entry_def)
next
  case (Suc n)
  let ?eng = "fold trust_step (flood n) new_trust_engine"
  let ?two = "[TPenalize (replicate n (CHR ''a'')) ReplaySuspicion 0, TPenalize (replicate n (CHR ''a'')) ReplaySuspicion 0]"
  have run: "fold trust_step (flood (Suc n)) new_trust_engine = fold trust_step ?two ?eng"
    by (simp add: flood_def numeral_2_eq_2)
  have ok: "trust_ok ?eng" by (rule trust_run_ok [OF new_trust_ok])
  have "lock_of (fold trust_step ?two ?eng) (replicate n (CHR ''a'')) = Some 0" using Suc ok by (intro two_replays_lock) simp_all
  moreover have "lock_of (fold trust_step ?two ?eng) (replicate i (CHR ''a'')) = Some 0" if "i < n" for i
    using Suc that by (intro trust_run_lock [OF ok]) simp_all
  moreover have "trust_entry (fold trust_step ?two ?eng) (replicate i (CHR ''a'')) = None" if "i \<ge> Suc n" for i
  proof -
    have "replicate i (CHR ''a'') \<noteq> replicate n (CHR ''a'')" using that by (metis length_replicate not_less_eq_eq order_refl)
    then show ?thesis using Suc that by (simp add: penalize_other_absent penalize_ok ok)
  qed
  ultimately show ?case unfolding run by (auto simp: less_Suc_eq)
qed

text \<open>The number of tracked agents is not bounded by 10,000: for every \<open>n\<close> there are \<open>2n\<close> penalties after which
  \<open>n\<close> agents are locked out, and no eviction, sweep or read of other agents ever removes them again.\<close>

lemma trust_memory_unbounded:
  assumes "\<forall>i < n. list_all (\<lambda>c. \<not> may_unlock (replicate i (CHR ''a'')) 60 c) calls"
  shows "length (flood n) = 2 * n \<and> n \<le> trust_tracked_count (fold trust_step (flood n @ calls) new_trust_engine)"
proof
  show "length (flood n) = 2 * n" by (simp add: flood_def length_concat comp_def sum_list_triv)
  let ?A = "(\<lambda>i. replicate i (CHR ''a'')) ` {..<n}"
  have inj: "inj_on (\<lambda>i. replicate i (CHR ''a'')) {..<n}" by (rule inj_onI) (metis length_replicate)
  have ok: "trust_ok (fold trust_step (flood n) new_trust_engine)" by (rule trust_run_ok [OF new_trust_ok])
  have "trust_entry (fold trust_step (flood n @ calls) new_trust_engine) (replicate i (CHR ''a'')) \<noteq> None" if "i < n" for i
  proof -
    have "lock_of (fold trust_step calls (fold trust_step (flood n) new_trust_engine)) (replicate i (CHR ''a'')) = Some 0"
      using flood_locks [of n] assms that by (intro trust_run_lock [OF ok]) (simp_all add: TRUST_REAUTH_MIN_COOLDOWN_SECONDS_def)
    then show ?thesis by (auto elim: lock_ofE)
  qed
  then have "card ?A \<le> trust_tracked_count (fold trust_step (flood n @ calls) new_trust_engine)"
    by (intro distinct_entries_count trust_run_ok new_trust_ok) auto
  then show "n \<le> trust_tracked_count (fold trust_step (flood n @ calls) new_trust_engine)" by (simp add: card_image [OF inj])
qed

section \<open>Intent drift\<close>

lemma accumulate_bounded:
  assumes "hm_wf sessions" "length sessions \<le> DRIFT_MAX_TRACKED_SESSIONS"
  shows "length (fst (accumulate sessions s d now)) \<le> DRIFT_MAX_TRACKED_SESSIONS \<and> hm_wf (fst (accumulate sessions s d now))"
  using assms length_remove_oldest [OF assms(1), of "length sessions + 1 - DRIFT_MAX_TRACKED_SESSIONS" de_last_update]
  by (auto simp: accumulate_def Let_def length_update keys_dom DRIFT_MAX_TRACKED_SESSIONS_def)

text \<open>Divergence that arrives faster than it decays adds up: after hops at increasing times the total is at least
  the sum of the divergences less the decay since the first of them.\<close>

lemma accumulate_total:
  assumes "map_of sessions s = Some e" "de_last_update e \<le> now"
  shows "\<exists>e'. map_of (fst (accumulate sessions s d now)) s = Some e' \<and> de_last_update e' = now \<and>
    de_total e' = snd (accumulate sessions s d now) \<and>
    de_total e - (now - de_last_update e) * DRIFT_DECAY_PER_SECOND + d \<le> de_total e'"
  using assms by (auto simp: accumulate_def decay_to_def Let_def max_def)

fun hops :: "string \<Rightarrow> (rat \<times> secs) list \<Rightarrow> drift_map \<Rightarrow> drift_map" where
  "hops s [] m = m"
| "hops s ((d, now) # hs) m = hops s hs (fst (accumulate m s d now))"

lemma drift_adds_up:
  assumes "map_of m s = Some e" "sorted (de_last_update e # map snd hs)" "hs \<noteq> []"
  shows "\<exists>e'. map_of (hops s hs m) s = Some e' \<and> de_last_update e' = snd (last hs) \<and>
    de_total e + sum_list (map fst hs) - (snd (last hs) - de_last_update e) * DRIFT_DECAY_PER_SECOND \<le> de_total e'"
  using assms
proof (induction hs arbitrary: m e)
  case (Cons h hs)
  obtain d now where h: "h = (d, now)" by fastforce
  have le: "de_last_update e \<le> now" using Cons.prems(2) h by simp
  from accumulate_total [OF Cons.prems(1) le, of d] obtain e1 where
    e1: "map_of (fst (accumulate m s d now)) s = Some e1" "de_last_update e1 = now"
    "de_total e - (now - de_last_update e) * DRIFT_DECAY_PER_SECOND + d \<le> de_total e1" by blast
  show ?case
  proof (cases "hs = []")
    case True
    with e1 h show ?thesis by (auto simp: algebra_simps)
  next
    case False
    have "sorted (de_last_update e1 # map snd hs)" using Cons.prems(2) h e1(2) by simp
    from Cons.IH [OF e1(1) this False] obtain e' where e': "map_of (hops s hs (fst (accumulate m s d now))) s = Some e'"
      "de_last_update e' = snd (last hs)"
      "de_total e1 + sum_list (map fst hs) - (snd (last hs) - now) * DRIFT_DECAY_PER_SECOND \<le> de_total e'"
      by (auto simp: e1(2))
    with e1(3) False h show ?thesis by (auto simp: algebra_simps)
  qed
qed simp

end
