(* ===== verification/Federated_Memory.thy ===== *)
theory Federated_Memory
  imports Json State_Backend
begin

text \<open>
  Checkpoints and the federated memory of \<open>src/memory.rs\<close>.

  \<^item> \<open>CheckpointedSession\<close>: pipeline stages saved under a context id, with the stall report.
  \<^item> \<open>FederatedMemory\<close>: records behind a hash with a version and an expiry, in sixteen shards of the process or in a
    shared \<open>StateBackend\<close>; context records, provenance tags and signed intent envelopes are all such records.

  SHA-256, HMAC-SHA256, the JSON printer and parser and the wire format of a record are the record \<open>fm_env\<close>. The
  error strings of the code are the constructors of \<open>FmError\<close>. A call reads the clock once.

  The locale \<open>record_store\<close> is what the context and envelope operations need of the two storage modes; it is
  interpreted on both.
\<close>

section \<open>Checkpoints\<close>

record CheckpointEntry =
  cp_stage :: string
  cp_data :: json
  cp_timestamp :: secs

type_synonym checkpoints = "(bytes, CheckpointEntry) hmap"

definition CHECKPOINT_MAX_ENTRIES :: nat where "CHECKPOINT_MAX_ENTRIES = 10000"
definition CHECKPOINT_TTL_SECONDS :: secs where "CHECKPOINT_TTL_SECONDS = 1800"
definition STALL_WARN_SECONDS :: secs where "STALL_WARN_SECONDS = 120"
definition STALL_CHECKPOINT_SECONDS :: secs where "STALL_CHECKPOINT_SECONDS = 600"
definition STALL_ABORT_SECONDS :: secs where "STALL_ABORT_SECONDS = 1800"

record StallReport =
  sr_warn :: "bytes list"
  sr_checkpoint :: "bytes list"
  sr_abort :: "bytes list"

definition save_checkpoint :: "secs \<Rightarrow> bytes \<Rightarrow> string \<Rightarrow> json \<Rightarrow> checkpoints \<Rightarrow> checkpoints" where
  "save_checkpoint now cid stage data m =
     (let m1 = AList.update cid \<lparr>cp_stage = stage, cp_data = data, cp_timestamp = now\<rparr> m
      in if CHECKPOINT_MAX_ENTRIES < length m1
         then retain (\<lambda>_ v. now - cp_timestamp v < CHECKPOINT_TTL_SECONDS) m1 else m1)"

definition resume_checkpoint :: "secs \<Rightarrow> bytes \<Rightarrow> checkpoints \<Rightarrow> checkpoints \<times> (string \<times> json) option" where
  "resume_checkpoint now cid m =
     (case map_of m cid of
        None \<Rightarrow> (m, None)
      | Some cp \<Rightarrow>
          if CHECKPOINT_TTL_SECONDS < now - cp_timestamp cp then (AList.delete cid m, None)
          else (m, Some (cp_stage cp, cp_data cp)))"

text \<open>The loop of \<open>check_pipeline_stalls\<close>: the report and the ids to delete.\<close>

fun stall_scan :: "secs \<Rightarrow> checkpoints \<Rightarrow> StallReport \<times> bytes list \<Rightarrow> StallReport \<times> bytes list" where
  "stall_scan now [] acc = acc"
| "stall_scan now ((cid, cp) # rest) (rep, del) =
     (let age = now - cp_timestamp cp in
      stall_scan now rest
        (if STALL_ABORT_SECONDS \<le> age then (rep\<lparr>sr_abort := sr_abort rep @ [cid]\<rparr>, del @ [cid])
         else if STALL_CHECKPOINT_SECONDS \<le> age then (rep\<lparr>sr_checkpoint := sr_checkpoint rep @ [cid]\<rparr>, del)
         else if STALL_WARN_SECONDS \<le> age then (rep\<lparr>sr_warn := sr_warn rep @ [cid]\<rparr>, del)
         else (rep, del)))"

definition check_pipeline_stalls :: "secs \<Rightarrow> checkpoints \<Rightarrow> checkpoints \<times> StallReport" where
  "check_pipeline_stalls now m =
     (let (rep, del) = stall_scan now m (\<lparr>sr_warn = [], sr_checkpoint = [], sr_abort = []\<rparr>, [])
      in (remove_keys del m, rep))"

definition sweep_expired_checkpoints :: "secs \<Rightarrow> checkpoints \<Rightarrow> checkpoints \<times> nat" where
  "sweep_expired_checkpoints now m =
     (let m1 = retain (\<lambda>_ v. now - cp_timestamp v < CHECKPOINT_TTL_SECONDS) m in (m1, length m - length m1))"

section \<open>Federated memory\<close>

record FederatedRecord =
  fr_data :: string
  fr_version :: u32
  fr_expires_at :: secs

record fm_env =
  fm_sha256 :: "bytes \<Rightarrow> bytes"
  fm_hmac :: "bytes \<Rightarrow> bytes \<Rightarrow> bytes"
  fm_print :: "json \<Rightarrow> string"
  fm_parse :: "string \<Rightarrow> json option"
  fm_enc_wire :: "FederatedRecord \<Rightarrow> bytes option"
  fm_dec_wire :: "bytes \<Rightarrow> FederatedRecord option"

datatype FmError =
    BadStateIdLength | ContextNotFound | ContextExpired | StaleState u32 u32 | RecordTooLarge nat
  | SerializeFailed | BackendWriteFailed | InvalidHexId | VersionOutOfRange u64 | AlreadyInitialized

record 'b FederatedMemory =
  fm_shards :: "(bytes, FederatedRecord) hmap list"
  fm_backend :: "'b option"

definition FEDERATED_TTL_SECONDS :: secs where "FEDERATED_TTL_SECONDS = 300"
definition FEDERATED_MAX_ENTRIES :: nat where "FEDERATED_MAX_ENTRIES = 10000"
definition INTENT_MAX_LIFETIME :: secs where "INTENT_MAX_LIFETIME = 86400"
definition FEDERATED_MAX_VALUE_BYTES :: nat where "FEDERATED_MAX_VALUE_BYTES = 65536"
definition FEDERATED_MEMORY_SHARDS :: nat where "FEDERATED_MEMORY_SHARDS = 16"
definition FEDERATED_MEMORY_PER_SHARD_MAX_ENTRIES :: nat where
  "FEDERATED_MEMORY_PER_SHARD_MAX_ENTRIES = FEDERATED_MAX_ENTRIES div FEDERATED_MEMORY_SHARDS"

definition fm_shard_index :: "bytes \<Rightarrow> nat" where
  "fm_shard_index sid =
     (case sid of
        a # b # _ \<Rightarrow> be_val [a, b] mod FEDERATED_MEMORY_SHARDS
      | [a] \<Rightarrow> unat a mod FEDERATED_MEMORY_SHARDS
      | [] \<Rightarrow> 0 mod FEDERATED_MEMORY_SHARDS)"

definition fm_new_shards :: "(bytes, FederatedRecord) hmap list" where
  "fm_new_shards = replicate FEDERATED_MEMORY_SHARDS []"

definition fm_new :: "'b FederatedMemory" where
  "fm_new = \<lparr>fm_shards = fm_new_shards, fm_backend = None\<rparr>"

definition fm_with_backend :: "'b \<Rightarrow> 'b FederatedMemory" where
  "fm_with_backend b = \<lparr>fm_shards = fm_new_shards, fm_backend = Some b\<rparr>"

definition fm_shard :: "bytes \<Rightarrow> 'b FederatedMemory \<Rightarrow> (bytes, FederatedRecord) hmap" where
  "fm_shard sid fm = fm_shards fm ! fm_shard_index sid"

definition fm_put_shard :: "bytes \<Rightarrow> (bytes, FederatedRecord) hmap \<Rightarrow> 'b FederatedMemory \<Rightarrow> 'b FederatedMemory" where
  "fm_put_shard sid sh fm = fm\<lparr>fm_shards := (fm_shards fm)[fm_shard_index sid := sh]\<rparr>"

definition fm_backend_key :: "bytes \<Rightarrow> string" where
  "fm_backend_key sid = ''fedmem:'' @ hex_encode sid"

subsection \<open>Storage primitives\<close>

definition fm_put_record ::
  "'b StateBackend \<Rightarrow> fm_env \<Rightarrow> secs \<Rightarrow> bytes \<Rightarrow> string \<Rightarrow> u32 \<Rightarrow> secs \<Rightarrow> 'b FederatedMemory \<Rightarrow>
   'b FederatedMemory \<times> (FmError + unit)" where
  "fm_put_record B E now sid data version ttl_secs fm =
     (if FEDERATED_MAX_VALUE_BYTES < length data then (fm, Inl (RecordTooLarge (length data)))
      else
        let record = \<lparr>fr_data = data, fr_version = version, fr_expires_at = now + ttl_secs\<rparr> in
        case fm_backend fm of
          Some b \<Rightarrow>
            (case fm_enc_wire E record of
               None \<Rightarrow> (fm, Inl SerializeFailed)
             | Some bytes \<Rightarrow>
                 (case sb_set B now (fm_backend_key sid) bytes (Some (max ttl_secs 0)) b of
                    (b1, Some _) \<Rightarrow> (fm\<lparr>fm_backend := Some b1\<rparr>, Inr ())
                  | (b1, None) \<Rightarrow> (fm\<lparr>fm_backend := Some b1\<rparr>, Inl BackendWriteFailed)))
        | None \<Rightarrow>
            let sh = AList.update sid record (fm_shard sid fm);
                sh1 = (if FEDERATED_MEMORY_PER_SHARD_MAX_ENTRIES < length sh
                       then retain (\<lambda>_ v. now < fr_expires_at v) sh else sh)
            in (fm_put_shard sid sh1 fm, Inr ()))"

definition fm_get_record ::
  "'b StateBackend \<Rightarrow> fm_env \<Rightarrow> secs \<Rightarrow> bytes \<Rightarrow> 'b FederatedMemory \<Rightarrow> 'b FederatedMemory \<times> FederatedRecord option" where
  "fm_get_record B E now sid fm =
     (case fm_backend fm of
        Some b \<Rightarrow>
          (let (b1, r) = sb_get B now (fm_backend_key sid) b
           in (fm\<lparr>fm_backend := Some b1\<rparr>, case r of Some (Some bytes) \<Rightarrow> fm_dec_wire E bytes | _ \<Rightarrow> None))
      | None \<Rightarrow> (fm, map_of (fm_shard sid fm) sid))"

definition fm_remove_record :: "'b StateBackend \<Rightarrow> secs \<Rightarrow> bytes \<Rightarrow> 'b FederatedMemory \<Rightarrow> 'b FederatedMemory" where
  "fm_remove_record B now sid fm =
     (case fm_backend fm of
        Some b \<Rightarrow> fm\<lparr>fm_backend := Some (fst (sb_delete B now (fm_backend_key sid) b))\<rparr>
      | None \<Rightarrow> fm_put_shard sid (AList.delete sid (fm_shard sid fm)) fm)"

subsection \<open>Contexts\<close>

definition context_state_id :: "fm_env \<Rightarrow> string \<Rightarrow> string \<Rightarrow> bytes" where
  "context_state_id E agent_id ctx =
     fm_sha256 E (rev (to_be_bytes 8 (word_of_nat (length agent_id) :: u64)) @ str_bytes agent_id @ str_bytes ctx)"

definition fm_store_context ::
  "'b StateBackend \<Rightarrow> fm_env \<Rightarrow> secs \<Rightarrow> string \<Rightarrow> string \<Rightarrow> u32 \<Rightarrow> 'b FederatedMemory \<Rightarrow>
   'b FederatedMemory \<times> (FmError + bytes)" where
  "fm_store_context B E now agent_id ctx version fm =
     (let state_id = context_state_id E agent_id ctx in
      case fm_put_record B E now state_id ctx version FEDERATED_TTL_SECONDS fm of
        (fm1, Inl e) \<Rightarrow> (fm1, Inl e)
      | (fm1, Inr _) \<Rightarrow> (fm1, Inr state_id))"

definition fm_fetch_context ::
  "'b StateBackend \<Rightarrow> fm_env \<Rightarrow> secs \<Rightarrow> bytes \<Rightarrow> u32 \<Rightarrow> 'b FederatedMemory \<Rightarrow> 'b FederatedMemory \<times> (FmError + string)" where
  "fm_fetch_context B E now state_id expected_version fm =
     (if length state_id \<noteq> 32 then (fm, Inl BadStateIdLength)
      else case fm_get_record B E now state_id fm of
        (fm1, None) \<Rightarrow> (fm1, Inl ContextNotFound)
      | (fm1, Some r) \<Rightarrow>
          if fr_expires_at r < now then (fm_remove_record B now state_id fm1, Inl ContextExpired)
          else if fr_version r \<noteq> expected_version then (fm1, Inl (StaleState expected_version (fr_version r)))
          else (fm1, Inr (fr_data r)))"

definition fm_save_context ::
  "'b StateBackend \<Rightarrow> fm_env \<Rightarrow> secs \<Rightarrow> bytes \<Rightarrow> string \<Rightarrow> u32 \<Rightarrow> 'b FederatedMemory \<Rightarrow>
   'b FederatedMemory \<times> (FmError + unit)" where
  "fm_save_context B E now state_id data version fm =
     (if length state_id \<noteq> 32 then (fm, Inl BadStateIdLength)
      else fm_put_record B E now state_id data version FEDERATED_TTL_SECONDS fm)"

definition PROVENANCE_TAG :: string where "PROVENANCE_TAG = ''_saacp_provenance_v1''"

definition provenance_json :: "string \<Rightarrow> string \<Rightarrow> json" where
  "provenance_json data writer_agent =
     JObj [(PROVENANCE_TAG, JBool True), (''data'', JStr data), (''writer_agent'', JStr writer_agent)]"

definition fm_save_context_with_provenance ::
  "'b StateBackend \<Rightarrow> fm_env \<Rightarrow> secs \<Rightarrow> bytes \<Rightarrow> string \<Rightarrow> u32 \<Rightarrow> string \<Rightarrow> 'b FederatedMemory \<Rightarrow>
   'b FederatedMemory \<times> (FmError + unit)" where
  "fm_save_context_with_provenance B E now state_id data version writer_agent fm =
     (if length state_id \<noteq> 32 then (fm, Inl BadStateIdLength)
      else fm_put_record B E now state_id (fm_print E (provenance_json data writer_agent)) version FEDERATED_TTL_SECONDS fm)"

definition read_provenance :: "fm_env \<Rightarrow> string \<Rightarrow> string \<times> string option" where
  "read_provenance E raw =
     (case fm_parse E raw of
        Some v \<Rightarrow>
          if json_get v PROVENANCE_TAG = Some (JBool True)
          then (case Option.bind (json_get v ''data'') as_str of Some d \<Rightarrow> d | None \<Rightarrow> '''',
                Option.bind (json_get v ''writer_agent'') as_str)
          else (raw, None)
      | None \<Rightarrow> (raw, None))"

definition fm_fetch_context_with_provenance ::
  "'b StateBackend \<Rightarrow> fm_env \<Rightarrow> secs \<Rightarrow> bytes \<Rightarrow> u32 \<Rightarrow> 'b FederatedMemory \<Rightarrow>
   'b FederatedMemory \<times> (FmError + string \<times> string option)" where
  "fm_fetch_context_with_provenance B E now state_id expected_version fm =
     (case fm_fetch_context B E now state_id expected_version fm of
        (fm1, Inl e) \<Rightarrow> (fm1, Inl e)
      | (fm1, Inr raw) \<Rightarrow> (fm1, Inr (read_provenance E raw)))"

definition fm_fetch_context_by_hex ::
  "'b StateBackend \<Rightarrow> fm_env \<Rightarrow> secs \<Rightarrow> string \<Rightarrow> u64 \<Rightarrow> 'b FederatedMemory \<Rightarrow> 'b FederatedMemory \<times> (FmError + string)" where
  "fm_fetch_context_by_hex B E now hex_id version fm =
     (case hex_decode hex_id of
        None \<Rightarrow> (fm, Inl InvalidHexId)
      | Some bytes \<Rightarrow>
          if 2 ^ 32 \<le> unat version then (fm, Inl (VersionOutOfRange version))
          else fm_fetch_context B E now bytes (ucast version) fm)"

subsection \<open>Intent envelopes\<close>

definition signed_fields :: "string \<Rightarrow> string \<Rightarrow> json \<Rightarrow> json" where
  "signed_fields root_intent root_issuer timestamp =
     JObj [(''root_intent'', JStr root_intent), (''root_issuer'', JStr root_issuer), (''timestamp'', timestamp)]"

definition intent_signature :: "fm_env \<Rightarrow> bytes \<Rightarrow> string \<Rightarrow> string \<Rightarrow> json \<Rightarrow> string" where
  "intent_signature E secret_key root_intent root_issuer timestamp =
     hex_encode (fm_hmac E secret_key (str_bytes (fm_print E (signed_fields root_intent root_issuer timestamp))))"

definition intent_envelope :: "string \<Rightarrow> string \<Rightarrow> string \<Rightarrow> json \<Rightarrow> json" where
  "intent_envelope root_intent root_issuer root_signature timestamp =
     JObj [(''root_intent'', JStr root_intent), (''root_issuer'', JStr root_issuer),
           (''root_signature'', JStr root_signature), (''timestamp'', timestamp)]"

definition fm_create_intent_envelope ::
  "'b StateBackend \<Rightarrow> fm_env \<Rightarrow> secs \<Rightarrow> string \<Rightarrow> string \<Rightarrow> bytes \<Rightarrow> 'b FederatedMemory \<Rightarrow>
   'b FederatedMemory \<times> (FmError + string)" where
  "fm_create_intent_envelope B E now root_intent root_issuer secret_key fm =
     (let ts = JNum (PosInt (f64_as_u64 now));
          root_signature = intent_signature E secret_key root_intent root_issuer ts;
          final_json = fm_print E (intent_envelope root_intent root_issuer root_signature ts);
          envelope_hash = fm_sha256 E (str_bytes final_json)
      in case fm_put_record B E now envelope_hash final_json 1 INTENT_MAX_LIFETIME fm of
           (fm1, Inl e) \<Rightarrow> (fm1, Inl e)
         | (fm1, Inr _) \<Rightarrow> (fm1, Inr (hex_encode envelope_hash)))"

definition fm_delete_intent_envelope ::
  "'b StateBackend \<Rightarrow> secs \<Rightarrow> string \<Rightarrow> 'b FederatedMemory \<Rightarrow> 'b FederatedMemory \<times> bool" where
  "fm_delete_intent_envelope B now intent_hash_hex fm =
     (case hex_decode intent_hash_hex of
        None \<Rightarrow> (fm, False)
      | Some h \<Rightarrow>
          (case fm_backend fm of
             Some b \<Rightarrow> (let (b1, r) = sb_delete B now (fm_backend_key h) b in (fm\<lparr>fm_backend := Some b1\<rparr>, r = Some True))
           | None \<Rightarrow> (fm_put_shard h (AList.delete h (fm_shard h fm)) fm, contains_key (fm_shard h fm) h)))"

definition fm_evict_expired :: "secs \<Rightarrow> 'b FederatedMemory \<Rightarrow> 'b FederatedMemory \<times> nat" where
  "fm_evict_expired now fm =
     (case fm_backend fm of
        Some _ \<Rightarrow> (fm, 0)
      | None \<Rightarrow>
          let kept = map (retain (\<lambda>_ v. now < fr_expires_at v)) (fm_shards fm)
          in (fm\<lparr>fm_shards := kept\<rparr>, sum_list (map2 (\<lambda>sh sh1. length sh - length sh1) (fm_shards fm) kept)))"

text \<open>The checks of \<open>fetch_intent_envelope\<close> on the stored text, after the lookup.\<close>

definition obj_str :: "(string \<times> json) list \<Rightarrow> string \<Rightarrow> string" where
  "obj_str obj k = (case claim as_str obj k of Some s \<Rightarrow> s | None \<Rightarrow> '''')"

definition verify_envelope :: "fm_env \<Rightarrow> bytes \<Rightarrow> string \<Rightarrow> string result" where
  "verify_envelope E secret_key raw_data =
     (case fm_parse E raw_data of
        None \<Rightarrow> Err InvalidSignature
      | Some envelope \<Rightarrow>
          (case as_object envelope of
             None \<Rightarrow> Err InvalidSignature
           | Some obj \<Rightarrow>
               let root_intent = obj_str obj ''root_intent'';
                   root_issuer = obj_str obj ''root_issuer'';
                   timestamp = (case map_of obj ''timestamp'' of Some v \<Rightarrow> v | None \<Rightarrow> JNull);
                   expected_sig = intent_signature E secret_key root_intent root_issuer timestamp
               in if \<not> constant_time_eq (str_bytes expected_sig) (str_bytes (obj_str obj ''root_signature''))
                  then Err InvalidSignature
                  else Ok root_intent))"

definition fm_fetch_intent_envelope ::
  "'b StateBackend \<Rightarrow> fm_env \<Rightarrow> secs \<Rightarrow> string \<Rightarrow> bytes \<Rightarrow> 'b FederatedMemory \<Rightarrow> 'b FederatedMemory \<times> string result" where
  "fm_fetch_intent_envelope B E now intent_hash_hex secret_key fm =
     (case hex_decode intent_hash_hex of
        None \<Rightarrow> (fm, Err InvalidSignature)
      | Some h \<Rightarrow>
          (case fm_get_record B E now h fm of
             (fm1, None) \<Rightarrow> (fm1, Err StateExpiredOrStale)
           | (fm1, Some r) \<Rightarrow>
               if fr_expires_at r < now then (fm_remove_record B now h fm1, Err StateExpiredOrStale)
               else (fm1, verify_envelope E secret_key (fr_data r))))"

definition fm_count :: "'b StateBackend \<Rightarrow> secs \<Rightarrow> 'b FederatedMemory \<Rightarrow> 'b FederatedMemory \<times> nat" where
  "fm_count B now fm =
     (case fm_backend fm of
        Some b \<Rightarrow> (let (b1, r) = sb_scan_prefix B now ''fedmem:'' b
                    in (fm\<lparr>fm_backend := Some b1\<rparr>, case r of Some ks \<Rightarrow> length ks | None \<Rightarrow> 0))
      | None \<Rightarrow> (fm, sum_list (map length (fm_shards fm))))"

text \<open>The process-wide instance: a cell that is written once, by the first use or by \<open>set_global_backend\<close>.\<close>

definition fm_global_arc :: "'b FederatedMemory option \<Rightarrow> 'b FederatedMemory option \<times> 'b FederatedMemory" where
  "fm_global_arc cell = (case cell of Some fm \<Rightarrow> (cell, fm) | None \<Rightarrow> (Some fm_new, fm_new))"

definition fm_set_global_backend :: "'b \<Rightarrow> 'b FederatedMemory option \<Rightarrow> 'b FederatedMemory option \<times> (FmError + unit)" where
  "fm_set_global_backend b cell =
     (case cell of Some _ \<Rightarrow> (cell, Inl AlreadyInitialized) | None \<Rightarrow> (Some (fm_with_backend b), Inr ()))"

section \<open>The two storage modes\<close>

definition wire_ok :: "fm_env \<Rightarrow> bool" where
  "wire_ok E \<longleftrightarrow> (\<forall>r. \<exists>bs. fm_enc_wire E r = Some bs \<and> fm_dec_wire E bs = Some r)"

datatype (plugins only: code size) fm_op =
    FmStore string string u32
  | FmFetch bytes u32
  | FmSave bytes string u32
  | FmSaveProvenance bytes string u32 string
  | FmFetchProvenance bytes u32
  | FmFetchHex string u64
  | FmCreateIntent string string bytes
  | FmDeleteIntent string
  | FmEvict
  | FmFetchIntent string bytes
  | FmCount

fun fm_apply :: "'b StateBackend \<Rightarrow> fm_env \<Rightarrow> 'b FederatedMemory \<Rightarrow> secs \<times> fm_op \<Rightarrow> 'b FederatedMemory" where
  "fm_apply B E fm (now, FmStore agent ctx v) = fst (fm_store_context B E now agent ctx v fm)"
| "fm_apply B E fm (now, FmFetch sid v) = fst (fm_fetch_context B E now sid v fm)"
| "fm_apply B E fm (now, FmSave sid data v) = fst (fm_save_context B E now sid data v fm)"
| "fm_apply B E fm (now, FmSaveProvenance sid data v w) = fst (fm_save_context_with_provenance B E now sid data v w fm)"
| "fm_apply B E fm (now, FmFetchProvenance sid v) = fst (fm_fetch_context_with_provenance B E now sid v fm)"
| "fm_apply B E fm (now, FmFetchHex h v) = fst (fm_fetch_context_by_hex B E now h v fm)"
| "fm_apply B E fm (now, FmCreateIntent i u k) = fst (fm_create_intent_envelope B E now i u k fm)"
| "fm_apply B E fm (now, FmDeleteIntent h) = fst (fm_delete_intent_envelope B now h fm)"
| "fm_apply B E fm (now, FmEvict) = fst (fm_evict_expired now fm)"
| "fm_apply B E fm (now, FmFetchIntent h k) = fst (fm_fetch_intent_envelope B E now h k fm)"
| "fm_apply B E fm (now, FmCount) = fst (fm_count B now fm)"

definition fm_run :: "'b StateBackend \<Rightarrow> fm_env \<Rightarrow> 'b FederatedMemory \<Rightarrow> (secs \<times> fm_op) list \<Rightarrow> 'b FederatedMemory" where
  "fm_run B E fm ops = foldl (fm_apply B E) fm ops"

text \<open>The hash an intent envelope is filed under, and the id an operation writes or deletes.\<close>

definition envelope_text :: "fm_env \<Rightarrow> secs \<Rightarrow> string \<Rightarrow> string \<Rightarrow> bytes \<Rightarrow> string" where
  "envelope_text E now i u k =
     (let ts = JNum (PosInt (f64_as_u64 now)) in fm_print E (intent_envelope i u (intent_signature E k i u ts) ts))"

definition envelope_hash :: "fm_env \<Rightarrow> secs \<Rightarrow> string \<Rightarrow> string \<Rightarrow> bytes \<Rightarrow> bytes" where
  "envelope_hash E now i u k = fm_sha256 E (str_bytes (envelope_text E now i u k))"

fun fm_writes :: "fm_env \<Rightarrow> secs \<times> fm_op \<Rightarrow> bytes option" where
  "fm_writes E (now, FmStore agent ctx v) = Some (context_state_id E agent ctx)"
| "fm_writes E (now, FmSave sid data v) = Some sid"
| "fm_writes E (now, FmSaveProvenance sid data v w) = Some sid"
| "fm_writes E (now, FmCreateIntent i u k) = Some (envelope_hash E now i u k)"
| "fm_writes E (now, FmDeleteIntent h) = hex_decode h"
| "fm_writes E _ = None"

section \<open>Checkpoints\<close>

lemma stall_scan_exact:
  "stall_scan now m (rep, del) =
     (rep\<lparr>sr_warn := sr_warn rep @ map fst (filter (\<lambda>(_, c). now - cp_timestamp c \<in> {STALL_WARN_SECONDS..<STALL_CHECKPOINT_SECONDS}) m),
          sr_checkpoint := sr_checkpoint rep @ map fst (filter (\<lambda>(_, c). now - cp_timestamp c \<in> {STALL_CHECKPOINT_SECONDS..<STALL_ABORT_SECONDS}) m),
          sr_abort := sr_abort rep @ map fst (filter (\<lambda>(_, c). STALL_ABORT_SECONDS \<le> now - cp_timestamp c) m)\<rparr>,
      del @ map fst (filter (\<lambda>(_, c). STALL_ABORT_SECONDS \<le> now - cp_timestamp c) m))"
proof (induction m arbitrary: rep del)
  case (Cons x m)
  obtain cid cp where x: "x = (cid, cp)" by fastforce
  have lim: "STALL_WARN_SECONDS < STALL_CHECKPOINT_SECONDS" "STALL_CHECKPOINT_SECONDS < STALL_ABORT_SECONDS"
    by (simp_all add: STALL_WARN_SECONDS_def STALL_CHECKPOINT_SECONDS_def STALL_ABORT_SECONDS_def)
  consider "STALL_ABORT_SECONDS \<le> now - cp_timestamp cp"
    | "now - cp_timestamp cp < STALL_ABORT_SECONDS" "STALL_CHECKPOINT_SECONDS \<le> now - cp_timestamp cp"
    | "now - cp_timestamp cp < STALL_CHECKPOINT_SECONDS" "STALL_WARN_SECONDS \<le> now - cp_timestamp cp"
    | "now - cp_timestamp cp < STALL_WARN_SECONDS" by linarith
  then show ?case using lim by cases (simp_all add: x Let_def Cons.IH)
qed simp

text \<open>The stall report classifies every checkpoint by its age, and exactly the aborted ones are removed.\<close>

lemma check_pipeline_stalls_exact:
  assumes "hm_wf m"
  shows "snd (check_pipeline_stalls now m) =
      \<lparr>sr_warn = map fst (filter (\<lambda>(_, c). now - cp_timestamp c \<in> {STALL_WARN_SECONDS..<STALL_CHECKPOINT_SECONDS}) m),
       sr_checkpoint = map fst (filter (\<lambda>(_, c). now - cp_timestamp c \<in> {STALL_CHECKPOINT_SECONDS..<STALL_ABORT_SECONDS}) m),
       sr_abort = map fst (filter (\<lambda>(_, c). STALL_ABORT_SECONDS \<le> now - cp_timestamp c) m)\<rparr>"
    and "map_of (fst (check_pipeline_stalls now m)) cid =
      (case map_of m cid of Some c \<Rightarrow> if STALL_ABORT_SECONDS \<le> now - cp_timestamp c then None else Some c | None \<Rightarrow> None)"
proof -
  show "snd (check_pipeline_stalls now m) =
      \<lparr>sr_warn = map fst (filter (\<lambda>(_, c). now - cp_timestamp c \<in> {STALL_WARN_SECONDS..<STALL_CHECKPOINT_SECONDS}) m),
       sr_checkpoint = map fst (filter (\<lambda>(_, c). now - cp_timestamp c \<in> {STALL_CHECKPOINT_SECONDS..<STALL_ABORT_SECONDS}) m),
       sr_abort = map fst (filter (\<lambda>(_, c). STALL_ABORT_SECONDS \<le> now - cp_timestamp c) m)\<rparr>"
    by (simp add: check_pipeline_stalls_def stall_scan_exact)
  have mem: "cid \<in> set (map fst (filter (\<lambda>(_, c). STALL_ABORT_SECONDS \<le> now - cp_timestamp c) m)) \<longleftrightarrow>
      (\<exists>c. map_of m cid = Some c \<and> STALL_ABORT_SECONDS \<le> now - cp_timestamp c)"
    by (rule filtered_keys [OF assms])
  show "map_of (fst (check_pipeline_stalls now m)) cid =
      (case map_of m cid of Some c \<Rightarrow> if STALL_ABORT_SECONDS \<le> now - cp_timestamp c then None else Some c | None \<Rightarrow> None)"
    unfolding check_pipeline_stalls_def stall_scan_exact using mem by (auto split: option.split)
qed

lemma resume_after_save:
  assumes "hm_wf m" "now - t \<le> CHECKPOINT_TTL_SECONDS"
  shows "snd (resume_checkpoint now cid (save_checkpoint t cid stage data m)) = Some (stage, data)"
proof -
  have pos: "0 < CHECKPOINT_TTL_SECONDS" by (simp add: CHECKPOINT_TTL_SECONDS_def)
  let ?m = "AList.update cid \<lparr>cp_stage = stage, cp_data = data, cp_timestamp = t\<rparr> m"
  have "map_of (save_checkpoint t cid stage data m) cid = Some \<lparr>cp_stage = stage, cp_data = data, cp_timestamp = t\<rparr>"
    using assms(1) pos by (simp add: save_checkpoint_def Let_def map_of_retain)
  then show ?thesis using assms(2) by (simp add: resume_checkpoint_def)
qed

text \<open>At the age of exactly \<open>CHECKPOINT_TTL_SECONDS\<close> a checkpoint can still be resumed, but the sweep drops it.\<close>

lemma sweep_drops_resumable:
  "snd (resume_checkpoint 1800 [1] (save_checkpoint 0 [1] ''plan'' JNull [])) = Some (''plan'', JNull) \<and>
   sweep_expired_checkpoints 1800 (save_checkpoint 0 [1] ''plan'' JNull []) = ([], 1)"
  by (simp add: save_checkpoint_def resume_checkpoint_def sweep_expired_checkpoints_def retain_def
      CHECKPOINT_TTL_SECONDS_def CHECKPOINT_MAX_ENTRIES_def)

section \<open>The contract of a storage mode\<close>

text \<open>\<open>keeps view now fm fm' j\<close>: a record of \<open>j\<close> that is not expired at \<open>now\<close> is still there.\<close>

definition keeps ::
  "('b FederatedMemory \<Rightarrow> bytes \<Rightarrow> FederatedRecord option) \<Rightarrow> secs \<Rightarrow> 'b FederatedMemory \<Rightarrow> 'b FederatedMemory \<Rightarrow> bytes \<Rightarrow> bool" where
  "keeps view now fm fm' j \<longleftrightarrow> (\<forall>r. view fm j = Some r \<longrightarrow> now < fr_expires_at r \<longrightarrow> view fm' j = Some r)"

lemma keeps_refl [simp]: "keeps view now fm fm j"
  by (simp add: keeps_def)

lemma keeps_trans: "keeps view now fm fm1 j \<Longrightarrow> keeps view now fm1 fm2 j \<Longrightarrow> keeps view now fm fm2 j"
  by (simp add: keeps_def)

text \<open>What the operations need of a storage mode: \<open>view\<close> is the record of an id, \<open>K\<close> the ids there is room for.\<close>

locale record_store =
  fixes B :: "'b StateBackend" and E :: fm_env
    and inv :: "'b FederatedMemory \<Rightarrow> bool"
    and view :: "'b FederatedMemory \<Rightarrow> bytes \<Rightarrow> FederatedRecord option"
    and K :: "bytes set"
  assumes put: "inv fm \<Longrightarrow> sid \<in> K \<Longrightarrow> length data \<le> FEDERATED_MAX_VALUE_BYTES \<Longrightarrow> 0 < ttl \<Longrightarrow>
      \<exists>fm'. fm_put_record B E now sid data v ttl fm = (fm', Inr ()) \<and> inv fm' \<and>
        view fm' sid = Some \<lparr>fr_data = data, fr_version = v, fr_expires_at = now + ttl\<rparr> \<and>
        (\<forall>j. j \<noteq> sid \<longrightarrow> keeps view now fm fm' j)"
    and get: "inv fm \<Longrightarrow> fm_get_record B E now sid fm = (fm', r) \<Longrightarrow>
      inv fm' \<and> keeps view now fm fm' j \<and> (\<forall>x. r = Some x \<longrightarrow> view fm sid = Some x) \<and>
      (\<forall>x. view fm sid = Some x \<longrightarrow> now < fr_expires_at x \<longrightarrow> r = Some x)"
    and remove: "inv fm \<Longrightarrow> inv (fm_remove_record B now sid fm) \<and>
      (j \<noteq> sid \<longrightarrow> view (fm_remove_record B now sid fm) j = view fm j)"
    and delete: "inv fm \<Longrightarrow> fm_delete_intent_envelope B now h fm = (fm', ok) \<Longrightarrow>
      inv fm' \<and> (hex_decode h \<noteq> Some j \<longrightarrow> view fm' j = view fm j)"
    and evict: "inv fm \<Longrightarrow> fm_evict_expired now fm = (fm', n) \<Longrightarrow> inv fm' \<and> keeps view now fm fm' j"
    and scan: "inv fm \<Longrightarrow> fm_count B now fm = (fm', n) \<Longrightarrow> inv fm' \<and> keeps view now fm fm' j"
begin

lemma put_any:
  assumes "inv fm" "sid \<in> K" "0 < ttl" "fm_put_record B E now sid data v ttl fm = (fm', res)"
  shows "inv fm' \<and> (\<forall>j. j \<noteq> sid \<longrightarrow> keeps view now fm fm' j)"
proof (cases "length data \<le> FEDERATED_MAX_VALUE_BYTES")
  case True
  from put [OF assms(1,2) this assms(3), of now v] assms(4) show ?thesis by auto
next
  case False
  then show ?thesis using assms(1,4) by (auto simp: fm_put_record_def)
qed

text \<open>Looking a record up and dropping it when it is expired.\<close>

lemma expire_keeps:
  assumes "inv fm" "fm_get_record B E now sid fm = (fm1, Some r)" "fr_expires_at r < now"
  shows "inv (fm_remove_record B now sid fm1) \<and> keeps view now fm (fm_remove_record B now sid fm1) j"
proof
  note g = get [OF assms(1,2)]
  show "inv (fm_remove_record B now sid fm1)" using g remove by blast
  show "keeps view now fm (fm_remove_record B now sid fm1) j"
  proof (cases "j = sid")
    case True
    have "view fm sid = Some r" using g by blast
    then show ?thesis using True assms(3) by (simp add: keeps_def)
  next
    case False
    have "view (fm_remove_record B now sid fm1) j = view fm1 j" using g remove False by blast
    moreover have "keeps view now fm fm1 j" using g by blast
    ultimately show ?thesis by (simp add: keeps_def)
  qed
qed

lemma fetch_keeps:
  assumes "inv fm"
  shows "inv (fst (fm_fetch_context B E now sid v fm)) \<and> keeps view now fm (fst (fm_fetch_context B E now sid v fm)) j"
proof -
  obtain fm1 r where g: "fm_get_record B E now sid fm = (fm1, r)" by fastforce
  have k: "inv fm1" "keeps view now fm fm1 j" using get [OF assms g] by blast+
  show ?thesis
  proof (cases "\<exists>x. r = Some x \<and> fr_expires_at x < now")
    case True
    then obtain x where x: "r = Some x" "fr_expires_at x < now" by blast
    show ?thesis using assms expire_keeps [OF assms g [unfolded x(1)] x(2), of j]
      by (simp add: fm_fetch_context_def g x)
  next
    case False
    then have "fst (fm_fetch_context B E now sid v fm) \<in> {fm, fm1}" by (cases r) (simp_all add: fm_fetch_context_def g)
    then show ?thesis using assms k by auto
  qed
qed

lemma fetch_intent_keeps:
  assumes "inv fm"
  shows "inv (fst (fm_fetch_intent_envelope B E now h k fm)) \<and> keeps view now fm (fst (fm_fetch_intent_envelope B E now h k fm)) j"
proof (cases "hex_decode h")
  case (Some sid)
  obtain fm1 r where g: "fm_get_record B E now sid fm = (fm1, r)" by fastforce
  have k: "inv fm1" "keeps view now fm fm1 j" using get [OF assms g] by blast+
  show ?thesis
  proof (cases "\<exists>x. r = Some x \<and> fr_expires_at x < now")
    case True
    then obtain x where x: "r = Some x" "fr_expires_at x < now" by blast
    show ?thesis using expire_keeps [OF assms g [unfolded x(1)] x(2), of j]
      by (simp add: fm_fetch_intent_envelope_def Some g x)
  next
    case False
    then have "fst (fm_fetch_intent_envelope B E now h k fm) = fm1"
      by (cases r) (simp_all add: fm_fetch_intent_envelope_def Some g)
    then show ?thesis using k by simp
  qed
qed (simp add: fm_fetch_intent_envelope_def assms)

end

context record_store
begin

lemma apply_keeps:
  assumes "inv fm" "\<forall>sid. fm_writes E (now, op) = Some sid \<longrightarrow> sid \<in> K"
  shows "inv (fm_apply B E fm (now, op)) \<and>
    (fm_writes E (now, op) \<noteq> Some j \<longrightarrow> keeps view now fm (fm_apply B E fm (now, op)) j)"
proof -
  have pos: "0 < FEDERATED_TTL_SECONDS" "0 < INTENT_MAX_LIFETIME" by (simp_all add: FEDERATED_TTL_SECONDS_def INTENT_MAX_LIFETIME_def)
  have put_keeps: "inv (fst (fm_put_record B E now sid data v ttl fm)) \<and>
      (sid \<noteq> j \<longrightarrow> keeps view now fm (fst (fm_put_record B E now sid data v ttl fm)) j)"
    if "sid \<in> K" "0 < ttl" for sid data v ttl
    using put_any [OF assms(1) that, of now data v] by (metis prod.collapse)
  show ?thesis
  proof (cases op)
    case (FmStore agent ctx v)
    let ?s = "context_state_id E agent ctx"
    have "fm_apply B E fm (now, op) = fst (fm_put_record B E now ?s ctx v FEDERATED_TTL_SECONDS fm)"
      by (simp add: FmStore fm_store_context_def Let_def split: prod.split sum.split)
    then show ?thesis using put_keeps [of ?s FEDERATED_TTL_SECONDS ctx v] assms(2) pos by (simp add: FmStore)
  next
    case (FmFetch sid v)
    then show ?thesis using fetch_keeps [OF assms(1)] by simp
  next
    case (FmSave sid data v)
    then show ?thesis using put_keeps [of sid FEDERATED_TTL_SECONDS data v] assms pos by (simp add: fm_save_context_def)
  next
    case (FmSaveProvenance sid data v w)
    then show ?thesis using put_keeps [of sid FEDERATED_TTL_SECONDS "fm_print E (provenance_json data w)" v] assms pos
      by (simp add: fm_save_context_with_provenance_def)
  next
    case (FmFetchProvenance sid v)
    have "fm_apply B E fm (now, op) = fst (fm_fetch_context B E now sid v fm)"
      by (simp add: FmFetchProvenance fm_fetch_context_with_provenance_def split: prod.split sum.split)
    then show ?thesis using fetch_keeps [OF assms(1)] by simp
  next
    case (FmFetchHex h v)
    have "fm_apply B E fm (now, op) = fm \<or> (\<exists>sid u. fm_apply B E fm (now, op) = fst (fm_fetch_context B E now sid u fm))"
      by (cases "hex_decode h") (auto simp: FmFetchHex fm_fetch_context_by_hex_def)
    then show ?thesis using fetch_keeps [OF assms(1)] assms(1) by (metis keeps_refl)
  next
    case (FmCreateIntent i u k)
    let ?s = "envelope_hash E now i u k"
    have "fm_apply B E fm (now, op) = fst (fm_put_record B E now ?s (envelope_text E now i u k) 1 INTENT_MAX_LIFETIME fm)"
      by (simp add: FmCreateIntent fm_create_intent_envelope_def envelope_hash_def envelope_text_def Let_def split: prod.split sum.split)
    then show ?thesis using put_keeps [of ?s INTENT_MAX_LIFETIME "envelope_text E now i u k" 1] assms(2) pos
      by (simp add: FmCreateIntent)
  next
    case (FmDeleteIntent h)
    obtain fm' ok where d: "fm_delete_intent_envelope B now h fm = (fm', ok)" by fastforce
    show ?thesis using delete [OF assms(1) d, of j] by (simp add: FmDeleteIntent d keeps_def)
  next
    case FmEvict
    obtain fm' n where d: "fm_evict_expired now fm = (fm', n)" by fastforce
    show ?thesis using evict [OF assms(1) d, of j] by (simp add: FmEvict d)
  next
    case (FmFetchIntent h k)
    then show ?thesis using fetch_intent_keeps [OF assms(1)] by simp
  next
    case FmCount
    obtain fm' n where d: "fm_count B now fm = (fm', n)" by fastforce
    show ?thesis using scan [OF assms(1) d, of j] by (simp add: FmCount d)
  qed
qed

lemma run_inv:
  assumes "inv fm" "\<forall>x \<in> set ops. \<forall>sid. fm_writes E x = Some sid \<longrightarrow> sid \<in> K"
  shows "inv (fm_run B E fm ops)"
  using assms
proof (induction ops arbitrary: fm)
  case (Cons x ops)
  have "inv (fm_apply B E fm (fst x, snd x))" using Cons.prems apply_keeps [of fm "fst x" "snd x"] by simp
  then show ?case using Cons.IH [of "fm_apply B E fm x"] Cons.prems by (simp add: fm_run_def)
qed (simp add: fm_run_def)

lemma run_keeps:
  assumes "inv fm" "view fm j = Some r"
    "\<forall>x \<in> set ops. fst x < fr_expires_at r \<and> fm_writes E x \<noteq> Some j \<and> (\<forall>sid. fm_writes E x = Some sid \<longrightarrow> sid \<in> K)"
  shows "inv (fm_run B E fm ops) \<and> view (fm_run B E fm ops) j = Some r"
  using assms
proof (induction ops arbitrary: fm)
  case (Cons x ops)
  have "inv (fm_apply B E fm (fst x, snd x))" "view (fm_apply B E fm (fst x, snd x)) j = Some r"
    using Cons.prems apply_keeps [of fm "fst x" "snd x" j] by (auto simp: keeps_def)
  then show ?case using Cons.IH [of "fm_apply B E fm x"] Cons.prems by (simp add: fm_run_def)
qed (simp add: fm_run_def)

lemma get_live:
  assumes "inv fm" "view fm sid = Some r" "now < fr_expires_at r"
  obtains fm' where "fm_get_record B E now sid fm = (fm', Some r)"
proof -
  obtain fm' x where g: "fm_get_record B E now sid fm = (fm', x)" by fastforce
  show ?thesis using get [OF assms(1) g, of sid] assms(2,3) g that by blast
qed

text \<open>A record written and then left alone reads back until it expires.\<close>

lemma written_then_read:
  assumes "inv fm" "sid \<in> K" "length data \<le> FEDERATED_MAX_VALUE_BYTES" "0 < ttl"
    "\<forall>x \<in> set ops. fst x < t + ttl \<and> fm_writes E x \<noteq> Some sid \<and> (\<forall>s. fm_writes E x = Some s \<longrightarrow> s \<in> K)"
    "now < t + ttl"
  shows "snd (fm_put_record B E t sid data v ttl fm) = Inr ()"
    "snd (fm_get_record B E now sid (fm_run B E (fst (fm_put_record B E t sid data v ttl fm)) ops)) =
       Some \<lparr>fr_data = data, fr_version = v, fr_expires_at = t + ttl\<rparr>" (is "_ = Some ?r")
proof -
  from put [OF assms(1-4), of t v] obtain fm1 where
    p: "fm_put_record B E t sid data v ttl fm = (fm1, Inr ())" "inv fm1" "view fm1 sid = Some ?r" by blast
  from p show "snd (fm_put_record B E t sid data v ttl fm) = Inr ()" by simp
  have "inv (fm_run B E fm1 ops) \<and> view (fm_run B E fm1 ops) sid = Some ?r"
    using p(2,3) assms(5) by (intro run_keeps) auto
  then obtain fm2 where "fm_get_record B E now sid (fm_run B E fm1 ops) = (fm2, Some ?r)"
    using get_live [of "fm_run B E fm1 ops" sid ?r now] assms(6) by auto
  then show "snd (fm_get_record B E now sid (fm_run B E (fst (fm_put_record B E t sid data v ttl fm)) ops)) = Some ?r"
    by (simp add: p(1))
qed

lemma saved_context_read:
  assumes "inv fm" "sid \<in> K" "length sid = 32" "length data \<le> FEDERATED_MAX_VALUE_BYTES"
    "\<forall>x \<in> set ops. fst x < t + FEDERATED_TTL_SECONDS \<and> fm_writes E x \<noteq> Some sid \<and> (\<forall>s. fm_writes E x = Some s \<longrightarrow> s \<in> K)"
    "now < t + FEDERATED_TTL_SECONDS"
  shows "snd (fm_fetch_context B E now sid w (fm_run B E (fst (fm_save_context B E t sid data v fm)) ops)) =
    (if v = w then Inr data else Inl (StaleState w v))"
proof -
  have pos: "0 < FEDERATED_TTL_SECONDS" by (simp add: FEDERATED_TTL_SECONDS_def)
  define fm2 where "fm2 = fm_run B E (fst (fm_put_record B E t sid data v FEDERATED_TTL_SECONDS fm)) ops"
  obtain fm3 where "fm_get_record B E now sid fm2 =
      (fm3, Some \<lparr>fr_data = data, fr_version = v, fr_expires_at = t + FEDERATED_TTL_SECONDS\<rparr>)"
    using written_then_read(2) [OF assms(1,2,4) pos assms(5,6), of v] unfolding fm2_def by (metis prod.collapse)
  then have "snd (fm_fetch_context B E now sid w fm2) = (if v = w then Inr data else Inl (StaleState w v))"
    using assms(3,6) by (auto simp: fm_fetch_context_def)
  then show ?thesis using assms(3) by (simp add: fm_save_context_def fm2_def)
qed

lemma created_intent_read:
  assumes "inv fm" "envelope_hash E t i u k \<in> K" "length (envelope_text E t i u k) \<le> FEDERATED_MAX_VALUE_BYTES"
    "\<forall>x \<in> set ops. fst x < t + INTENT_MAX_LIFETIME \<and> fm_writes E x \<noteq> Some (envelope_hash E t i u k) \<and>
       (\<forall>s. fm_writes E x = Some s \<longrightarrow> s \<in> K)"
    "now < t + INTENT_MAX_LIFETIME"
  shows "snd (fm_create_intent_envelope B E t i u k fm) = Inr (hex_encode (envelope_hash E t i u k))"
    "snd (fm_fetch_intent_envelope B E now (hex_encode (envelope_hash E t i u k)) k'
       (fm_run B E (fst (fm_create_intent_envelope B E t i u k fm)) ops)) = verify_envelope E k' (envelope_text E t i u k)"
proof -
  let ?s = "envelope_hash E t i u k" and ?d = "envelope_text E t i u k"
  have pos: "0 < INTENT_MAX_LIFETIME" by (simp add: INTENT_MAX_LIFETIME_def)
  note w = written_then_read [OF assms(1-3) pos assms(4,5), of 1]
  obtain fm1 where p: "fm_put_record B E t ?s ?d 1 INTENT_MAX_LIFETIME fm = (fm1, Inr ())"
    using w(1) by (metis prod.collapse)
  then have c: "fm_create_intent_envelope B E t i u k fm = (fm1, Inr (hex_encode ?s))"
    by (simp add: fm_create_intent_envelope_def envelope_hash_def envelope_text_def Let_def)
  then show "snd (fm_create_intent_envelope B E t i u k fm) = Inr (hex_encode ?s)" by simp
  obtain fm3 where "fm_get_record B E now ?s (fm_run B E fm1 ops) =
      (fm3, Some \<lparr>fr_data = ?d, fr_version = 1, fr_expires_at = t + INTENT_MAX_LIFETIME\<rparr>)"
    using w(2) unfolding p fst_conv by (metis prod.collapse)
  then show "snd (fm_fetch_intent_envelope B E now (hex_encode ?s) k'
       (fm_run B E (fst (fm_create_intent_envelope B E t i u k fm)) ops)) = verify_envelope E k' ?d"
    using assms(5) by (simp add: c fm_fetch_intent_envelope_def)
qed

end

section \<open>The process-local mode\<close>

definition local_inv :: "'b FederatedMemory \<Rightarrow> bool" where
  "local_inv fm \<longleftrightarrow> fm_backend fm = None \<and> length (fm_shards fm) = FEDERATED_MEMORY_SHARDS \<and> (\<forall>sh \<in> set (fm_shards fm). hm_wf sh)"

definition local_view :: "'b FederatedMemory \<Rightarrow> bytes \<Rightarrow> FederatedRecord option" where
  "local_view fm sid = map_of (fm_shard sid fm) sid"

lemma fm_shard_index_less [simp]: "fm_shard_index sid < FEDERATED_MEMORY_SHARDS"
  by (auto simp: fm_shard_index_def FEDERATED_MEMORY_SHARDS_def split: list.split)

lemma local_inv_new: "local_inv fm_new"
  by (simp add: local_inv_def fm_new_def fm_new_shards_def)

lemma hm_wf_shard: "local_inv fm \<Longrightarrow> hm_wf (fm_shard sid fm)"
  by (simp add: local_inv_def fm_shard_def)

lemma local_put_shard:
  assumes "local_inv fm" "hm_wf sh"
  shows "local_inv (fm_put_shard sid sh fm)"
    "local_view (fm_put_shard sid sh fm) j = (if fm_shard_index j = fm_shard_index sid then map_of sh j else local_view fm j)"
proof -
  have "set ((fm_shards fm)[fm_shard_index sid := sh]) \<subseteq> insert sh (set (fm_shards fm))" by (rule set_update_subset_insert)
  then show "local_inv (fm_put_shard sid sh fm)" using assms by (auto simp: local_inv_def fm_put_shard_def)
  have "fm_shard_index sid < length (fm_shards fm)" using assms(1) by (simp add: local_inv_def)
  then show "local_view (fm_put_shard sid sh fm) j = (if fm_shard_index j = fm_shard_index sid then map_of sh j else local_view fm j)"
    by (simp add: local_view_def fm_shard_def fm_put_shard_def nth_list_update)
qed

lemma local_shard_eq: "fm_shard_index j = fm_shard_index sid \<Longrightarrow> map_of (fm_shard sid fm) j = local_view fm j"
  by (simp add: local_view_def fm_shard_def)

lemma local_put:
  assumes inv: "local_inv fm" and len: "length data \<le> FEDERATED_MAX_VALUE_BYTES" and pos: "0 < ttl"
  shows "\<exists>fm'. fm_put_record B E now sid data v ttl fm = (fm', Inr ()) \<and> local_inv fm' \<and>
        local_view fm' sid = Some \<lparr>fr_data = data, fr_version = v, fr_expires_at = now + ttl\<rparr> \<and>
        (\<forall>j. j \<noteq> sid \<longrightarrow> keeps local_view now fm fm' j)" (is "\<exists>fm'. ?P fm'")
proof -
  let ?r = "\<lparr>fr_data = data, fr_version = v, fr_expires_at = now + ttl\<rparr>"
  define sh where "sh = AList.update sid ?r (fm_shard sid fm)"
  define sh1 where "sh1 = (if FEDERATED_MEMORY_PER_SHARD_MAX_ENTRIES < length sh
      then retain (\<lambda>_ v. now < fr_expires_at v) sh else sh)"
  have wf: "hm_wf sh" "hm_wf sh1" using hm_wf_shard [OF inv, of sid] by (simp_all add: sh_def sh1_def)
  have kept: "map_of sh1 j = Some r" if "map_of sh j = Some r" "now < fr_expires_at r" for j r
    using that wf(1) by (auto simp: sh1_def map_of_retain)
  have "fm_put_record B E now sid data v ttl fm = (fm_put_shard sid sh1 fm, Inr ())"
    using inv len by (simp add: fm_put_record_def local_inv_def sh_def sh1_def Let_def)
  moreover have "map_of sh1 sid = Some ?r" by (rule kept) (simp_all add: sh_def pos)
  then have "local_view (fm_put_shard sid sh1 fm) sid = Some ?r" by (simp add: local_put_shard [OF inv wf(2)])
  moreover have "keeps local_view now fm (fm_put_shard sid sh1 fm) j" if "j \<noteq> sid" for j
    unfolding keeps_def local_put_shard(2) [OF inv wf(2)]
    using that kept [of j] local_shard_eq [of j sid fm] by (simp add: sh_def)
  ultimately show ?thesis using local_put_shard(1) [OF inv wf(2), of sid] by simp
qed

lemma local_evict:
  assumes inv: "local_inv fm" and ev: "fm_evict_expired now fm = (fm', n)"
  shows "local_inv fm' \<and> keeps local_view now fm fm' j"
proof -
  have fm': "fm' = fm\<lparr>fm_shards := map (retain (\<lambda>_ v. now < fr_expires_at v)) (fm_shards fm)\<rparr>"
    using inv ev by (simp add: fm_evict_expired_def local_inv_def Let_def)
  have "fm_shard_index j < length (fm_shards fm)" using inv by (simp add: local_inv_def)
  then have "local_view fm' j = map_of (retain (\<lambda>_ v. now < fr_expires_at v) (fm_shard j fm)) j"
    by (simp add: fm' local_view_def fm_shard_def)
  then show ?thesis using inv hm_wf_shard [OF inv, of j]
    by (auto simp: keeps_def map_of_retain fm' local_inv_def local_view_def)
qed

lemma local_delete:
  assumes "local_inv fm" "j \<noteq> sid"
  shows "local_inv (fm_put_shard sid (AList.delete sid (fm_shard sid fm)) fm)"
    "local_view (fm_put_shard sid (AList.delete sid (fm_shard sid fm)) fm) j = local_view fm j"
proof -
  have wf: "hm_wf (AList.delete sid (fm_shard sid fm))" using hm_wf_shard [OF assms(1), of sid] by simp
  show "local_inv (fm_put_shard sid (AList.delete sid (fm_shard sid fm)) fm)" by (rule local_put_shard(1) [OF assms(1) wf])
  show "local_view (fm_put_shard sid (AList.delete sid (fm_shard sid fm)) fm) j = local_view fm j"
    unfolding local_put_shard(2) [OF assms(1) wf] using assms(2) local_shard_eq [of j sid fm] by simp
qed

interpretation loc: record_store B E local_inv local_view UNIV for B :: "'b StateBackend" and E
proof
  fix fm fm' :: "'b FederatedMemory" and sid data ttl now v r j h ok n
  assume inv: "local_inv fm"
  show "\<exists>fm'. fm_put_record B E now sid data v ttl fm = (fm', Inr ()) \<and> local_inv fm' \<and>
      local_view fm' sid = Some \<lparr>fr_data = data, fr_version = v, fr_expires_at = now + ttl\<rparr> \<and>
      (\<forall>j. j \<noteq> sid \<longrightarrow> keeps local_view now fm fm' j)"
    if "length data \<le> FEDERATED_MAX_VALUE_BYTES" "0 < ttl" using inv that by (rule local_put)
  show "local_inv fm' \<and> keeps local_view now fm fm' j \<and> (\<forall>x. r = Some x \<longrightarrow> local_view fm sid = Some x) \<and>
      (\<forall>x. local_view fm sid = Some x \<longrightarrow> now < fr_expires_at x \<longrightarrow> r = Some x)"
    if "fm_get_record B E now sid fm = (fm', r)"
    using inv that by (auto simp: fm_get_record_def local_inv_def local_view_def)
  have "hm_wf (AList.delete sid (fm_shard sid fm))" for sid using hm_wf_shard [OF inv, of sid] by simp
  note inv_del = local_put_shard(1) [OF inv this]
  show "local_inv (fm_remove_record B now sid fm) \<and> (j \<noteq> sid \<longrightarrow> local_view (fm_remove_record B now sid fm) j = local_view fm j)"
    using inv inv_del local_delete [OF inv, of j sid] by (simp add: fm_remove_record_def local_inv_def [of fm])
  show "local_inv fm' \<and> (hex_decode h \<noteq> Some j \<longrightarrow> local_view fm' j = local_view fm j)"
    if "fm_delete_intent_envelope B now h fm = (fm', ok)"
  proof (cases "hex_decode h")
    case None
    then show ?thesis using inv that by (simp add: fm_delete_intent_envelope_def)
  next
    case (Some sid)
    then have "fm' = fm_put_shard sid (AList.delete sid (fm_shard sid fm)) fm"
      using inv that by (simp add: fm_delete_intent_envelope_def local_inv_def)
    then show ?thesis using Some inv_del local_delete(2) [OF inv, of j sid] by auto
  qed
  show "local_inv fm' \<and> keeps local_view now fm fm' j" if "fm_evict_expired now fm = (fm', n)"
    using inv that by (rule local_evict)
  show "local_inv fm' \<and> keeps local_view now fm fm' j" if "fm_count B now fm = (fm', n)"
    using inv that by (auto simp: fm_count_def local_inv_def)
qed

section \<open>The shared mode over the in-memory backend\<close>

text \<open>Every record of the memory's key space decodes, and the backend expires it when the record does.\<close>

definition wire_entries :: "fm_env \<Rightarrow> InMemoryBackend \<Rightarrow> bool" where
  "wire_entries E b \<longleftrightarrow> (\<forall>sid e. map_of (store b) (fm_backend_key sid) = Some e \<longrightarrow>
     (\<exists>r. fm_dec_wire E (e_value e) = Some r \<and> expires_at e = Some (fr_expires_at r)))"

definition shared_inv :: "fm_env \<Rightarrow> string set \<Rightarrow> InMemoryBackend FederatedMemory \<Rightarrow> bool" where
  "shared_inv E K fm \<longleftrightarrow> wire_ok E \<and> (\<exists>b. fm_backend fm = Some b \<and> mem_inv K b \<and> wire_entries E b)"

definition entry_record :: "fm_env \<Rightarrow> Entry \<Rightarrow> FederatedRecord option" where
  "entry_record E e = fm_dec_wire E (e_value e)"

definition shared_view :: "fm_env \<Rightarrow> InMemoryBackend FederatedMemory \<Rightarrow> bytes \<Rightarrow> FederatedRecord option" where
  "shared_view E fm sid =
     Option.bind (fm_backend fm) (\<lambda>b. Option.bind (map_of (store b) (fm_backend_key sid)) (entry_record E))"

lemma fm_backend_key_inject [simp]: "fm_backend_key a = fm_backend_key b \<longleftrightarrow> a = b"
  by (simp add: fm_backend_key_def)

lemma mem_inv_shrink: "mem_inv K b \<Longrightarrow> mem_inv K (b\<lparr>store := AList.delete k (store b)\<rparr>)"
  "mem_inv K b \<Longrightarrow> mem_inv K (b\<lparr>store := retain P (store b)\<rparr>)"
  using keys_retain_subset [of P "store b"] by (auto simp: mem_inv_def)

lemma wire_entries_delete: "wire_entries E b \<Longrightarrow> wire_entries E (b\<lparr>store := AList.delete k (store b)\<rparr>)"
  by (auto simp: wire_entries_def split: if_splits)

lemma wire_entries_retain: "hm_wf (store b) \<Longrightarrow> wire_entries E b \<Longrightarrow> wire_entries E (b\<lparr>store := retain P (store b)\<rparr>)"
  by (auto simp: wire_entries_def map_of_retain split: option.splits if_splits)

lemma wire_entry_live:
  assumes "wire_entries E b" "map_of (store b) (fm_backend_key sid) = Some e" "entry_record E e = Some r"
  shows "is_expired now e \<longleftrightarrow> fr_expires_at r \<le> now"
proof -
  obtain r' where "fm_dec_wire E (e_value e) = Some r'" "expires_at e = Some (fr_expires_at r')"
    using assms(1,2) unfolding wire_entries_def by blast
  then show ?thesis using assms(3) by (simp add: entry_record_def is_expired_def)
qed

lemma shared_put:
  assumes inv: "shared_inv E K fm" and k: "fm_backend_key sid \<in> K" and len: "length data \<le> FEDERATED_MAX_VALUE_BYTES"
    and pos: "0 < ttl"
  shows "\<exists>fm'. fm_put_record in_memory E now sid data v ttl fm = (fm', Inr ()) \<and> shared_inv E K fm' \<and>
        shared_view E fm' sid = Some \<lparr>fr_data = data, fr_version = v, fr_expires_at = now + ttl\<rparr> \<and>
        (\<forall>j. j \<noteq> sid \<longrightarrow> keeps (shared_view E) now fm fm' j)"
proof -
  let ?r = "\<lparr>fr_data = data, fr_version = v, fr_expires_at = now + ttl\<rparr>"
  obtain b where b: "fm_backend fm = Some b" "mem_inv K b" "wire_entries E b" and w: "wire_ok E"
    using inv by (auto simp: shared_inv_def)
  obtain bs where bs: "fm_enc_wire E ?r = Some bs" "fm_dec_wire E bs = Some ?r" using w by (auto simp: wire_ok_def)
  let ?e = "\<lparr>e_value = bs, expires_at = Some (now + ttl)\<rparr>"
  define b1 where "b1 = put_entry (fm_backend_key sid) ?e b"
  have fits: "mem_inv K b1" "store b1 = AList.update (fm_backend_key sid) ?e (store b)"
    using put_entry_fits [OF b(2) k, of ?e] by (simp_all add: b1_def)
  have "wire_entries E b1" using b(3) bs(2) by (auto simp: wire_entries_def fits(2))
  then have "shared_inv E K (fm\<lparr>fm_backend := Some b1\<rparr>)" using w fits(1) by (simp add: shared_inv_def)
  moreover have "fm_put_record in_memory E now sid data v ttl fm = (fm\<lparr>fm_backend := Some b1\<rparr>, Inr ())"
    using len pos by (simp add: fm_put_record_def b(1) bs(1) in_memory_def mem_set_def b1_def max_def)
  moreover have "shared_view E (fm\<lparr>fm_backend := Some b1\<rparr>) j = (if j = sid then Some ?r else shared_view E fm j)" for j
    using bs(2) by (simp add: shared_view_def b(1) fits(2) entry_record_def)
  ultimately show ?thesis by (auto simp: keeps_def)
qed

lemma shared_get:
  assumes inv: "shared_inv E K fm" and g: "fm_get_record in_memory E now sid fm = (fm', r)"
  shows "shared_inv E K fm' \<and> keeps (shared_view E) now fm fm' j \<and> (\<forall>x. r = Some x \<longrightarrow> shared_view E fm sid = Some x) \<and>
      (\<forall>x. shared_view E fm sid = Some x \<longrightarrow> now < fr_expires_at x \<longrightarrow> r = Some x)"
proof -
  obtain b where b: "fm_backend fm = Some b" "mem_inv K b" "wire_entries E b" and w: "wire_ok E"
    using inv by (auto simp: shared_inv_def)
  have keep: "fm\<lparr>fm_backend := Some b\<rparr> = fm" using b(1) by simp
  show ?thesis
  proof (cases "map_of (store b) (fm_backend_key sid)")
    case None
    then have "fm' = fm" "r = None"
      using g keep by (simp_all add: fm_get_record_def b(1) in_memory_def mem_get_def)
    then show ?thesis using inv None by (simp add: shared_view_def b(1))
  next
    case (Some e)
    obtain x where x: "entry_record E e = Some x" using b(3) Some by (auto simp: wire_entries_def entry_record_def)
    note live = wire_entry_live [OF b(3) Some x, of now]
    show ?thesis
    proof (cases "is_expired now e")
      case True
      let ?b = "b\<lparr>store := AList.delete (fm_backend_key sid) (store b)\<rparr>"
      have "fm' = fm\<lparr>fm_backend := Some ?b\<rparr>" "r = None"
        using g Some True by (simp_all add: fm_get_record_def b(1) in_memory_def mem_get_def)
      moreover have "shared_inv E K (fm\<lparr>fm_backend := Some ?b\<rparr>)"
        using w mem_inv_shrink(1) [OF b(2)] wire_entries_delete [OF b(3)] by (auto simp: shared_inv_def)
      ultimately show ?thesis using True live x Some by (auto simp: shared_view_def b(1) keeps_def)
    next
      case False
      then have "fm' = fm" "r = Some x"
        using g Some keep x by (simp_all add: fm_get_record_def b(1) in_memory_def mem_get_def entry_record_def)
      then show ?thesis using inv Some x by (simp add: shared_view_def b(1))
    qed
  qed
qed

lemma shared_delete:
  assumes inv: "shared_inv E K fm" and b: "fm_backend fm = Some b"
  shows "shared_inv E K (fm\<lparr>fm_backend := Some (b\<lparr>store := AList.delete (fm_backend_key sid) (store b)\<rparr>)\<rparr>)"
    "j \<noteq> sid \<Longrightarrow> shared_view E (fm\<lparr>fm_backend := Some (b\<lparr>store := AList.delete (fm_backend_key sid) (store b)\<rparr>)\<rparr>) j = shared_view E fm j"
proof -
  have "mem_inv K b" "wire_entries E b" "wire_ok E" using inv b by (auto simp: shared_inv_def)
  then show "shared_inv E K (fm\<lparr>fm_backend := Some (b\<lparr>store := AList.delete (fm_backend_key sid) (store b)\<rparr>)\<rparr>)"
    using mem_inv_shrink(1) [of K b] wire_entries_delete [of E b] by (simp add: shared_inv_def)
  show "j \<noteq> sid \<Longrightarrow> shared_view E (fm\<lparr>fm_backend := Some (b\<lparr>store := AList.delete (fm_backend_key sid) (store b)\<rparr>)\<rparr>) j = shared_view E fm j"
    by (simp add: shared_view_def b)
qed

lemma shared_count:
  assumes inv: "shared_inv E K fm" and c: "fm_count in_memory now fm = (fm', n)"
  shows "shared_inv E K fm' \<and> keeps (shared_view E) now fm fm' j"
proof -
  obtain b where b: "fm_backend fm = Some b" "mem_inv K b" "wire_entries E b" and w: "wire_ok E"
    using inv by (auto simp: shared_inv_def)
  have wf: "hm_wf (store b)" using b(2) by (simp add: mem_inv_def)
  let ?b = "b\<lparr>store := retain (\<lambda>_ e. \<not> is_expired now e) (store b)\<rparr>"
  have fm': "fm' = fm\<lparr>fm_backend := Some ?b\<rparr>"
    using c by (simp add: fm_count_def b(1) in_memory_def mem_scan_prefix_def Let_def)
  have "shared_inv E K fm'"
    using w mem_inv_shrink(2) [OF b(2)] wire_entries_retain [OF wf b(3)] by (simp add: fm' shared_inv_def)
  moreover have "shared_view E fm' j = Some r" if v: "shared_view E fm j = Some r" and t: "now < fr_expires_at r" for r
  proof -
    obtain e where e: "map_of (store b) (fm_backend_key j) = Some e" "entry_record E e = Some r"
      using v by (cases "map_of (store b) (fm_backend_key j)") (auto simp: shared_view_def b(1))
    have "\<not> is_expired now e" using wire_entry_live [OF b(3) e, of now] t by simp
    then show ?thesis using e wf by (simp add: fm' shared_view_def map_of_retain)
  qed
  ultimately show ?thesis by (simp add: keeps_def)
qed

interpretation shared: record_store in_memory E "shared_inv E K" "shared_view E" "{sid. fm_backend_key sid \<in> K}" for E K
proof
  fix fm fm' :: "InMemoryBackend FederatedMemory" and sid data ttl now v r j h ok n
  assume inv: "shared_inv E K fm"
  then obtain b where b: "fm_backend fm = Some b" by (auto simp: shared_inv_def)
  show "\<exists>fm'. fm_put_record in_memory E now sid data v ttl fm = (fm', Inr ()) \<and> shared_inv E K fm' \<and>
      shared_view E fm' sid = Some \<lparr>fr_data = data, fr_version = v, fr_expires_at = now + ttl\<rparr> \<and>
      (\<forall>j. j \<noteq> sid \<longrightarrow> keeps (shared_view E) now fm fm' j)"
    if "sid \<in> {sid. fm_backend_key sid \<in> K}" "length data \<le> FEDERATED_MAX_VALUE_BYTES" "0 < ttl"
    using that by (intro shared_put inv) simp_all
  show "shared_inv E K fm' \<and> keeps (shared_view E) now fm fm' j \<and> (\<forall>x. r = Some x \<longrightarrow> shared_view E fm sid = Some x) \<and>
      (\<forall>x. shared_view E fm sid = Some x \<longrightarrow> now < fr_expires_at x \<longrightarrow> r = Some x)"
    if "fm_get_record in_memory E now sid fm = (fm', r)" using inv that by (rule shared_get)
  show "shared_inv E K (fm_remove_record in_memory now sid fm) \<and>
      (j \<noteq> sid \<longrightarrow> shared_view E (fm_remove_record in_memory now sid fm) j = shared_view E fm j)"
    using shared_delete [OF inv b] by (simp add: fm_remove_record_def b in_memory_def mem_delete_def)
  show "shared_inv E K fm' \<and> (hex_decode h \<noteq> Some j \<longrightarrow> shared_view E fm' j = shared_view E fm j)"
    if "fm_delete_intent_envelope in_memory now h fm = (fm', ok)"
  proof (cases "hex_decode h")
    case None
    then show ?thesis using inv that by (simp add: fm_delete_intent_envelope_def)
  next
    case (Some sid)
    then have "fm' = fm\<lparr>fm_backend := Some (b\<lparr>store := AList.delete (fm_backend_key sid) (store b)\<rparr>)\<rparr>"
      using that by (simp add: fm_delete_intent_envelope_def b in_memory_def mem_delete_def)
    then show ?thesis using Some shared_delete(1) [OF inv b, of sid] shared_delete(2) [OF inv b, of j sid] by auto
  qed
  show "shared_inv E K fm' \<and> keeps (shared_view E) now fm fm' j" if "fm_evict_expired now fm = (fm', n)"
    using inv that by (simp add: fm_evict_expired_def b)
  show "shared_inv E K fm' \<and> keeps (shared_view E) now fm fm' j" if "fm_count in_memory now fm = (fm', n)"
    using inv that by (rule shared_count)
qed

lemma shared_inv_new:
  "wire_ok E \<Longrightarrow> finite K \<Longrightarrow> card K \<le> cap \<Longrightarrow> shared_inv E K (fm_with_backend (with_max_entries cap))"
  by (simp add: shared_inv_def fm_with_backend_def mem_inv_def with_max_entries_def wire_entries_def)

section \<open>Reading back in either mode\<close>

text \<open>A new memory in one of the two modes, with room for the ids \<open>K\<close>.\<close>

definition fm_fresh :: "fm_env \<Rightarrow> bytes set \<Rightarrow> InMemoryBackend FederatedMemory \<Rightarrow> bool" where
  "fm_fresh E K fm \<longleftrightarrow>
     fm = fm_new \<and> K = UNIV \<or>
     (\<exists>cap. fm = fm_with_backend (with_max_entries cap) \<and> wire_ok E \<and> finite K \<and> card K \<le> cap)"

lemma shared_keys [simp]: "fm_backend_key sid \<in> fm_backend_key ` K \<longleftrightarrow> sid \<in> K"
  by auto

lemma fresh_shared:
  assumes "wire_ok E" "finite K" "card K \<le> cap"
  shows "shared_inv E (fm_backend_key ` K) (fm_with_backend (with_max_entries cap))"
  using assms card_image_le [OF assms(2), of fm_backend_key] by (intro shared_inv_new) auto

text \<open>The ids written before and after the write that is read back.\<close>

definition fm_quiet :: "fm_env \<Rightarrow> bytes set \<Rightarrow> (secs \<times> fm_op) list \<Rightarrow> (secs \<times> fm_op) list \<Rightarrow> bytes \<Rightarrow> secs \<Rightarrow> bool" where
  "fm_quiet E K pre post sid until \<longleftrightarrow>
     (\<forall>x \<in> set (pre @ post). \<forall>s. fm_writes E x = Some s \<longrightarrow> s \<in> K) \<and>
     (\<forall>x \<in> set post. fst x < until \<and> fm_writes E x \<noteq> Some sid)"

lemma verify_envelope_text:
  assumes "fm_parse E (envelope_text E t i u k) =
    Some (intent_envelope i u (intent_signature E k i u (JNum (PosInt (f64_as_u64 t)))) (JNum (PosInt (f64_as_u64 t))))"
  shows "verify_envelope E k' (envelope_text E t i u k) =
    (if intent_signature E k' i u (JNum (PosInt (f64_as_u64 t))) = intent_signature E k i u (JNum (PosInt (f64_as_u64 t)))
     then Ok i else Err InvalidSignature)"
  using assms by (simp add: verify_envelope_def intent_envelope_def obj_str_def claim_def constant_time_eq_iff)

text \<open>A plain \<open>save_context\<close> can carry a provenance tag of anyone: the reader reports that writer.\<close>

lemma provenance_forged:
  assumes "local_inv fm" "length sid = 32" "fm_parse E (fm_print E (provenance_json d w)) = Some (provenance_json d w)"
    "length (fm_print E (provenance_json d w)) \<le> FEDERATED_MAX_VALUE_BYTES" "now < t + FEDERATED_TTL_SECONDS"
  shows "snd (fm_fetch_context_with_provenance B E now sid v
      (fst (fm_save_context B E t sid (fm_print E (provenance_json d w)) v fm))) = Inr (d, Some w)"
proof -
  let ?raw = "fm_print E (provenance_json d w)"
  have "snd (fm_fetch_context B E now sid v (fst (fm_save_context B E t sid ?raw v fm))) = Inr ?raw"
    using loc.saved_context_read [OF assms(1) _ assms(2,4) _ assms(5), where ops = "[]" and B = B and v = v and w = v] by (simp add: fm_run_def)
  then obtain fm1 where "fm_fetch_context B E now sid v (fst (fm_save_context B E t sid ?raw v fm)) = (fm1, Inr ?raw)"
    by (metis prod.collapse)
  moreover have "read_provenance E ?raw = (d, Some w)"
    using assms(3) by (simp add: read_provenance_def provenance_json_def json_get_def PROVENANCE_TAG_def)
  ultimately show ?thesis by (simp add: fm_fetch_context_with_provenance_def)
qed

section \<open>A small instance\<close>

fun demo_print :: "json \<Rightarrow> string" where
  "demo_print (JObj kvs) = concat (map (\<lambda>(k, v). k @ '':'' @ demo_print v @ '','') kvs)"
| "demo_print (JStr s) = s"
| "demo_print _ = ''0''"

definition demo_envelopes :: "json list" where
  "demo_envelopes =
     map (\<lambda>i. intent_envelope i ''ann'' (hex_encode [1]) (JNum (PosInt 0))) [''book'', ''sell'']"

definition demo_fm_env :: fm_env where
  "demo_fm_env =
     \<lparr>fm_sha256 = (\<lambda>bs. take 32 (bs @ replicate 32 0)), fm_hmac = (\<lambda>k m. k), fm_print = demo_print,
      fm_parse = (\<lambda>s. find (\<lambda>v. demo_print v = s) demo_envelopes),
      fm_enc_wire = (\<lambda>_. None), fm_dec_wire = (\<lambda>_. None)\<rparr>"

lemma demo_envelope:
  assumes "i \<in> {''book'', ''sell''}"
  shows "envelope_text demo_fm_env 0 i ''ann'' [1] = demo_print (intent_envelope i ''ann'' (hex_encode [1]) (JNum (PosInt 0)))"
    "fm_parse demo_fm_env (envelope_text demo_fm_env 0 i ''ann'' [1]) =
       Some (intent_envelope i ''ann'' (intent_signature demo_fm_env [1] i ''ann'' (JNum (PosInt (f64_as_u64 0)))) (JNum (PosInt (f64_as_u64 0))))"
    "length (envelope_text demo_fm_env 0 i ''ann'' [1]) \<le> FEDERATED_MAX_VALUE_BYTES"
    "length (envelope_hash demo_fm_env 0 i ''ann'' [1]) = 32"
proof -
  show t: "envelope_text demo_fm_env 0 i ''ann'' [1] = demo_print (intent_envelope i ''ann'' (hex_encode [1]) (JNum (PosInt 0)))"
    by (simp add: envelope_text_def demo_fm_env_def intent_signature_def f64_as_u64_def)
  show "fm_parse demo_fm_env (envelope_text demo_fm_env 0 i ''ann'' [1]) =
       Some (intent_envelope i ''ann'' (intent_signature demo_fm_env [1] i ''ann'' (JNum (PosInt (f64_as_u64 0)))) (JNum (PosInt (f64_as_u64 0))))"
    unfolding t using assms by (auto simp: demo_fm_env_def demo_envelopes_def intent_envelope_def intent_signature_def f64_as_u64_def)
  show "length (envelope_text demo_fm_env 0 i ''ann'' [1]) \<le> FEDERATED_MAX_VALUE_BYTES"
    unfolding t using assms by (auto simp: intent_envelope_def hex_encode_def FEDERATED_MAX_VALUE_BYTES_def)
  show "length (envelope_hash demo_fm_env 0 i ''ann'' [1]) = 32" by (simp add: envelope_hash_def demo_fm_env_def)
qed

section \<open>Properties\<close>





text \<open>C38. The hash of an intent envelope does not bind its content. After an envelope was created, a plain
  \<open>save_context\<close> under its hash with the text of another envelope signed with the same key replaces it: the fetch by
  the first hash verifies and returns the second intent. (The fetch never compares the hash with the text.)\<close>

theorem intent_substituted:
  assumes json: "fm_parse E (envelope_text E t2 i2 u2 k) =
      Some (intent_envelope i2 u2 (intent_signature E k i2 u2 (JNum (PosInt (f64_as_u64 t2)))) (JNum (PosInt (f64_as_u64 t2))))"
      "length (envelope_text E t2 i2 u2 k) \<le> FEDERATED_MAX_VALUE_BYTES"
    and hash: "length (envelope_hash E t1 i1 u1 k) = 32"
    and now: "now < t + FEDERATED_TTL_SECONDS"
    and created: "fm_create_intent_envelope in_memory E t1 i1 u1 k (fm_run in_memory E fm_new ops) = (fm1, Inr h)"
    and saved: "fm_save_context in_memory E t (envelope_hash E t1 i1 u1 k) (envelope_text E t2 i2 u2 k) v fm1 = (fm2, res)"
  shows "snd (fm_fetch_intent_envelope in_memory E now h k fm2) = Ok i2"
proof -
  let ?s = "envelope_hash E t1 i1 u1 k" and ?d = "envelope_text E t2 i2 u2 k"
  have h: "h = hex_encode ?s" using created
    by (auto simp: fm_create_intent_envelope_def envelope_hash_def envelope_text_def Let_def split: prod.splits sum.splits)
  have "fm1 = fm_run in_memory E fm_new (ops @ [(t1, FmCreateIntent i1 u1 k)])" by (simp add: fm_run_def created [unfolded fm_run_def])
  then have inv: "local_inv fm1" by (simp only:) (rule loc.run_inv [OF local_inv_new], simp)
  have pos: "0 < FEDERATED_TTL_SECONDS" by (simp add: FEDERATED_TTL_SECONDS_def)
  have "fm2 = fst (fm_put_record in_memory E t ?s ?d v FEDERATED_TTL_SECONDS fm1)"
    using saved hash by (simp add: fm_save_context_def)
  then obtain fm3 where "fm_get_record in_memory E now ?s fm2 =
      (fm3, Some \<lparr>fr_data = ?d, fr_version = v, fr_expires_at = t + FEDERATED_TTL_SECONDS\<rparr>)"
    using loc.written_then_read(2) [OF inv _ json(2) pos _ now, where B = in_memory and ops = "[]" and sid = ?s and v = v]
    by (simp add: fm_run_def) (metis prod.collapse)
  then show ?thesis using now by (simp add: h fm_fetch_intent_envelope_def verify_envelope_text [OF json(1)])
qed

theorem intent_substituted_witness:
  "snd (fm_fetch_intent_envelope in_memory demo_fm_env 20 (hex_encode (envelope_hash demo_fm_env 0 ''book'' ''ann'' [1])) [1]
      (fst (fm_save_context in_memory demo_fm_env 10 (envelope_hash demo_fm_env 0 ''book'' ''ann'' [1])
         (envelope_text demo_fm_env 0 ''sell'' ''ann'' [1]) 1
         (fst (fm_create_intent_envelope in_memory demo_fm_env 0 ''book'' ''ann'' [1] fm_new))))) = Ok ''sell''"
proof -
  define fm1 where "fm1 = fst (fm_create_intent_envelope in_memory demo_fm_env 0 ''book'' ''ann'' [1] fm_new)"
  let ?h = "hex_encode (envelope_hash demo_fm_env 0 ''book'' ''ann'' [1])"
  let ?save = "fm_save_context in_memory demo_fm_env 10 (envelope_hash demo_fm_env 0 ''book'' ''ann'' [1])
         (envelope_text demo_fm_env 0 ''sell'' ''ann'' [1]) 1 fm1"
  have "snd (fm_create_intent_envelope in_memory demo_fm_env 0 ''book'' ''ann'' [1] fm_new) = Inr ?h"
    using demo_envelope(3) [of "''book''"]
      loc.created_intent_read(1) [OF local_inv_new, of demo_fm_env 0 "''book''" "''ann''" "[1]" "[]" 0, where B = in_memory]
    by (simp add: INTENT_MAX_LIFETIME_def)
  then have c: "fm_create_intent_envelope in_memory demo_fm_env 0 ''book'' ''ann'' [1] (fm_run in_memory demo_fm_env fm_new []) = (fm1, Inr ?h)"
    unfolding fm1_def fm_run_def by (simp add: prod_eq_iff)
  have "snd (fm_fetch_intent_envelope in_memory demo_fm_env 20 ?h [1] (fst ?save)) = Ok ''sell''"
    by (rule intent_substituted [OF _ _ _ _ c prod.collapse [symmetric]])
      (use demo_envelope(2,3) [of "''sell''"] demo_envelope(4) [of "''book''"] in \<open>simp_all add: FEDERATED_TTL_SECONDS_def\<close>)
  then show ?thesis by (simp add: fm1_def)
qed

end
