(* ===== verification/Secure_Context.thy ===== *)
theory Secure_Context
  imports Json Eviction Aegf_Meta
begin

text \<open>
  The secure context store of \<open>src/memory.rs\<close> (\<open>SecureContextStore\<close>): contexts sealed with AES-256-GCM under a
  random reference (SCR), readable by their owner and audience until they expire or are revoked. HKDF, AES-GCM and
  the JSON printer are the record \<open>scr_env\<close>; the random salt of a call is an argument. A call reads the clock once;
  the readings the code makes inside one call are taken to be equal.

  Lemmas: the origin of every stored record in the history of calls, the bound on the store, and that a record stays
  until it expires.
\<close>

section \<open>Store\<close>

record scr_env =
  sc_hkdf :: "bytes \<Rightarrow> bytes \<Rightarrow> bytes \<Rightarrow> nat \<Rightarrow> bytes"
  sc_seal :: "bytes \<Rightarrow> bytes \<Rightarrow> bytes \<Rightarrow> bytes \<Rightarrow> bytes option"
  sc_open :: "bytes \<Rightarrow> bytes \<Rightarrow> bytes \<Rightarrow> bytes \<Rightarrow> bytes option"
  sc_json :: "json \<Rightarrow> string"

definition SCR_INFO :: bytes where "SCR_INFO = str_bytes ''SAACP-SCR-v1''"
definition SCR_IV_INFO :: bytes where "SCR_IV_INFO = str_bytes ''SAACP-SCR-iv-v1''"
definition SCR_MAX_ENTRIES :: nat where "SCR_MAX_ENTRIES = 50000"
definition SCR_HIGH_WATER :: nat where "SCR_HIGH_WATER = SCR_MAX_ENTRIES - SCR_MAX_ENTRIES div 5"

definition derive_scr :: "scr_env \<Rightarrow> bytes \<Rightarrow> bytes \<Rightarrow> bytes" where
  "derive_scr E master_key salt = sc_hkdf E salt master_key SCR_INFO 32"

definition derive_scr_iv :: "scr_env \<Rightarrow> bytes \<Rightarrow> bytes \<Rightarrow> bytes" where
  "derive_scr_iv E master_key scr = sc_hkdf E scr master_key SCR_IV_INFO 12"

definition build_aad :: "scr_env \<Rightarrow> string \<Rightarrow> string list \<Rightarrow> secs \<Rightarrow> bytes" where
  "build_aad E owner_id audience expiry =
     str_bytes (sc_json E (JObj
       [(''audience'', JArr (map JStr audience)), (''expiry'', JNum (Float expiry)), (''owner'', JStr owner_id)]))"

record ScrRecord =
  scr_ciphertext :: bytes
  scr_salt :: bytes
  scr_aad :: bytes
  scr_expiry :: secs
  scr_owner :: string
  scr_audience :: "string list"
  scr_revoked :: bool
  scr_classification :: string
  scr_created_at :: secs

type_synonym scr_store = "(string, ScrRecord) hmap"

datatype ScrStoreError = MasterKeyTooShort | EncryptFailed

definition scr_current :: "secs \<Rightarrow> ScrRecord \<Rightarrow> bool" where
  "scr_current now v \<longleftrightarrow> now < scr_expiry v \<and> \<not> scr_revoked v"

definition scr_evict_if_needed :: "secs \<Rightarrow> scr_store \<Rightarrow> scr_store" where
  "scr_evict_if_needed now m =
     (if length m < SCR_HIGH_WATER then m
      else
        let m1 = retain (\<lambda>_ v. scr_current now v) m in
        if SCR_MAX_ENTRIES \<le> length m1
        then remove_keys (oldest_keys (length m1 - SCR_MAX_ENTRIES div 2) scr_created_at m1) m1
        else m1)"

definition scr_store_context ::
  "scr_env \<Rightarrow> secs \<Rightarrow> bytes \<Rightarrow> string \<Rightarrow> string \<Rightarrow> string list \<Rightarrow> secs \<Rightarrow> bytes \<Rightarrow> string \<Rightarrow> scr_store \<Rightarrow>
   scr_store \<times> (ScrStoreError + string)" where
  "scr_store_context E now salt content owner_id audience ttl_seconds master_key classification m =
     (if length master_key < 32 then (m, Inl MasterKeyTooShort)
      else
        let expiry = now + ttl_seconds;
            scr = derive_scr E master_key salt;
            iv = derive_scr_iv E master_key scr;
            aad = build_aad E owner_id audience expiry
        in case sc_seal E (take 32 master_key) iv aad (str_bytes content) of
             None \<Rightarrow> (m, Inl EncryptFailed)
           | Some buffer \<Rightarrow>
               (AList.update (hex_encode scr)
                  \<lparr>scr_ciphertext = buffer, scr_salt = salt, scr_aad = aad, scr_expiry = expiry, scr_owner = owner_id,
                   scr_audience = audience, scr_revoked = False, scr_classification = classification,
                   scr_created_at = now\<rparr>
                  (scr_evict_if_needed now m),
                Inr (hex_encode scr)))"

text \<open>\<open>retrieve\<close>: the record is looked up by the hexadecimal text as given; an expired one is removed.\<close>

definition scr_retrieve ::
  "scr_env \<Rightarrow> secs \<Rightarrow> string \<Rightarrow> string \<Rightarrow> bytes \<Rightarrow> scr_store \<Rightarrow> scr_store \<times> string result" where
  "scr_retrieve E now scr_hex requester_id master_key m =
     (if length master_key < 32 then (m, Err ScrUnauthorized)
      else case hex_decode scr_hex of
        None \<Rightarrow> (m, Err InvalidSignature)
      | Some scr \<Rightarrow>
          (case map_of m scr_hex of
             None \<Rightarrow> (m, Err ScrNotFound)
           | Some r \<Rightarrow>
               if scr_expiry r < now then (AList.delete scr_hex m, Err ScrNotFound)
               else if scr_revoked r then (m, Err ScrNotFound)
               else if requester_id \<noteq> scr_owner r \<and> requester_id \<notin> set (scr_audience r) then (m, Err ScrUnauthorized)
               else case sc_open E (take 32 master_key) (derive_scr_iv E master_key scr) (scr_aad r) (scr_ciphertext r) of
                 None \<Rightarrow> (m, Err InvalidSignature)
               | Some buffer \<Rightarrow>
                   (m, if utf8_valid buffer then Ok (bytes_str buffer) else Err InvalidSignature)))"

definition scr_revoke :: "string \<Rightarrow> string \<Rightarrow> scr_store \<Rightarrow> scr_store \<times> bool result" where
  "scr_revoke scr_hex revoker_id m =
     (case map_of m scr_hex of
        None \<Rightarrow> (m, Ok False)
      | Some r \<Rightarrow>
          if scr_owner r \<noteq> revoker_id then (m, Err ScrUnauthorized)
          else (AList.update scr_hex (r\<lparr>scr_revoked := True\<rparr>) m, Ok True))"

definition scr_evict_expired :: "secs \<Rightarrow> scr_store \<Rightarrow> scr_store \<times> nat" where
  "scr_evict_expired now m =
     (let m1 = retain (\<lambda>_ v. scr_current now v) m in (m1, length m - length m1))"

section \<open>Histories\<close>

datatype scr_op =
    ScrStore bytes string string "string list" secs bytes string
  | ScrRetrieve string string bytes
  | ScrRevoke string string
  | ScrEvict

fun scr_apply :: "scr_env \<Rightarrow> scr_store \<Rightarrow> secs \<times> scr_op \<Rightarrow> scr_store" where
  "scr_apply E m (now, ScrStore salt content owner aud ttl mk cls) = fst (scr_store_context E now salt content owner aud ttl mk cls m)"
| "scr_apply E m (now, ScrRetrieve h requester mk) = fst (scr_retrieve E now h requester mk m)"
| "scr_apply E m (now, ScrRevoke h revoker) = fst (scr_revoke h revoker m)"
| "scr_apply E m (now, ScrEvict) = fst (scr_evict_expired now m)"

definition scr_run :: "scr_env \<Rightarrow> scr_store \<Rightarrow> (secs \<times> scr_op) list \<Rightarrow> scr_store" where
  "scr_run E m ops = foldl (scr_apply E) m ops"

text \<open>The call that would file a context under the reference \<open>h\<close>.\<close>

fun stores_as :: "scr_env \<Rightarrow> string \<Rightarrow> scr_op \<Rightarrow> bool" where
  "stores_as E h (ScrStore salt content owner aud ttl mk cls) \<longleftrightarrow> hex_encode (derive_scr E mk salt) = h"
| "stores_as E h _ \<longleftrightarrow> False"

definition is_scr_store :: "scr_op \<Rightarrow> bool" where
  "is_scr_store op \<longleftrightarrow> (case op of ScrStore _ _ _ _ _ _ _ \<Rightarrow> True | _ \<Rightarrow> False)"

text \<open>\<open>r\<close> is the record of the reference \<open>h\<close> that a call of the history filed, and it is marked revoked when its
  owner revoked it afterwards.\<close>

definition scr_origin :: "scr_env \<Rightarrow> (secs \<times> scr_op) list \<Rightarrow> string \<Rightarrow> ScrRecord \<Rightarrow> bool" where
  "scr_origin E ops h r \<longleftrightarrow>
     (\<exists>pre t content mk post.
        ops = pre @ (t, ScrStore (scr_salt r) content (scr_owner r) (scr_audience r) (scr_expiry r - t) mk (scr_classification r)) # post \<and>
        32 \<le> length mk \<and> hex_encode (derive_scr E mk (scr_salt r)) = h \<and>
        sc_seal E (take 32 mk) (derive_scr_iv E mk (derive_scr E mk (scr_salt r))) (scr_aad r) (str_bytes content) = Some (scr_ciphertext r) \<and>
        (\<not> scr_revoked r \<longrightarrow> (\<forall>t'. (t', ScrRevoke h (scr_owner r)) \<notin> set post)))"

section \<open>The store and its history\<close>

lemma scr_evict_if_needed_props:
  assumes "hm_wf m"
  shows "hm_wf (scr_evict_if_needed now m)"
    "map_of (scr_evict_if_needed now m) k = Some r \<Longrightarrow> map_of m k = Some r"
    "length (scr_evict_if_needed now m) < SCR_MAX_ENTRIES"
    "length (scr_evict_if_needed now m) \<le> length m"
proof -
  define m1 where "m1 = retain (\<lambda>_ v. scr_current now v) m"
  have wf1: "hm_wf m1" using assms by (simp add: m1_def)
  have eq: "scr_evict_if_needed now m =
      (if length m < SCR_HIGH_WATER then m
       else if SCR_MAX_ENTRIES \<le> length m1
       then remove_keys (oldest_keys (length m1 - SCR_MAX_ENTRIES div 2) scr_created_at m1) m1 else m1)"
    by (simp add: scr_evict_if_needed_def m1_def Let_def)
  show "hm_wf (scr_evict_if_needed now m)" using assms wf1 by (simp add: eq)
  have sub: "map_of m1 k = Some r \<Longrightarrow> map_of m k = Some r" for k r
    using assms by (auto simp: m1_def map_of_retain split: option.splits if_splits)
  then show "map_of (scr_evict_if_needed now m) k = Some r \<Longrightarrow> map_of m k = Some r"
    by (auto simp: eq split: if_splits)
  have "length (remove_keys (oldest_keys (length m1 - SCR_MAX_ENTRIES div 2) scr_created_at m1) m1) \<le> SCR_MAX_ENTRIES div 2"
    using wf1 by (simp add: length_remove_oldest)
  then show "length (scr_evict_if_needed now m) < SCR_MAX_ENTRIES"
    by (auto simp: eq SCR_HIGH_WATER_def SCR_MAX_ENTRIES_def)
  have "length m1 \<le> length m" by (simp add: m1_def)
  then show "length (scr_evict_if_needed now m) \<le> length m"
    using wf1 by (auto simp: eq length_remove_oldest)
qed

lemma scr_retrieve_state: "fst (scr_retrieve E now h requester mk m) \<in> {m, AList.delete h m}"
  by (auto simp: scr_retrieve_def split: option.splits)

lemma scr_retrieve_OkD:
  assumes "scr_retrieve E now h requester mk m = (m', Ok s)"
  obtains scr r buffer where "hex_decode h = Some scr" "map_of m h = Some r" "now \<le> scr_expiry r" "\<not> scr_revoked r"
    "requester = scr_owner r \<or> requester \<in> set (scr_audience r)" "m' = m" "32 \<le> length mk"
    "sc_open E (take 32 mk) (derive_scr_iv E mk scr) (scr_aad r) (scr_ciphertext r) = Some buffer" "s = bytes_str buffer"
  using assms by (auto simp: scr_retrieve_def not_less split: option.splits if_splits)

lemma scr_store_state:
  obtains "fst (scr_store_context E now salt content owner aud ttl mk cls m) = m"
  | r where "fst (scr_store_context E now salt content owner aud ttl mk cls m) =
      AList.update (hex_encode (derive_scr E mk salt)) r (scr_evict_if_needed now m)"
    "32 \<le> length mk" "scr_salt r = salt" "scr_owner r = owner" "scr_audience r = aud" "scr_expiry r = now + ttl"
    "scr_classification r = cls" "\<not> scr_revoked r"
    "sc_seal E (take 32 mk) (derive_scr_iv E mk (derive_scr E mk salt)) (scr_aad r) (str_bytes content) = Some (scr_ciphertext r)"
proof -
  let ?iv = "derive_scr_iv E mk (derive_scr E mk salt)" and ?aad = "build_aad E owner aud (now + ttl)"
  show ?thesis
  proof (cases "length mk < 32")
    case False
    show ?thesis
    proof (cases "sc_seal E (take 32 mk) ?iv ?aad (str_bytes content)")
      case (Some c)
      let ?r = "\<lparr>scr_ciphertext = c, scr_salt = salt, scr_aad = ?aad, scr_expiry = now + ttl, scr_owner = owner,
                   scr_audience = aud, scr_revoked = False, scr_classification = cls, scr_created_at = now\<rparr>"
      show ?thesis by (rule that(2) [of ?r]) (use False Some in \<open>simp_all add: scr_store_context_def Let_def\<close>)
    qed (rule that(1), use False in \<open>simp add: scr_store_context_def Let_def\<close>)
  qed (rule that(1), simp add: scr_store_context_def)
qed

lemma scr_revoke_state:
  obtains "fst (scr_revoke h revoker m) = m" "map_of m h = None \<or> (\<exists>r. map_of m h = Some r \<and> scr_owner r \<noteq> revoker)"
  | r where "map_of m h = Some r" "scr_owner r = revoker"
    "fst (scr_revoke h revoker m) = AList.update h (r\<lparr>scr_revoked := True\<rparr>) m"
  by (cases "map_of m h") (auto simp: scr_revoke_def split: if_splits)

lemma scr_apply_wf: "hm_wf m \<Longrightarrow> hm_wf (scr_apply E m (now, op))"
proof (cases op)
  case (ScrStore salt content owner aud ttl mk cls)
  assume "hm_wf m"
  then show ?thesis
    by (cases rule: scr_store_state [of E now salt content owner aud ttl mk cls m]) (simp_all add: ScrStore scr_evict_if_needed_props)
next
  case (ScrRetrieve h requester mk)
  assume "hm_wf m"
  then show ?thesis using scr_retrieve_state [of E now h requester mk m] ScrRetrieve by auto
next
  case (ScrRevoke h revoker)
  assume "hm_wf m"
  then show ?thesis by (cases rule: scr_revoke_state [of h revoker m]) (simp_all add: ScrRevoke)
next
  case ScrEvict
  assume "hm_wf m"
  then show ?thesis by (simp add: ScrEvict scr_evict_expired_def Let_def)
qed

lemma scr_run_wf: "hm_wf m \<Longrightarrow> hm_wf (scr_run E m ops)"
proof (induction ops arbitrary: m)
  case (Cons x ops)
  then show ?case using scr_apply_wf [of m E "fst x" "snd x"] by (simp add: scr_run_def)
qed (simp add: scr_run_def)

lemma scr_run_snoc: "scr_run E m (ops @ [x]) = scr_apply E (scr_run E m ops) x"
  by (simp add: scr_run_def)

lemma scr_apply_length:
  assumes "hm_wf m" "length m \<le> SCR_MAX_ENTRIES"
  shows "length (scr_apply E m (now, op)) \<le> SCR_MAX_ENTRIES"
proof (cases op)
  case (ScrStore salt content owner aud ttl mk cls)
  have "length (AList.update k r (scr_evict_if_needed now m)) \<le> SCR_MAX_ENTRIES" for k r
    using scr_evict_if_needed_props [OF assms(1), of now] by (simp add: length_update)
  then show ?thesis
    by (cases rule: scr_store_state [of E now salt content owner aud ttl mk cls m]) (simp_all add: ScrStore assms(2))
next
  case (ScrRetrieve h requester mk)
  then show ?thesis using scr_retrieve_state [of E now h requester mk m] assms by (auto simp: length_delete)
next
  case (ScrRevoke h revoker)
  have "map_of m h = Some r \<Longrightarrow> h \<in> keys m" for r by (auto simp: keys_dom)
  then show ?thesis
    by (cases rule: scr_revoke_state [of h revoker m]) (simp_all add: ScrRevoke assms length_update)
next
  case ScrEvict
  have "length (retain (\<lambda>_ v. scr_current now v) m) \<le> SCR_MAX_ENTRIES"
    using length_retain_le assms(2) by (rule order_trans)
  then show ?thesis by (simp add: ScrEvict scr_evict_expired_def Let_def)
qed

text \<open>The store never holds more than \<open>SCR_MAX_ENTRIES\<close> contexts.\<close>

lemma scr_store_bounded: "length (scr_run E [] ops) \<le> SCR_MAX_ENTRIES"
proof (induction ops rule: rev_induct)
  case (snoc x xs)
  then show ?case
    using scr_apply_length [of "scr_run E [] xs" E "fst x" "snd x"] by (simp add: scr_run_snoc scr_run_wf)
qed (simp add: scr_run_def)

lemma scr_origin_snoc:
  assumes "scr_origin E ops h r" "scr_revoked r \<or> snd x \<noteq> ScrRevoke h (scr_owner r)"
  shows "scr_origin E (ops @ [x]) h r"
proof -
  from assms(1) obtain pre t content mk post where
    o: "ops = pre @ (t, ScrStore (scr_salt r) content (scr_owner r) (scr_audience r) (scr_expiry r - t) mk (scr_classification r)) # post"
      "32 \<le> length mk" "hex_encode (derive_scr E mk (scr_salt r)) = h"
      "sc_seal E (take 32 mk) (derive_scr_iv E mk (derive_scr E mk (scr_salt r))) (scr_aad r) (str_bytes content) = Some (scr_ciphertext r)"
      "\<not> scr_revoked r \<longrightarrow> (\<forall>t'. (t', ScrRevoke h (scr_owner r)) \<notin> set post)"
    unfolding scr_origin_def by blast
  have "\<not> scr_revoked r \<longrightarrow> (\<forall>t'. (t', ScrRevoke h (scr_owner r)) \<notin> set (post @ [x]))"
    using o(5) assms(2) by auto
  with o show ?thesis unfolding scr_origin_def
    by (intro exI [of _ pre] exI [of _ t] exI [of _ content] exI [of _ mk] exI [of _ "post @ [x]"]) simp
qed

lemma scr_origin_revoke:
  assumes "scr_origin E ops h r"
  shows "scr_origin E (ops @ [x]) h (r\<lparr>scr_revoked := True\<rparr>)"
proof (rule scr_origin_snoc)
  show "scr_origin E ops h (r\<lparr>scr_revoked := True\<rparr>)" using assms unfolding scr_origin_def by simp blast
qed simp

lemma scr_origins: "map_of (scr_run E [] ops) h = Some r \<Longrightarrow> scr_origin E ops h r"
proof (induction ops arbitrary: h r rule: rev_induct)
  case Nil
  then show ?case by (simp add: scr_run_def)
next
  case (snoc x ops)
  let ?m = "scr_run E [] ops"
  have wf: "hm_wf ?m" by (simp add: scr_run_wf)
  obtain now op where x: "x = (now, op)" by fastforce
  have get: "map_of (scr_apply E ?m x) h = Some r" using snoc.prems by (simp add: scr_run_snoc)
  have keep: "map_of ?m h = Some r \<Longrightarrow> op \<noteq> ScrRevoke h (scr_owner r) \<or> scr_revoked r \<Longrightarrow> ?case"
    using snoc.IH [of h r] scr_origin_snoc [of E ops h r x] by (auto simp: x)
  show ?case
  proof (cases op)
    case (ScrStore salt content owner aud ttl mk cls)
    show ?thesis
    proof (cases "map_of ?m h = Some r")
      case False
      have old: "map_of (scr_evict_if_needed now ?m) h \<noteq> Some r"
        using False scr_evict_if_needed_props(2) [OF wf, of now h r] by auto
      show ?thesis
      proof (cases rule: scr_store_state [of E now salt content owner aud ttl mk cls ?m])
        case 1
        then show ?thesis using get False by (simp add: x ScrStore)
      next
        case (2 r')
        then have r: "r' = r" "hex_encode (derive_scr E mk salt) = h"
          using get old by (auto simp: x ScrStore split: if_splits)
        show ?thesis unfolding scr_origin_def x ScrStore
          by (intro exI [of _ ops] exI [of _ now] exI [of _ content] exI [of _ mk] exI [of _ "[]"]) (use 2 r in simp)
      qed
    qed (simp add: keep ScrStore)
  next
    case (ScrRetrieve h' requester mk)
    then have "map_of ?m h = Some r"
      using get scr_retrieve_state [of E now h' requester mk ?m] by (auto simp: x split: if_splits)
    then show ?thesis by (simp add: keep ScrRetrieve)
  next
    case (ScrRevoke h' revoker)
    show ?thesis
    proof (cases "\<exists>r0. map_of ?m h = Some r0 \<and> r = r0\<lparr>scr_revoked := True\<rparr>")
      case True
      then show ?thesis using snoc.IH scr_origin_revoke by blast
    next
      case False
      then have "map_of ?m h = Some r" "op \<noteq> ScrRevoke h (scr_owner r)"
        using get by (cases rule: scr_revoke_state [of h' revoker ?m]; auto simp: x ScrRevoke split: if_splits)+
      then show ?thesis by (simp add: keep)
    qed
  next
    case ScrEvict
    then have "map_of ?m h = Some r"
      using get wf by (auto simp: x scr_evict_expired_def Let_def map_of_retain split: option.splits if_splits)
    then show ?thesis by (simp add: keep ScrEvict)
  qed
qed

section \<open>A context stays until it expires\<close>

lemma scr_evict_if_needed_keeps:
  assumes "hm_wf m" "length m < SCR_MAX_ENTRIES" "map_of m h = Some r" "scr_current now r"
  shows "map_of (scr_evict_if_needed now m) h = Some r"
proof -
  have "length (retain (\<lambda>_ v. scr_current now v) m) < SCR_MAX_ENTRIES"
    using length_retain_le assms(2) by (rule le_less_trans)
  then show ?thesis using assms by (simp add: scr_evict_if_needed_def Let_def map_of_retain)
qed

definition scr_load :: "(secs \<times> scr_op) list \<Rightarrow> nat" where
  "scr_load ops = length (filter (is_scr_store \<circ> snd) ops)"

lemma scr_apply_grows:
  assumes "hm_wf m"
  shows "length (scr_apply E m (now, op)) \<le> length m + (if is_scr_store op then 1 else 0)"
proof (cases op)
  case (ScrStore salt content owner aud ttl mk cls)
  have "length (AList.update k r (scr_evict_if_needed now m)) \<le> length m + 1" for k r
    using scr_evict_if_needed_props(1,4) [OF assms, of now] by (simp add: length_update)
  then show ?thesis
    by (cases rule: scr_store_state [of E now salt content owner aud ttl mk cls m]) (simp_all add: ScrStore is_scr_store_def)
next
  case (ScrRetrieve h requester mk)
  then show ?thesis using scr_retrieve_state [of E now h requester mk m] assms by (auto simp: length_delete)
next
  case (ScrRevoke h revoker)
  have "map_of m h = Some r \<Longrightarrow> h \<in> keys m" for r by (auto simp: keys_dom)
  then show ?thesis
    by (cases rule: scr_revoke_state [of h revoker m]) (simp_all add: ScrRevoke assms length_update)
next
  case ScrEvict
  then show ?thesis by (simp add: scr_evict_expired_def Let_def is_scr_store_def)
qed

lemma scr_apply_keeps:
  assumes "hm_wf m" "map_of m h = Some r" "scr_current now r" "\<not> stores_as E h op" "op \<noteq> ScrRevoke h (scr_owner r)"
    "is_scr_store op \<Longrightarrow> length m < SCR_MAX_ENTRIES"
  shows "map_of (scr_apply E m (now, op)) h = Some r"
proof (cases op)
  case (ScrStore salt content owner aud ttl mk cls)
  then have "map_of (scr_evict_if_needed now m) h = Some r"
    using assms(6) by (intro scr_evict_if_needed_keeps assms(1-3)) (simp add: is_scr_store_def)
  then show ?thesis using assms(2,4)
    by (cases rule: scr_store_state [of E now salt content owner aud ttl mk cls m]) (simp_all add: ScrStore)
next
  case (ScrRetrieve h' requester mk)
  show ?thesis
  proof (cases "h' = h")
    case True
    have "fst (scr_retrieve E now h requester mk m) = m"
      using assms(2,3) by (auto simp: scr_retrieve_def scr_current_def split: option.splits)
    then show ?thesis using assms(2) True by (simp add: ScrRetrieve)
  next
    case False
    then show ?thesis using scr_retrieve_state [of E now h' requester mk m] assms(2) ScrRetrieve by auto
  qed
next
  case (ScrRevoke h' revoker)
  show ?thesis using assms(2,5)
    by (cases rule: scr_revoke_state [of h' revoker m]) (auto simp: ScrRevoke)
next
  case ScrEvict
  then show ?thesis using assms(1-3) by (simp add: scr_evict_expired_def Let_def map_of_retain)
qed

lemma scr_run_keeps:
  assumes "hm_wf m" "map_of m h = Some r" "length m + scr_load ops \<le> SCR_MAX_ENTRIES"
    "\<forall>(t, op) \<in> set ops. scr_current t r \<and> \<not> stores_as E h op \<and> op \<noteq> ScrRevoke h (scr_owner r)"
  shows "map_of (scr_run E m ops) h = Some r"
  using assms
proof (induction ops arbitrary: m)
  case (Cons x ops)
  obtain t op where x: "x = (t, op)" by fastforce
  have len: "length (scr_apply E m (t, op)) \<le> length m + (if is_scr_store op then 1 else 0)"
    by (rule scr_apply_grows) (rule Cons.prems(1))
  have "map_of (scr_apply E m (t, op)) h = Some r"
    using Cons.prems by (intro scr_apply_keeps) (auto simp: x scr_load_def)
  moreover have "length (scr_apply E m (t, op)) + scr_load ops \<le> SCR_MAX_ENTRIES"
    using len Cons.prems(3) by (auto simp: x scr_load_def split: if_splits)
  ultimately have "map_of (scr_run E (scr_apply E m (t, op)) ops) h = Some r"
    using Cons.prems(4) by (intro Cons.IH scr_apply_wf Cons.prems(1)) (auto simp: x)
  then show ?case by (simp add: x scr_run_def)
qed (simp add: scr_run_def)

lemma scr_store_files:
  assumes "scr_store_context E t salt content owner aud ttl mk cls m = (m1, Inr h)"
  obtains c where "h = hex_encode (derive_scr E mk salt)" "32 \<le> length mk"
    "sc_seal E (take 32 mk) (derive_scr_iv E mk (derive_scr E mk salt)) (build_aad E owner aud (t + ttl)) (str_bytes content) = Some c"
    "map_of m1 h = Some \<lparr>scr_ciphertext = c, scr_salt = salt, scr_aad = build_aad E owner aud (t + ttl), scr_expiry = t + ttl,
       scr_owner = owner, scr_audience = aud, scr_revoked = False, scr_classification = cls, scr_created_at = t\<rparr>"
  using assms by (auto simp: scr_store_context_def Let_def not_less split: if_splits option.splits)

section \<open>A small instance\<close>

text \<open>Sealing that appends the plaintext to the associated data, references that copy the salt.\<close>

definition demo_scr_env :: scr_env where
  "demo_scr_env =
     \<lparr>sc_hkdf = (\<lambda>salt ikm info n. take n (salt @ info @ replicate n 0)),
      sc_seal = (\<lambda>k n a p. Some (a @ p)),
      sc_open = (\<lambda>k n a c. if take (length a) c = a then Some (drop (length a) c) else None),
      sc_json = (\<lambda>_. ''aad'')\<rparr>"

definition demo_master :: bytes where "demo_master = replicate 32 7"
definition demo_hex :: string where "demo_hex = hex_encode (derive_scr demo_scr_env demo_master [1])"

definition demo_scr_ops :: "(secs \<times> scr_op) list" where
  "demo_scr_ops =
     [(0, ScrStore [1] ''plan'' ''alice'' [''bob''] 60 demo_master ''internal''),
      (1, ScrStore [2] ''other'' ''carol'' [] 60 demo_master ''internal''),
      (2, ScrRevoke demo_hex ''carol''), (3, ScrEvict), (4, ScrRetrieve demo_hex ''carol'' demo_master)]"

text \<open>The first context is readable by its audience after a revocation by someone else.\<close>

lemma demo_scr_reads:
  "scr_retrieve demo_scr_env 60 demo_hex ''bob'' demo_master (scr_run demo_scr_env [] (take 1 demo_scr_ops @ [(2, ScrRevoke demo_hex ''carol'')]))
   = (scr_run demo_scr_env [] (take 1 demo_scr_ops @ [(2, ScrRevoke demo_hex ''carol'')]), Ok ''plan'')"
proof -
  let ?a = "str_bytes ''aad''"
  have valid: "utf8_valid (str_bytes ''plan'')" by code_simp
  have hex: "hex_encode (derive_scr demo_scr_env demo_master [1]) = demo_hex" by (simp add: demo_hex_def)
  let ?r = "\<lparr>scr_ciphertext = ?a @ str_bytes ''plan'', scr_salt = [1], scr_aad = ?a, scr_expiry = 60,
         scr_owner = ''alice'', scr_audience = [''bob''], scr_revoked = False, scr_classification = ''internal'', scr_created_at = 0\<rparr>"
  have env: "sc_seal demo_scr_env k n d p = Some (d @ p)" "build_aad demo_scr_env o1 au e = ?a" "length demo_master = 32"
    for k n d p o1 au e by (simp_all add: demo_scr_env_def build_aad_def demo_master_def)
  have "scr_run demo_scr_env [] (take 1 demo_scr_ops) = [(demo_hex, ?r)]"
    by (simp add: scr_run_def demo_scr_ops_def scr_store_context_def env hex Let_def scr_evict_if_needed_def
        SCR_HIGH_WATER_def SCR_MAX_ENTRIES_def)
  then have st: "scr_run demo_scr_env [] (take 1 demo_scr_ops @ [(2, ScrRevoke demo_hex ''carol'')]) = [(demo_hex, ?r)]"
    by (simp add: scr_run_snoc scr_revoke_def)
  have "hex_decode demo_hex = Some (derive_scr demo_scr_env demo_master [1])" by (simp add: demo_hex_def)
  then show ?thesis unfolding st using valid
    by (simp add: scr_retrieve_def) (simp add: demo_scr_env_def demo_master_def)
qed

section \<open>Properties\<close>

text \<open>C11. Whatever calls were made on the store, a \<open>retrieve\<close> that returns a text does so under a reference that a
  \<open>store\<close> call of the history handed out, to the owner or a member of the audience named in that call, not after the
  expiry set by it, and only when its owner has not revoked the reference since. Under the master key of that call the
  text is the stored one, given that AES-GCM opens what it sealed.\<close>

theorem scr_retrieve_authorised:
  assumes seal: "\<And>k n a p c. sc_seal E k n a p = Some c \<Longrightarrow> sc_open E k n a c = Some p"
    and ok: "scr_retrieve E now h requester mk (scr_run E [] ops) = (m', Ok s)"
  shows "\<exists>pre t salt content owner aud ttl mk0 cls post.
    ops = pre @ (t, ScrStore salt content owner aud ttl mk0 cls) # post \<and> hex_encode (derive_scr E mk0 salt) = h \<and>
    (requester = owner \<or> requester \<in> set aud) \<and> now \<le> t + ttl \<and> (\<forall>t'. (t', ScrRevoke h owner) \<notin> set post) \<and>
    (mk0 = mk \<longrightarrow> s = content)"
proof -
  from ok obtain scr r buffer where r: "hex_decode h = Some scr" "map_of (scr_run E [] ops) h = Some r"
    "now \<le> scr_expiry r" "\<not> scr_revoked r" "requester = scr_owner r \<or> requester \<in> set (scr_audience r)"
    "sc_open E (take 32 mk) (derive_scr_iv E mk scr) (scr_aad r) (scr_ciphertext r) = Some buffer" "s = bytes_str buffer"
    by (rule scr_retrieve_OkD)
  from scr_origins [OF r(2)] r(4) obtain pre t content mk0 post where
    o: "ops = pre @ (t, ScrStore (scr_salt r) content (scr_owner r) (scr_audience r) (scr_expiry r - t) mk0 (scr_classification r)) # post"
      "hex_encode (derive_scr E mk0 (scr_salt r)) = h" "\<forall>t'. (t', ScrRevoke h (scr_owner r)) \<notin> set post"
      "sc_seal E (take 32 mk0) (derive_scr_iv E mk0 (derive_scr E mk0 (scr_salt r))) (scr_aad r) (str_bytes content) = Some (scr_ciphertext r)"
    unfolding scr_origin_def by blast
  have "derive_scr E mk0 (scr_salt r) = scr" using o(2) r(1) by auto
  then have "mk0 = mk \<longrightarrow> s = content" using seal [OF o(4)] r(6,7) by auto
  with o(1-3) r(3,5) show ?thesis
    by (intro exI [of _ pre] exI [of _ t] exI [of _ "scr_salt r"] exI [of _ content] exI [of _ "scr_owner r"]
        exI [of _ "scr_audience r"] exI [of _ "scr_expiry r - t"] exI [of _ mk0] exI [of _ "scr_classification r"] exI [of _ post]) simp
qed

theorem scr_retrieve_authorised_witness:
  "\<exists>pre t salt content owner aud ttl mk0 cls post.
    take 1 demo_scr_ops @ [(2, ScrRevoke demo_hex ''carol'')] = pre @ (t, ScrStore salt content owner aud ttl mk0 cls) # post \<and>
    hex_encode (derive_scr demo_scr_env mk0 salt) = demo_hex \<and> (''bob'' = owner \<or> ''bob'' \<in> set aud) \<and> 60 \<le> t + ttl \<and>
    (\<forall>t'. (t', ScrRevoke demo_hex owner) \<notin> set post) \<and> (mk0 = demo_master \<longrightarrow> ''plan'' = content)"
  by (rule scr_retrieve_authorised [OF _ demo_scr_reads]) (auto simp: demo_scr_env_def)



end
