(* ===== verification/Dead_Mans_Switch.thy ===== *)
theory Dead_Mans_Switch
  imports Json Eviction State_Backend
begin

text \<open>
  The dead man's switch of \<open>src/temporal.rs\<close>: sessions with the time of their last heartbeat, in the process or in a
  shared \<open>StateBackend\<close>, the ping-flood window and the timeout sweep. The text of a time stamp and the wire format of a
  ping record are the record \<open>dms_codec\<close>. The heartbeat thread only calls \<open>ping\<close> in a loop and is not modelled.

  Lemmas (process-local mode): what each operation does to a session, that a session whose heartbeats keep the interval
  is never reported dead, and that a silent one is.
\<close>

section \<open>Switch\<close>

definition DEAD_MAN_MAX_TIMEOUT :: secs where "DEAD_MAN_MAX_TIMEOUT = 15"
definition DEAD_MAN_MAX_SESSIONS :: nat where "DEAD_MAN_MAX_SESSIONS = 10000"
definition HEARTBEAT_INTERVAL_SECONDS :: secs where "HEARTBEAT_INTERVAL_SECONDS = 5"
definition DEAD_MAN_PING_FLOOD_THRESHOLD :: nat where "DEAD_MAN_PING_FLOOD_THRESHOLD = 60"
definition DEAD_MAN_PING_FLOOD_WINDOW_SECS :: secs where "DEAD_MAN_PING_FLOOD_WINDOW_SECS = 60"

record PingRecord =
  pr_window_start :: secs
  pr_count :: nat

record dms_codec =
  dms_print_ts :: "secs \<Rightarrow> bytes"
  dms_parse_ts :: "bytes \<Rightarrow> secs option"
  dms_enc_ping :: "PingRecord \<Rightarrow> bytes option"
  dms_dec_ping :: "bytes \<Rightarrow> PingRecord option"

record 'b DeadMansSwitch =
  dm_active :: "(bytes, secs) hmap"
  dm_floods :: "(bytes, PingRecord) hmap"
  dm_max_timeout :: secs
  dm_max_sessions :: nat
  dm_backend :: "'b option"

definition dms_with_limits :: "secs \<Rightarrow> nat \<Rightarrow> 'b DeadMansSwitch" where
  "dms_with_limits timeout cap =
     \<lparr>dm_active = [], dm_floods = [], dm_max_timeout = timeout, dm_max_sessions = cap, dm_backend = None\<rparr>"

definition dms_new :: "'b DeadMansSwitch" where
  "dms_new =
     \<lparr>dm_active = [], dm_floods = [], dm_max_timeout = DEAD_MAN_MAX_TIMEOUT, dm_max_sessions = DEAD_MAN_MAX_SESSIONS, dm_backend = None\<rparr>"

definition dms_with_backend_and_limits :: "secs \<Rightarrow> nat \<Rightarrow> 'b \<Rightarrow> 'b DeadMansSwitch" where
  "dms_with_backend_and_limits timeout cap b =
     \<lparr>dm_active = [], dm_floods = [], dm_max_timeout = timeout, dm_max_sessions = cap, dm_backend = Some b\<rparr>"

definition dms_with_backend :: "'b \<Rightarrow> 'b DeadMansSwitch" where
  "dms_with_backend b = dms_with_backend_and_limits DEAD_MAN_MAX_TIMEOUT DEAD_MAN_MAX_SESSIONS b"

definition dms_session_key :: "bytes \<Rightarrow> string" where "dms_session_key cid = ''dms:session:'' @ hex_encode cid"
definition dms_flood_key :: "bytes \<Rightarrow> string" where "dms_flood_key cid = ''dms:flood:'' @ hex_encode cid"

definition dms_session_ttl :: "'b DeadMansSwitch \<Rightarrow> secs" where
  "dms_session_ttl d = max (dm_max_timeout d) 1 * 2"

text \<open>The time stamps behind a list of keys, in order; keys without a readable one are skipped.\<close>

fun dms_stamps :: "'b StateBackend \<Rightarrow> dms_codec \<Rightarrow> secs \<Rightarrow> string list \<Rightarrow> 'b \<Rightarrow> 'b \<times> (string, secs) hmap" where
  "dms_stamps B C now [] b = (b, [])"
| "dms_stamps B C now (k # ks) b =
     (let (b1, r) = sb_get B now k b; (b2, rest) = dms_stamps B C now ks b1
      in (b2, case r of Some (Some v) \<Rightarrow> (case dms_parse_ts C v of Some ts \<Rightarrow> (k, ts) # rest | None \<Rightarrow> rest) | _ \<Rightarrow> rest))"

definition scan_or_empty :: "'b StateBackend \<Rightarrow> secs \<Rightarrow> string \<Rightarrow> 'b \<Rightarrow> 'b \<times> string list" where
  "scan_or_empty B now prefix b = (let (b1, r) = sb_scan_prefix B now prefix b in (b1, case r of Some ks \<Rightarrow> ks | None \<Rightarrow> []))"

definition register_session_backend :: "'b StateBackend \<Rightarrow> dms_codec \<Rightarrow> secs \<Rightarrow> bytes \<Rightarrow> 'b DeadMansSwitch \<Rightarrow> 'b \<Rightarrow> 'b" where
  "register_session_backend B C now cid d b =
     (let (b1, ks) = scan_or_empty B now ''dms:session:'' b;
          b2 = (if dm_max_sessions d \<le> length ks then
                  (case dms_stamps B C now ks b1 of
                     (b', stamps) \<Rightarrow>
                       (case oldest_keys 1 (\<lambda>ts. ts) stamps of oldest # _ \<Rightarrow> fst (sb_delete B now oldest b') | [] \<Rightarrow> b'))
                else b1)
      in fst (sb_set B now (dms_session_key cid) (dms_print_ts C now) (Some (dms_session_ttl d)) b2))"

definition dms_register_session :: "'b StateBackend \<Rightarrow> dms_codec \<Rightarrow> secs \<Rightarrow> bytes \<Rightarrow> 'b DeadMansSwitch \<Rightarrow> 'b DeadMansSwitch" where
  "dms_register_session B C now cid d =
     (case dm_backend d of
        Some b \<Rightarrow> d\<lparr>dm_backend := Some (register_session_backend B C now cid d b)\<rparr>
      | None \<Rightarrow>
          let act = (if dm_max_sessions d \<le> length (dm_active d)
                     then remove_keys (oldest_keys 1 (\<lambda>ts. ts) (dm_active d)) (dm_active d) else dm_active d)
          in d\<lparr>dm_active := AList.update cid now act\<rparr>)"

text \<open>One ping counted in its window.\<close>

definition count_ping :: "secs \<Rightarrow> PingRecord \<Rightarrow> PingRecord" where
  "count_ping now r =
     (let r1 = (if DEAD_MAN_PING_FLOOD_WINDOW_SECS < now - pr_window_start r then \<lparr>pr_window_start = now, pr_count = 0\<rparr> else r)
      in r1\<lparr>pr_count := pr_count r1 + 1\<rparr>)"

definition dms_ping_local :: "secs \<Rightarrow> bytes \<Rightarrow> 'b DeadMansSwitch \<Rightarrow> 'b DeadMansSwitch \<times> bool" where
  "dms_ping_local now cid d =
     (let old = (case map_of (dm_floods d) cid of Some r \<Rightarrow> r | None \<Rightarrow> \<lparr>pr_window_start = now, pr_count = 0\<rparr>);
          flood_rec = count_ping now old;
          d1 = d\<lparr>dm_floods := AList.update cid flood_rec (dm_floods d)\<rparr>
      in if DEAD_MAN_PING_FLOOD_THRESHOLD < pr_count flood_rec then (d1, False)
         else (if contains_key (dm_active d) cid then d1\<lparr>dm_active := AList.update cid now (dm_active d)\<rparr> else d1, True))"

definition dms_ping_backend ::
  "'b StateBackend \<Rightarrow> dms_codec \<Rightarrow> secs \<Rightarrow> bytes \<Rightarrow> 'b DeadMansSwitch \<Rightarrow> 'b \<Rightarrow> 'b \<times> bool" where
  "dms_ping_backend B C now cid d b =
     (let (b1, r) = sb_get B now (dms_flood_key cid) b;
          old = (case r of
                   Some (Some bs) \<Rightarrow> (case dms_dec_ping C bs of Some p \<Rightarrow> p | None \<Rightarrow> \<lparr>pr_window_start = now, pr_count = 0\<rparr>)
                 | _ \<Rightarrow> \<lparr>pr_window_start = now, pr_count = 0\<rparr>);
          p = count_ping now old;
          b2 = (case dms_enc_ping C p of
                  Some bs \<Rightarrow> fst (sb_set B now (dms_flood_key cid) bs (Some (DEAD_MAN_PING_FLOOD_WINDOW_SECS * 2)) b1)
                | None \<Rightarrow> b1)
      in if DEAD_MAN_PING_FLOOD_THRESHOLD < pr_count p then (b2, False)
         else (case sb_get B now (dms_session_key cid) b2 of
                 (b3, Some (Some _)) \<Rightarrow>
                   (fst (sb_set B now (dms_session_key cid) (dms_print_ts C now) (Some (dms_session_ttl d)) b3), True)
               | (b3, _) \<Rightarrow> (b3, True)))"

definition dms_ping :: "'b StateBackend \<Rightarrow> dms_codec \<Rightarrow> secs \<Rightarrow> bytes \<Rightarrow> 'b DeadMansSwitch \<Rightarrow> 'b DeadMansSwitch \<times> bool" where
  "dms_ping B C now cid d =
     (case dm_backend d of
        Some b \<Rightarrow> (let (b1, ok) = dms_ping_backend B C now cid d b in (d\<lparr>dm_backend := Some b1\<rparr>, ok))
      | None \<Rightarrow> dms_ping_local now cid d)"

definition dms_unregister_session :: "'b StateBackend \<Rightarrow> secs \<Rightarrow> bytes \<Rightarrow> 'b DeadMansSwitch \<Rightarrow> 'b DeadMansSwitch" where
  "dms_unregister_session B now cid d =
     (case dm_backend d of
        Some b \<Rightarrow> d\<lparr>dm_backend := Some (fst (sb_delete B now (dms_session_key cid) b))\<rparr>
      | None \<Rightarrow> d\<lparr>dm_active := AList.delete cid (dm_active d), dm_floods := AList.delete cid (dm_floods d)\<rparr>)"

text \<open>The loop of \<open>check_timeouts\<close> over the keys of the backend.\<close>

fun reap_keys :: "'b StateBackend \<Rightarrow> dms_codec \<Rightarrow> secs \<Rightarrow> secs \<Rightarrow> string list \<Rightarrow> 'b \<Rightarrow> 'b \<times> bytes list" where
  "reap_keys B C now timeout [] b = (b, [])"
| "reap_keys B C now timeout (k # ks) b =
     (case (if starts_with_str ''dms:session:'' k then hex_decode (drop (length ''dms:session:'') k) else None) of
        None \<Rightarrow> reap_keys B C now timeout ks b
      | Some cid \<Rightarrow>
          (case sb_get B now k b of
             (b1, Some (Some v)) \<Rightarrow>
               (case dms_parse_ts C v of
                  None \<Rightarrow> reap_keys B C now timeout ks b1
                | Some ts \<Rightarrow>
                    if timeout < now - ts then
                      (let (b3, stale) = reap_keys B C now timeout ks (fst (sb_delete B now k b1)) in (b3, cid # stale))
                    else reap_keys B C now timeout ks b1)
           | (b1, _) \<Rightarrow> reap_keys B C now timeout ks b1))"

definition dms_check_timeouts :: "'b StateBackend \<Rightarrow> dms_codec \<Rightarrow> secs \<Rightarrow> 'b DeadMansSwitch \<Rightarrow> 'b DeadMansSwitch \<times> bytes list" where
  "dms_check_timeouts B C now d =
     (case dm_backend d of
        Some b \<Rightarrow>
          (let (b1, ks) = scan_or_empty B now ''dms:session:'' b; (b2, stale) = reap_keys B C now (dm_max_timeout d) ks b1
           in (d\<lparr>dm_backend := Some b2\<rparr>, stale))
      | None \<Rightarrow>
          let stale = map fst (filter (\<lambda>(_, last_ping). dm_max_timeout d < now - last_ping) (dm_active d))
          in (d\<lparr>dm_active := remove_keys stale (dm_active d)\<rparr>, stale))"

definition dms_session_count :: "'b StateBackend \<Rightarrow> secs \<Rightarrow> 'b DeadMansSwitch \<Rightarrow> 'b DeadMansSwitch \<times> nat" where
  "dms_session_count B now d =
     (case dm_backend d of
        Some b \<Rightarrow> (let (b1, ks) = scan_or_empty B now ''dms:session:'' b in (d\<lparr>dm_backend := Some b1\<rparr>, length ks))
      | None \<Rightarrow> (d, length (dm_active d)))"

definition dms_is_active :: "'b StateBackend \<Rightarrow> secs \<Rightarrow> bytes \<Rightarrow> 'b DeadMansSwitch \<Rightarrow> 'b DeadMansSwitch \<times> bool" where
  "dms_is_active B now cid d =
     (case dm_backend d of
        Some b \<Rightarrow> (let (b1, r) = sb_get B now (dms_session_key cid) b
                    in (d\<lparr>dm_backend := Some b1\<rparr>, case r of Some (Some _) \<Rightarrow> True | _ \<Rightarrow> False))
      | None \<Rightarrow> (d, contains_key (dm_active d) cid))"

text \<open>What the packet pipeline does with a heartbeat (\<open>src/handler.rs\<close>): register the context when it is not active,
  then ping.\<close>

definition dms_heartbeat :: "'b StateBackend \<Rightarrow> dms_codec \<Rightarrow> secs \<Rightarrow> bytes \<Rightarrow> 'b DeadMansSwitch \<Rightarrow> 'b DeadMansSwitch \<times> bool" where
  "dms_heartbeat B C now cid d =
     (if cid = [] then dms_ping B C now cid d
      else
        let (d1, active) = dms_is_active B now cid d;
            d2 = (if \<not> active then dms_register_session B C now cid d1 else d1)
        in dms_ping B C now cid d2)"

section \<open>Histories\<close>

datatype dms_op = DmsRegister bytes | DmsPing bytes | DmsUnregister bytes | DmsCheck | DmsHeartbeat bytes

fun dms_apply :: "'b StateBackend \<Rightarrow> dms_codec \<Rightarrow> 'b DeadMansSwitch \<Rightarrow> secs \<times> dms_op \<Rightarrow> 'b DeadMansSwitch" where
  "dms_apply B C d (now, DmsRegister cid) = dms_register_session B C now cid d"
| "dms_apply B C d (now, DmsPing cid) = fst (dms_ping B C now cid d)"
| "dms_apply B C d (now, DmsUnregister cid) = dms_unregister_session B now cid d"
| "dms_apply B C d (now, DmsCheck) = fst (dms_check_timeouts B C now d)"
| "dms_apply B C d (now, DmsHeartbeat cid) = fst (dms_heartbeat B C now cid d)"

definition dms_run :: "'b StateBackend \<Rightarrow> dms_codec \<Rightarrow> 'b DeadMansSwitch \<Rightarrow> (secs \<times> dms_op) list \<Rightarrow> 'b DeadMansSwitch" where
  "dms_run B C d ops = foldl (dms_apply B C) d ops"

section \<open>The process-local switch\<close>

definition dms_inv :: "'b DeadMansSwitch \<Rightarrow> bool" where
  "dms_inv d \<longleftrightarrow> dm_backend d = None \<and> hm_wf (dm_active d) \<and> hm_wf (dm_floods d)"

fun dms_op_id :: "dms_op \<Rightarrow> bytes option" where
  "dms_op_id (DmsRegister cid) = Some cid"
| "dms_op_id (DmsPing cid) = Some cid"
| "dms_op_id (DmsUnregister cid) = Some cid"
| "dms_op_id (DmsHeartbeat cid) = Some cid"
| "dms_op_id DmsCheck = None"

lemma dms_inv_with_limits: "dms_inv (dms_with_limits timeout cap)"
  by (simp add: dms_inv_def dms_with_limits_def)

lemma register_active:
  assumes "dms_inv d"
  shows "dms_inv (dms_register_session B C now cid d)"
    "dm_active (dms_register_session B C now cid d) = AList.update cid now
       (if dm_max_sessions d \<le> length (dm_active d) then remove_keys (oldest_keys 1 (\<lambda>ts. ts) (dm_active d)) (dm_active d) else dm_active d)"
    "dm_floods (dms_register_session B C now cid d) = dm_floods d"
    "dm_max_timeout (dms_register_session B C now cid d) = dm_max_timeout d"
    "dm_max_sessions (dms_register_session B C now cid d) = dm_max_sessions d"
  using assms by (simp_all add: dms_inv_def dms_register_session_def Let_def)

definition flood_of :: "secs \<Rightarrow> bytes \<Rightarrow> 'b DeadMansSwitch \<Rightarrow> PingRecord" where
  "flood_of now cid d = count_ping now (case map_of (dm_floods d) cid of Some r \<Rightarrow> r | None \<Rightarrow> \<lparr>pr_window_start = now, pr_count = 0\<rparr>)"

lemma ping_effect:
  assumes "dms_inv d"
  shows "dms_inv (fst (dms_ping B C now cid d))"
    "snd (dms_ping B C now cid d) \<longleftrightarrow> pr_count (flood_of now cid d) \<le> DEAD_MAN_PING_FLOOD_THRESHOLD"
    "dm_active (fst (dms_ping B C now cid d)) =
       (if pr_count (flood_of now cid d) \<le> DEAD_MAN_PING_FLOOD_THRESHOLD \<and> contains_key (dm_active d) cid
        then AList.update cid now (dm_active d) else dm_active d)"
    "dm_floods (fst (dms_ping B C now cid d)) = AList.update cid (flood_of now cid d) (dm_floods d)"
    "dm_max_timeout (fst (dms_ping B C now cid d)) = dm_max_timeout d"
    "dm_max_sessions (fst (dms_ping B C now cid d)) = dm_max_sessions d"
  using assms by (simp_all add: dms_inv_def dms_ping_def dms_ping_local_def Let_def flood_of_def)

lemma ping_keys:
  assumes "dms_inv d"
  shows "keys (dm_active (fst (dms_ping B C now cid d))) = keys (dm_active d)"
proof -
  have "contains_key (dm_active d) cid \<Longrightarrow> cid \<in> keys (dm_active d)" by (auto simp: keys_dom)
  then show ?thesis by (auto simp: ping_effect(3) [OF assms])
qed

lemma ping_leaves:
  assumes "dms_inv d" "c \<noteq> cid"
  shows "map_of (dm_active (fst (dms_ping B C now c d))) cid = map_of (dm_active d) cid"
  using assms(2) by (simp add: ping_effect(3) [OF assms(1)])

lemma unregister_effect:
  assumes "dms_inv d"
  shows "dms_inv (dms_unregister_session B now cid d)"
    "dm_active (dms_unregister_session B now cid d) = AList.delete cid (dm_active d)"
    "dm_floods (dms_unregister_session B now cid d) = AList.delete cid (dm_floods d)"
    "dm_max_timeout (dms_unregister_session B now cid d) = dm_max_timeout d"
    "dm_max_sessions (dms_unregister_session B now cid d) = dm_max_sessions d"
  using assms by (simp_all add: dms_inv_def dms_unregister_session_def)

lemma stale_iff:
  assumes "hm_wf (dm_active d)" "dm_backend d = None"
  shows "cid \<in> set (snd (dms_check_timeouts B C now d)) \<longleftrightarrow> (\<exists>s. map_of (dm_active d) cid = Some s \<and> dm_max_timeout d < now - s)"
  using filtered_keys [OF assms(1), of cid "\<lambda>s. dm_max_timeout d < now - s"] assms(2)
  by (simp add: dms_check_timeouts_def Let_def)

lemma check_effect:
  assumes "dms_inv d"
  shows "dms_inv (fst (dms_check_timeouts B C now d))"
    "map_of (dm_active (fst (dms_check_timeouts B C now d))) cid =
       (case map_of (dm_active d) cid of Some s \<Rightarrow> if dm_max_timeout d < now - s then None else Some s | None \<Rightarrow> None)"
    "keys (dm_active (fst (dms_check_timeouts B C now d))) \<subseteq> keys (dm_active d)"
    "dm_floods (fst (dms_check_timeouts B C now d)) = dm_floods d"
    "dm_max_timeout (fst (dms_check_timeouts B C now d)) = dm_max_timeout d"
    "dm_max_sessions (fst (dms_check_timeouts B C now d)) = dm_max_sessions d"
proof -
  have b: "dm_backend d = None" "hm_wf (dm_active d)" using assms by (simp_all add: dms_inv_def)
  have act: "dm_active (fst (dms_check_timeouts B C now d)) = remove_keys (snd (dms_check_timeouts B C now d)) (dm_active d)"
    using b by (simp add: dms_check_timeouts_def Let_def)
  show "map_of (dm_active (fst (dms_check_timeouts B C now d))) cid =
       (case map_of (dm_active d) cid of Some s \<Rightarrow> if dm_max_timeout d < now - s then None else Some s | None \<Rightarrow> None)"
    using stale_iff [OF b(2,1), of cid B C now] by (auto simp: act split: option.split)
  show "dms_inv (fst (dms_check_timeouts B C now d))" using assms by (simp add: dms_inv_def act) (simp add: dms_check_timeouts_def b Let_def)
  show "keys (dm_active (fst (dms_check_timeouts B C now d))) \<subseteq> keys (dm_active d)" by (auto simp: act)
qed (use assms in \<open>simp_all add: dms_inv_def dms_check_timeouts_def Let_def\<close>)

lemma heartbeat_eq:
  assumes "dms_inv d"
  shows "dms_heartbeat B C now cid d =
    dms_ping B C now cid (if cid = [] \<or> contains_key (dm_active d) cid then d else dms_register_session B C now cid d)"
  using assms by (simp add: dms_heartbeat_def dms_is_active_def dms_inv_def)

lemma dms_apply_inv: "dms_inv d \<Longrightarrow> dms_inv (dms_apply B C d (now, op))"
proof (cases op)
  case (DmsHeartbeat cid)
  assume "dms_inv d"
  then show ?thesis by (simp add: DmsHeartbeat heartbeat_eq ping_effect(1) register_active(1))
qed (simp_all add: ping_effect(1) register_active(1) unregister_effect(1) check_effect(1))

lemma dms_apply_limits:
  assumes "dms_inv d"
  shows "dm_max_timeout (dms_apply B C d (now, op)) = dm_max_timeout d \<and> dm_max_sessions (dms_apply B C d (now, op)) = dm_max_sessions d"
proof (cases op)
  case (DmsHeartbeat cid)
  then show ?thesis using assms by (simp add: heartbeat_eq ping_effect register_active)
qed (use assms in \<open>simp_all add: ping_effect register_active unregister_effect check_effect\<close>)

lemma dms_run_inv:
  "dms_inv d \<Longrightarrow> dms_inv (dms_run B C d ops) \<and> dm_max_timeout (dms_run B C d ops) = dm_max_timeout d"
proof (induction ops arbitrary: d)
  case (Cons x ops)
  have "dms_inv (dms_apply B C d x)" "dm_max_timeout (dms_apply B C d x) = dm_max_timeout d"
    using dms_apply_inv [OF Cons.prems, of B C "fst x" "snd x"] dms_apply_limits [OF Cons.prems, of B C "fst x" "snd x"] by simp_all
  then show ?case using Cons.IH [of "dms_apply B C d x"] by (simp add: dms_run_def)
qed (simp add: dms_run_def)

text \<open>While fewer sessions than the cap are in use, no session is evicted.\<close>

definition dms_room :: "bytes set \<Rightarrow> 'b DeadMansSwitch \<Rightarrow> bool" where
  "dms_room K d \<longleftrightarrow> finite K \<and> card K < dm_max_sessions d \<and> keys (dm_active d) \<subseteq> K"

lemma register_room:
  assumes "dms_inv d" "dms_room K d"
  shows "dm_active (dms_register_session B C now cid d) = AList.update cid now (dm_active d)"
proof -
  have "length (dm_active d) \<le> card K"
    using assms card_mono [of K "keys (dm_active d)"] by (simp add: dms_inv_def dms_room_def length_eq_card_keys)
  then show ?thesis using assms register_active(2) [OF assms(1), of B C now cid] by (simp add: dms_room_def)
qed

lemma dms_apply_room:
  assumes inv: "dms_inv d" and room: "dms_room K d" and id: "\<And>cid. dms_op_id op = Some cid \<Longrightarrow> cid \<in> K"
  shows "dms_room K (dms_apply B C d (now, op))"
proof -
  have lim: "dm_max_sessions (dms_apply B C d (now, op)) = dm_max_sessions d" using dms_apply_limits [OF inv] by blast
  have "keys (dm_active (dms_apply B C d (now, op))) \<subseteq> K"
  proof (cases op)
    case (DmsHeartbeat cid)
    let ?d = "if cid = [] \<or> contains_key (dm_active d) cid then d else dms_register_session B C now cid d"
    have i: "dms_inv ?d" using inv by (simp add: register_active(1))
    have "keys (dm_active ?d) \<subseteq> K"
      using inv room id by (auto simp: register_room DmsHeartbeat dms_room_def)
    then show ?thesis unfolding DmsHeartbeat dms_apply.simps heartbeat_eq [OF inv] ping_keys [OF i] .
  next
    case (DmsPing cid)
    then show ?thesis using inv room by (simp add: ping_keys dms_room_def)
  next
    case (DmsRegister cid)
    then show ?thesis using inv room id by (auto simp: register_room dms_room_def)
  next
    case (DmsUnregister cid)
    then show ?thesis using inv room by (auto simp: unregister_effect dms_room_def)
  next
    case DmsCheck
    then show ?thesis using inv room check_effect(3) [OF inv, of B C now] by (auto simp: dms_room_def)
  qed
  then show ?thesis using room lim by (simp add: dms_room_def)
qed

section \<open>Punctual and silent sessions\<close>

text \<open>A schedule in which the heartbeats of \<open>cid\<close> are more than a second apart and no sweep comes later than \<open>T\<close>
  seconds after the last of them; \<open>cid\<close> is neither registered again nor unregistered.\<close>

fun punctual :: "secs \<Rightarrow> bytes \<Rightarrow> secs \<Rightarrow> (secs \<times> dms_op) list \<Rightarrow> bool" where
  "punctual T cid lb [] \<longleftrightarrow> True"
| "punctual T cid lb ((t, op) # ops) \<longleftrightarrow>
     (if op = DmsCheck then t - lb \<le> T \<and> punctual T cid lb ops
      else if op = DmsPing cid \<or> op = DmsHeartbeat cid then lb + 1 < t \<and> punctual T cid t ops
      else dms_op_id op \<noteq> Some cid \<and> punctual T cid lb ops)"

definition beating :: "secs \<Rightarrow> bytes \<Rightarrow> 'b DeadMansSwitch \<Rightarrow> bool" where
  "beating lb cid d \<longleftrightarrow>
     map_of (dm_active d) cid = Some lb \<and>
     (\<forall>r. map_of (dm_floods d) cid = Some r \<longrightarrow>
        1 \<le> pr_count r \<and> pr_count r \<le> DEAD_MAN_PING_FLOOD_THRESHOLD \<and> of_nat (pr_count r) \<le> lb - pr_window_start r + 1)"

lemma count_ping_beat:
  assumes "1 \<le> pr_count r" "of_nat (pr_count r) \<le> lb - pr_window_start r + 1" "lb + 1 < t"
  shows "1 \<le> pr_count (count_ping t r) \<and> pr_count (count_ping t r) \<le> DEAD_MAN_PING_FLOOD_THRESHOLD \<and>
    of_nat (pr_count (count_ping t r)) \<le> t - pr_window_start (count_ping t r) + 1"
proof (cases "DEAD_MAN_PING_FLOOD_WINDOW_SECS < t - pr_window_start r")
  case True
  then show ?thesis by (simp add: count_ping_def DEAD_MAN_PING_FLOOD_THRESHOLD_def)
next
  case False
  have "rat_of_nat (pr_count r) \<le> t - pr_window_start r" "rat_of_nat (pr_count r) < 60"
    using assms(2,3) False by (simp_all add: DEAD_MAN_PING_FLOOD_WINDOW_SECS_def)
  moreover from this(2) have "pr_count r < 60" by linarith
  ultimately show ?thesis using False by (simp add: count_ping_def DEAD_MAN_PING_FLOOD_THRESHOLD_def)
qed

lemma flood_of_beat:
  assumes "beating lb cid d" "lb + 1 < t"
  shows "1 \<le> pr_count (flood_of t cid d) \<and> pr_count (flood_of t cid d) \<le> DEAD_MAN_PING_FLOOD_THRESHOLD \<and>
    of_nat (pr_count (flood_of t cid d)) \<le> t - pr_window_start (flood_of t cid d) + 1"
proof (cases "map_of (dm_floods d) cid")
  case None
  then show ?thesis
    by (simp add: flood_of_def count_ping_def DEAD_MAN_PING_FLOOD_THRESHOLD_def DEAD_MAN_PING_FLOOD_WINDOW_SECS_def)
next
  case (Some r)
  then show ?thesis using assms count_ping_beat [of r lb t] by (simp add: flood_of_def beating_def)
qed

lemma ping_beats:
  assumes "dms_inv d" "beating lb cid d" "lb + 1 < t"
  shows "beating t cid (fst (dms_ping B C t cid d))" "snd (dms_ping B C t cid d)"
  using assms flood_of_beat [OF assms(2,3)] by (simp_all add: beating_def ping_effect)

lemma ping_other:
  assumes "dms_inv d" "beating lb cid d" "c \<noteq> cid"
  shows "beating lb cid (fst (dms_ping B C t c d))"
  using assms by (simp add: beating_def ping_effect)

lemma register_other:
  assumes "dms_inv d" "dms_room K d" "beating lb cid d" "c \<noteq> cid"
  shows "beating lb cid (dms_register_session B C t c d)"
  using assms by (simp add: beating_def register_room register_active(3))

lemma beating_step:
  assumes inv: "dms_inv d" and room: "dms_room K d" and beat: "beating lb cid d"
    and sched: "punctual (dm_max_timeout d) cid lb ((t, op) # ops)"
  shows "\<exists>beat1. beating beat1 cid (dms_apply B C d (t, op)) \<and> punctual (dm_max_timeout d) cid beat1 ops"
proof -
  have active: "contains_key (dm_active d) cid" using beat by (simp add: beating_def)
  show ?thesis
  proof (cases op)
    case DmsCheck
    then have "beating lb cid (dms_apply B C d (t, op))"
      using beat sched inv by (simp add: beating_def check_effect)
    then show ?thesis using sched by (auto simp: DmsCheck)
  next
    case (DmsPing c)
    then show ?thesis using sched inv beat ping_beats(1) [OF inv beat, of t B C] ping_other [OF inv beat, of c B C t]
      by (cases "c = cid") auto
  next
    case (DmsHeartbeat c)
    show ?thesis
    proof (cases "c = cid")
      case True
      then show ?thesis using sched inv active ping_beats(1) [OF inv beat, of t B C] by (auto simp: DmsHeartbeat heartbeat_eq)
    next
      case False
      let ?d = "if c = [] \<or> contains_key (dm_active d) c then d else dms_register_session B C t c d"
      have "dms_inv ?d" "beating lb cid ?d" using inv beat register_other [OF inv room beat False] by (simp_all add: register_active(1))
      then have "beating lb cid (fst (dms_ping B C t c ?d))" using False by (rule ping_other)
      then show ?thesis using sched False by (auto simp: DmsHeartbeat heartbeat_eq [OF inv])
    qed
  next
    case (DmsRegister c)
    then show ?thesis using sched register_other [OF inv room beat, of c B C t] by auto
  next
    case (DmsUnregister c)
    then show ?thesis using sched inv beat by (auto simp: beating_def unregister_effect)
  qed
qed

lemma beating_run:
  assumes "dms_inv d" "dms_room K d" "beating lb cid d" "punctual (dm_max_timeout d) cid lb (ops @ rest)"
    "\<forall>x \<in> set ops. \<forall>c. dms_op_id (snd x) = Some c \<longrightarrow> c \<in> K"
  shows "\<exists>beat1. beating beat1 cid (dms_run B C d ops) \<and> punctual (dm_max_timeout d) cid beat1 rest"
  using assms
proof (induction ops arbitrary: d lb)
  case (Cons x ops)
  obtain t op where x: "x = (t, op)" by fastforce
  let ?d = "dms_apply B C d (t, op)"
  from beating_step [OF Cons.prems(1-3), of t op "ops @ rest" B C] Cons.prems(4)
  obtain beat1 where l: "beating beat1 cid ?d" "punctual (dm_max_timeout d) cid beat1 (ops @ rest)" by (auto simp: x)
  have i: "dms_inv ?d" "dm_max_timeout ?d = dm_max_timeout d"
    using dms_apply_inv [OF Cons.prems(1)] dms_apply_limits [OF Cons.prems(1)] by blast+
  have "dms_room K ?d" by (rule dms_apply_room [OF Cons.prems(1,2)]) (use Cons.prems(5) in \<open>simp add: x\<close>)
  from Cons.IH [OF i(1) this l(1)] l(2) i(2) Cons.prems(5) show ?case by (simp add: x dms_run_def)
qed (auto simp: dms_run_def)

lemma other_ops_leave:
  assumes inv: "dms_inv d" and "map_of (dm_active d) cid \<in> {None, Some s}" "dms_op_id op \<noteq> Some cid"
  shows "map_of (dm_active (dms_apply B C d (t, op))) cid \<in> {None, Some s}"
proof -
  have reg: "map_of (dm_active (dms_register_session B C t c d)) cid \<in> {None, Some s}" if "c \<noteq> cid" for c
    using that assms(2) by (auto simp: register_active(2) [OF inv])
  show ?thesis
  proof (cases op)
    case (DmsHeartbeat c)
    let ?d = "if c = [] \<or> contains_key (dm_active d) c then d else dms_register_session B C t c d"
    have i: "dms_inv ?d" using inv by (simp add: register_active(1))
    have "map_of (dm_active ?d) cid \<in> {None, Some s}" using assms(2,3) reg [of c] by (auto simp: DmsHeartbeat)
    then have "map_of (dm_active (fst (dms_ping B C t c ?d))) cid \<in> {None, Some s}"
      using assms(3) ping_leaves [OF i, of c cid B C t] by (simp add: DmsHeartbeat)
    then show ?thesis by (simp only: DmsHeartbeat dms_apply.simps heartbeat_eq [OF inv])
  next
    case (DmsPing c)
    then show ?thesis using assms by (auto simp: ping_effect(3) [OF inv])
  next
    case (DmsRegister c)
    then show ?thesis using reg [of c] assms(3) by simp
  next
    case (DmsUnregister c)
    then show ?thesis using assms by (auto simp: unregister_effect(2) [OF inv])
  next
    case DmsCheck
    then show ?thesis using assms(2) by (auto simp: check_effect(2) [OF inv] split: option.split)
  qed
qed

lemma other_run_leaves:
  assumes "dms_inv d" "map_of (dm_active d) cid \<in> {None, Some s}" "\<forall>x \<in> set ops. dms_op_id (snd x) \<noteq> Some cid"
  shows "map_of (dm_active (dms_run B C d ops)) cid \<in> {None, Some s}"
  using assms
proof (induction ops arbitrary: d)
  case (Cons x ops)
  have "map_of (dm_active (dms_apply B C d (fst x, snd x))) cid \<in> {None, Some s}"
    using Cons.prems by (intro other_ops_leave) auto
  moreover have "dms_inv (dms_apply B C d (fst x, snd x))" by (rule dms_apply_inv) (rule Cons.prems(1))
  ultimately have "map_of (dm_active (dms_run B C (dms_apply B C d (fst x, snd x)) ops)) cid \<in> {None, Some s}"
    using Cons.prems(3) by (intro Cons.IH) auto
  then show ?case by (simp add: dms_run_def)
qed (simp add: dms_run_def)

text \<open>A refused heartbeat of a timed-out context registers it again, with a fresh time.\<close>

lemma refused_heartbeat_registers:
  assumes "dms_inv d" "cid \<noteq> []" "\<not> contains_key (dm_active d) cid" "map_of (dm_floods d) cid = Some r"
    "DEAD_MAN_PING_FLOOD_THRESHOLD \<le> pr_count r" "now - pr_window_start r \<le> DEAD_MAN_PING_FLOOD_WINDOW_SECS"
  shows "\<not> snd (dms_heartbeat B C now cid d) \<and> map_of (dm_active (fst (dms_heartbeat B C now cid d))) cid = Some now"
proof -
  let ?d = "dms_register_session B C now cid d"
  have inv: "dms_inv ?d" using assms(1) by (rule register_active(1))
  have "flood_of now cid ?d = count_ping now r" using assms(1,4) by (simp add: flood_of_def register_active(3))
  then have c: "DEAD_MAN_PING_FLOOD_THRESHOLD < pr_count (flood_of now cid ?d)" using assms(5,6) by (simp add: count_ping_def)
  have "dms_heartbeat B C now cid d = dms_ping B C now cid ?d" using assms(1-3) by (simp add: heartbeat_eq)
  then show ?thesis using c by (simp add: ping_effect(2,3) [OF inv] register_active(2) [OF assms(1)])
qed

text \<open>The sweep leaves the flood record of a dead session behind.\<close>

lemma flood_records_leak:
  "let d = dms_run in_memory C (dms_with_limits 15 10) [(0, DmsHeartbeat [1]), (100, DmsCheck)]
   in dm_active d = [] \<and> length (dm_floods d) = 1"
  by (simp add: dms_run_def dms_with_limits_def dms_heartbeat_def dms_is_active_def dms_register_session_def dms_ping_def
      dms_ping_local_def dms_check_timeouts_def count_ping_def Let_def DEAD_MAN_PING_FLOOD_THRESHOLD_def
      DEAD_MAN_PING_FLOOD_WINDOW_SECS_def remove_keys_def)

definition demo_dms_codec :: dms_codec where
  "demo_dms_codec =
     \<lparr>dms_print_ts = (\<lambda>_. []), dms_parse_ts = (\<lambda>_. None), dms_enc_ping = (\<lambda>_. None), dms_dec_ping = (\<lambda>_. None)\<rparr>"

section \<open>Properties\<close>



text \<open>C37. A session that stays silent for longer than the timeout is gone after the next sweep, whatever happens to other
  sessions in between.\<close>

theorem silent_session_reaped:
  assumes inv: "dms_inv d" and lb: "map_of (dm_active d) cid = Some s"
    and silent: "\<forall>x \<in> set ops. dms_op_id (snd x) \<noteq> Some cid" and late: "dm_max_timeout d < now - s"
  shows "\<not> snd (dms_is_active B now' cid (fst (dms_check_timeouts B C now (dms_run B C d ops))))"
proof -
  let ?d = "dms_run B C d ops"
  have r: "dms_inv ?d" "dm_max_timeout ?d = dm_max_timeout d" using dms_run_inv [OF inv] by blast+
  have "map_of (dm_active ?d) cid \<in> {None, Some s}" using inv lb silent by (intro other_run_leaves) auto
  then have "map_of (dm_active (fst (dms_check_timeouts B C now ?d))) cid = None"
    using late r(2) by (auto simp: check_effect(2) [OF r(1)])
  moreover have "dm_backend (fst (dms_check_timeouts B C now ?d)) = None"
    using check_effect(1) [OF r(1)] by (simp add: dms_inv_def)
  ultimately show ?thesis by (simp add: dms_is_active_def)
qed

theorem silent_session_reaped_witness:
  "\<not> snd (dms_is_active in_memory 20 [7] (fst (dms_check_timeouts in_memory demo_dms_codec 20
      (dms_run in_memory demo_dms_codec (dms_register_session in_memory demo_dms_codec 0 [7] (dms_with_limits 15 10)) [(6, DmsRegister [8])]))))"
proof (rule silent_session_reaped [where s = 0])
  have i: "dms_inv (dms_with_limits 15 10)" by (rule dms_inv_with_limits)
  show "dms_inv (dms_register_session in_memory demo_dms_codec 0 [7] (dms_with_limits 15 10))" by (rule register_active(1) [OF i])
  show "map_of (dm_active (dms_register_session in_memory demo_dms_codec 0 [7] (dms_with_limits 15 10))) [7] = Some 0"
    "dm_max_timeout (dms_register_session in_memory demo_dms_codec 0 [7] (dms_with_limits 15 10)) < 20 - 0"
    by (simp_all add: dms_register_session_def dms_with_limits_def Let_def)
qed simp

end
