(* ===== verification/Spec2Isabelle.thy ===== *)
theory Spec2Isabelle
  imports Packet_Chain Saacp_Frame Circuit_Breaker Gateway_Threads Rrbc Stream_Threads Audit_Threads Loop_Gates Trust_Decay Federated_Memory Secure_Context Dead_Mans_Switch
begin

text \<open>
  Verification of SAACP, a Rust implementation of a secure agent-to-agent communication protocol.

  \<^bold>\<open>The program.\<close> A packet travels as a transport frame (MEASC) or a legacy application frame (SAACPFrame). The
  receiver authenticates it under the key of its session epoch, refuses replays, bounds its resources,
  checks the capability token it carries and counts errors against its sender. The packet pipeline then
  consults the execution governor, the loop detectors, the trust scores and the audit log; contexts, intents
  and streams outlive a packet. State that nodes share lives in a key-value backend.

  \<^bold>\<open>Theories and sources.\<close>
  \<^item> \<open>SAACP_Prelude\<close>: machine words, byte codecs, association lists for \<open>HashMap\<close>, and the locale
    \<open>replay_guard\<close> (a check that never accepts an identifier twice), interpreted on the replay window and on
    the frame receiver. \<open>Errors\<close>: \<open>src/errors.rs\<close>. \<open>Early_Exit\<close>: the locale for loops that stop at the
    first exceeded limit. \<open>Eviction\<close>: removing the oldest entries of a bounded map. \<open>Json\<close>: JSON values with
    their accessors, hexadecimal text and casts from floating point.
  \<^item> \<open>Replay_Window\<close>, \<open>Packet_Chain\<close>, \<open>Session_Epochs\<close>, \<open>Measc_Frame\<close>: \<open>src/measc.rs\<close> and \<open>src/easi.rs\<close>.
    The sliding window with its circular bitmap, the hash chain of version 2, sequencer, key ratchet,
    sessions and epochs with grace periods, frame build and parse, and PSK recovery.
  \<^item> \<open>Rgc_Scanner\<close>: \<open>src/rgc.rs\<close>, the resource scanner that runs before JSON parsing.
  \<^item> \<open>Nonce_Tracker\<close>: \<open>NonceTracker\<close> of \<open>src/security.rs\<close>. \<open>Wire_Utils\<close>, \<open>Saacp_Frame\<close>: \<open>src/framing.rs\<close>.
  \<^item> \<open>State_Backend\<close>, \<open>Circuit_Breaker\<close>: \<open>src/state_backend.rs\<close>, with the locale \<open>counter_backend\<close> that its
    clients rely on, interpreted on the in-memory backend and on the guarded one.
  \<^item> \<open>Rate_Limiter\<close>, \<open>Gateway\<close>, \<open>Gateway_Tokens\<close>, \<open>Gateway_Threads\<close>, \<open>Rrbc\<close>: \<open>src/gateway.rs\<close> and
    \<open>src/shard.rs\<close>. The error breaker, capability tokens, the gateway under concurrent calls, and
    replay-resistant bound capabilities.
  \<^item> \<open>Streaming\<close>, \<open>Stream_Threads\<close>: \<open>src/streaming.rs\<close>. Sessions and the registry in both storage modes, and
    nodes that advance one stream by compare-and-swap, over the locale \<open>cas_backend\<close>.
  \<^item> \<open>Audit_Record\<close>, \<open>Audit_Log\<close>, \<open>Audit_Disk\<close>, \<open>Audit_Restart\<close>, \<open>Audit_Tamper\<close>, \<open>Audit_Threads\<close>: the
    \<open>ImmutableAuditLog\<close> of \<open>src/security.rs\<close>. Records and hashes, the sixteen chains, the file with anchors and
    rotation, recovery, edited files, appends of several threads, and the audit gates of \<open>src/handler.rs\<close>.
  \<^item> \<open>Aegf_Meta\<close>, \<open>Aegf_Graph\<close>, \<open>Aegf_Governor\<close>: \<open>src/aegf.rs\<close>. \<open>Cscs\<close>: \<open>src/cscs.rs\<close>. \<open>Loop_Gates\<close>: the
    gates 11.0 and 12.0 of \<open>src/handler.rs\<close>, which call them.
  \<^item> \<open>Trust_Decay\<close>: \<open>src/trust_decay.rs\<close>. \<open>Dead_Mans_Switch\<close>: \<open>src/temporal.rs\<close>.
  \<^item> \<open>Federated_Memory\<close>, \<open>Secure_Context\<close>: \<open>src/memory.rs\<close>. The locale \<open>record_store\<close> states what the two
    storage modes of the federated memory have in common and is interpreted on both.

  \<^bold>\<open>Correspondence.\<close> A struct is a record, an enum a datatype, a method a function that returns the new state
  with its result; a \<open>SAACPHardDrop\<close> is its bytecode, without the message. Words keep their width wherever
  the code can wrap or overflow; counters that grow by one are natural numbers. Times are exact rationals
  and every clock reading is an argument. A \<open>HashMap\<close> is an association list with distinct keys, so an
  iteration order is arbitrary but fixed; no statement depends on it. Locks are not modelled as such: an
  operation that holds one lock throughout is atomic, and the gateway, whose validations and revocations
  hold none throughout, has a step relation for the phases between which other calls may run; so have the
  appends to the audit log and the frames of a shared stream.

  \<^bold>\<open>Parameters.\<close> AES-GCM, HKDF, SHA-256, SHA3, HMAC, Ed25519, Base64, zlib, Adler-32 and the JSON parser and
  printer, with the wire formats derived from it, are third-party code: records of functions (\<open>crypto\<close>, \<open>wire_env\<close>, \<open>gw_env\<close> and others), with what
  is relied on stated as hypotheses (\<open>crypto_ok\<close>, \<open>zlib_ok\<close>, \<open>adler_streams\<close>, or assumptions of a theorem)
  and shown satisfiable by a concrete instance in the witness of each theorem. The verdicts of program parts
  that are not modelled (payload schemas, capability authority, trust store) are arguments as well; a
  theorem that needs one of them to accept says so in a hypothesis.

  \<^bold>\<open>What is shown.\<close> No sequence number, nonce, frame or bound capability is accepted twice; the bitmap window
  refines a set of accepted numbers; epoch keys follow the key schedule and at most one epoch of a session is
  live; build and parse are inverse, and only what the key holder sealed is accepted or changes state; the
  scanner's early exits do not change its verdict, and it runs in bounded memory; the sharded, swept limiter
  answers like one unbounded map, and the breaker opens at the fifth error of a window wherever the errors
  arrive, over a guarded backend too; a dead backend receives a bounded number of calls; an issued token is
  accepted or refused exactly as its claims say, an accepted one was authenticated and in scope, and a
  published revocation is effective under every interleaving; a registered bound capability is redeemed at
  most as often as it allows; frames of a stream are accepted in order on whichever node; an audit file that
  verifies is an initial part of what was appended, a restart restores the log, and a lost audit event closes
  the gate for irreversible actions; the execution graph stays acyclic, a finished request is not revived, and
  a sequence number passes the loop gate once; a lockout holds for its minimum time and ends; contexts and
  intents are readable until they expire and only by those entitled; a punctual session survives every sweep
  and a silent one does not.

  \<^bold>\<open>Termination.\<close> All functions are total. The scanner and the decompression loop end on every input: the
  first consumes at least one character per step, the second stops at the size limit.

  \<^bold>\<open>Not modelled.\<close> Network and file input and output, threads and timers (\<open>daemon.rs\<close>, \<open>transport.rs\<close>,
  \<open>sidecar.rs\<close>, \<open>bin\<close>), telemetry, logging and dashboards, and the Redis backend, a client of a server. Of
  \<open>handler.rs\<close>, the injection and intent gates and the composition of all gates. The identity, authority, key
  management, cluster and attestation modules (\<open>faitf.rs\<close>, \<open>factf.rs\<close>, \<open>acsvaf.rs\<close>, \<open>klms.rs\<close>,
  \<open>cluster.rs\<close>, \<open>gossip.rs\<close>, \<open>identity_binding.rs\<close>, \<open>attestation.rs\<close>, \<open>crypto_governance.rs\<close> and others)
  are listed in the manifest with the reason. The rounding of floating-point numbers, memory zeroization, lock
  poisoning and timing side channels are outside the model.
\<close>

end
